(* ===== verification/Chcore_Prelude.thy ===== *)
theory Chcore_Prelude
  imports Main "HOL-Library.Word"
begin

text \<open>
  Shared vocabulary of the development: the machine types of
  \<^verbatim>\<open>kernel/include/common/types.h\<close>, the outcome of a kernel operation (a value,
  or the fault that stops the kernel), the macros of
  \<^verbatim>\<open>kernel/include/common/macro.h\<close>, the error numbers of
  \<^verbatim>\<open>kernel/include/common/errno.h\<close>, and the generic lemmas on lists,
  words and outcomes that the component theories use.
\<close>

unbundle bit_operations_syntax

named_theorems outcome_simps \<open>how the outcome combinators compute\<close>
named_theorems page_arith \<open>page sizes and alignment as numbers\<close>

section \<open>Machine types\<close>

type_synonym u64 = "64 word"
type_synonym u32 = "32 word"
type_synonym vaddr = "64 word"
type_synonym paddr = "64 word"

section \<open>Outcomes\<close>

text \<open>
  A kernel operation either produces a value or stops the kernel: \<open>Bug\<close> is a
  \<^verbatim>\<open>BUG_ON\<close>/\<^verbatim>\<open>BUG\<close> that fires (the macro loops for ever),
  \<open>BadPtr\<close> the access through a NULL or dangling pointer, \<open>OutOfRange\<close> the access
  outside an array (or an undefined shift), \<open>Diverge\<close> a loop over a linked structure that
  does not end.
\<close>

datatype fault = Bug | BadPtr | OutOfRange | Diverge

type_synonym 'a res = "fault + 'a"

definition bindR :: "'a res \<Rightarrow> ('a \<Rightarrow> 'b res) \<Rightarrow> 'b res" where
  "bindR m f = (case m of Inl e \<Rightarrow> Inl e | Inr x \<Rightarrow> f x)"

definition BUG_ON :: "bool \<Rightarrow> 'a res \<Rightarrow> 'a res" where
  "BUG_ON c k = (if c then Inl Bug else k)"

definition deref :: "'a option \<Rightarrow> 'a res" where
  "deref p = (case p of None \<Rightarrow> Inl BadPtr | Some x \<Rightarrow> Inr x)"

lemma bindR_Inl [simp, outcome_simps]: "bindR (Inl e) f = Inl e"
  by (simp add: bindR_def)

lemma bindR_Inr [simp, outcome_simps]: "bindR (Inr x) f = f x"
  by (simp add: bindR_def)

lemma bindR_eq_Inr [outcome_simps]:
  "bindR m f = Inr y \<longleftrightarrow> (\<exists>x. m = Inr x \<and> f x = Inr y)"
  by (cases m) auto

lemma bindR_cong [fundef_cong]:
  "m = m' \<Longrightarrow> (\<And>x. m' = Inr x \<Longrightarrow> f x = g x) \<Longrightarrow> bindR m f = bindR m' g"
  by (cases m') auto

lemma bindR_assoc: "bindR (bindR m f) g = bindR m (\<lambda>x. bindR (f x) g)"
  by (cases m) auto

lemma BUG_ON_False [simp, outcome_simps]: "BUG_ON False k = k"
  by (simp add: BUG_ON_def)

lemma BUG_ON_True [simp, outcome_simps]: "BUG_ON True k = Inl Bug"
  by (simp add: BUG_ON_def)

lemma BUG_ON_eq_Inr [outcome_simps]: "BUG_ON c k = Inr y \<longleftrightarrow> \<not> c \<and> k = Inr y"
  by (simp add: BUG_ON_def)

lemma deref_Some [simp, outcome_simps]: "deref (Some x) = Inr x"
  by (simp add: deref_def)

lemma deref_None [simp, outcome_simps]: "deref None = Inl BadPtr"
  by (simp add: deref_def)

lemma deref_eq_Inr [outcome_simps]: "deref p = Inr x \<longleftrightarrow> p = Some x"
  by (cases p) auto

text \<open>A loop \<^verbatim>\<open>for (i = 0; i < n; i++)\<close> over a state.\<close>

primrec for_upto :: "nat \<Rightarrow> (nat \<Rightarrow> 's \<Rightarrow> 's res) \<Rightarrow> 's \<Rightarrow> 's res" where
  "for_upto 0 body s = Inr s"
| "for_upto (Suc n) body s = bindR (for_upto n body s) (body n)"

section \<open>Error numbers\<close>

definition EPERM :: int where "EPERM = 1"
definition ENOENT :: int where "ENOENT = 2"
definition EAGAIN :: int where "EAGAIN = 11"
definition ENOMEM :: int where "ENOMEM = 12"
definition EINVAL :: int where "EINVAL = 22"
definition EBADF :: int where "EBADF = 9"
definition EEXIST :: int where "EEXIST = 17"
definition ENOTDIR :: int where "ENOTDIR = 20"
definition EMFILE :: int where "EMFILE = 24"
definition ENOTEMPTY :: int where "ENOTEMPTY = 39"
definition EIPCRETRY :: int where "EIPCRETRY = 199"
definition ECAPBILITY :: int where "ECAPBILITY = 200"
definition ENOMAPPING :: int where "ENOMAPPING = 203"

lemmas errno_defs = EPERM_def ENOENT_def EAGAIN_def ENOMEM_def EINVAL_def
  EBADF_def EEXIST_def ENOTDIR_def EMFILE_def ENOTEMPTY_def
  EIPCRETRY_def ECAPBILITY_def ENOMAPPING_def

section \<open>Words as numbers\<close>

lemma unat_of_nat_small: "n < 2 ^ 64 \<Longrightarrow> unat (of_nat n :: u64) = n"
  by (simp add: take_bit_nat_eq_self_iff unsigned_of_nat)

lemma unat_power_small: "k < 64 \<Longrightarrow> unat (2 ^ k :: u64) = 2 ^ k"
  using unat_of_nat_small [of "2 ^ k"] power_strict_increasing [of k 64 "2::nat"] by simp

end
