(* ===== verification/Bitops.thy ===== *)
theory Bitops
  imports Chcore_Prelude
begin

text \<open>
  The bitmap helpers of \<^verbatim>\<open>kernel/include/common/bitops.h\<close>. A bitmap
  \<^verbatim>\<open>unsigned long *p\<close> is the list of its 64-bit elements; an access past
  the allocated elements is an \<open>OutOfRange\<close> fault. The theorems relate every helper to
  the bitmap read as a predicate on bit numbers (\<open>bmp_bit\<close>).
\<close>

unbundle bit_operations_syntax

section \<open>Operations\<close>

definition BITS_PER_LONG :: nat where "BITS_PER_LONG = 64"

definition DIV_ROUND_UP :: "nat \<Rightarrow> nat \<Rightarrow> nat" where
  "DIV_ROUND_UP n d = (n + d - 1) div d"

definition BITS_TO_LONGS :: "nat \<Rightarrow> nat" where
  "BITS_TO_LONGS nr = DIV_ROUND_UP nr BITS_PER_LONG"

definition get_bit_in_slot :: "u64 \<Rightarrow> nat \<Rightarrow> u64" where
  "get_bit_in_slot slot b = slot AND push_bit b 1"

definition bmp_set_bit :: "nat \<Rightarrow> u64 list \<Rightarrow> u64 list res" where
  "bmp_set_bit nr p =
     (let nlongs = nr div BITS_PER_LONG; ilongs = nr mod BITS_PER_LONG in
      if nlongs < length p
      then Inr (p[nlongs := p ! nlongs OR push_bit ilongs 1])
      else Inl OutOfRange)"

definition bmp_get_bit :: "nat \<Rightarrow> u64 list \<Rightarrow> u64 res" where
  "bmp_get_bit nr p =
     (let nlongs = nr div BITS_PER_LONG; ilongs = nr mod BITS_PER_LONG in
      if nlongs < length p
      then Inr (drop_bit ilongs (p ! nlongs) AND 1)
      else Inl OutOfRange)"

definition bmp_clear_bit :: "nat \<Rightarrow> u64 list \<Rightarrow> u64 list res" where
  "bmp_clear_bit nr p =
     (let nlongs = nr div BITS_PER_LONG; ilongs = nr mod BITS_PER_LONG in
      if nlongs < length p
      then Inr (p[nlongs := p ! nlongs AND NOT (push_bit ilongs 1)])
      else Inl OutOfRange)"

text \<open>
  The two loops of \<^verbatim>\<open>find_next_bit_helper\<close>: the inner \<^verbatim>\<open>for\<close>
  over the bits of one element (\<open>Inl r\<close>: the \<^verbatim>\<open>return res\<close>;
  \<open>Inr r\<close>: the loop ran out with \<^verbatim>\<open>res = r\<close>), and the outer
  \<^verbatim>\<open>while\<close> over the elements.
\<close>

function find_in_slot :: "u64 \<Rightarrow> nat \<Rightarrow> nat \<Rightarrow> nat \<Rightarrow> bool \<Rightarrow> nat + nat" where
  "find_in_slot w cur_bit max_bit r invert =
     (if cur_bit \<le> max_bit then
        (let cur_bit_value = get_bit_in_slot w cur_bit in
         if (if invert then cur_bit_value = 0 else cur_bit_value \<noteq> 0) then Inl r
         else find_in_slot w (cur_bit + 1) max_bit (r + 1) invert)
      else Inr r)"
  by pat_completeness auto
termination
  by (relation "measure (\<lambda>(w, c, m, r, i). Suc m - c)") auto

declare find_in_slot.simps [simp del]

function find_loop ::
  "u64 list \<Rightarrow> nat \<Rightarrow> nat \<Rightarrow> nat \<Rightarrow> nat \<Rightarrow> nat \<Rightarrow> nat \<Rightarrow> bool \<Rightarrow> nat res" where
  "find_loop p sz last_bit max_elem_index cur_elem_index cur_bit r invert =
     (if cur_elem_index \<le> max_elem_index then
        if cur_elem_index < length p then
          (case find_in_slot (p ! cur_elem_index) cur_bit
                  (if cur_elem_index < max_elem_index then BITS_PER_LONG - 1
                   else last_bit) r invert of
             Inl found \<Rightarrow> Inr found
           | Inr r' \<Rightarrow> find_loop p sz last_bit max_elem_index (cur_elem_index + 1) 0 r' invert)
        else Inl OutOfRange
      else Inr sz)"
  by pat_completeness auto
termination
  by (relation "measure (\<lambda>(p, s, l, m, c, b, r, i). Suc m - c)") auto

declare find_loop.simps [simp del]

text \<open>\<^verbatim>\<open>size - 1\<close> is computed on \<^verbatim>\<open>unsigned long\<close>: it wraps when the
  size is 0.\<close>

definition find_next_bit_helper :: "u64 list \<Rightarrow> nat \<Rightarrow> nat \<Rightarrow> bool \<Rightarrow> nat res" where
  "find_next_bit_helper p sz start invert =
     (let last = (if sz = 0 then 2 ^ 64 - 1 else sz - 1) in
      find_loop p sz (last mod BITS_PER_LONG) (last div BITS_PER_LONG)
        (start div BITS_PER_LONG) (start mod BITS_PER_LONG) start invert)"

definition find_next_zero_bit :: "u64 list \<Rightarrow> nat \<Rightarrow> nat \<Rightarrow> nat res" where
  "find_next_zero_bit p sz start = find_next_bit_helper p sz start True"

definition find_next_bit :: "u64 list \<Rightarrow> nat \<Rightarrow> nat \<Rightarrow> nat res" where
  "find_next_bit p sz start = find_next_bit_helper p sz start False"

section \<open>The bitmap as a predicate on bit numbers\<close>

definition bmp_bit :: "u64 list \<Rightarrow> nat \<Rightarrow> bool" where
  "bmp_bit p i = bit (p ! (i div 64)) (i mod 64)"

lemma get_bit_in_slot_eq_0 [simp]:
  "b < 64 \<Longrightarrow> get_bit_in_slot w b = 0 \<longleftrightarrow> \<not> bit w b"
  by (simp add: get_bit_in_slot_def push_bit_eq_mult and_exp_eq_0_iff_not_bit)

lemma bmp_set_bit_length: "bmp_set_bit nr p = Inr p' \<Longrightarrow> length p' = length p"
  by (auto simp: bmp_set_bit_def Let_def split: if_splits)

lemma bmp_clear_bit_length: "bmp_clear_bit nr p = Inr p' \<Longrightarrow> length p' = length p"
  by (auto simp: bmp_clear_bit_def Let_def split: if_splits)

lemma bmp_set_bit_defined: "nr < 64 * length p \<Longrightarrow> \<exists>p'. bmp_set_bit nr p = Inr p'"
  by (auto simp: bmp_set_bit_def BITS_PER_LONG_def Let_def less_mult_imp_div_less mult.commute)

lemma bmp_clear_bit_defined: "nr < 64 * length p \<Longrightarrow> \<exists>p'. bmp_clear_bit nr p = Inr p'"
  by (auto simp: bmp_clear_bit_def BITS_PER_LONG_def Let_def less_mult_imp_div_less mult.commute)

lemma bmp_bit_list_update:
  "i div 64 < length p \<Longrightarrow>
   bmp_bit (p[k := w]) i = (if i div 64 = k then bit w (i mod 64) else bmp_bit p i)"
  by (auto simp: bmp_bit_def)

lemma div_mod_64_eq: "(i::nat) div 64 = j div 64 \<Longrightarrow> i mod 64 = j mod 64 \<Longrightarrow> i = j"
  by (metis div_mult_mod_eq)

lemma bmp_set_bit_iff:
  assumes "bmp_set_bit nr p = Inr p'" and "i div 64 < length p"
  shows "bmp_bit p' i \<longleftrightarrow> i = nr \<or> bmp_bit p i"
proof -
  have "p' = p[nr div 64 := p ! (nr div 64) OR push_bit (nr mod 64) 1]"
    using assms(1) by (auto simp: bmp_set_bit_def BITS_PER_LONG_def Let_def split: if_splits)
  with assms(2) div_mod_64_eq [of i nr] show ?thesis
    by (auto simp: bmp_bit_list_update bit_simps) (auto simp: bmp_bit_def)
qed

lemma bmp_clear_bit_iff:
  assumes "bmp_clear_bit nr p = Inr p'" and "i div 64 < length p"
  shows "bmp_bit p' i \<longleftrightarrow> i \<noteq> nr \<and> bmp_bit p i"
proof -
  have "p' = p[nr div 64 := p ! (nr div 64) AND NOT (push_bit (nr mod 64) 1)]"
    using assms(1) by (auto simp: bmp_clear_bit_def BITS_PER_LONG_def Let_def split: if_splits)
  with assms(2) div_mod_64_eq [of i nr] show ?thesis
    by (auto simp: bmp_bit_list_update bit_simps) (auto simp: bmp_bit_def)
qed

lemma bmp_get_bit_eq:
  "nr < 64 * length p \<Longrightarrow> bmp_get_bit nr p = Inr (of_bool (bmp_bit p nr))"
  by (simp add: bmp_get_bit_def BITS_PER_LONG_def Let_def bmp_bit_def less_mult_imp_div_less
      mult.commute and_one_eq bit_iff_odd_drop_bit mod_2_eq_odd)

section \<open>The search returns the first matching bit\<close>

lemma find_in_slot_spec:
  "max_bit < 64 \<Longrightarrow>
   case find_in_slot w cur_bit max_bit r invert of
     Inl f \<Rightarrow> \<exists>k. f = r + k \<and> cur_bit + k \<le> max_bit \<and> (bit w (cur_bit + k) \<noteq> invert) \<and>
                  (\<forall>j<k. bit w (cur_bit + j) = invert)
   | Inr f \<Rightarrow> f = r + (Suc max_bit - cur_bit) \<and>
              (\<forall>j. cur_bit + j \<le> max_bit \<longrightarrow> bit w (cur_bit + j) = invert)"
proof (induction w cur_bit max_bit r invert rule: find_in_slot.induct)
  case (1 w cur_bit max_bit r invert)
  let ?hit = "bit w cur_bit \<noteq> invert"
  consider "cur_bit > max_bit" | "cur_bit \<le> max_bit" ?hit | "cur_bit \<le> max_bit" "\<not> ?hit"
    by linarith
  then show ?case
  proof cases
    case 3
    have cont: "find_in_slot w cur_bit max_bit r invert
        = find_in_slot w (cur_bit + 1) max_bit (r + 1) invert"
      using 3 "1.prems" by (auto simp: find_in_slot.simps [of w cur_bit] Let_def)
    have IH: "case find_in_slot w (cur_bit + 1) max_bit (r + 1) invert of
     Inl f \<Rightarrow> \<exists>k. f = (r + 1) + k \<and> (cur_bit + 1) + k \<le> max_bit \<and> (bit w ((cur_bit + 1) + k) \<noteq> invert) \<and>
                  (\<forall>j<k. bit w ((cur_bit + 1) + j) = invert)
   | Inr f \<Rightarrow> f = (r + 1) + (Suc max_bit - (cur_bit + 1)) \<and>
              (\<forall>j. (cur_bit + 1) + j \<le> max_bit \<longrightarrow> bit w ((cur_bit + 1) + j) = invert)"
      using "1.IH" [OF _ refl _ "1.prems"] 3 "1.prems" by auto
    show ?thesis
    proof (cases "find_in_slot w (cur_bit + 1) max_bit (r + 1) invert")
      case (Inl f)
      with IH obtain k where "f = r + Suc k" "cur_bit + Suc k \<le> max_bit"
        "bit w (cur_bit + Suc k) \<noteq> invert" "\<forall>j<k. bit w (cur_bit + Suc j) = invert"
        by auto
      with 3 have "\<forall>j<Suc k. bit w (cur_bit + j) = invert"
        by (auto simp: less_Suc_eq_0_disj)
      with Inl cont \<open>f = r + Suc k\<close> \<open>cur_bit + Suc k \<le> max_bit\<close> \<open>bit w (cur_bit + Suc k) \<noteq> invert\<close>
      show ?thesis by (auto intro!: exI [of _ "Suc k"])
    next
      case (Inr f)
      with IH have f: "f = r + (Suc max_bit - cur_bit)"
        and rest: "\<And>j. cur_bit + Suc j \<le> max_bit \<Longrightarrow> bit w (cur_bit + Suc j) = invert"
        using 3 by auto
      have "cur_bit + j \<le> max_bit \<Longrightarrow> bit w (cur_bit + j) = invert" for j
        using 3 rest by (cases j) auto
      with f Inr cont show ?thesis by simp
    qed
  qed (use "1.prems" in \<open>auto simp: find_in_slot.simps [of w cur_bit] Let_def\<close>)
qed

lemma bmp_bit_split: "b < 64 \<Longrightarrow> bmp_bit p (64 * c + b) = bit (p ! c) b"
  by (simp add: bmp_bit_def)

definition first_bit :: "u64 list \<Rightarrow> nat \<Rightarrow> nat \<Rightarrow> bool \<Rightarrow> nat \<Rightarrow> bool" where
  "first_bit p sz start invert v \<longleftrightarrow>
     v \<le> sz \<and> (v < sz \<longrightarrow> start \<le> v \<and> bmp_bit p v \<noteq> invert) \<and>
     (\<forall>i. start \<le> i \<and> i < v \<longrightarrow> bmp_bit p i = invert)"

lemma first_bit_unique:
  "first_bit p sz start invert v \<Longrightarrow> first_bit p sz start invert v' \<Longrightarrow> v = v'"
  unfolding first_bit_def by (cases v v' rule: linorder_cases) auto

lemma find_loop_spec:
  assumes sz: "sz = 64 * m + l + 1" and l: "l < 64" and m: "m < length p"
  shows "b < 64 \<Longrightarrow> (c \<le> m \<Longrightarrow> r = 64 * c + b) \<Longrightarrow> (m < c \<Longrightarrow> sz \<le> r) \<Longrightarrow>
    \<exists>v. find_loop p sz l m c b r invert = Inr v \<and> first_bit p sz r invert v"
proof (induction "Suc m - c" arbitrary: c b r)
  case 0
  then show ?case by (auto simp: find_loop.simps [of p sz l m c] first_bit_def)
next
  case (Suc n)
  then have c: "c \<le> m" and r: "r = 64 * c + b" and b: "b < 64" by auto
  define mb where "mb = (if c < m then 63 else l)"
  have mb: "mb < 64" using l by (simp add: mb_def)
  have mb_sz: "64 * c + mb < sz" using c sz l by (auto simp: mb_def)
  note spec = find_in_slot_spec [OF mb, where w = "p ! c" and cur_bit = b and r = r and invert = invert]
  have step: "find_loop p sz l m c b r invert = (case find_in_slot (p ! c) b mb r invert of
      Inl f \<Rightarrow> Inr f | Inr r' \<Rightarrow> find_loop p sz l m (c + 1) 0 r' invert)"
    using c m by (simp add: find_loop.simps [of p sz l m c] mb_def BITS_PER_LONG_def)
  show ?case
  proof (cases "find_in_slot (p ! c) b mb r invert")
    case (Inl f)
    with spec obtain k where k: "f = r + k" "b + k \<le> mb" "bit (p ! c) (b + k) \<noteq> invert"
      "\<forall>j<k. bit (p ! c) (b + j) = invert" by auto
    have "bmp_bit p i = invert" if "r \<le> i" "i < f" for i
    proof -
      obtain j where j: "i = r + j" using \<open>r \<le> i\<close> le_Suc_ex by blast
      with \<open>i < f\<close> k r mb bmp_bit_split [of "b + j" p c] show ?thesis by (simp add: add.assoc)
    qed
    moreover have "bmp_bit p f \<noteq> invert"
      using k r mb bmp_bit_split [of "b + k" p c] by (simp add: add.assoc)
    ultimately have "first_bit p sz r invert f"
      using k r mb_sz by (auto simp: first_bit_def)
    with step Inl show ?thesis by simp
  next
    case (Inr r')
    with spec have r': "r' = r + (Suc mb - b)"
      and none: "\<And>j. b + j \<le> mb \<Longrightarrow> bit (p ! c) (b + j) = invert" by auto
    have none': "bmp_bit p i = invert" if "r \<le> i" "i < r'" for i
    proof -
      obtain j where j: "i = r + j" using \<open>r \<le> i\<close> le_Suc_ex by blast
      with \<open>i < r'\<close> r r' none [of j] mb bmp_bit_split [of "b + j" p c] show ?thesis
        by (simp add: add.assoc)
    qed
    have "\<exists>v. find_loop p sz l m (c + 1) 0 r' invert = Inr v \<and> first_bit p sz r' invert v"
      using Suc.hyps b c r r' sz by (intro Suc.hyps(1)) (auto simp: mb_def split: if_splits)
    then obtain v where v: "find_loop p sz l m (c + 1) 0 r' invert = Inr v"
      "first_bit p sz r' invert v" by blast
    have "r \<le> r'" using r' by simp
    moreover have "bmp_bit p i = invert" if "r \<le> i" "i < v" for i
      using that none' [of i] v(2) by (cases "i < r'") (auto simp: first_bit_def)
    ultimately have "first_bit p sz r invert v"
      using v(2) by (auto simp: first_bit_def)
    with step Inr v(1) show ?thesis by simp
  qed
qed

lemma find_next_bit_helper_spec:
  assumes "0 < sz" and "sz \<le> 64 * length p"
  shows "\<exists>v. find_next_bit_helper p sz start invert = Inr v \<and> first_bit p sz start invert v"
proof -
  have size: "sz = 64 * ((sz - 1) div 64) + (sz - 1) mod 64 + 1"
    using assms(1) by simp
  have len: "(sz - 1) div 64 < length p"
    using assms by (simp add: less_mult_imp_div_less mult.commute)
  have past: "sz \<le> start" if "(sz - 1) div 64 < start div 64"
  proof -
    have "64 * Suc ((sz - 1) div 64) \<le> 64 * (start div 64)" using that by simp
    also have "\<dots> \<le> start" by simp
    finally have "64 * ((sz - 1) div 64) + 64 \<le> start" by simp
    moreover have "(sz - 1) mod 64 < 64" by simp
    ultimately show ?thesis using size by linarith
  qed
  show ?thesis
    using find_loop_spec [OF size _ len, of "start mod 64" "start div 64" start invert] past assms(1)
    by (simp add: find_next_bit_helper_def Let_def BITS_PER_LONG_def)
qed



lemmas find_next_zero_bit_spec =
  find_next_bit_helper_spec [where invert = True, folded find_next_zero_bit_def]

end
