(* ===== verification/Intrusive_List.thy ===== *)
theory Intrusive_List
  imports Chcore_Prelude
begin

text \<open>
  The circular doubly linked lists of \<^verbatim>\<open>kernel/include/common/list.h\<close>, at
  the level of their pointers: a heap maps the address of every
  \<^verbatim>\<open>struct list_head\<close> to its two fields, and each operation performs the
  pointer assignments of the code in their order. \<open>is_list h head xs\<close> says that the
  list with head \<open>head\<close> holds the nodes \<open>xs\<close>; the lemmas show that the operations
  act on \<open>xs\<close> as the sequence operations that the other components use for their
  free lists, ready queues, waiting lists and region lists, and touch no other list.
\<close>

section \<open>Operations\<close>

record 'a list_heap =
  nxt :: "'a \<Rightarrow> 'a"
  prv :: "'a \<Rightarrow> 'a"

definition set_nxt :: "'a \<Rightarrow> 'a \<Rightarrow> 'a list_heap \<Rightarrow> 'a list_heap" where
  "set_nxt a b h = h\<lparr>nxt := (nxt h)(a := b)\<rparr>"

definition set_prv :: "'a \<Rightarrow> 'a \<Rightarrow> 'a list_heap \<Rightarrow> 'a list_heap" where
  "set_prv a b h = h\<lparr>prv := (prv h)(a := b)\<rparr>"

definition init_list_head :: "'a \<Rightarrow> 'a list_heap \<Rightarrow> 'a list_heap" where
  "init_list_head l h = set_prv l l (set_nxt l l h)"

definition list_add :: "'a \<Rightarrow> 'a \<Rightarrow> 'a list_heap \<Rightarrow> 'a list_heap" where
  "list_add new head h =
     (let h1 = set_nxt new (nxt h head) h;
          h2 = set_prv new head h1;
          h3 = set_prv (nxt h2 head) new h2
      in set_nxt head new h3)"

definition list_append :: "'a \<Rightarrow> 'a \<Rightarrow> 'a list_heap \<Rightarrow> 'a list_heap" where
  "list_append new head h = (let tail = prv h head in list_add new tail h)"

definition list_del :: "'a \<Rightarrow> 'a list_heap \<Rightarrow> 'a list_heap" where
  "list_del node h =
     (let h1 = set_nxt (prv h node) (nxt h node) h
      in set_prv (nxt h1 node) (prv h1 node) h1)"

definition list_empty :: "'a \<Rightarrow> 'a list_heap \<Rightarrow> bool" where
  "list_empty head h \<longleftrightarrow> nxt h head = head"

text \<open>The traversal of \<^verbatim>\<open>for_each_in_list\<close>: from \<^verbatim>\<open>head->next\<close> along
  \<^verbatim>\<open>next\<close> until the head is met again.\<close>

partial_function (option) for_each_in_list :: "'a list_heap \<Rightarrow> 'a \<Rightarrow> 'a \<Rightarrow> 'a list option" where
  "for_each_in_list h head node =
     (if node = head then Some []
      else Option.bind (for_each_in_list h head (nxt h node)) (\<lambda>xs. Some (node # xs)))"

lemmas list_op_defs = set_nxt_def set_prv_def init_list_head_def list_add_def list_append_def
  list_del_def list_empty_def

section \<open>The represented sequence\<close>

fun seg :: "'a list_heap \<Rightarrow> 'a \<Rightarrow> 'a list \<Rightarrow> 'a \<Rightarrow> bool" where
  "seg h a [] b \<longleftrightarrow> nxt h a = b \<and> prv h b = a"
| "seg h a (x # xs) b \<longleftrightarrow> nxt h a = x \<and> prv h x = a \<and> seg h x xs b"

definition is_list :: "'a list_heap \<Rightarrow> 'a \<Rightarrow> 'a list \<Rightarrow> bool" where
  "is_list h head xs \<longleftrightarrow> seg h head xs head \<and> distinct (head # xs)"

lemma seg_append:
  "seg h a (xs @ y # ys) b \<longleftrightarrow> seg h a xs y \<and> seg h y ys b"
  by (induction xs arbitrary: a) auto

text \<open>A write to \<^verbatim>\<open>next\<close> matters to a segment only at its sources, a write to
  \<^verbatim>\<open>prev\<close> only at its targets.\<close>

lemma seg_set_nxt [simp]:
  "n \<notin> set (a # xs) \<Longrightarrow> seg (set_nxt n v h) a xs b = seg h a xs b"
  by (induction xs arbitrary: a) (auto simp: set_nxt_def)

lemma seg_set_prv [simp]:
  "n \<notin> set (b # xs) \<Longrightarrow> seg (set_prv n v h) a xs b = seg h a xs b"
  by (induction xs arbitrary: a) (auto simp: set_prv_def)

lemma seg_nxt: "seg h a xs b \<Longrightarrow> nxt h a = hd (xs @ [b])"
  by (cases xs) auto

lemma seg_prv: "seg h a xs b \<Longrightarrow> prv h b = last (a # xs)"
  by (induction xs arbitrary: a) auto

lemma nxt_set [simp]: "nxt (set_nxt a b h) = (nxt h)(a := b)" "nxt (set_prv a b h) = nxt h"
  by (simp_all add: set_nxt_def set_prv_def)

lemma prv_set [simp]: "prv (set_prv a b h) = (prv h)(a := b)" "prv (set_nxt a b h) = prv h"
  by (simp_all add: set_nxt_def set_prv_def)

lemma init_list_head_spec: "is_list (init_list_head l h) l []"
  by (simp add: is_list_def init_list_head_def)

text \<open>Linking a fresh node behind \<open>y\<close> puts it in front of the segment that starts there;
  the writes hit \<^verbatim>\<open>next\<close> of two nodes and \<^verbatim>\<open>prev\<close> of two nodes.\<close>

lemma list_add_unfold:
  "new \<noteq> y \<Longrightarrow> list_add new y h =
     set_nxt y new (set_prv (nxt h y) new (set_prv new y (set_nxt new (nxt h y) h)))"
  by (simp add: list_add_def Let_def)

lemma seg_list_add:
  assumes "seg h y ys b" "distinct ys" "y \<notin> set ys" "b \<notin> set ys" "new \<notin> set (y # b # ys)"
  shows "seg (list_add new y h) y (new # ys) b"
  using assms by (cases ys) (auto simp: list_add_unfold)

lemma seg_list_add_frame:
  assumes "new \<noteq> y" "new \<notin> set (a # c # xs)" "y \<notin> set (a # xs)" "nxt h y \<notin> set (c # xs)"
  shows "seg (list_add new y h) a xs c = seg h a xs c"
  using assms by (simp add: list_add_unfold)

lemma list_add_spec:
  assumes "is_list h head xs" "new \<notin> set (head # xs)"
  shows "is_list (list_add new head h) head (new # xs)"
  using assms seg_list_add [of h head xs head new] by (auto simp: is_list_def)

lemma list_append_spec:
  assumes l: "is_list h head xs" and new: "new \<notin> set (head # xs)"
  shows "is_list (list_append new head h) head (xs @ [new])"
proof (cases xs rule: rev_cases)
  case Nil
  with assms show ?thesis
    using list_add_spec [OF l new] by (simp add: list_append_def is_list_def)
next
  case (snoc us t)
  from l snoc have seg: "seg h head us t" "seg h t [] head" and t: "prv h head = t"
    and dist: "distinct (head # us @ [t])"
    by (auto simp: is_list_def seg_append)
  have "seg (list_add new t h) t [new] head"
    using seg_list_add [of h t "[]" head new] seg(2) new snoc by auto
  moreover have "seg (list_add new t h) head us t"
    using seg new snoc dist by (subst seg_list_add_frame) auto
  ultimately show ?thesis
    using new snoc dist t by (auto simp: is_list_def list_append_def seg_append)
qed

lemma list_del_unfold:
  "prv h n \<noteq> n \<Longrightarrow> list_del n h = set_prv (nxt h n) (prv h n) (set_nxt (prv h n) (nxt h n) h)"
  by (auto simp: list_del_def Let_def)

lemma seg_list_del:
  assumes seg: "seg h a us n" "seg h n vs b"
    and dist: "distinct (us @ n # vs)" "a \<notin> set (us @ n # vs)" "b \<notin> set (us @ n # vs)"
  shows "seg (list_del n h) a (us @ vs) b"
proof -
  define p q where "p = prv h n" and "q = nxt h n"
  have p: "p = last (a # us)" and q: "q = hd (vs @ [b])"
    unfolding p_def q_def by (rule seg_prv [OF seg(1)], rule seg_nxt [OF seg(2)])
  have pmem: "p \<in> set (a # us)" unfolding p by (rule last_in_set) simp
  then have "p \<noteq> n" using dist by auto
  then have del: "list_del n h = set_prv q p (set_nxt p q h)"
    unfolding p_def q_def by (rule list_del_unfold)
  have right: "seg (list_del n h) p vs b"
  proof (cases vs)
    case Nil
    then show ?thesis using q del by simp
  next
    case (Cons v vs')
    then have "q = v" "seg h v vs' b" using seg q by auto
    moreover have "p \<notin> set (v # vs')" "v \<notin> set (b # vs')"
      using pmem dist unfolding Cons by auto
    ultimately show ?thesis using Cons by (simp add: del)
  qed
  show ?thesis
  proof (cases us rule: rev_cases)
    case Nil
    then show ?thesis using right p by simp
  next
    case (snoc us' p')
    then have [simp]: "p = p'" and "seg h a us' p'" using p seg by (simp_all add: seg_append)
    moreover have "p' \<notin> set (a # us')" "q \<notin> set (p' # us')"
      using snoc q dist by (cases vs; force)+
    ultimately have "seg (list_del n h) a us' p'" by (simp add: del)
    with right snoc show ?thesis by (simp add: seg_append)
  qed
qed

lemma list_del_spec:
  assumes l: "is_list h head xs" and n: "n \<in> set xs"
  shows "is_list (list_del n h) head (removeAll n xs)"
proof -
  from n obtain us vs where xs: "xs = us @ n # vs" by (meson split_list)
  with l have "seg h head us n" "seg h n vs head" and d: "distinct (head # us @ n # vs)"
    by (auto simp: is_list_def seg_append)
  then have "seg (list_del n h) head (us @ vs) head"
    by (intro seg_list_del) auto
  moreover have "removeAll n xs = us @ vs" using xs d by simp
  ultimately show ?thesis using d by (auto simp: is_list_def)
qed

lemma list_empty_spec: "is_list h head xs \<Longrightarrow> list_empty head h \<longleftrightarrow> xs = []"
  by (cases xs) (auto simp: is_list_def list_empty_def)

lemma is_list_first: "is_list h head (x # xs) \<Longrightarrow> nxt h head = x"
  by (simp add: is_list_def)

lemma is_list_closed:
  assumes "is_list h head xs" "n \<in> set (head # xs)"
  shows "nxt h n \<in> set (head # xs)" "prv h n \<in> set (head # xs)"
proof -
  have "seg h a xs b \<Longrightarrow> n \<in> set (a # xs) \<Longrightarrow> nxt h n \<in> set (b # xs)" for a b
    by (induction xs arbitrary: a) auto
  moreover have "seg h a xs b \<Longrightarrow> n \<in> set (b # xs) \<Longrightarrow> prv h n \<in> set (a # xs)" for a b
    by (induction xs arbitrary: a) auto
  ultimately show "nxt h n \<in> set (head # xs)" "prv h n \<in> set (head # xs)"
    using assms by (auto simp: is_list_def)
qed

text \<open>Operations on one list leave every other list alone.\<close>

lemma is_list_frame:
  assumes "is_list h head xs" "\<And>n. n \<in> set (head # xs) \<Longrightarrow> nxt h' n = nxt h n \<and> prv h' n = prv h n"
  shows "is_list h' head xs"
proof -
  have "seg h a xs b \<Longrightarrow> (\<And>n. n \<in> set (a # b # xs) \<Longrightarrow> nxt h' n = nxt h n \<and> prv h' n = prv h n)
    \<Longrightarrow> seg h' a xs b" for a b
    by (induction xs arbitrary: a) auto
  with assms show ?thesis by (auto simp: is_list_def)
qed

lemma list_del_other:
  assumes "is_list h head xs" "n \<in> set xs" "is_list h o_head ys"
    and "set (head # xs) \<inter> set (o_head # ys) = {}"
  shows "is_list (list_del n h) o_head ys"
  using assms(3)
proof (rule is_list_frame)
  fix m assume m: "m \<in> set (o_head # ys)"
  have "nxt h n \<in> set (head # xs)" "prv h n \<in> set (head # xs)"
    using is_list_closed [OF assms(1)] assms(2) by auto
  moreover have "m \<notin> set (head # xs)" using m assms(4) by blast
  ultimately have "m \<noteq> nxt h n" "m \<noteq> prv h n" "n \<noteq> prv h n \<or> m \<noteq> nxt h n" by auto
  then show "nxt (list_del n h) m = nxt h m \<and> prv (list_del n h) m = prv h m"
    by (simp add: list_del_def Let_def)
qed

lemma list_add_other:
  assumes "is_list h head xs" "is_list h o_head ys" "new \<notin> set (o_head # ys)"
    and "set (head # xs) \<inter> set (o_head # ys) = {}" "y \<in> set (head # xs)"
  shows "is_list (list_add new y h) o_head ys"
  using assms(2)
proof (rule is_list_frame)
  fix m assume m: "m \<in> set (o_head # ys)"
  have "nxt h y \<in> set (head # xs)"
    using is_list_closed [OF assms(1)] assms(5) by auto
  moreover have "m \<notin> set (head # xs)" "m \<noteq> new" using m assms(3,4) by blast+
  ultimately have "m \<noteq> nxt h y" "m \<noteq> y" using assms(5) by auto
  with \<open>m \<noteq> new\<close> show "nxt (list_add new y h) m = nxt h m \<and> prv (list_add new y h) m = prv h m"
    by (simp add: list_add_def Let_def)
qed

lemma for_each_in_list_seg:
  "seg h a xs head \<Longrightarrow> head \<notin> set xs \<Longrightarrow> for_each_in_list h head (nxt h a) = Some xs"
proof (induction xs arbitrary: a)
  case Nil
  then show ?case by (simp add: for_each_in_list.simps)
next
  case (Cons x xs)
  then have "for_each_in_list h head (nxt h x) = Some xs" by simp
  with Cons.prems show ?case by (subst for_each_in_list.simps) auto
qed

lemma for_each_in_list_spec:
  "is_list h head xs \<Longrightarrow> for_each_in_list h head (nxt h head) = Some xs"
  by (auto simp: is_list_def for_each_in_list_seg)

section \<open>The interface the queues of the kernel rely on\<close>

text \<open>
  A queue client appends nodes at the tail, and takes the node behind the head and unlinks
  it. \<open>drain\<close> repeats the latter.
\<close>

primrec drain :: "('h \<Rightarrow> 'a) \<Rightarrow> ('a \<Rightarrow> 'h \<Rightarrow> 'h) \<Rightarrow> nat \<Rightarrow> 'h \<Rightarrow> 'a list \<times> 'h" where
  "drain fst_of del 0 h = ([], h)"
| "drain fst_of del (Suc k) h =
     (let n = fst_of h; (ns, h') = drain fst_of del k (del n h) in (n # ns, h'))"

locale node_queue =
  fixes rep :: "'h \<Rightarrow> 'a \<Rightarrow> 'a list \<Rightarrow> bool"
    and app :: "'a \<Rightarrow> 'a \<Rightarrow> 'h \<Rightarrow> 'h"
    and del :: "'a \<Rightarrow> 'h \<Rightarrow> 'h"
    and fst_of :: "'h \<Rightarrow> 'a \<Rightarrow> 'a"
    and is_empty :: "'a \<Rightarrow> 'h \<Rightarrow> bool"
  assumes rep_distinct: "rep h q xs \<Longrightarrow> distinct (q # xs)"
    and rep_app: "rep h q xs \<Longrightarrow> n \<notin> set (q # xs) \<Longrightarrow> rep (app n q h) q (xs @ [n])"
    and rep_del: "rep h q xs \<Longrightarrow> n \<in> set xs \<Longrightarrow> rep (del n h) q (removeAll n xs)"
    and rep_fst: "rep h q (x # xs) \<Longrightarrow> fst_of h q = x"
    and rep_empty: "rep h q xs \<Longrightarrow> is_empty q h \<longleftrightarrow> xs = []"
begin

lemma rep_del_first: "rep h q (x # xs) \<Longrightarrow> rep (del x h) q xs"
  using rep_del [of h q "x # xs" x] rep_distinct [of h q "x # xs"] by simp

lemma rep_app_all:
  "rep h q xs \<Longrightarrow> distinct (q # xs @ ns) \<Longrightarrow> rep (fold (\<lambda>n. app n q) ns h) q (xs @ ns)"
proof (induction ns arbitrary: h xs)
  case (Cons n ns)
  then show ?case using rep_app [of h q xs n] by (fastforce intro: Cons.IH [of _ "xs @ [n]", simplified])
qed simp

lemma rep_drain:
  "rep h q (ns @ xs) \<Longrightarrow>
   \<exists>h'. drain (\<lambda>h. fst_of h q) del (length ns) h = (ns, h') \<and> rep h' q xs"
proof (induction ns arbitrary: h)
  case (Cons n ns)
  from Cons.prems have "rep (del n h) q (ns @ xs)" by (simp add: rep_del_first)
  then obtain h' where "drain (\<lambda>h. fst_of h q) del (length ns) (del n h) = (ns, h')" "rep h' q xs"
    using Cons.IH by blast
  moreover have "fst_of h q = n" using Cons.prems rep_fst by simp
  ultimately show ?case by simp
qed simp

lemma fifo:
  assumes "rep h q xs" "distinct (q # xs @ ns)"
  shows "\<exists>h'. drain (\<lambda>h. fst_of h q) del (length (xs @ ns)) (fold (\<lambda>n. app n q) ns h) = (xs @ ns, h')
    \<and> rep h' q [] \<and> is_empty q h'"
proof -
  have "rep (fold (\<lambda>n. app n q) ns h) q ((xs @ ns) @ [])"
    using rep_app_all [OF assms] by simp
  from rep_drain [OF this] show ?thesis using rep_empty by auto
qed

end

interpretation lq: node_queue is_list list_append list_del nxt list_empty
proof unfold_locales
  show "distinct (q # xs)" if "is_list h q xs" for h q and xs :: "'a list"
    using that by (simp add: is_list_def)
qed (simp_all add: list_append_spec list_del_spec list_empty_spec is_list_first)

text \<open>C30: A list that holds \<open>xs\<close> behaves as a first-in first-out queue: after
  \<^verbatim>\<open>list_append\<close> of the nodes \<open>ns\<close>, repeatedly unlinking
  \<^verbatim>\<open>head->next\<close> with \<^verbatim>\<open>list_del\<close> yields \<open>xs\<close> and then \<open>ns\<close>, in order,
  and leaves the list empty.
\<close>

theorem list_append_del_fifo:
  assumes "is_list h head xs" and "distinct (head # xs @ ns)"
  shows "\<exists>h'. drain (\<lambda>h. nxt h head) list_del (length (xs @ ns)) (fold (\<lambda>n. list_append n head) ns h)
      = (xs @ ns, h') \<and> is_list h' head [] \<and> list_empty head h'"
  using lq.fifo [OF assms] .

theorem list_append_del_fifo_witness:
  "\<exists>h'. drain (\<lambda>h. nxt h (0::nat)) list_del 2
      (fold (\<lambda>n. list_append n 0) [7, 9] (init_list_head 0 \<lparr>nxt = (\<lambda>_. 5), prv = (\<lambda>_. 5)\<rparr>))
    = ([7, 9], h') \<and> is_list h' 0 [] \<and> list_empty 0 h'"
  using list_append_del_fifo [OF init_list_head_spec, of "0::nat" "[7, 9]" "\<lparr>nxt = (\<lambda>_. 5), prv = (\<lambda>_. 5)\<rparr>"]
  by (simp add: numeral_2_eq_2)

end
