(* ===== verification/Buddy.thy ===== *)
theory Buddy
  imports Chcore_Prelude
begin

text \<open>
  The buddy allocator of physical pages, \<^verbatim>\<open>kernel/mm/buddy.c\<close>. On this
  platform there is one memory pool (\<^verbatim>\<open>PHYS_MEM_POOL_SIZE\<close> is 1), so
  \<^verbatim>\<open>global_mem\<close> is a single \<open>phys_mem_pool\<close>, and a
  \<^verbatim>\<open>struct page *\<close> is the index of the page in \<^verbatim>\<open>page_metadata\<close>.
  The intrusive free lists are sequences of page indices (the theory \<open>Intrusive_List\<close>
  shows that the pointer operations act on them as they do here). Reading
  \<^verbatim>\<open>free_lists[BUDDY_MAX_ORDER]\<close>, which
  \<^verbatim>\<open>buddy_get_pages\<close> does, is outside the array: the word found there is the
  field \<open>nr_free_past_end\<close>.
\<close>

unbundle bit_operations_syntax

section \<open>State\<close>

record page =
  allocated :: bool
  order :: nat
  slab :: vaddr         \<comment> \<open>0 is NULL\<close>
  page_pool :: bool     \<comment> \<open>the back pointer to the pool is set\<close>

record free_list =
  fl_nodes :: "nat list"
  nr_free :: u64

record phys_mem_pool =
  pool_start_addr :: vaddr
  pool_mem_size :: u64
  pool_phys_page_num :: u64
  page_metadata :: "nat \<Rightarrow> page"
  free_lists :: "nat \<Rightarrow> free_list"
  nr_free_past_end :: u64

definition BUDDY_PAGE_SIZE :: u64 where "BUDDY_PAGE_SIZE = 0x1000"
definition BUDDY_PAGE_SIZE_ORDER :: nat where "BUDDY_PAGE_SIZE_ORDER = 12"
definition BUDDY_MAX_ORDER :: nat where "BUDDY_MAX_ORDER = 14"

abbreviation npages :: "phys_mem_pool \<Rightarrow> nat" where
  "npages p \<equiv> unat (pool_phys_page_num p)"

text \<open>Accesses to the metadata array and to the free lists.\<close>

definition get_page :: "phys_mem_pool \<Rightarrow> nat \<Rightarrow> page res" where
  "get_page p i = (if i < npages p then Inr (page_metadata p i) else Inl OutOfRange)"

definition upd_page :: "nat \<Rightarrow> (page \<Rightarrow> page) \<Rightarrow> phys_mem_pool \<Rightarrow> phys_mem_pool res" where
  "upd_page i f p =
     (if i < npages p
      then Inr (p\<lparr>page_metadata := (page_metadata p)(i := f (page_metadata p i))\<rparr>)
      else Inl OutOfRange)"

definition upd_free_list ::
  "nat \<Rightarrow> (free_list \<Rightarrow> free_list) \<Rightarrow> phys_mem_pool \<Rightarrow> phys_mem_pool res" where
  "upd_free_list k f p =
     (if k < BUDDY_MAX_ORDER
      then Inr (p\<lparr>free_lists := (free_lists p)(k := f (free_lists p k))\<rparr>)
      else Inl OutOfRange)"

definition add_nr_free :: "nat \<Rightarrow> u64 \<Rightarrow> phys_mem_pool \<Rightarrow> phys_mem_pool res" where
  "add_nr_free k d = upd_free_list k (\<lambda>l. l\<lparr>nr_free := nr_free l + d\<rparr>)"

text \<open>\<^verbatim>\<open>list_add(&page->node, &pool->free_lists[k].free_list)\<close> and
  \<^verbatim>\<open>list_del(&page->node)\<close>: the latter unlinks the page from the list it is in.\<close>

definition page_list_add :: "nat \<Rightarrow> nat \<Rightarrow> phys_mem_pool \<Rightarrow> phys_mem_pool res" where
  "page_list_add i k = upd_free_list k (\<lambda>l. l\<lparr>fl_nodes := i # fl_nodes l\<rparr>)"

definition page_list_del :: "nat \<Rightarrow> phys_mem_pool \<Rightarrow> phys_mem_pool res" where
  "page_list_del i p =
     (case find (\<lambda>k. i \<in> set (fl_nodes (free_lists p k))) [0..<BUDDY_MAX_ORDER] of
        None \<Rightarrow> Inl BadPtr
      | Some k \<Rightarrow> upd_free_list k (\<lambda>l. l\<lparr>fl_nodes := removeAll i (fl_nodes l)\<rparr>) p)"

section \<open>Operations\<close>

primrec mark_pages ::
  "nat \<Rightarrow> nat \<Rightarrow> bool \<Rightarrow> nat \<Rightarrow> phys_mem_pool \<Rightarrow> phys_mem_pool res" where
  "mark_pages start k al 0 p = Inr p"
| "mark_pages start k al (Suc n) p =
     bindR (mark_pages start k al n p)
       (upd_page (start + n) (\<lambda>pg. pg\<lparr>order := k, allocated := al\<rparr>))"

definition set_free_page :: "nat \<Rightarrow> nat \<Rightarrow> phys_mem_pool \<Rightarrow> phys_mem_pool res" where
  "set_free_page start k = mark_pages start k False (2 ^ k)"

definition set_alloc_page :: "nat \<Rightarrow> nat \<Rightarrow> phys_mem_pool \<Rightarrow> phys_mem_pool res" where
  "set_alloc_page start k = mark_pages start k True (2 ^ k)"

definition page_to_virt :: "phys_mem_pool \<Rightarrow> nat \<Rightarrow> vaddr res" where
  "page_to_virt p i =
     bindR (get_page p i) (\<lambda>pg. BUG_ON (\<not> page_pool pg)
       (Inr (of_nat i * BUDDY_PAGE_SIZE + pool_start_addr p)))"

definition virt_to_page :: "phys_mem_pool \<Rightarrow> vaddr \<Rightarrow> nat res" where
  "virt_to_page p a =
     BUG_ON (\<not> (a \<ge> pool_start_addr p \<and> a < pool_start_addr p + pool_mem_size p))
       (Inr (unat ((a - pool_start_addr p) div BUDDY_PAGE_SIZE)))"

definition get_buddy_chunk :: "phys_mem_pool \<Rightarrow> nat \<Rightarrow> nat option res" where
  "get_buddy_chunk p chunk =
     bindR (page_to_virt p chunk) (\<lambda>chunk_addr.
     bindR (get_page p chunk) (\<lambda>pg.
       let buddy_chunk_addr = chunk_addr XOR push_bit (order pg + BUDDY_PAGE_SIZE_ORDER) 1 in
       if buddy_chunk_addr < pool_start_addr p
          \<or> buddy_chunk_addr \<ge> pool_start_addr p + pool_mem_size p
       then Inr None
       else bindR (virt_to_page p buddy_chunk_addr) (\<lambda>b. Inr (Some b))))"

text \<open>One iteration of the loop of \<^verbatim>\<open>split_page\<close> on a chunk of order
  \<open>Suc k\<close>: both halves become free chunks of order \<open>k\<close>.\<close>

definition split_step :: "nat \<Rightarrow> nat \<Rightarrow> phys_mem_pool \<Rightarrow> phys_mem_pool res" where
  "split_step first k p =
     (let second = first + 2 ^ k in
      bindR (set_free_page first k p) (\<lambda>p.
      bindR (page_list_del first p) (\<lambda>p.
      bindR (page_list_add first k p) (\<lambda>p.
      bindR (set_free_page second k p) (\<lambda>p.
      bindR (page_list_add second k p) (\<lambda>p.
      bindR (add_nr_free (Suc k) (- 1) p) (\<lambda>p.
        add_nr_free k 2 p)))))))"

text \<open>The frame of the helpers, needed for the termination of the loops.\<close>

lemma mark_pages_eq:
  assumes "mark_pages start k al n p = Inr p'"
  shows "p' = p\<lparr>page_metadata := \<lambda>j. if start \<le> j \<and> j < start + n
      then (page_metadata p j)\<lparr>order := k, allocated := al\<rparr> else page_metadata p j\<rparr>"
  using assms
proof (induction n arbitrary: p')
  case 0
  have "(\<lambda>j. if start \<le> j \<and> j < start + 0
      then (page_metadata p j)\<lparr>order := k, allocated := al\<rparr> else page_metadata p j) = page_metadata p"
    by (rule ext) auto
  with 0 show ?case by simp
next
  case (Suc n)
  then obtain q where "mark_pages start k al n p = Inr q"
    and p': "upd_page (start + n) (\<lambda>pg. pg\<lparr>order := k, allocated := al\<rparr>) q = Inr p'"
    by (auto simp: outcome_simps)
  then have "q = p\<lparr>page_metadata := \<lambda>j. if start \<le> j \<and> j < start + n
      then (page_metadata p j)\<lparr>order := k, allocated := al\<rparr> else page_metadata p j\<rparr>"
    using Suc.IH by blast
  with p' show ?case
    by (auto simp: upd_page_def fun_eq_iff less_Suc_eq split: if_splits)
qed

lemma mark_pages_defined:
  "start + n \<le> npages p \<Longrightarrow> \<exists>p'. mark_pages start k al n p = Inr p'"
proof (induction n)
  case (Suc n)
  then obtain q where "mark_pages start k al n p = Inr q" by auto
  moreover from mark_pages_eq [OF this] have "npages q = npages p" by simp
  ultimately show ?case using Suc.prems by (simp add: upd_page_def)
qed simp

lemma upd_free_list_frame:
  "upd_free_list k f p = Inr p' \<Longrightarrow> page_metadata p' = page_metadata p \<and>
     pool_start_addr p' = pool_start_addr p \<and> pool_mem_size p' = pool_mem_size p \<and>
     pool_phys_page_num p' = pool_phys_page_num p \<and> nr_free_past_end p' = nr_free_past_end p"
  by (auto simp: upd_free_list_def split: if_splits)

lemma page_list_del_frame:
  "page_list_del i p = Inr p' \<Longrightarrow> page_metadata p' = page_metadata p \<and>
     pool_start_addr p' = pool_start_addr p \<and> pool_mem_size p' = pool_mem_size p \<and>
     pool_phys_page_num p' = pool_phys_page_num p \<and> nr_free_past_end p' = nr_free_past_end p"
  by (auto simp: page_list_del_def upd_free_list_frame split: option.splits)

lemmas list_frames = upd_free_list_frame page_list_del_frame

lemma split_step_metadata:
  assumes "split_step first k p = Inr p'"
  shows "page_metadata p' = (\<lambda>j. if first \<le> j \<and> j < first + 2 ^ Suc k
      then (page_metadata p j)\<lparr>order := k, allocated := False\<rparr> else page_metadata p j)
    \<and> pool_start_addr p' = pool_start_addr p \<and> pool_mem_size p' = pool_mem_size p
    \<and> pool_phys_page_num p' = pool_phys_page_num p \<and> nr_free_past_end p' = nr_free_past_end p"
proof -
  obtain p1 p2 p3 p4 p5 p6 where
    m1: "mark_pages first k False (2 ^ k) p = Inr p1" and d: "page_list_del first p1 = Inr p2"
    and a1: "page_list_add first k p2 = Inr p3"
    and m2: "mark_pages (first + 2 ^ k) k False (2 ^ k) p3 = Inr p4"
    and a2: "page_list_add (first + 2 ^ k) k p4 = Inr p5"
    and n1: "add_nr_free (Suc k) (- 1) p5 = Inr p6" and n2: "add_nr_free k 2 p6 = Inr p'"
    using assms unfolding split_step_def Let_def set_free_page_def by (auto simp: bindR_eq_Inr)
  note frames = page_list_del_frame [OF d] upd_free_list_frame [OF a1 [unfolded page_list_add_def]]
    upd_free_list_frame [OF a2 [unfolded page_list_add_def]]
    upd_free_list_frame [OF n1 [unfolded add_nr_free_def]]
    upd_free_list_frame [OF n2 [unfolded add_nr_free_def]]
  have "page_metadata p' j = (if first \<le> j \<and> j < first + 2 ^ Suc k
      then (page_metadata p j)\<lparr>order := k, allocated := False\<rparr> else page_metadata p j)" for j
    using frames mark_pages_eq [OF m1] mark_pages_eq [OF m2] by simp
  with frames mark_pages_eq [OF m1] mark_pages_eq [OF m2] show ?thesis
    by (simp add: fun_eq_iff)
qed

function split_page :: "nat \<Rightarrow> nat \<Rightarrow> phys_mem_pool \<Rightarrow> (nat \<times> phys_mem_pool) res" where
  "split_page k page p =
     bindR (get_page p page) (\<lambda>pg.
       if order pg = k then Inr (page, p)
       else case order pg of
              0 \<Rightarrow> Inl OutOfRange   \<comment> \<open>\<^verbatim>\<open>1 << (0 - 1)\<close>\<close>
            | Suc j \<Rightarrow> bindR (split_step page j p) (\<lambda>p. split_page k page p))"
  by pat_completeness auto
termination
  by (relation "measure (\<lambda>(k, page, p). order (page_metadata p page))")
    (auto simp: get_page_def dest!: split_step_metadata split: if_splits)

declare split_page.simps [simp del]

function buddy_get_loop :: "nat \<Rightarrow> nat \<Rightarrow> phys_mem_pool \<Rightarrow> (nat option \<times> phys_mem_pool) res" where
  "buddy_get_loop k match_order p =
     (if match_order \<le> BUDDY_MAX_ORDER then
        if (if match_order < BUDDY_MAX_ORDER then nr_free (free_lists p match_order)
            else nr_free_past_end p) > 0 then
          (case (if match_order < BUDDY_MAX_ORDER then fl_nodes (free_lists p match_order) else []) of
             [] \<Rightarrow> Inl BadPtr
           | first # _ \<Rightarrow>
             bindR (split_page k first p) (\<lambda>(target, p).
             bindR (get_page p target) (\<lambda>pg.
             bindR (set_alloc_page target (order pg) p) (\<lambda>p.
             bindR (add_nr_free (order pg) (- 1) p) (\<lambda>p.
             bindR (page_list_del target p) (\<lambda>p. Inr (Some target, p)))))))
        else buddy_get_loop k (match_order + 1) p
      else Inr (None, p))"
  by pat_completeness auto
termination
  by (relation "measure (\<lambda>(k, m, p). Suc BUDDY_MAX_ORDER - m)") auto

declare buddy_get_loop.simps [simp del]

definition buddy_get_pages :: "nat \<Rightarrow> phys_mem_pool \<Rightarrow> (nat option \<times> phys_mem_pool) res" where
  "buddy_get_pages k p = buddy_get_loop k k p"

text \<open>One iteration of the loop of \<^verbatim>\<open>merge_page\<close>, when the buddy \<open>b\<close> can be
  merged.\<close>

definition merge_step :: "nat \<Rightarrow> nat \<Rightarrow> phys_mem_pool \<Rightarrow> (nat \<times> phys_mem_pool) res" where
  "merge_step it b p =
     bindR (page_list_del b p) (\<lambda>p.
     bindR (get_page p b) (\<lambda>bp.
     bindR (add_nr_free (order bp) (- 1) p) (\<lambda>p.
       let it' = (if it < b then it else b) in
       bindR (get_page p it') (\<lambda>pg.
       bindR (set_free_page it' (order pg + 1) p) (\<lambda>p. Inr (it', p))))))"

lemma merge_step_metadata:
  assumes "merge_step it b p = Inr (it', p')"
  shows "it' = min it b \<and> page_metadata p' = (\<lambda>j. if it' \<le> j \<and> j < it' + 2 ^ Suc (order (page_metadata p it'))
      then (page_metadata p j)\<lparr>order := Suc (order (page_metadata p it')), allocated := False\<rparr>
      else page_metadata p j)
    \<and> pool_start_addr p' = pool_start_addr p \<and> pool_mem_size p' = pool_mem_size p
    \<and> pool_phys_page_num p' = pool_phys_page_num p \<and> nr_free_past_end p' = nr_free_past_end p"
  using assms
  by (auto simp: merge_step_def Let_def outcome_simps set_free_page_def get_page_def
      add_nr_free_def fun_eq_iff min_def split: if_splits dest!: mark_pages_eq list_frames)

function merge_page :: "nat \<Rightarrow> phys_mem_pool \<Rightarrow> (nat \<times> phys_mem_pool) res" where
  "merge_page it_page p =
     bindR (get_buddy_chunk p it_page) (\<lambda>buddy.
       case buddy of
         None \<Rightarrow> Inr (it_page, p)
       | Some b \<Rightarrow>
         bindR (get_page p b) (\<lambda>bp.
         bindR (get_page p it_page) (\<lambda>pg.
           if allocated bp \<or> order bp \<noteq> order pg \<or> order pg \<ge> BUDDY_MAX_ORDER - 1
           then Inr (it_page, p)
           else bindR (merge_step it_page b p) (\<lambda>(it, p). merge_page it p))))"
  by pat_completeness auto
termination
proof (relation "measure (\<lambda>(it, p). BUDDY_MAX_ORDER - order (page_metadata p it))")
qed (auto simp: get_page_def BUDDY_MAX_ORDER_def min_def split: if_splits dest!: merge_step_metadata)

declare merge_page.simps [simp del]

definition buddy_free_pages :: "nat \<Rightarrow> phys_mem_pool \<Rightarrow> phys_mem_pool res" where
  "buddy_free_pages page p =
     bindR (get_page p page) (\<lambda>pg.
     bindR (set_free_page page (order pg) p) (\<lambda>p.
     bindR (merge_page page p) (\<lambda>(page, p).
     bindR (get_page p page) (\<lambda>pg.
     bindR (page_list_add page (order pg) p) (\<lambda>p.
       add_nr_free (order pg) 1 p)))))"

text \<open>\<^verbatim>\<open>init_buddy\<close>: the loop that clears and fills the metadata leaves every page an
  allocated chunk of order 0; the last loop frees the pages in order.\<close>

primrec free_each :: "nat \<Rightarrow> phys_mem_pool \<Rightarrow> phys_mem_pool res" where
  "free_each 0 p = Inr p"
| "free_each (Suc n) p = bindR (free_each n p) (buddy_free_pages n)"

definition init_pool :: "vaddr \<Rightarrow> u64 \<Rightarrow> u64 \<Rightarrow> phys_mem_pool" where
  "init_pool start_addr page_num past =
     \<lparr>pool_start_addr = start_addr, pool_mem_size = page_num * BUDDY_PAGE_SIZE,
      pool_phys_page_num = page_num,
      page_metadata = (\<lambda>_. \<lparr>allocated = True, order = 0, slab = 0, page_pool = True\<rparr>),
      free_lists = (\<lambda>_. \<lparr>fl_nodes = [], nr_free = 0\<rparr>),
      nr_free_past_end = past\<rparr>"

definition init_buddy :: "vaddr \<Rightarrow> u64 \<Rightarrow> u64 \<Rightarrow> phys_mem_pool res" where
  "init_buddy start_addr page_num past =
     free_each (unat page_num) (init_pool start_addr page_num past)"

definition get_free_mem_size_from_buddy :: "phys_mem_pool \<Rightarrow> u64" where
  "get_free_mem_size_from_buddy p =
     fold (\<lambda>k total_size. total_size + nr_free (free_lists p k) * (BUDDY_PAGE_SIZE * push_bit k 1))
       [0..<BUDDY_MAX_ORDER] 0"

end
