(* ===== verification/Slab.thy ===== *)
theory Slab
  imports Buddy
begin

text \<open>The object allocator of \<^verbatim>\<open>kernel/mm/slab.c\<close>. Slab headers and the links of free
  slots lie in the pages the slabs are made of, so the model keeps kernel memory as 64-bit words by
  address: \<^verbatim>\<open>slab->free_list_head\<close> is the word at offset 0 of a slab,
  \<^verbatim>\<open>slab->next_slab\<close> the one at offset 8, \<^verbatim>\<open>slab->order\<close> the low half of the one
  at offset 16, and \<^verbatim>\<open>slot->next_free\<close> the first word of a slot. A pointer dereference
  through NULL is a fault. Loops over linked structures carry fuel; running out of it is the fault
  \<open>Diverge\<close>, and the correctness theory shows that this does not happen.\<close>

section \<open>Kernel memory\<close>

record mm_state =
  pool :: phys_mem_pool
  slabs :: "nat \<Rightarrow> u64"
  mem :: "u64 \<Rightarrow> u64"

definition load :: "u64 \<Rightarrow> u64 \<Rightarrow> mm_state \<Rightarrow> u64 res" where
  "load base off m = (if base = 0 then Inl BadPtr else Inr (mem m (base + off)))"

definition store :: "u64 \<Rightarrow> u64 \<Rightarrow> u64 \<Rightarrow> mm_state \<Rightarrow> mm_state res" where
  "store base off v m =
     (if base = 0 then Inl BadPtr else Inr (m\<lparr>mem := (mem m)(base + off := v)\<rparr>))"

text \<open>\<^verbatim>\<open>memset(p, 0, size)\<close> on words.\<close>

definition zero_words :: "u64 \<Rightarrow> u64 \<Rightarrow> mm_state \<Rightarrow> mm_state" where
  "zero_words a len m =
     m\<lparr>mem := \<lambda>x. if unat a \<le> unat x \<and> unat x < unat a + unat len then 0 else mem m x\<rparr>"

section \<open>Sizes and orders\<close>

definition SLAB_INIT_SIZE :: u64 where "SLAB_INIT_SIZE = 2 * 1024 * 1024"
definition SLAB_MIN_ORDER :: nat where "SLAB_MIN_ORDER = 5"
definition SLAB_MAX_ORDER :: nat where "SLAB_MAX_ORDER = 11"

text \<open>\<^verbatim>\<open>1 << n\<close> on \<^verbatim>\<open>int\<close>; a shift that leaves the positive range is undefined.\<close>

definition shl_int :: "nat \<Rightarrow> u64 res" where
  "shl_int n = (if n < 31 then Inr (2 ^ n) else Inl OutOfRange)"

text \<open>The loop \<^verbatim>\<open>while (tmp > 1) { tmp >>= 1; order += 1; }\<close>.\<close>

function shift_loop :: "int \<Rightarrow> nat \<Rightarrow> nat" where
  "shift_loop tmp ord = (if tmp > 1 then shift_loop (tmp div 2) (ord + 1) else ord)"
  by pat_completeness auto
termination
  by (relation "measure (\<lambda>(tmp, _). nat tmp)") auto

declare shift_loop.simps [simp del]

text \<open>\<^verbatim>\<open>size_to_order\<close> copies its 64-bit argument into an \<^verbatim>\<open>int\<close> first.\<close>

definition size_to_order :: "u64 \<Rightarrow> nat res" where
  "size_to_order sz =
     (let ord = shift_loop (sint (ucast sz :: u32)) 0 in
      bindR (shl_int ord) (\<lambda>p. Inr (if sz > p then ord + 1 else ord)))"

definition order_to_size :: "nat \<Rightarrow> u64" where
  "order_to_size ord = push_bit ord 1"

section \<open>Pages for a slab\<close>

text \<open>\<^verbatim>\<open>get_pages\<close> (\<^verbatim>\<open>kernel/mm/kmalloc.c\<close>): the one pool of this platform is
  tried; \<open>0\<close> is NULL.\<close>

definition get_pages :: "nat \<Rightarrow> mm_state \<Rightarrow> (u64 \<times> mm_state) res" where
  "get_pages ord m =
     bindR (buddy_get_pages ord (pool m)) (\<lambda>(p_page, p).
       case p_page of
         None \<Rightarrow> Inr (0, m\<lparr>pool := p\<rparr>)
       | Some i \<Rightarrow> bindR (page_to_virt p i) (\<lambda>a. Inr (a, m\<lparr>pool := p\<rparr>)))"

primrec set_slab_loop :: "u64 \<Rightarrow> nat \<Rightarrow> phys_mem_pool \<Rightarrow> phys_mem_pool res" where
  "set_slab_loop addr 0 p = Inr p"
| "set_slab_loop addr (Suc i) p =
     bindR (set_slab_loop addr i p) (\<lambda>p.
     bindR (virt_to_page p (addr + of_nat i * BUDDY_PAGE_SIZE)) (\<lambda>pg.
       upd_page pg (\<lambda>x. x\<lparr>slab := addr\<rparr>) p))"

text \<open>When \<^verbatim>\<open>get_pages\<close> returns NULL, \<^verbatim>\<open>virt_to_page\<close> already stops in its own
  \<^verbatim>\<open>BUG_ON\<close>: it never returns NULL, so the test on its result has no branch of its own.\<close>

definition alloc_slab_memory :: "u64 \<Rightarrow> mm_state \<Rightarrow> (u64 \<times> mm_state) res" where
  "alloc_slab_memory sz m =
     bindR (size_to_order (sz div BUDDY_PAGE_SIZE)) (\<lambda>ord.
     bindR (get_pages ord m) (\<lambda>(addr, m).
     bindR (virt_to_page (pool m) addr) (\<lambda>_.
     bindR (set_slab_loop addr (unat (order_to_size ord)) (pool m)) (\<lambda>p.
       Inr (addr, m\<lparr>pool := p\<rparr>)))))"

section \<open>Slabs\<close>

text \<open>The loop that links the slots; it leaves the last slot.\<close>

primrec link_slots :: "u64 \<Rightarrow> nat \<Rightarrow> u64 \<Rightarrow> mm_state \<Rightarrow> (u64 \<times> mm_state) res" where
  "link_slots obj_size 0 slot m = Inr (slot, m)"
| "link_slots obj_size (Suc n) slot m =
     bindR (store slot 0 (slot + obj_size) m) (\<lambda>m. link_slots obj_size n (slot + obj_size) m)"

definition init_slab_cache :: "nat \<Rightarrow> u64 \<Rightarrow> mm_state \<Rightarrow> (u64 \<times> mm_state) res" where
  "init_slab_cache ord sz m =
     bindR (alloc_slab_memory sz m) (\<lambda>(addr, m).
       let obj_size = order_to_size ord;
           cnt = sz div obj_size - 1;
           slot = addr + obj_size in
       bindR (store addr 0 slot m) (\<lambda>m.
       bindR (store addr 8 0 m) (\<lambda>m.
       bindR (store addr 16 ((mem m (addr + 16) AND NOT (mask 32)) OR of_nat ord) m) (\<lambda>m.
       bindR (link_slots obj_size (unat (cnt - 1)) slot m) (\<lambda>(slot, m).
       bindR (store slot 0 0 m) (\<lambda>m. Inr (addr, m)))))))"

text \<open>The loop over the further slabs of an order.\<close>

primrec next_slab_loop :: "nat \<Rightarrow> u64 \<Rightarrow> mm_state \<Rightarrow> (u64 option \<times> mm_state) res" where
  "next_slab_loop 0 next_slab m = (if next_slab = 0 then Inr (None, m) else Inl Diverge)"
| "next_slab_loop (Suc fuel) next_slab m =
     (if next_slab = 0 then Inr (None, m)
      else bindR (load next_slab 0 m) (\<lambda>first_slot.
             if first_slot \<noteq> 0 then
               bindR (load first_slot 0 m) (\<lambda>next_slot.
               bindR (store next_slab 0 next_slot m) (\<lambda>m. Inr (Some first_slot, m)))
             else bindR (load next_slab 8 m) (\<lambda>s. next_slab_loop fuel s m)))"

text \<open>\<^verbatim>\<open>_alloc_in_slab_nolock\<close>: the recursion runs on a slab that was just initialised.\<close>

primrec alloc_in_slab_nolock :: "nat \<Rightarrow> u64 \<Rightarrow> nat \<Rightarrow> mm_state \<Rightarrow> (u64 \<times> mm_state) res" where
  "alloc_in_slab_nolock 0 slab_header ord m = Inl Diverge"
| "alloc_in_slab_nolock (Suc fuel) slab_header ord m =
     bindR (load slab_header 0 m) (\<lambda>first_slot.
       if first_slot \<noteq> 0 then
         bindR (load first_slot 0 m) (\<lambda>next_slot.
         bindR (store slab_header 0 next_slot m) (\<lambda>m. Inr (first_slot, m)))
       else
         bindR (load slab_header 8 m) (\<lambda>next_slab.
         bindR (next_slab_loop (npages (pool m)) next_slab m) (\<lambda>(found, m).
           case found of
             Some a \<Rightarrow> Inr (a, m)
           | None \<Rightarrow>
             bindR (init_slab_cache ord SLAB_INIT_SIZE m) (\<lambda>(new_slab, m).
             bindR (store new_slab 8 slab_header m) (\<lambda>m.
               alloc_in_slab_nolock fuel new_slab ord (m\<lparr>slabs := (slabs m)(ord := new_slab)\<rparr>))))))"

definition alloc_from_slab :: "u64 \<Rightarrow> nat \<Rightarrow> mm_state \<Rightarrow> (u64 \<times> mm_state) res" where
  "alloc_from_slab slab_header ord m = alloc_in_slab_nolock 2 slab_header ord m"

fun init_slab_loop :: "nat list \<Rightarrow> mm_state \<Rightarrow> mm_state res" where
  "init_slab_loop [] m = Inr m"
| "init_slab_loop (ord # ords) m =
     bindR (init_slab_cache ord SLAB_INIT_SIZE m) (\<lambda>(s, m).
       init_slab_loop ords (m\<lparr>slabs := (slabs m)(ord := s)\<rparr>))"

definition init_slab :: "mm_state \<Rightarrow> mm_state res" where
  "init_slab m = init_slab_loop [SLAB_MIN_ORDER..<Suc SLAB_MAX_ORDER] m"

definition alloc_in_slab :: "u64 \<Rightarrow> mm_state \<Rightarrow> (u64 \<times> mm_state) res" where
  "alloc_in_slab sz m =
     BUG_ON (sz > order_to_size SLAB_MAX_ORDER)
       (bindR (size_to_order sz) (\<lambda>ord0.
          let ord = (if ord0 < SLAB_MIN_ORDER then SLAB_MIN_ORDER else ord0) in
          alloc_from_slab (slabs m ord) ord m))"

definition free_in_slab :: "u64 \<Rightarrow> mm_state \<Rightarrow> mm_state res" where
  "free_in_slab addr m =
     bindR (virt_to_page (pool m) addr) (\<lambda>i.
     bindR (get_page (pool m) i) (\<lambda>pg.
     bindR (load (slab pg) 0 m) (\<lambda>head.
     bindR (store addr 0 head m) (\<lambda>m. store (slab pg) 0 addr m))))"

text \<open>The two nested loops of \<^verbatim>\<open>get_free_mem_size_from_slab\<close>.\<close>

primrec slot_walk :: "nat \<Rightarrow> u64 \<Rightarrow> u64 \<Rightarrow> u64 \<Rightarrow> mm_state \<Rightarrow> u64 res" where
  "slot_walk 0 slot sz total_size m = (if slot = 0 then Inr total_size else Inl Diverge)"
| "slot_walk (Suc fuel) slot sz total_size m =
     (if slot = 0 then Inr total_size
      else bindR (load slot 0 m) (\<lambda>n. slot_walk fuel n sz (total_size + sz) m))"

primrec slab_walk :: "nat \<Rightarrow> u64 \<Rightarrow> u64 \<Rightarrow> u64 \<Rightarrow> mm_state \<Rightarrow> u64 res" where
  "slab_walk 0 s sz total_size m = (if s = 0 then Inr total_size else Inl Diverge)"
| "slab_walk (Suc fuel) s sz total_size m =
     (if s = 0 then Inr total_size
      else bindR (load s 0 m) (\<lambda>slot.
           bindR (slot_walk (unat SLAB_INIT_SIZE) slot sz total_size m) (\<lambda>total_size.
           bindR (load s 8 m) (\<lambda>s. slab_walk fuel s sz total_size m))))"

definition get_free_mem_size_from_slab :: "mm_state \<Rightarrow> u64 res" where
  "get_free_mem_size_from_slab m =
     fold (\<lambda>ord acc. bindR acc (\<lambda>total_size.
         slab_walk (npages (pool m)) (slabs m ord) (order_to_size ord) total_size m))
       [SLAB_MIN_ORDER..<Suc SLAB_MAX_ORDER] (Inr 0)"

end
