(* ===== verification/Kmalloc.thy ===== *)
theory Kmalloc
  imports Slab
begin

text \<open>The entry points of kernel memory allocation: \<^verbatim>\<open>kernel/mm/kmalloc.c\<close>, the
  initialisation of \<^verbatim>\<open>kernel/mm/mm.c\<close> with the memory map of
  \<^verbatim>\<open>plat/raspi3/mm/mmparse.c\<close>, and the counters of \<^verbatim>\<open>kernel/mm/mm_check.c\<close>.\<close>

definition ROUND_UP :: "u64 \<Rightarrow> u64 \<Rightarrow> u64" where
  "ROUND_UP x n = (x + n - 1) AND NOT (n - 1)"

definition ROUND_DOWN :: "u64 \<Rightarrow> u64 \<Rightarrow> u64" where
  "ROUND_DOWN x n = x AND NOT (n - 1)"

definition size_to_page_order :: "u64 \<Rightarrow> nat res" where
  "size_to_page_order sz =
     (let pg_num = ROUND_UP sz BUDDY_PAGE_SIZE div BUDDY_PAGE_SIZE;
          ord = shift_loop (uint pg_num) 0 in
      bindR (shl_int ord) (\<lambda>p. Inr (if pg_num > p then ord + 1 else ord)))"

definition kmalloc :: "u64 \<Rightarrow> mm_state \<Rightarrow> (u64 \<times> mm_state) res" where
  "kmalloc sz m =
     (if sz \<le> order_to_size SLAB_MAX_ORDER then alloc_in_slab sz m
      else if sz \<le> BUDDY_PAGE_SIZE then get_pages 0 m
      else bindR (size_to_page_order sz) (\<lambda>ord. get_pages ord m))"

definition kzalloc :: "u64 \<Rightarrow> mm_state \<Rightarrow> (u64 \<times> mm_state) res" where
  "kzalloc sz m =
     bindR (kmalloc sz m) (\<lambda>(ptr, m).
       if ptr = 0 then Inr (0, m) else Inr (ptr, zero_words ptr sz m))"

text \<open>\<^verbatim>\<open>virt_to_page\<close> never returns NULL, so the guard of \<^verbatim>\<open>kfree\<close> is decided by
  \<^verbatim>\<open>p_page->slab\<close> alone.\<close>

definition kfree :: "u64 \<Rightarrow> mm_state \<Rightarrow> mm_state res" where
  "kfree ptr m =
     bindR (virt_to_page (pool m) ptr) (\<lambda>i.
     bindR (get_page (pool m) i) (\<lambda>pg.
       if slab pg \<noteq> 0 then free_in_slab ptr m
       else bindR (buddy_free_pages i (pool m)) (\<lambda>p. Inr (m\<lparr>pool := p\<rparr>))))"

definition free_pages :: "u64 \<Rightarrow> mm_state \<Rightarrow> mm_state res" where
  "free_pages addr m =
     bindR (virt_to_page (pool m) addr) (\<lambda>i.
     bindR (buddy_free_pages i (pool m)) (\<lambda>p. Inr (m\<lparr>pool := p\<rparr>)))"

section \<open>Initialisation\<close>

definition KBASE :: u64 where "KBASE = 0xFFFFFF0000000000"
definition PAGE_SIZE :: u64 where "PAGE_SIZE = 0x1000"
definition SIZEOF_PAGE :: u64 where "SIZEOF_PAGE = 40"

definition phys_to_virt :: "paddr \<Rightarrow> vaddr" where "phys_to_virt x = x + KBASE"
definition virt_to_phys :: "vaddr \<Rightarrow> paddr" where "virt_to_phys x = x - KBASE"

definition is_user_addr :: "vaddr \<Rightarrow> bool" where "is_user_addr va = (va < KBASE)"

definition is_user_addr_range :: "vaddr \<Rightarrow> u64 \<Rightarrow> bool" where
  "is_user_addr_range va len = (va + len \<ge> va \<and> is_user_addr (va + len))"

text \<open>\<^verbatim>\<open>parse_mem_map\<close>: the end of the kernel image is a symbol of the linker.\<close>

definition USABLE_MEM_END :: u64 where "USABLE_MEM_END = 0x3f000000"
definition RESERVED_FOR_GPU :: u64 where "RESERVED_FOR_GPU = 0x2000000"

definition parse_mem_map :: "paddr \<Rightarrow> nat \<times> paddr \<times> paddr" where
  "parse_mem_map img_end = (1, ROUND_UP img_end PAGE_SIZE, USABLE_MEM_END - RESERVED_FOR_GPU)"

definition pool_page_num :: "vaddr \<Rightarrow> vaddr \<Rightarrow> u64" where
  "pool_page_num free_mem_start free_mem_end =
     (free_mem_end - free_mem_start) div (PAGE_SIZE + SIZEOF_PAGE)"

definition pool_start :: "vaddr \<Rightarrow> u64 \<Rightarrow> vaddr" where
  "pool_start free_mem_start n = ROUND_UP (free_mem_start + n * SIZEOF_PAGE) PAGE_SIZE"

definition mm_init :: "paddr \<Rightarrow> u64 \<Rightarrow> (u64 \<Rightarrow> u64) \<Rightarrow> mm_state res" where
  "mm_init img_end past contents =
     (let (physmem_map_num, map_start, map_end) = parse_mem_map img_end in
      if physmem_map_num = 1 then
        let free_mem_start = phys_to_virt map_start;
            free_mem_end = phys_to_virt map_end;
            n = pool_page_num free_mem_start free_mem_end;
            start_vaddr = pool_start free_mem_start n in
        bindR (init_buddy start_vaddr n past) (\<lambda>p.
          init_slab \<lparr>pool = p, slabs = (\<lambda>_. 0), mem = contents\<rparr>)
      else Inl Bug)"

definition get_free_mem_size :: "mm_state \<Rightarrow> u64 res" where
  "get_free_mem_size m =
     bindR (get_free_mem_size_from_slab m) (\<lambda>s. Inr (s + get_free_mem_size_from_buddy (pool m)))"

end
