(* ===== verification/Buddy_Correct.thy ===== *)
theory Buddy_Correct
  imports Buddy
begin

text \<open>
  Correctness of the buddy allocator: the invariant that ties the page metadata, the free
  lists and their counters together, its preservation by every operation, and what the
  operations do to the set of free pages.
\<close>

unbundle bit_operations_syntax

section \<open>Aligned blocks\<close>

lemma aligned_div: "(2::nat) ^ k dvd a \<Longrightarrow> x \<in> {a..<a + 2 ^ k} \<Longrightarrow> x div 2 ^ k = a div 2 ^ k"
proof -
  assume "2 ^ k dvd a" "x \<in> {a..<a + 2 ^ k}"
  then obtain c d where "a = 2 ^ k * c" "x = a + d" "d < 2 ^ k"
    by (metis atLeastLessThan_iff dvdE le_Suc_ex nat_add_left_cancel_less)
  then show ?thesis by simp
qed

lemma aligned_unique:
  assumes "(2::nat) ^ k dvd a" "2 ^ k dvd b" "x \<in> {a..<a + 2 ^ k}" "x \<in> {b..<b + 2 ^ k}"
  shows "a = b"
  using assms aligned_div [of k a x] aligned_div [of k b x]
  by (metis dvd_div_mult_self)

lemma bit_aligned: "(2::nat) ^ k dvd a \<Longrightarrow> bit a k \<longleftrightarrow> odd (a div 2 ^ k)"
  by (simp add: bit_nat_def)

text \<open>Flipping bit \<open>k\<close> of a \<open>2 ^ k\<close>-aligned number moves to the other half of the
  \<open>2 ^ Suc k\<close>-aligned block.\<close>

lemma flip_aligned:
  fixes a :: nat
  assumes "2 ^ k dvd a"
  shows "a XOR 2 ^ k = (if odd (a div 2 ^ k) then a - 2 ^ k else a + 2 ^ k)"
proof -
  obtain c where a: "a = c * 2 ^ k" using assms by (metis dvd_def mult.commute)
  have "a XOR 2 ^ k = push_bit k c XOR push_bit k 1"
    by (simp add: a push_bit_eq_mult)
  also have "\<dots> = push_bit k (c XOR 1)" by (simp add: push_bit_xor)
  also have "c XOR 1 = (if odd c then c - 1 else c + 1)"
    using xor_Suc_0_eq [of c] by auto
  finally show ?thesis by (simp add: a push_bit_eq_mult diff_mult_distrib)
qed

lemma flip_aligned_facts:
  fixes a :: nat
  assumes al: "2 ^ k dvd a"
  defines "b \<equiv> a XOR 2 ^ k"
  shows "2 ^ k dvd b" "2 ^ Suc k dvd min a b" "max a b = min a b + 2 ^ k"
    "{min a b..<min a b + 2 ^ Suc k} = {a..<a + 2 ^ k} \<union> {b..<b + 2 ^ k}"
    "{a..<a + 2 ^ k} \<inter> {b..<b + 2 ^ k} = {}"
proof -
  obtain c where a: "a = c * 2 ^ k" using al by (metis dvd_def mult.commute)
  have b: "b = (if odd c then a - 2 ^ k else a + 2 ^ k)"
    using flip_aligned [OF al] a by (simp add: b_def)
  show "2 ^ k dvd b" using al b by simp
  have le: "odd c \<Longrightarrow> 2 ^ k \<le> a" using a by (cases c) auto
  then show m: "max a b = min a b + 2 ^ k" using b by (auto simp: min_def max_def)
  show "2 ^ Suc k dvd min a b"
  proof (cases "odd c")
    case True
    then obtain d where "c = 2 * d + 1" by (auto elim: oddE)
    then have "min a b = d * 2 ^ Suc k" using b a by (simp add: algebra_simps)
    then show ?thesis by simp
  next
    case False
    then obtain d where "c = 2 * d" by (auto elim: evenE)
    then have "min a b = d * 2 ^ Suc k" using b a by simp
    then show ?thesis by simp
  qed
  show "{min a b..<min a b + 2 ^ Suc k} = {a..<a + 2 ^ k} \<union> {b..<b + 2 ^ k}"
    "{a..<a + 2 ^ k} \<inter> {b..<b + 2 ^ k} = {}"
    using m le b by (auto simp: min_def max_def split: if_splits)
qed

section \<open>The invariant\<close>

definition base_frame :: "phys_mem_pool \<Rightarrow> nat" where
  "base_frame p = unat (pool_start_addr p) div 4096"

definition pool_geometry :: "phys_mem_pool \<Rightarrow> bool" where
  "pool_geometry p \<longleftrightarrow> 4096 dvd unat (pool_start_addr p) \<and>
     pool_mem_size p = pool_phys_page_num p * BUDDY_PAGE_SIZE \<and>
     unat (pool_start_addr p) + npages p * 4096 < 2 ^ 64"

text \<open>Pages \<open>b ..< b + 2 ^ k\<close> form one chunk: aligned by physical frame number, inside the
  pool, and every page of it carries the chunk's order and state.\<close>

definition is_chunk :: "phys_mem_pool \<Rightarrow> nat \<Rightarrow> nat \<Rightarrow> bool \<Rightarrow> bool" where
  "is_chunk p b k al \<longleftrightarrow> 2 ^ k dvd base_frame p + b \<and> b + 2 ^ k \<le> npages p \<and> k < BUDDY_MAX_ORDER \<and>
     (\<forall>j \<in> {b..<b + 2 ^ k}. order (page_metadata p j) = k \<and> allocated (page_metadata p j) = al)"

definition chunks_ok :: "phys_mem_pool \<Rightarrow> bool" where
  "chunks_ok p \<longleftrightarrow> (\<forall>i < npages p. page_pool (page_metadata p i) \<and>
     (\<exists>b. i \<in> {b..<b + 2 ^ order (page_metadata p i)} \<and>
       is_chunk p b (order (page_metadata p i)) (allocated (page_metadata p i))))"

definition free_heads :: "phys_mem_pool \<Rightarrow> nat \<Rightarrow> nat set" where
  "free_heads p k = {b. b < npages p \<and> \<not> allocated (page_metadata p b) \<and>
     order (page_metadata p b) = k \<and> 2 ^ k dvd base_frame p + b}"

text \<open>The free lists hold the heads of the free chunks, except those in \<open>X\<close> (a chunk that
  is being freed is not linked yet).\<close>

definition lists_ok :: "nat set \<Rightarrow> phys_mem_pool \<Rightarrow> bool" where
  "lists_ok X p \<longleftrightarrow> (\<forall>k < BUDDY_MAX_ORDER. distinct (fl_nodes (free_lists p k)) \<and>
     set (fl_nodes (free_lists p k)) = free_heads p k - X \<and>
     nr_free (free_lists p k) = of_nat (length (fl_nodes (free_lists p k))))"

definition buddy_inv_except :: "nat set \<Rightarrow> phys_mem_pool \<Rightarrow> bool" where
  "buddy_inv_except X p \<longleftrightarrow> pool_geometry p \<and> chunks_ok p \<and> lists_ok X p"

definition buddy_inv :: "phys_mem_pool \<Rightarrow> bool" where
  "buddy_inv p \<longleftrightarrow> buddy_inv_except {} p"

definition free_pages_of :: "phys_mem_pool \<Rightarrow> nat set" where
  "free_pages_of p = {i. i < npages p \<and> \<not> allocated (page_metadata p i)}"

lemmas inv_defs = buddy_inv_except_def pool_geometry_def

lemma npages_bound: "pool_geometry p \<Longrightarrow> npages p < 2 ^ 52"
  by (simp add: pool_geometry_def)

lemma base_frame_mult: "pool_geometry p \<Longrightarrow> base_frame p * 4096 = unat (pool_start_addr p)"
  by (simp add: pool_geometry_def base_frame_def)

lemma is_chunk_of_page:
  assumes "chunks_ok p" "i < npages p" "order (page_metadata p i) = k"
  shows "\<exists>b. i \<in> {b..<b + 2 ^ k} \<and> is_chunk p b k (allocated (page_metadata p i))"
  using assms unfolding chunks_ok_def by meson

lemma is_chunk_head:
  assumes "chunks_ok p" "i < npages p" "order (page_metadata p i) = k" "2 ^ k dvd base_frame p + i"
  shows "is_chunk p i k (allocated (page_metadata p i))"
proof -
  obtain b where b: "i \<in> {b..<b + 2 ^ k}" "is_chunk p b k (allocated (page_metadata p i))"
    using is_chunk_of_page [OF assms(1-3)] by (elim exE conjE)
  have "base_frame p + b = base_frame p + i"
  proof (rule aligned_unique [where x = "base_frame p + i"])
    show "2 ^ k dvd base_frame p + b" using b(2) by (simp add: is_chunk_def)
    show "2 ^ k dvd base_frame p + i" by (rule assms(4))
    show "base_frame p + i \<in> {base_frame p + b..<base_frame p + b + 2 ^ k}" using b(1) by simp
    show "base_frame p + i \<in> {base_frame p + i..<base_frame p + i + 2 ^ k}" by simp
  qed
  then have "b = i" by simp
  with b(2) show ?thesis by simp
qed

text \<open>Two chunks that share a page are the same chunk.\<close>

lemma is_chunk_disjoint:
  assumes "is_chunk p b k al" "is_chunk p b' k' al'" "x \<in> {b..<b + 2 ^ k}" "x \<in> {b'..<b' + 2 ^ k'}"
  shows "b = b' \<and> k = k'"
proof -
  have "order (page_metadata p x) = k" "order (page_metadata p x) = k'"
    using assms unfolding is_chunk_def by blast+
  then have k: "k = k'" by simp
  have "base_frame p + b = base_frame p + b'"
  proof (rule aligned_unique)
    show "2 ^ k dvd base_frame p + b" "2 ^ k dvd base_frame p + b'"
      using assms(1,2) k by (simp_all add: is_chunk_def)
    show "base_frame p + x \<in> {base_frame p + b..<base_frame p + b + 2 ^ k}"
      "base_frame p + x \<in> {base_frame p + b'..<base_frame p + b' + 2 ^ k}"
      using assms(3,4) k by simp_all
  qed
  with k show ?thesis by simp
qed

section \<open>Addresses\<close>

lemma page_addr_unat:
  assumes "pool_geometry p" "i < npages p"
  shows "unat (of_nat i * BUDDY_PAGE_SIZE + pool_start_addr p) = (base_frame p + i) * 4096"
proof -
  have i: "i * 4096 + unat (pool_start_addr p) < 2 ^ 64"
    using assms by (simp add: pool_geometry_def)
  have eq: "of_nat i * BUDDY_PAGE_SIZE + pool_start_addr p = of_nat (i * 4096 + unat (pool_start_addr p))"
    by (simp add: BUDDY_PAGE_SIZE_def)
  have "unat (of_nat i * BUDDY_PAGE_SIZE + pool_start_addr p) = i * 4096 + unat (pool_start_addr p)"
    unfolding eq by (rule unat_of_nat_small) (use i in simp)
  then show ?thesis using base_frame_mult [OF assms(1)] by (simp add: algebra_simps)
qed

lemma pool_end_unat:
  assumes "pool_geometry p"
  shows "unat (pool_start_addr p + pool_mem_size p) = (base_frame p + npages p) * 4096"
proof -
  have eq: "pool_start_addr p + pool_mem_size p = of_nat (unat (pool_start_addr p) + npages p * 4096)"
    using assms by (simp add: pool_geometry_def BUDDY_PAGE_SIZE_def)
  have "unat (pool_start_addr p + pool_mem_size p) = unat (pool_start_addr p) + npages p * 4096"
    unfolding eq by (rule unat_of_nat_small) (use assms in \<open>simp add: pool_geometry_def\<close>)
  then show ?thesis using base_frame_mult [OF assms] by (simp add: algebra_simps)
qed

lemma virt_to_page_eq:
  assumes "pool_geometry p" "unat a = f * 4096 + r" "r < 4096"
  shows "virt_to_page p a =
    (if base_frame p \<le> f \<and> f < base_frame p + npages p then Inr (f - base_frame p) else Inl Bug)"
proof -
  have le: "pool_start_addr p \<le> a \<longleftrightarrow> base_frame p \<le> f"
    using assms base_frame_mult [OF assms(1)] by (auto simp: word_le_nat_alt)
  have lt: "a < pool_start_addr p + pool_mem_size p \<longleftrightarrow> f < base_frame p + npages p"
    using assms pool_end_unat [OF assms(1)] by (auto simp: word_less_nat_alt)
  have "unat ((a - pool_start_addr p) div BUDDY_PAGE_SIZE) = f - base_frame p" if "base_frame p \<le> f"
  proof -
    have "unat (a - pool_start_addr p) = unat a - unat (pool_start_addr p)"
      using that le by (simp add: unat_sub)
    also have "\<dots> = (f - base_frame p) * 4096 + r"
      using that assms base_frame_mult [OF assms(1)] by (simp add: diff_mult_distrib)
    finally show ?thesis using assms(3) by (simp add: unat_div BUDDY_PAGE_SIZE_def)
  qed
  with le lt show ?thesis by (auto simp: virt_to_page_def BUG_ON_def)
qed

lemma page_to_virt_eq:
  "chunks_ok p \<Longrightarrow> i < npages p \<Longrightarrow>
   page_to_virt p i = Inr (of_nat i * BUDDY_PAGE_SIZE + pool_start_addr p)"
  by (simp add: page_to_virt_def get_page_def chunks_ok_def)

lemma get_buddy_chunk_eq:
  assumes g: "pool_geometry p" and c: "chunks_ok p" and i: "i < npages p"
    and k: "k = order (page_metadata p i)" "k < BUDDY_MAX_ORDER"
  defines "B \<equiv> (base_frame p + i) XOR 2 ^ k"
  shows "get_buddy_chunk p i = Inr (if base_frame p \<le> B \<and> B < base_frame p + npages p
      then Some (B - base_frame p) else None)"
proof -
  define a where "a = of_nat i * BUDDY_PAGE_SIZE + pool_start_addr p"
  define b where "b = a XOR push_bit (k + BUDDY_PAGE_SIZE_ORDER) 1"
  have two: "unat (push_bit (k + 12) (1 :: u64)) = 2 ^ k * 4096"
    using k(2) unat_power_small [of "k + 12"]
    by (simp add: BUDDY_MAX_ORDER_def push_bit_eq_mult power_add)
  have "unat b = push_bit 12 (base_frame p + i) XOR push_bit 12 (2 ^ k)"
    using two by (simp add: b_def unsigned_xor_eq BUDDY_PAGE_SIZE_ORDER_def a_def page_addr_unat [OF g i]
        push_bit_eq_mult)
  then have "unat b = push_bit 12 B" by (simp only: B_def push_bit_xor)
  then have ub: "unat b = B * 4096 + 0" by (simp add: push_bit_eq_mult)
  have lt: "b < pool_start_addr p \<longleftrightarrow> B < base_frame p"
    using ub base_frame_mult [OF g] by (auto simp: word_less_nat_alt)
  have ge: "pool_start_addr p + pool_mem_size p \<le> b \<longleftrightarrow> base_frame p + npages p \<le> B"
    using ub pool_end_unat [OF g] by (auto simp: word_le_nat_alt)
  have "get_buddy_chunk p i = (if b < pool_start_addr p \<or> pool_start_addr p + pool_mem_size p \<le> b
      then Inr None else bindR (virt_to_page p b) (\<lambda>b. Inr (Some b)))"
    by (simp add: get_buddy_chunk_def page_to_virt_eq [OF c i] get_page_def i Let_def k(1) b_def a_def)
  then show ?thesis using lt ge virt_to_page_eq [OF g ub] by auto
qed

section \<open>Re-marking a block of whole chunks\<close>

definition covers :: "phys_mem_pool \<Rightarrow> nat \<Rightarrow> nat \<Rightarrow> bool" where
  "covers p b k \<longleftrightarrow> (\<forall>c m al. is_chunk p c m al \<longrightarrow>
     {c..<c + 2 ^ m} \<inter> {b..<b + 2 ^ k} = {} \<or> {c..<c + 2 ^ m} \<subseteq> {b..<b + 2 ^ k})"

definition remarked :: "nat \<Rightarrow> nat \<Rightarrow> nat \<Rightarrow> bool \<Rightarrow> phys_mem_pool \<Rightarrow> phys_mem_pool \<Rightarrow> bool" where
  "remarked b k j al p p' \<longleftrightarrow>
     page_metadata p' = (\<lambda>x. if b \<le> x \<and> x < b + 2 ^ k
       then (page_metadata p x)\<lparr>order := j, allocated := al\<rparr> else page_metadata p x) \<and>
     pool_start_addr p' = pool_start_addr p \<and> pool_mem_size p' = pool_mem_size p \<and>
     pool_phys_page_num p' = pool_phys_page_num p \<and> nr_free_past_end p' = nr_free_past_end p"

lemma covers_chunk:
  assumes "is_chunk p b k al"
  shows "covers p b k"
  using is_chunk_disjoint [OF _ assms] unfolding covers_def by (metis disjoint_iff subset_refl)

lemma covers_union:
  assumes "covers p b k" "covers p c k" "{m..<m + 2 ^ Suc k} = {b..<b + 2 ^ k} \<union> {c..<c + 2 ^ k}"
  shows "covers p m (Suc k)"
  using assms unfolding covers_def by (metis (no_types) Int_Un_distrib Un_empty le_supI1 le_supI2)

lemma remarked_base:
  "remarked b k j al p p' \<Longrightarrow> base_frame p' = base_frame p"
  "remarked b k j al p p' \<Longrightarrow> pool_phys_page_num p' = pool_phys_page_num p"
  by (simp_all add: remarked_def base_frame_def)

lemma remarked_geometry: "remarked b k j al p p' \<Longrightarrow> pool_geometry p \<Longrightarrow> pool_geometry p'"
  by (simp add: remarked_def pool_geometry_def)

lemma remarked_in:
  "remarked b k j al p p' \<Longrightarrow> x \<in> {b..<b + 2 ^ k} \<Longrightarrow>
   page_metadata p' x = (page_metadata p x)\<lparr>order := j, allocated := al\<rparr>"
  by (simp add: remarked_def)

lemma remarked_out:
  "remarked b k j al p p' \<Longrightarrow> x \<notin> {b..<b + 2 ^ k} \<Longrightarrow> page_metadata p' x = page_metadata p x"
  by (auto simp: remarked_def)

lemma sub_block:
  fixes S :: nat
  assumes "2 ^ k dvd S + b" "j \<le> k" "i \<in> {b..<b + 2 ^ k}"
  obtains c where "2 ^ j dvd S + c" "i \<in> {c..<c + 2 ^ j}" "b \<le> c" "c + 2 ^ j \<le> b + 2 ^ k"
proof -
  obtain u where u: "S + b = u * 2 ^ j"
    using assms(1,2) by (metis dvd_def dvd_trans le_imp_power_dvd mult.commute)
  obtain w where w: "(2::nat) ^ k = w * 2 ^ j"
    using assms(2) by (metis dvd_def le_imp_power_dvd mult.commute)
  define q where "q = (S + i) div 2 ^ j"
  have "(S + i) mod 2 ^ j < 2 ^ j" by simp
  then have q: "q * 2 ^ j \<le> S + i" "S + i < Suc q * 2 ^ j"
    using div_mult_mod_eq [of "S + i" "2 ^ j"] unfolding q_def mult_Suc by linarith+
  have "u \<le> q" using assms(3) u by (simp add: q_def less_eq_div_iff_mult_less_eq)
  then have lo: "S + b \<le> q * 2 ^ j" using u by simp
  have "q * 2 ^ j < (u + w) * 2 ^ j" using q assms(3) u w by (simp add: add_mult_distrib)
  then have "Suc q * 2 ^ j \<le> (u + w) * 2 ^ j" by (intro mult_le_mono1) (simp add: Suc_le_eq)
  then have hi: "q * 2 ^ j + 2 ^ j \<le> S + b + 2 ^ k" using u w by (simp add: add_mult_distrib)
  define c where "c = q * 2 ^ j - S"
  have c: "S + c = q * 2 ^ j" using lo by (simp add: c_def)
  show thesis
  proof (rule that)
    show "2 ^ j dvd S + c" using c by simp
    show "i \<in> {c..<c + 2 ^ j}" using c q by auto
    show "b \<le> c" "c + 2 ^ j \<le> b + 2 ^ k" using c lo hi by linarith+
  qed
qed

lemma remarked_chunks_ok:
  assumes ok: "chunks_ok p" and cov: "covers p b k"
    and b: "2 ^ k dvd base_frame p + b" "b + 2 ^ k \<le> npages p" "k < BUDDY_MAX_ORDER" "j \<le> k"
    and rm: "remarked b k j al p p'"
  shows "chunks_ok p'"
  unfolding chunks_ok_def
proof (intro allI impI)
  fix i assume i: "i < npages p'"
  then have ip: "i < npages p" using remarked_base(2) [OF rm] by simp
  show "page_pool (page_metadata p' i) \<and> (\<exists>c. i \<in> {c..<c + 2 ^ order (page_metadata p' i)} \<and>
       is_chunk p' c (order (page_metadata p' i)) (allocated (page_metadata p' i)))"
  proof (cases "i \<in> {b..<b + 2 ^ k}")
    case True
    obtain c where c: "2 ^ j dvd base_frame p + c" "i \<in> {c..<c + 2 ^ j}" "b \<le> c" "c + 2 ^ j \<le> b + 2 ^ k"
      by (rule sub_block [OF b(1,4) True])
    have "is_chunk p' c j al"
      unfolding is_chunk_def
    proof (intro conjI ballI)
      show "2 ^ j dvd base_frame p' + c" using c(1) remarked_base [OF rm] by simp
      show "c + 2 ^ j \<le> npages p'" using c(4) b(2) remarked_base [OF rm] by simp
      show "j < BUDDY_MAX_ORDER" using b(3,4) by simp
    next
      fix x assume "x \<in> {c..<c + 2 ^ j}"
      then have "x \<in> {b..<b + 2 ^ k}" using c(3,4) by simp
      then show "order (page_metadata p' x) = j" "allocated (page_metadata p' x) = al"
        using remarked_in [OF rm] by simp_all
    qed
    moreover have "page_pool (page_metadata p' i)" "order (page_metadata p' i) = j"
      "allocated (page_metadata p' i) = al"
      using ok ip remarked_in [OF rm True] by (simp_all add: chunks_ok_def)
    ultimately show ?thesis using c(2) by auto
  next
    case False
    define m where "m = order (page_metadata p i)"
    obtain c where c: "i \<in> {c..<c + 2 ^ m}" "is_chunk p c m (allocated (page_metadata p i))"
      using is_chunk_of_page [OF ok ip m_def [symmetric]] by (elim exE conjE)
    then have "{c..<c + 2 ^ m} \<inter> {b..<b + 2 ^ k} = {}"
      using cov False unfolding covers_def by blast
    then have same: "\<forall>x \<in> {c..<c + 2 ^ m}. page_metadata p' x = page_metadata p x"
      using remarked_out [OF rm] by blast
    then have "is_chunk p' c m (allocated (page_metadata p i))"
      using c(2) remarked_base [OF rm] by (simp add: is_chunk_def)
    with c(1) remarked_out [OF rm False] ok ip show ?thesis
      unfolding m_def chunks_ok_def by auto
  qed
qed

lemma remarked_free_heads:
  assumes "remarked b k j al p p'" "b + 2 ^ k \<le> npages p"
  shows "free_heads p' m = (free_heads p m - {b..<b + 2 ^ k}) \<union>
    {x \<in> {b..<b + 2 ^ k}. \<not> al \<and> m = j \<and> 2 ^ j dvd base_frame p + x}"
proof (rule set_eqI)
  fix x
  show "x \<in> free_heads p' m \<longleftrightarrow> x \<in> (free_heads p m - {b..<b + 2 ^ k}) \<union>
    {x \<in> {b..<b + 2 ^ k}. \<not> al \<and> m = j \<and> 2 ^ j dvd base_frame p + x}"
    using assms(2) remarked_base [OF assms(1)] remarked_in [OF assms(1), of x]
      remarked_out [OF assms(1), of x]
    by (cases "x \<in> {b..<b + 2 ^ k}") (auto simp: free_heads_def)
qed

lemma head_of_block:
  assumes "2 ^ k dvd base_frame p + b"
  shows "{x \<in> {b..<b + 2 ^ k}. 2 ^ k dvd base_frame p + x} = {b}"
proof -
  have "x = b" if "x \<in> {b..<b + 2 ^ k}" "2 ^ k dvd base_frame p + x" for x
    using aligned_unique [OF assms that(2), of "base_frame p + x"] that(1) by auto
  then show ?thesis using assms by auto
qed

lemma chunk_head_unique:
  assumes c: "is_chunk p b k al" and x: "x \<in> {b..<b + 2 ^ k}" "x \<in> free_heads p m"
  shows "m = k \<and> x = b"
proof -
  have "m = k" using assms by (auto simp: is_chunk_def free_heads_def)
  moreover have al: "2 ^ k dvd base_frame p + b" using c by (simp add: is_chunk_def)
  moreover have "x \<in> {x \<in> {b..<b + 2 ^ k}. 2 ^ k dvd base_frame p + x}"
    using x \<open>m = k\<close> by (simp add: free_heads_def)
  ultimately show ?thesis unfolding head_of_block [OF al] by simp
qed

lemma heads_of_halves:
  assumes "2 ^ Suc k dvd base_frame p + b"
  shows "{x \<in> {b..<b + 2 ^ Suc k}. 2 ^ k dvd base_frame p + x} = {b, b + 2 ^ k}"
proof -
  have al: "2 ^ k dvd base_frame p + b" using assms by (rule dvd_trans [rotated]) simp
  then have al2: "2 ^ k dvd base_frame p + (b + 2 ^ k)" by (simp add: add.assoc [symmetric])
  have "{b..<b + 2 ^ Suc k} = {b..<b + 2 ^ k} \<union> {b + 2 ^ k..<b + 2 ^ k + 2 ^ k}" by auto
  then show ?thesis using head_of_block [OF al] head_of_block [OF al2] by blast
qed

section \<open>Free-list bookkeeping\<close>

lemma find_upt_unique:
  assumes "m < n" "P m" "\<And>m'. m' < n \<Longrightarrow> P m' \<Longrightarrow> m' = m"
  shows "find P [0..<n] = Some m"
proof -
  have "find P [0..<n] \<noteq> None" using assms(1,2) by (auto simp: find_None_iff)
  then obtain x where x: "find P [0..<n] = Some x" by auto
  then have "x < n" "P x" by (auto simp: find_Some_iff)
  with assms(3) x show ?thesis by simp
qed

lemma free_heads_order: "x \<in> free_heads p k \<Longrightarrow> order (page_metadata p x) = k"
  by (simp add: free_heads_def)

lemma lists_ok_set: "lists_ok X p \<Longrightarrow> k < BUDDY_MAX_ORDER \<Longrightarrow>
  set (fl_nodes (free_lists p k)) = free_heads p k - X"
  by (simp add: lists_ok_def)

lemma page_list_del_eq:
  assumes ok: "lists_ok X p" and x: "x \<in> free_heads p k" "x \<notin> X" "k < BUDDY_MAX_ORDER"
    and fl: "free_lists q = free_lists p"
  shows "page_list_del x q = Inr (q\<lparr>free_lists := (free_lists p)(k := (free_lists p k)
      \<lparr>fl_nodes := removeAll x (fl_nodes (free_lists p k))\<rparr>)\<rparr>)"
proof -
  have "find (\<lambda>k. x \<in> set (fl_nodes (free_lists p k))) [0..<BUDDY_MAX_ORDER] = Some k"
  proof (rule find_upt_unique)
    show "k < BUDDY_MAX_ORDER" by (rule x(3))
    show "x \<in> set (fl_nodes (free_lists p k))" using lists_ok_set [OF ok x(3)] x(1,2) by simp
  next
    fix m assume "m < BUDDY_MAX_ORDER" "x \<in> set (fl_nodes (free_lists p m))"
    then have "x \<in> free_heads p m" using lists_ok_set [OF ok] by simp
    then show "m = k" using x(1) free_heads_order by blast
  qed
  then show ?thesis using x(3) fl by (simp add: page_list_del_def upd_free_list_def)
qed

lemma nodes_length_remove:
  "distinct xs \<Longrightarrow> x \<in> set xs \<Longrightarrow> of_nat (length (removeAll x xs)) = (of_nat (length xs) - 1 :: u64)"
  by (cases "length xs") (simp_all add: distinct_remove1_removeAll [symmetric] length_remove1)

text \<open>A new family of lists is right when each list is.\<close>

lemma lists_okI:
  assumes "\<And>k. k < BUDDY_MAX_ORDER \<Longrightarrow> distinct (fl_nodes (free_lists p k)) \<and>
     set (fl_nodes (free_lists p k)) = free_heads p k - X \<and>
     nr_free (free_lists p k) = of_nat (length (fl_nodes (free_lists p k)))"
  shows "lists_ok X p"
  using assms by (simp add: lists_ok_def)

lemma lists_okD:
  assumes "lists_ok X p" "k < BUDDY_MAX_ORDER"
  shows "distinct (fl_nodes (free_lists p k))" "set (fl_nodes (free_lists p k)) = free_heads p k - X"
    "nr_free (free_lists p k) = of_nat (length (fl_nodes (free_lists p k)))"
  using assms by (simp_all add: lists_ok_def)

section \<open>Splitting\<close>

lemma split_step_eq:
  assumes ok: "lists_ok {} p" and f: "first \<in> free_heads p (Suc k)" "Suc k < BUDDY_MAX_ORDER"
    and rng: "first + 2 ^ Suc k \<le> npages p"
  shows "\<exists>p'. split_step first k p = Inr p' \<and> remarked first (Suc k) k False p p' \<and>
    free_lists p' = (free_lists p)
      (Suc k := \<lparr>fl_nodes = removeAll first (fl_nodes (free_lists p (Suc k))),
                nr_free = nr_free (free_lists p (Suc k)) - 1\<rparr>,
       k := \<lparr>fl_nodes = (first + 2 ^ k) # first # fl_nodes (free_lists p k),
             nr_free = nr_free (free_lists p k) + 2\<rparr>)"
proof -
  obtain p1 where m1: "mark_pages first k False (2 ^ k) p = Inr p1"
    using mark_pages_defined [of first "2 ^ k" p] rng by auto
  note p1 = mark_pages_eq [OF m1]
  have d: "page_list_del first p1 = Inr (p1\<lparr>free_lists := (free_lists p)(Suc k := (free_lists p (Suc k))
      \<lparr>fl_nodes := removeAll first (fl_nodes (free_lists p (Suc k)))\<rparr>)\<rparr>)" (is "_ = Inr ?p2")
    using page_list_del_eq [OF ok f(1) _ f(2), of p1] p1 by simp
  obtain p3 where a1: "page_list_add first k ?p2 = Inr p3"
    using f(2) by (simp add: page_list_add_def upd_free_list_def)
  have p3: "npages p3 = npages p"
    using upd_free_list_frame [OF a1 [unfolded page_list_add_def]] p1 by simp
  obtain p4 where m2: "mark_pages (first + 2 ^ k) k False (2 ^ k) p3 = Inr p4"
    using mark_pages_defined [of "first + 2 ^ k" "2 ^ k" p3] rng p3 by auto
  note p4 = mark_pages_eq [OF m2]
  obtain p5 where a2: "page_list_add (first + 2 ^ k) k p4 = Inr p5"
    using f(2) by (simp add: page_list_add_def upd_free_list_def)
  obtain p6 where n1: "add_nr_free (Suc k) (- 1) p5 = Inr p6"
    using f(2) by (simp add: add_nr_free_def upd_free_list_def)
  obtain p7 where n2: "add_nr_free k 2 p6 = Inr p7"
    using f(2) by (simp add: add_nr_free_def upd_free_list_def)
  have run: "split_step first k p = Inr p7"
    by (simp add: split_step_def Let_def set_free_page_def m1 d a1 m2 a2 n1 n2)
  have lists: "free_lists p7 = (free_lists p)
      (Suc k := \<lparr>fl_nodes = removeAll first (fl_nodes (free_lists p (Suc k))),
                nr_free = nr_free (free_lists p (Suc k)) - 1\<rparr>,
       k := \<lparr>fl_nodes = (first + 2 ^ k) # first # fl_nodes (free_lists p k),
             nr_free = nr_free (free_lists p k) + 2\<rparr>)"
    using a1 a2 n1 n2 p4 f(2)
    by (auto simp: page_list_add_def add_nr_free_def upd_free_list_def fun_eq_iff)
  show ?thesis
    using run lists split_step_metadata [OF run] by (auto simp: remarked_def)
qed

text \<open>How an operation treats the pages it does not hand out or take back: pages that are
  allocated keep their metadata, and the slab and pool fields of all pages stay.\<close>

definition frame_except :: "nat set \<Rightarrow> phys_mem_pool \<Rightarrow> phys_mem_pool \<Rightarrow> bool" where
  "frame_except A p p' \<longleftrightarrow>
     pool_start_addr p' = pool_start_addr p \<and> pool_mem_size p' = pool_mem_size p \<and>
     pool_phys_page_num p' = pool_phys_page_num p \<and> nr_free_past_end p' = nr_free_past_end p \<and>
     (\<forall>j. slab (page_metadata p' j) = slab (page_metadata p j) \<and>
          page_pool (page_metadata p' j) = page_pool (page_metadata p j)) \<and>
     (\<forall>j. j \<notin> A \<and> allocated (page_metadata p j) \<longrightarrow> page_metadata p' j = page_metadata p j)"

lemma frame_refl [simp]: "frame_except A p p"
  by (simp add: frame_except_def)

lemma frame_trans:
  "frame_except A p q \<Longrightarrow> frame_except B q r \<Longrightarrow> A \<subseteq> C \<Longrightarrow> B \<subseteq> C \<Longrightarrow> frame_except C p r"
  unfolding frame_except_def by (metis subsetD)

lemma remarked_frame:
  assumes "remarked b k j al p p'"
    "\<And>x. x \<in> {b..<b + 2 ^ k} \<Longrightarrow> allocated (page_metadata p x) \<Longrightarrow> x \<in> A"
  shows "frame_except A p p'"
  using assms by (auto simp: remarked_def frame_except_def)

lemma free_head_chunk:
  assumes "chunks_ok p" "b \<in> free_heads p k"
  shows "is_chunk p b k False"
  using is_chunk_head [OF assms(1), of b k] assms(2) by (simp add: free_heads_def)

lemma split_step_inv:
  assumes inv: "buddy_inv p" and f: "first \<in> free_heads p (Suc k)"
  shows "\<exists>p'. split_step first k p = Inr p' \<and> buddy_inv p' \<and> first \<in> free_heads p' k \<and>
    frame_except {} p p' \<and> free_pages_of p' = free_pages_of p"
proof -
  have ok: "lists_ok {} p" and ch: "chunks_ok p" and g: "pool_geometry p"
    using inv by (simp_all add: buddy_inv_def buddy_inv_except_def)
  have c: "is_chunk p first (Suc k) False" using free_head_chunk [OF ch f] .
  then have k: "Suc k < BUDDY_MAX_ORDER" and rng: "first + 2 ^ Suc k \<le> npages p"
    and al: "2 ^ Suc k dvd base_frame p + first"
    and free: "\<forall>j\<in>{first..<first + 2 ^ Suc k}. order (page_metadata p j) = Suc k \<and> \<not> allocated (page_metadata p j)"
    by (auto simp: is_chunk_def)
  obtain p' where run: "split_step first k p = Inr p'" and rm: "remarked first (Suc k) k False p p'"
    and fl: "free_lists p' = (free_lists p)
      (Suc k := \<lparr>fl_nodes = removeAll first (fl_nodes (free_lists p (Suc k))),
                nr_free = nr_free (free_lists p (Suc k)) - 1\<rparr>,
       k := \<lparr>fl_nodes = (first + 2 ^ k) # first # fl_nodes (free_lists p k),
             nr_free = nr_free (free_lists p k) + 2\<rparr>)"
    using split_step_eq [OF ok f k rng] by (elim exE conjE)
  have ch': "chunks_ok p'"
    using remarked_chunks_ok [OF ch covers_chunk [OF c] al rng k _ rm] by simp
  let ?B = "{first..<first + 2 ^ Suc k}"
  have heads: "free_heads p' m = (free_heads p m - ?B) \<union> (if m = k then {first, first + 2 ^ k} else {})" for m
    using remarked_free_heads [OF rm rng, of m] heads_of_halves [OF al] by (cases "m = k") simp_all
  note inB = chunk_head_unique [OF c]
  have fB: "first \<in> ?B" by simp
  have eqs: "free_heads p' (Suc k) = free_heads p (Suc k) - {first}"
    "free_heads p' k = insert (first + 2 ^ k) (insert first (free_heads p k))"
    "m \<noteq> Suc k \<Longrightarrow> m \<noteq> k \<Longrightarrow> free_heads p' m = free_heads p m" for m
    using inB f fB by (auto simp: heads simp del: power_Suc atLeastLessThan_iff)
  have new: "first \<notin> free_heads p k" "first + 2 ^ k \<notin> free_heads p k"
    using inB [of first k] inB [of "first + 2 ^ k" k] by auto
  have "lists_ok {} p'"
  proof (rule lists_okI)
    fix m assume m: "m < BUDDY_MAX_ORDER"
    note M = lists_okD [OF ok m]
    consider "m = Suc k" | "m = k" | "m \<noteq> Suc k" "m \<noteq> k" by blast
    then show "distinct (fl_nodes (free_lists p' m)) \<and>
      set (fl_nodes (free_lists p' m)) = free_heads p' m - {} \<and>
      nr_free (free_lists p' m) = of_nat (length (fl_nodes (free_lists p' m)))"
    proof cases
      case 1
      then show ?thesis
        using M f eqs(1) nodes_length_remove [OF M(1), of first] by (simp add: fl distinct_removeAll)
    next
      case 2
      then show ?thesis using M new eqs(2) by (simp add: fl)
    next
      case 3
      then show ?thesis using M eqs(3) by (simp add: fl)
    qed
  qed
  then have "buddy_inv p'"
    using ch' remarked_geometry [OF rm g] by (simp add: buddy_inv_def buddy_inv_except_def)
  moreover have "frame_except {} p p'" using remarked_frame [OF rm] free by auto
  moreover have "free_pages_of p' = free_pages_of p"
    using rm free by (auto simp: free_pages_of_def remarked_def)
  ultimately show ?thesis using run heads [of k] by auto
qed

lemma split_page_spec:
  "buddy_inv p \<Longrightarrow> page \<in> free_heads p m \<Longrightarrow> k \<le> m \<Longrightarrow>
   \<exists>p'. split_page k page p = Inr (page, p') \<and> buddy_inv p' \<and> page \<in> free_heads p' k \<and>
     frame_except {} p p' \<and> free_pages_of p' = free_pages_of p"
proof (induction m arbitrary: p)
  case 0
  then have "split_page k page p = Inr (page, p)"
    by (subst split_page.simps) (simp add: get_page_def free_heads_def)
  with 0 show ?case by simp
next
  case (Suc m)
  have pg: "get_page p page = Inr (page_metadata p page)" "order (page_metadata p page) = Suc m"
    using Suc.prems by (simp_all add: get_page_def free_heads_def)
  show ?case
  proof (cases "k = Suc m")
    case True
    then have "split_page k page p = Inr (page, p)" using pg by (subst split_page.simps) simp
    with True Suc.prems show ?thesis by simp
  next
    case False
    obtain q where q: "split_step page m p = Inr q" "buddy_inv q" "page \<in> free_heads q m"
      "frame_except {} p q" "free_pages_of q = free_pages_of p"
      using split_step_inv [OF Suc.prems(1,2)] by (elim exE conjE)
    obtain p' where "split_page k page q = Inr (page, p')" "buddy_inv p'" "page \<in> free_heads p' k"
      "frame_except {} q p'" "free_pages_of p' = free_pages_of q"
      using Suc.IH [OF q(2,3)] False Suc.prems(3) by auto
    moreover have "split_page k page p = split_page k page q"
      using q(1) pg False by (subst split_page.simps) simp
    ultimately show ?thesis using q(5) frame_trans [OF q(4), of "{}" p' "{}"] by simp
  qed
qed

section \<open>Allocation\<close>

text \<open>A chunk as a whole changes state: which heads are free afterwards.\<close>

lemma remarked_chunk_heads:
  assumes c: "is_chunk p b k al0" and rm: "remarked b k k al p p'"
  shows "free_heads p' m = (free_heads p m - {b}) \<union> (if \<not> al \<and> m = k then {b} else {})"
proof -
  have rng: "b + 2 ^ k \<le> npages p" and al: "2 ^ k dvd base_frame p + b"
    using c by (simp_all add: is_chunk_def)
  have "free_heads p m - {b..<b + 2 ^ k} = free_heads p m - {b}" using chunk_head_unique [OF c, of _ m] by auto
  moreover have "{x \<in> {b..<b + 2 ^ k}. \<not> al \<and> m = k \<and> 2 ^ k dvd base_frame p + x}
      = (if \<not> al \<and> m = k then {b} else {})"
    using head_of_block [OF al] by auto
  ultimately show ?thesis using remarked_free_heads [OF rm rng, of m] by simp
qed

lemma mark_pages_remarked:
  assumes "mark_pages b j al (2 ^ k) p = Inr p'"
  shows "remarked b k j al p p' \<and> free_lists p' = free_lists p"
  using mark_pages_eq [OF assms] by (simp add: remarked_def)

definition hand_out :: "nat \<Rightarrow> nat \<Rightarrow> phys_mem_pool \<Rightarrow> phys_mem_pool res" where
  "hand_out target k p =
     bindR (set_alloc_page target k p) (\<lambda>p.
     bindR (add_nr_free k (- 1) p) (\<lambda>p. page_list_del target p))"

lemma hand_out_spec:
  assumes inv: "buddy_inv p" and f: "b \<in> free_heads p k"
  shows "\<exists>p'. hand_out b k p = Inr p' \<and> buddy_inv p' \<and> is_chunk p' b k True \<and>
    frame_except {} p p' \<and> free_pages_of p' = free_pages_of p - {b..<b + 2 ^ k}"
proof -
  have ok: "lists_ok {} p" and ch: "chunks_ok p" and g: "pool_geometry p"
    using inv by (simp_all add: buddy_inv_def buddy_inv_except_def)
  have c: "is_chunk p b k False" using free_head_chunk [OF ch f] .
  then have k: "k < BUDDY_MAX_ORDER" and rng: "b + 2 ^ k \<le> npages p"
    and al: "2 ^ k dvd base_frame p + b"
    and free: "\<forall>j\<in>{b..<b + 2 ^ k}. order (page_metadata p j) = k \<and> \<not> allocated (page_metadata p j)"
    by (auto simp: is_chunk_def)
  obtain q where q: "mark_pages b k True (2 ^ k) p = Inr q"
    using mark_pages_defined [OF rng] by blast
  have rmq: "remarked b k k True p q" and flq: "free_lists q = free_lists p"
    using mark_pages_remarked [OF q] by simp_all
  define r where "r = q\<lparr>free_lists := (free_lists p)(k := (free_lists p k)\<lparr>nr_free := nr_free (free_lists p k) - 1\<rparr>)\<rparr>"
  have r: "add_nr_free k (- 1) q = Inr r"
    using k flq by (simp add: add_nr_free_def upd_free_list_def r_def)
  define p' where "p' = r\<lparr>free_lists := (free_lists p)(k :=
     \<lparr>fl_nodes = removeAll b (fl_nodes (free_lists p k)), nr_free = nr_free (free_lists p k) - 1\<rparr>)\<rparr>"
  have bl: "find (\<lambda>m. b \<in> set (fl_nodes (free_lists r m))) [0..<BUDDY_MAX_ORDER] = Some k"
  proof (rule find_upt_unique)
    show "k < BUDDY_MAX_ORDER" by (rule k)
    show "b \<in> set (fl_nodes (free_lists r k))" using lists_okD(2) [OF ok k] f by (simp add: r_def)
  next
    fix m assume m: "m < BUDDY_MAX_ORDER" "b \<in> set (fl_nodes (free_lists r m))"
    then have "b \<in> free_heads p m" using lists_okD(2) [OF ok m(1)] by (simp add: r_def split: if_splits)
    then show "m = k" using f free_heads_order by blast
  qed
  have del: "page_list_del b r = Inr p'"
    unfolding page_list_del_def bl using k
    by (cases "free_lists p k") (simp add: upd_free_list_def p'_def r_def)
  have run: "hand_out b k p = Inr p'"
    by (simp add: hand_out_def set_alloc_page_def q r del)
  have rm: "remarked b k k True p p'" using rmq by (simp add: remarked_def p'_def r_def)
  have ch': "chunks_ok p'"
    using remarked_chunks_ok [OF ch covers_chunk [OF c] al rng k _ rm] by simp
  note heads = remarked_chunk_heads [OF c rm]
  have "lists_ok {} p'"
  proof (rule lists_okI)
    fix m assume m: "m < BUDDY_MAX_ORDER"
    note M = lists_okD [OF ok m]
    have other: "m \<noteq> k \<Longrightarrow> b \<notin> free_heads p m" using f free_heads_order by blast
    show "distinct (fl_nodes (free_lists p' m)) \<and>
      set (fl_nodes (free_lists p' m)) = free_heads p' m - {} \<and>
      nr_free (free_lists p' m) = of_nat (length (fl_nodes (free_lists p' m)))"
    proof (cases "m = k")
      case True
      then show ?thesis using M f heads nodes_length_remove [OF M(1), of b]
        by (simp add: p'_def distinct_removeAll)
    next
      case False
      then show ?thesis using M other heads by (simp add: p'_def)
    qed
  qed
  then have "buddy_inv p'"
    using ch' remarked_geometry [OF rm g] by (simp add: buddy_inv_def buddy_inv_except_def)
  moreover have "is_chunk p' b k True"
    using c remarked_base [OF rm] remarked_in [OF rm] by (simp add: is_chunk_def)
  moreover have "frame_except {} p p'" using remarked_frame [OF rm] free by auto
  moreover have "free_pages_of p' = free_pages_of p - {b..<b + 2 ^ k}"
    using rm rng by (auto simp: free_pages_of_def remarked_def)
  ultimately show ?thesis using run by auto
qed

definition alloc_post :: "nat \<Rightarrow> nat \<Rightarrow> phys_mem_pool \<Rightarrow> phys_mem_pool \<Rightarrow> bool" where
  "alloc_post k b p p' \<longleftrightarrow> buddy_inv p' \<and> is_chunk p' b k True \<and>
     {b..<b + 2 ^ k} \<subseteq> free_pages_of p \<and> free_pages_of p' = free_pages_of p - {b..<b + 2 ^ k} \<and>
     frame_except {} p p'"

lemma free_chunk_pages:
  assumes "is_chunk p b k False"
  shows "{b..<b + 2 ^ k} \<subseteq> free_pages_of p"
  using assms by (auto simp: is_chunk_def free_pages_of_def)

lemma nr_free_pos:
  assumes g: "pool_geometry p" and ok: "lists_ok X p" and k: "k < BUDDY_MAX_ORDER"
  shows "nr_free (free_lists p k) > 0 \<longleftrightarrow> fl_nodes (free_lists p k) \<noteq> []"
proof -
  note L = lists_okD [OF ok k]
  have "set (fl_nodes (free_lists p k)) \<subseteq> {..<npages p}" unfolding L(2) by (auto simp: free_heads_def)
  then have "length (fl_nodes (free_lists p k)) \<le> npages p"
    using L(1) by (metis card_lessThan card_mono distinct_card finite_lessThan)
  then have "length (fl_nodes (free_lists p k)) < 2 ^ 64" using npages_bound [OF g] by simp
  then have "unat (nr_free (free_lists p k)) = length (fl_nodes (free_lists p k))"
    using L(3) unat_of_nat_small by metis
  then show ?thesis by (simp add: word_less_nat_alt)
qed

lemma buddy_get_hit:
  assumes inv: "buddy_inv p" and m: "k \<le> m" "m < BUDDY_MAX_ORDER" and ne: "free_heads p m \<noteq> {}"
  shows "\<exists>b p'. buddy_get_loop k m p = Inr (Some b, p') \<and> alloc_post k b p p'"
proof -
  have ok: "lists_ok {} p" and g: "pool_geometry p"
    using inv by (simp_all add: buddy_inv_def buddy_inv_except_def)
  note L = lists_okD [OF ok m(2)]
  obtain b bs where bs: "fl_nodes (free_lists p m) = b # bs"
    using L(2) ne by (cases "fl_nodes (free_lists p m)") auto
  have b: "b \<in> free_heads p m" using L(2) bs by auto
  obtain q where q: "split_page k b p = Inr (b, q)" "buddy_inv q" "b \<in> free_heads q k"
    "frame_except {} p q" "free_pages_of q = free_pages_of p"
    using split_page_spec [OF inv b m(1)] by (elim exE conjE)
  obtain p' where p': "hand_out b k q = Inr p'" "buddy_inv p'" "is_chunk p' b k True"
    "frame_except {} q p'" "free_pages_of p' = free_pages_of q - {b..<b + 2 ^ k}"
    using hand_out_spec [OF q(2,3)] by (elim exE conjE)
  have pg: "get_page q b = Inr (page_metadata q b)" "order (page_metadata q b) = k"
    using q(3) by (simp_all add: free_heads_def get_page_def)
  have "nr_free (free_lists p m) > 0" using nr_free_pos [OF g ok m(2)] bs by simp
  then have "buddy_get_loop k m p = bindR (hand_out b k q) (\<lambda>p. Inr (Some b, p))"
    using m(2) by (subst buddy_get_loop.simps) (simp add: bs q(1) pg hand_out_def bindR_assoc)
  moreover have "{b..<b + 2 ^ k} \<subseteq> free_pages_of p"
    using free_chunk_pages [OF free_head_chunk [OF _ q(3)]] q(2,5)
    by (simp add: buddy_inv_def buddy_inv_except_def)
  ultimately show ?thesis
    using p' q(5) frame_trans [OF q(4) p'(4)] by (auto simp: alloc_post_def)
qed

lemma buddy_get_loop_end:
  "buddy_get_loop k BUDDY_MAX_ORDER p = (if nr_free_past_end p = 0 then Inr (None, p) else Inl BadPtr)"
proof -
  have "buddy_get_loop k (BUDDY_MAX_ORDER + 1) p = Inr (None, p)"
    by (subst buddy_get_loop.simps) simp
  then show ?thesis by (subst buddy_get_loop.simps) (simp add: word_neq_0_conv)
qed

lemma buddy_get_loop_miss:
  assumes "pool_geometry p" "lists_ok {} p" "m < BUDDY_MAX_ORDER" "free_heads p m = {}"
  shows "buddy_get_loop k m p = buddy_get_loop k (Suc m) p"
proof -
  have "\<not> nr_free (free_lists p m) > 0"
    using nr_free_pos [OF assms(1-3)] lists_okD(2) [OF assms(2,3)] assms(4) by simp
  then show ?thesis using assms(3) by (subst buddy_get_loop.simps) simp
qed

definition has_free_from :: "phys_mem_pool \<Rightarrow> nat \<Rightarrow> bool" where
  "has_free_from p m \<longleftrightarrow> (\<exists>m'\<ge>m. m' < BUDDY_MAX_ORDER \<and> free_heads p m' \<noteq> {})"

lemma has_free_from_step:
  assumes "free_heads p m = {}"
  shows "has_free_from p m = has_free_from p (Suc m)"
proof -
  have "m \<le> m' \<and> free_heads p m' \<noteq> {} \<longleftrightarrow> Suc m \<le> m' \<and> free_heads p m' \<noteq> {}" for m'
    using assms by (cases "m' = m") (auto simp: Suc_le_eq le_less)
  then show ?thesis unfolding has_free_from_def by meson
qed

lemma buddy_get_loop_spec:
  assumes inv: "buddy_inv p"
  shows "k \<le> m \<Longrightarrow> m \<le> BUDDY_MAX_ORDER \<Longrightarrow>
    (if has_free_from p m
     then \<exists>b p'. buddy_get_loop k m p = Inr (Some b, p') \<and> alloc_post k b p p'
     else buddy_get_loop k m p = (if nr_free_past_end p = 0 then Inr (None, p) else Inl BadPtr))"
proof (induction "BUDDY_MAX_ORDER - m" arbitrary: m)
  case 0
  then have "m = BUDDY_MAX_ORDER" by simp
  moreover have "\<not> has_free_from p BUDDY_MAX_ORDER" by (simp add: has_free_from_def)
  ultimately show ?case by (simp add: buddy_get_loop_end)
next
  case (Suc n)
  then have m: "m < BUDDY_MAX_ORDER" by simp
  have ok: "lists_ok {} p" and g: "pool_geometry p"
    using inv by (simp_all add: buddy_inv_def buddy_inv_except_def)
  show ?case
  proof (cases "free_heads p m = {}")
    case True
    show ?thesis
      unfolding buddy_get_loop_miss [OF g ok m True] has_free_from_step [OF True]
      by (rule Suc.hyps(1)) (use Suc.hyps(2) Suc.prems(1) m in simp_all)
  next
    case False
    then have "has_free_from p m" using m by (auto simp: has_free_from_def)
    then show ?thesis using buddy_get_hit [OF inv Suc.prems(1) m False] by (simp only: if_True)
  qed
qed

lemma buddy_get_pages_spec:
  assumes "buddy_inv p" "k \<le> BUDDY_MAX_ORDER"
  shows "if has_free_from p k
     then \<exists>b p'. buddy_get_pages k p = Inr (Some b, p') \<and> alloc_post k b p p'
     else buddy_get_pages k p = (if nr_free_past_end p = 0 then Inr (None, p) else Inl BadPtr)"
  unfolding buddy_get_pages_def by (rule buddy_get_loop_spec) (use assms in simp_all)

end
