(* ===== verification/Alloc_Spec.thy ===== *)
theory Alloc_Spec
  imports Chcore_Prelude
begin

text \<open>What a client of a kernel allocator relies on, as a locale: the allocator's state has an
  invariant, a set of live blocks each covering a region, and two operations. The locale's client
  is a run of an arbitrary sequence of requests and releases; its blocks never overlap. The page
  allocator and the object allocator interpret the locale.\<close>

datatype 'r alloc_op = Get 'r | Put nat

text \<open>A client that keeps the blocks it was given, most recent first, and releases the \<open>i\<close>-th.\<close>

fun alloc_run :: "('r \<Rightarrow> 's \<Rightarrow> ('c option \<times> 's) res) \<Rightarrow> ('c \<Rightarrow> 's \<Rightarrow> 's res) \<Rightarrow>
    'r alloc_op list \<Rightarrow> 'c list \<Rightarrow> 's \<Rightarrow> ('c list \<times> 's) res" where
  "alloc_run get put [] held s = Inr (held, s)"
| "alloc_run get put (Get r # ops) held s =
     bindR (get r s) (\<lambda>(x, s). alloc_run get put ops (case x of None \<Rightarrow> held | Some c \<Rightarrow> c # held) s)"
| "alloc_run get put (Put i # ops) held s =
     (if i < length held
      then bindR (put (held ! i) s) (\<lambda>s. alloc_run get put ops (take i held @ drop (Suc i) held) s)
      else alloc_run get put ops held s)"

definition disjoint_regions :: "('c \<Rightarrow> 'a set) \<Rightarrow> 'c list \<Rightarrow> bool" where
  "disjoint_regions region cs \<longleftrightarrow> distinct cs \<and>
     (\<forall>c \<in> set cs. \<forall>d \<in> set cs. c \<noteq> d \<longrightarrow> region c \<inter> region d = {})"

lemma remove_nth:
  assumes "distinct xs" "i < length xs"
  shows "distinct (take i xs @ drop (Suc i) xs)" "set (take i xs @ drop (Suc i) xs) = set xs - {xs ! i}"
proof -
  obtain ys x zs where x: "xs = ys @ x # zs" "length ys = i"
    using id_take_nth_drop [OF assms(2)] assms(2) by (metis length_take less_imp_le min_absorb2)
  have eq: "take i xs @ drop (Suc i) xs = ys @ zs" "xs ! i = x" using x by (auto simp: nth_append)
  show "distinct (take i xs @ drop (Suc i) xs)" "set (take i xs @ drop (Suc i) xs) = set xs - {xs ! i}"
    unfolding eq using assms(1) x(1) by auto
qed

locale allocator =
  fixes inv :: "'s \<Rightarrow> bool"
    and live :: "'s \<Rightarrow> 'c set"
    and region :: "'c \<Rightarrow> 'a set"
    and get :: "'r \<Rightarrow> 's \<Rightarrow> ('c option \<times> 's) res"
    and put :: "'c \<Rightarrow> 's \<Rightarrow> 's res"
  assumes live_disjoint: "\<lbrakk>inv s; c \<in> live s; d \<in> live s; c \<noteq> d\<rbrakk> \<Longrightarrow> region c \<inter> region d = {}"
    and get_fresh: "\<lbrakk>inv s; get r s = Inr (Some c, s')\<rbrakk> \<Longrightarrow> inv s' \<and> c \<notin> live s \<and> live s' = insert c (live s)"
    and get_none: "\<lbrakk>inv s; get r s = Inr (None, s')\<rbrakk> \<Longrightarrow> inv s' \<and> live s' = live s"
    and put_live: "\<lbrakk>inv s; c \<in> live s\<rbrakk> \<Longrightarrow> \<exists>s'. put c s = Inr s' \<and> inv s' \<and> live s' = live s - {c}"
begin

lemma run_live:
  assumes "inv s" "distinct held" "set held = live s"
    and "alloc_run get put ops held s = Inr (held', s')"
  shows "inv s' \<and> distinct held' \<and> set held' = live s'"
  using assms
proof (induction ops arbitrary: held s)
  case (Cons op ops)
  show ?case
  proof (cases op)
    case (Get r)
    obtain y where y: "get r s = Inr y" using Cons.prems(4) Get by (cases "get r s") simp_all
    obtain x t where xt: "y = (x, t)" by (cases y)
    note x = y [unfolded xt]
    have run: "alloc_run get put ops (case x of None \<Rightarrow> held | Some c \<Rightarrow> c # held) t = Inr (held', s')"
      using Cons.prems(4) Get x by simp
    show ?thesis
    proof (cases x)
      case None
      then have "inv t" "live t = live s" using get_none [OF Cons.prems(1)] x by simp_all
      with None Cons.prems(2,3) show ?thesis by (intro Cons.IH [OF _ _ _ run]) simp_all
    next
      case (Some c)
      then have "inv t" "c \<notin> live s" "live t = insert c (live s)"
        using get_fresh [OF Cons.prems(1)] x by simp_all
      with Some Cons.prems(2,3) show ?thesis by (intro Cons.IH [OF _ _ _ run]) simp_all
    qed
  next
    case (Put i)
    show ?thesis
    proof (cases "i < length held")
      case True
      have "held ! i \<in> live s" using nth_mem [OF True] unfolding Cons.prems(3) .
      then obtain t where t: "put (held ! i) s = Inr t" "inv t" "live t = live s - {held ! i}"
        using put_live [OF Cons.prems(1)] by blast
      note R = remove_nth [OF Cons.prems(2) True]
      have run: "alloc_run get put ops (take i held @ drop (Suc i) held) t = Inr (held', s')"
        using Cons.prems(4) Put True t(1) by simp
      show ?thesis
        by (rule Cons.IH [OF t(2) R(1) _ run]) (simp only: R(2) t(3) Cons.prems(3))
    next
      case False
      then have "alloc_run get put ops held s = Inr (held', s')" using Cons.prems(4) Put by simp
      then show ?thesis by (rule Cons.IH [OF Cons.prems(1-3)])
    qed
  qed
qed simp

lemma run_disjoint:
  assumes "inv s" "live s = {}" "alloc_run get put ops [] s = Inr (held, s')"
  shows "inv s' \<and> set held = live s' \<and> disjoint_regions region held"
  using run_live [OF assms(1) _ _ assms(3)] live_disjoint [of s'] assms(2)
  by (simp add: disjoint_regions_def)

end

text \<open>An allocator whose requests never fault: a run always completes.\<close>

locale total_allocator = allocator +
  assumes get_total: "inv s \<Longrightarrow> \<exists>x s'. get r s = Inr (x, s')"
begin

lemma run_completes:
  assumes "inv s" "distinct held" "set held = live s"
  shows "\<exists>held' s'. alloc_run get put ops held s = Inr (held', s')"
  using assms
proof (induction ops arbitrary: held s)
  case (Cons op ops)
  show ?case
  proof (cases op)
    case (Get r)
    obtain x t where x: "get r s = Inr (x, t)" using get_total [OF Cons.prems(1)] by blast
    have "inv t \<and> distinct (case x of None \<Rightarrow> held | Some c \<Rightarrow> c # held) \<and>
        set (case x of None \<Rightarrow> held | Some c \<Rightarrow> c # held) = live t"
      using x Cons.prems get_none [OF Cons.prems(1), of r t] get_fresh [OF Cons.prems(1), of r _ t]
      by (cases x) simp_all
    then have "\<exists>held' s'. alloc_run get put ops (case x of None \<Rightarrow> held | Some c \<Rightarrow> c # held) t = Inr (held', s')"
      by (intro Cons.IH) simp_all
    then show ?thesis using Get x by simp
  next
    case (Put i)
    show ?thesis
    proof (cases "i < length held")
      case True
      have "held ! i \<in> live s" using nth_mem [OF True] unfolding Cons.prems(3) .
      then obtain t where t: "put (held ! i) s = Inr t" "inv t" "live t = live s - {held ! i}"
        using put_live [OF Cons.prems(1)] by blast
      note R = remove_nth [OF Cons.prems(2) True]
      have "\<exists>held' s'. alloc_run get put ops (take i held @ drop (Suc i) held) t = Inr (held', s')"
        by (rule Cons.IH [OF t(2) R(1)]) (simp only: R(2) t(3) Cons.prems(3))
      then show ?thesis using t(1) Put True by simp
    next
      case False
      with Put Cons.IH [OF Cons.prems] show ?thesis by simp
    qed
  qed
qed simp

end

end
