(* ===== verification/Buddy_Free.thy ===== *)
theory Buddy_Free
  imports Buddy_Correct Alloc_Spec
begin

text \<open>Freeing a chunk of the buddy allocator: the merge loop of \<^verbatim>\<open>buddy_free_pages\<close>
  keeps the invariant with the chunk in hand left out of the lists, and linking the merged chunk
  restores it. Then the initialisation, the count of free memory, and the allocator's contract as
  a locale that the model of the pool interprets.\<close>

section \<open>Merging\<close>

lemma buddy_block:
  assumes al: "2 ^ k dvd base_frame p + i" and b: "base_frame p + b = (base_frame p + i) XOR 2 ^ k"
  shows "2 ^ k dvd base_frame p + b" "2 ^ Suc k dvd base_frame p + min i b" "b \<noteq> i"
    "{min i b..<min i b + 2 ^ Suc k} = {i..<i + 2 ^ k} \<union> {b..<b + 2 ^ k}"
    "{i..<i + 2 ^ k} \<inter> {b..<b + 2 ^ k} = {}" "max i b = min i b + 2 ^ k"
proof -
  note F = flip_aligned_facts [OF al, folded b]
  show "2 ^ k dvd base_frame p + b" by (rule F(1))
  show "2 ^ Suc k dvd base_frame p + min i b" using F(2) by (simp add: min_def split: if_splits)
  show m: "max i b = min i b + 2 ^ k" using F(3) by (auto simp: min_def max_def split: if_splits)
  then show "b \<noteq> i" by (auto simp: max_def)
  show "{min i b..<min i b + 2 ^ Suc k} = {i..<i + 2 ^ k} \<union> {b..<b + 2 ^ k}"
    "{i..<i + 2 ^ k} \<inter> {b..<b + 2 ^ k} = {}"
    using m by (auto simp: min_def max_def split: if_splits)
qed

lemma merge_step_eq:
  assumes ok: "lists_ok {it} p" and it: "it \<in> free_heads p k" and b: "b \<in> free_heads p k" "b \<noteq> it"
    and k: "Suc k < BUDDY_MAX_ORDER" and rng: "min it b + 2 ^ Suc k \<le> npages p"
  shows "\<exists>p'. merge_step it b p = Inr (min it b, p') \<and> remarked (min it b) (Suc k) (Suc k) False p p' \<and>
    free_lists p' = (free_lists p)
      (k := \<lparr>fl_nodes = removeAll b (fl_nodes (free_lists p k)), nr_free = nr_free (free_lists p k) - 1\<rparr>)"
proof -
  define q where "q = p\<lparr>free_lists := (free_lists p)(k := (free_lists p k)
      \<lparr>fl_nodes := removeAll b (fl_nodes (free_lists p k))\<rparr>)\<rparr>"
  have d: "page_list_del b p = Inr q"
    using page_list_del_eq [OF ok b(1), of p] b(2) k by (simp add: q_def)
  define r where "r = p\<lparr>free_lists := (free_lists p)(k :=
      \<lparr>fl_nodes = removeAll b (fl_nodes (free_lists p k)), nr_free = nr_free (free_lists p k) - 1\<rparr>)\<rparr>"
  have n: "add_nr_free k (- 1) q = Inr r"
    using k by (cases "free_lists p k") (simp add: add_nr_free_def upd_free_list_def q_def r_def)
  have r: "pool_phys_page_num r = pool_phys_page_num p" "page_metadata r = page_metadata p"
    "pool_start_addr r = pool_start_addr p" "pool_mem_size r = pool_mem_size p"
    "nr_free_past_end r = nr_free_past_end p" by (simp_all add: r_def)
  obtain p' where m: "mark_pages (min it b) (Suc k) False (2 ^ Suc k) r = Inr p'"
    using mark_pages_defined [of "min it b" "2 ^ Suc k" r] rng r by auto
  have gb: "get_page q b = Inr (page_metadata p b)" "order (page_metadata p b) = k"
    using b by (simp_all add: get_page_def free_heads_def q_def)
  have gm: "get_page r (min it b) = Inr (page_metadata p (min it b))" "order (page_metadata p (min it b)) = k"
    using b it by (auto simp: get_page_def free_heads_def r_def min_def)
  have "(if it < b then it else b) = min it b" by (simp add: min_def)
  then have "merge_step it b p = Inr (min it b, p')"
    using gm m by (simp add: merge_step_def Let_def d gb n set_free_page_def)
  moreover have "remarked (min it b) (Suc k) (Suc k) False p p' \<and> free_lists p' = free_lists r"
    using mark_pages_remarked [OF m] unfolding remarked_def r by simp
  ultimately show ?thesis by (auto simp: r_def)
qed

lemma merged_heads:
  assumes it: "is_chunk p it k False" and b: "is_chunk p b k False"
    and blk: "base_frame p + b = (base_frame p + it) XOR 2 ^ k"
    and rm: "remarked (min it b) (Suc k) (Suc k) False p p'"
  shows "free_heads p' m = (free_heads p m - {it, b}) \<union> (if m = Suc k then {min it b} else {})"
proof -
  let ?B = "{min it b..<min it b + 2 ^ Suc k}"
  have al: "2 ^ k dvd base_frame p + it" using it by (simp add: is_chunk_def)
  note B = buddy_block [OF al blk]
  have rng: "min it b + 2 ^ Suc k \<le> npages p"
    using it b B(6) by (simp add: is_chunk_def max_def split: if_splits)
  have "free_heads p m \<inter> ?B \<subseteq> {it, b}" 
    using chunk_head_unique [OF it, of _ m] chunk_head_unique [OF b, of _ m] unfolding B(4) by blast
  moreover have "it \<in> ?B" "b \<in> ?B" unfolding B(4) by simp_all
  ultimately have "free_heads p m - ?B = free_heads p m - {it, b}" by blast
  moreover have "{x \<in> ?B. \<not> False \<and> m = Suc k \<and> 2 ^ Suc k dvd base_frame p + x}
      = (if m = Suc k then {min it b} else {})"
    using head_of_block [OF B(2)] by simp
  ultimately show ?thesis using remarked_free_heads [OF rm rng, of m] by simp
qed

lemma merge_step_inv:
  assumes inv: "buddy_inv_except {it} p" and it: "it \<in> free_heads p k" and b: "b \<in> free_heads p k"
    and blk: "base_frame p + b = (base_frame p + it) XOR 2 ^ k" and k: "Suc k < BUDDY_MAX_ORDER"
  shows "\<exists>p'. merge_step it b p = Inr (min it b, p') \<and> buddy_inv_except {min it b} p' \<and>
    min it b \<in> free_heads p' (Suc k) \<and> frame_except {} p p' \<and> free_pages_of p' = free_pages_of p"
proof -
  have ok: "lists_ok {it} p" and ch: "chunks_ok p" and g: "pool_geometry p"
    using inv by (simp_all add: buddy_inv_except_def)
  have cit: "is_chunk p it k False" and cb: "is_chunk p b k False"
    using free_head_chunk [OF ch it] free_head_chunk [OF ch b] .
  have "2 ^ k dvd base_frame p + it" using cit by (simp add: is_chunk_def)
  note B = buddy_block [OF this blk]
  have rng: "min it b + 2 ^ Suc k \<le> npages p"
    using cit cb B(6) by (simp add: is_chunk_def max_def split: if_splits)
  obtain p' where run: "merge_step it b p = Inr (min it b, p')"
    and rm: "remarked (min it b) (Suc k) (Suc k) False p p'"
    and fl: "free_lists p' = (free_lists p)
      (k := \<lparr>fl_nodes = removeAll b (fl_nodes (free_lists p k)), nr_free = nr_free (free_lists p k) - 1\<rparr>)"
    using merge_step_eq [OF ok it b B(3) k rng] by (elim exE conjE)
  have ch': "chunks_ok p'"
    using remarked_chunks_ok [OF ch covers_union [OF covers_chunk [OF cit] covers_chunk [OF cb] B(4)]
        B(2) rng k _ rm] by simp
  note heads = merged_heads [OF cit cb blk rm]
  have ord: "m = k" if "it \<in> free_heads p m \<or> b \<in> free_heads p m \<or> min it b \<in> free_heads p m" for m
    using that it b by (auto simp: min_def dest: free_heads_order split: if_splits)
  have "lists_ok {min it b} p'"
  proof (rule lists_okI)
    fix m assume m: "m < BUDDY_MAX_ORDER"
    note M = lists_okD [OF ok m]
    show "distinct (fl_nodes (free_lists p' m)) \<and>
      set (fl_nodes (free_lists p' m)) = free_heads p' m - {min it b} \<and>
      nr_free (free_lists p' m) = of_nat (length (fl_nodes (free_lists p' m)))"
    proof (cases "m = k")
      case True
      then show ?thesis using M b B(3) heads [of k] nodes_length_remove [OF M(1), of b]
        by (auto simp: fl distinct_removeAll min_def)
    next
      case False
      then show ?thesis using M heads [of m] ord [of m] by (auto simp: fl)
    qed
  qed
  then have "buddy_inv_except {min it b} p'"
    using ch' remarked_geometry [OF rm g] by (simp add: buddy_inv_except_def)
  moreover have free: "\<not> allocated (page_metadata p x)" if "x \<in> {min it b..<min it b + 2 ^ Suc k}" for x
    using that cit cb unfolding B(4) by (auto simp: is_chunk_def)
  then have "frame_except {} p p'" using remarked_frame [OF rm] by blast
  moreover have "free_pages_of p' = free_pages_of p"
    using rm free by (auto simp: free_pages_of_def remarked_def)
  ultimately show ?thesis using run heads [of "Suc k"] by auto
qed

lemma merge_page_spec:
  "buddy_inv_except {it} p \<Longrightarrow> it \<in> free_heads p k \<Longrightarrow>
   \<exists>it' k' p'. merge_page it p = Inr (it', p') \<and> buddy_inv_except {it'} p' \<and> it' \<in> free_heads p' k' \<and>
     frame_except {} p p' \<and> free_pages_of p' = free_pages_of p"
proof (induction "BUDDY_MAX_ORDER - k" arbitrary: it p k rule: less_induct)
  case less
  have ch: "chunks_ok p" and g: "pool_geometry p" using less.prems by (simp_all add: buddy_inv_except_def)
  have c: "is_chunk p it k False" using free_head_chunk [OF ch less.prems(2)] .
  have i: "it < npages p" "order (page_metadata p it) = k" using less.prems by (simp_all add: free_heads_def)
  have k: "k < BUDDY_MAX_ORDER" and al: "2 ^ k dvd base_frame p + it" using c by (simp_all add: is_chunk_def)
  define Bf where "Bf = (base_frame p + it) XOR 2 ^ k"
  note gb = get_buddy_chunk_eq [OF g ch i(1) i(2) [symmetric] k, folded Bf_def]
  show ?case
  proof (cases "base_frame p \<le> Bf \<and> Bf < base_frame p + npages p \<and>
      \<not> allocated (page_metadata p (Bf - base_frame p)) \<and> order (page_metadata p (Bf - base_frame p)) = k \<and>
      k < BUDDY_MAX_ORDER - 1")
    case False
    then have "merge_page it p = Inr (it, p)"
      using i by (subst merge_page.simps) (auto simp: gb get_page_def)
    with less.prems show ?thesis by auto
  next
    case True
    define b where "b = Bf - base_frame p"
    have blk: "base_frame p + b = (base_frame p + it) XOR 2 ^ k" using True by (simp add: b_def Bf_def)
    have b: "b < npages p" "\<not> allocated (page_metadata p b)" "order (page_metadata p b) = k"
      using True by (auto simp: b_def)
    then have fb: "b \<in> free_heads p k" using buddy_block(1) [OF al blk] by (simp add: free_heads_def)
    obtain q where q: "merge_step it b p = Inr (min it b, q)" "buddy_inv_except {min it b} q"
      "min it b \<in> free_heads q (Suc k)" "frame_except {} p q" "free_pages_of q = free_pages_of p"
      using merge_step_inv [OF less.prems fb blk] True by (auto simp: less_diff_conv)
    obtain it' k' p' where r: "merge_page (min it b) q = Inr (it', p')" "buddy_inv_except {it'} p'"
      "it' \<in> free_heads p' k'" "frame_except {} q p'" "free_pages_of p' = free_pages_of q"
      using less.hyps [OF _ q(2,3)] k by (auto simp: diff_less_mono2)
    have "merge_page it p = merge_page (min it b) q"
      using i b True q(1) by (subst merge_page.simps) (simp add: gb get_page_def b_def [symmetric])
    then show ?thesis using r q(5) frame_trans [OF q(4) r(4), of "{}"] by auto
  qed
qed

section \<open>Freeing a chunk\<close>

definition free_post :: "nat set \<Rightarrow> phys_mem_pool \<Rightarrow> phys_mem_pool \<Rightarrow> bool" where
  "free_post A p p' \<longleftrightarrow> buddy_inv p' \<and> free_pages_of p' = free_pages_of p \<union> A \<and> frame_except A p p'"

lemma same_metadata:
  assumes "page_metadata p' = page_metadata p" "pool_start_addr p' = pool_start_addr p"
    "pool_mem_size p' = pool_mem_size p" "pool_phys_page_num p' = pool_phys_page_num p"
  shows "chunks_ok p' = chunks_ok p" "pool_geometry p' = pool_geometry p" "free_heads p' m = free_heads p m"
    "free_pages_of p' = free_pages_of p"
  unfolding chunks_ok_def is_chunk_def pool_geometry_def free_heads_def free_pages_of_def base_frame_def assms
  by (rule refl)+

lemma link_chunk:
  assumes inv: "buddy_inv_except {it} p" and it: "it \<in> free_heads p k"
  shows "\<exists>p'. bindR (page_list_add it k p) (\<lambda>p. add_nr_free k 1 p) = Inr p' \<and> free_post {} p p'"
proof -
  have ok: "lists_ok {it} p" and ch: "chunks_ok p" and g: "pool_geometry p"
    using inv by (simp_all add: buddy_inv_except_def)
  have k: "k < BUDDY_MAX_ORDER" using free_head_chunk [OF ch it] by (simp add: is_chunk_def)
  define p' where "p' = p\<lparr>free_lists := (free_lists p)(k :=
      \<lparr>fl_nodes = it # fl_nodes (free_lists p k), nr_free = nr_free (free_lists p k) + 1\<rparr>)\<rparr>"
  have "bindR (page_list_add it k p) (\<lambda>p. add_nr_free k 1 p) = Inr p'"
    using k by (cases "free_lists p k")
      (simp add: page_list_add_def add_nr_free_def upd_free_list_def p'_def)
  moreover have same: "page_metadata p' = page_metadata p" "pool_start_addr p' = pool_start_addr p"
    "pool_mem_size p' = pool_mem_size p" "pool_phys_page_num p' = pool_phys_page_num p"
    "nr_free_past_end p' = nr_free_past_end p" by (simp_all add: p'_def)
  have fl: "free_lists p' m = (if m = k then \<lparr>fl_nodes = it # fl_nodes (free_lists p k),
      nr_free = nr_free (free_lists p k) + 1\<rparr> else free_lists p m)" for m by (simp add: p'_def)
  note S = same_metadata [OF same(1-4)]
  have "lists_ok {} p'"
  proof (rule lists_okI)
    fix m assume m: "m < BUDDY_MAX_ORDER"
    have "it \<notin> free_heads p m" if "m \<noteq> k" using that it by (auto dest: free_heads_order)
    then show "distinct (fl_nodes (free_lists p' m)) \<and>
      set (fl_nodes (free_lists p' m)) = free_heads p' m - {} \<and>
      nr_free (free_lists p' m) = of_nat (length (fl_nodes (free_lists p' m)))"
      unfolding S(3) fl using lists_okD [OF ok m] it by (cases "m = k") (simp_all add: insert_absorb)
  qed
  then have "buddy_inv p'" using ch g by (simp add: buddy_inv_def buddy_inv_except_def S)
  moreover have "free_post {} p p'" if "buddy_inv p'"
    using that unfolding free_post_def S frame_except_def same by simp
  ultimately show ?thesis by blast
qed

lemma set_free_inv:
  assumes inv: "buddy_inv p" and c: "is_chunk p b k True"
  shows "\<exists>p'. set_free_page b k p = Inr p' \<and> buddy_inv_except {b} p' \<and> b \<in> free_heads p' k \<and>
    frame_except {b..<b + 2 ^ k} p p' \<and> free_pages_of p' = free_pages_of p \<union> {b..<b + 2 ^ k}"
proof -
  have ok: "lists_ok {} p" and ch: "chunks_ok p" and g: "pool_geometry p"
    using inv by (simp_all add: buddy_inv_def buddy_inv_except_def)
  have k: "k < BUDDY_MAX_ORDER" and rng: "b + 2 ^ k \<le> npages p" and al: "2 ^ k dvd base_frame p + b"
    using c by (simp_all add: is_chunk_def)
  obtain p' where run: "mark_pages b k False (2 ^ k) p = Inr p'" using mark_pages_defined [OF rng] by blast
  have rm: "remarked b k k False p p'" and fl: "free_lists p' = free_lists p"
    using mark_pages_remarked [OF run] by simp_all
  have ch': "chunks_ok p'"
    using remarked_chunks_ok [OF ch covers_chunk [OF c] al rng k _ rm] by simp
  note heads = remarked_chunk_heads [OF c rm]
  have "allocated (page_metadata p b)" using c by (simp add: is_chunk_def)
  then have "b \<notin> free_heads p m" for m by (simp add: free_heads_def)
  then have "lists_ok {b} p'"
    using ok by (simp add: lists_ok_def fl heads)
  then have "buddy_inv_except {b} p'" using ch' remarked_geometry [OF rm g] by (simp add: buddy_inv_except_def)
  moreover have "free_pages_of p' = free_pages_of p \<union> {b..<b + 2 ^ k}"
    using rm rng by (auto simp: free_pages_of_def remarked_def)
  ultimately show ?thesis
    using run heads [of k] remarked_frame [OF rm, of "{b..<b + 2 ^ k}"] by (auto simp: set_free_page_def)
qed

lemma is_chunk_bound: "is_chunk p b k al \<Longrightarrow> b < npages p"
  unfolding is_chunk_def by (metis less_add_same_cancel1 less_le_trans zero_less_numeral zero_less_power)

lemma buddy_free_pages_spec:
  assumes inv: "buddy_inv p" and c: "is_chunk p b k True"
  shows "\<exists>p'. buddy_free_pages b p = Inr p' \<and> free_post {b..<b + 2 ^ k} p p'"
proof -
  obtain q where q: "set_free_page b k p = Inr q" "buddy_inv_except {b} q" "b \<in> free_heads q k"
    "frame_except {b..<b + 2 ^ k} p q" "free_pages_of q = free_pages_of p \<union> {b..<b + 2 ^ k}"
    using set_free_inv [OF assms] by (elim exE conjE)
  obtain it j r where r: "merge_page b q = Inr (it, r)" "buddy_inv_except {it} r" "it \<in> free_heads r j"
    "frame_except {} q r" "free_pages_of r = free_pages_of q"
    using merge_page_spec [OF q(2,3)] by (elim exE conjE)
  obtain p' where p': "bindR (page_list_add it j r) (\<lambda>p. add_nr_free j 1 p) = Inr p'" "free_post {} r p'"
    using link_chunk [OF r(2,3)] by (elim exE conjE)
  have "get_page p b = Inr (page_metadata p b)" "order (page_metadata p b) = k"
    using c is_chunk_bound [OF c] by (simp_all add: is_chunk_def get_page_def)
  moreover have "get_page r it = Inr (page_metadata r it)" "order (page_metadata r it) = j"
    using r(3) by (simp_all add: free_heads_def get_page_def)
  ultimately have "buddy_free_pages b p = Inr p'"
    using p'(1) by (simp add: buddy_free_pages_def q(1) r(1))
  moreover have "frame_except {b..<b + 2 ^ k} p p'"
    using frame_trans [OF frame_trans [OF q(4) r(4)], of "{b..<b + 2 ^ k}" "{}" p' "{b..<b + 2 ^ k}"] p'(2)
    by (simp add: free_post_def)
  ultimately show ?thesis using p'(2) q(5) r(5) by (simp add: free_post_def)
qed

section \<open>Initialisation\<close>

definition boot_page :: page where
  "boot_page = \<lparr>allocated = True, order = 0, slab = 0, page_pool = True\<rparr>"

lemma init_pool_inv:
  assumes "4096 dvd unat start" "unat start + unat n * 4096 < 2 ^ 64"
  shows "buddy_inv (init_pool start n past)" "free_pages_of (init_pool start n past) = {}"
proof -
  let ?p = "init_pool start n past"
  have "is_chunk ?p i 0 True" if "i < npages ?p" for i
    using that by (simp add: is_chunk_def init_pool_def BUDDY_MAX_ORDER_def)
  then have "chunks_ok ?p" by (auto simp: chunks_ok_def init_pool_def)
  moreover have "pool_geometry ?p" using assms by (simp add: pool_geometry_def init_pool_def)
  moreover have "lists_ok {} ?p" by (simp add: lists_ok_def init_pool_def free_heads_def)
  ultimately show "buddy_inv ?p" by (simp add: buddy_inv_def buddy_inv_except_def)
  show "free_pages_of ?p = {}" by (simp add: free_pages_of_def init_pool_def)
qed

lemma free_each_spec:
  assumes inv: "buddy_inv p" and free: "free_pages_of p = {}"
    and meta: "\<And>j. page_metadata p j = boot_page"
  shows "n \<le> npages p \<Longrightarrow> \<exists>p'. free_each n p = Inr p' \<and> buddy_inv p' \<and> free_pages_of p' = {..<n} \<and>
    frame_except {..<n} p p'"
proof (induction n)
  case 0
  then show ?case using inv free by simp
next
  case (Suc n)
  then obtain q where q: "free_each n p = Inr q" "buddy_inv q" "free_pages_of q = {..<n}"
    "frame_except {..<n} p q" by auto
  have "page_metadata q n = boot_page" "npages q = npages p"
    using q(4) meta [of n] by (auto simp: frame_except_def boot_page_def)
  then have "is_chunk q n 0 True"
    using Suc.prems by (simp add: is_chunk_def boot_page_def BUDDY_MAX_ORDER_def)
  then obtain p' where p': "buddy_free_pages n q = Inr p'" "free_post {n..<n + 2 ^ 0} q p'"
    using buddy_free_pages_spec [OF q(2)] by blast
  have "{..<n} \<union> {n..<n + 2 ^ 0} = {..<Suc n}" by auto
  moreover have "frame_except {..<Suc n} p p'"
    using frame_trans [OF q(4)] p'(2) by (auto simp: free_post_def)
  ultimately show ?case using q p' by (simp add: free_post_def)
qed

lemma init_buddy_spec:
  assumes "4096 dvd unat start" "unat start + unat n * 4096 < 2 ^ 64"
  shows "\<exists>p. init_buddy start n past = Inr p \<and> buddy_inv p \<and> free_pages_of p = {..<unat n} \<and>
    pool_start_addr p = start \<and> pool_phys_page_num p = n \<and> nr_free_past_end p = past \<and>
    (\<forall>j. slab (page_metadata p j) = 0)"
proof -
  have "page_metadata (init_pool start n past) j = boot_page" "npages (init_pool start n past) = unat n" for j
    by (simp_all add: init_pool_def boot_page_def)
  note S = free_each_spec [OF init_pool_inv [OF assms] this(1), of "unat n"] this(2)
  then obtain p where p: "free_each (unat n) (init_pool start n past) = Inr p" "buddy_inv p"
    "free_pages_of p = {..<unat n}" "frame_except {..<unat n} (init_pool start n past) p"
    by auto
  moreover have "pool_start_addr p = start \<and> pool_phys_page_num p = n \<and> nr_free_past_end p = past \<and>
    (\<forall>j. slab (page_metadata p j) = 0)"
    using p(4) by (simp add: frame_except_def init_pool_def)
  ultimately show ?thesis by (simp add: init_buddy_def)
qed

section \<open>The free memory counter\<close>

lemma free_pages_split:
  assumes "chunks_ok p"
  shows "free_pages_of p = (\<Union>k < BUDDY_MAX_ORDER. \<Union>b \<in> free_heads p k. {b..<b + 2 ^ k})"
proof (intro equalityI subsetI)
  fix i assume i: "i \<in> free_pages_of p"
  then have ip: "i < npages p" "\<not> allocated (page_metadata p i)" by (simp_all add: free_pages_of_def)
  define k where "k = order (page_metadata p i)"
  obtain b where b: "i \<in> {b..<b + 2 ^ k}" "is_chunk p b k (allocated (page_metadata p i))"
    using is_chunk_of_page [OF assms ip(1) k_def [symmetric]] by (elim exE conjE)
  then have "b \<in> free_heads p k" "k < BUDDY_MAX_ORDER"
    using ip is_chunk_bound [OF b(2)] by (simp_all add: is_chunk_def free_heads_def)
  with b(1) show "i \<in> (\<Union>k < BUDDY_MAX_ORDER. \<Union>b \<in> free_heads p k. {b..<b + 2 ^ k})" by blast
next
  fix i assume "i \<in> (\<Union>k < BUDDY_MAX_ORDER. \<Union>b \<in> free_heads p k. {b..<b + 2 ^ k})"
  then obtain k b where "b \<in> free_heads p k" "i \<in> {b..<b + 2 ^ k}" by blast
  then show "i \<in> free_pages_of p" using free_chunk_pages [OF free_head_chunk [OF assms]] by blast
qed

lemma card_free_pages:
  assumes ch: "chunks_ok p"
  shows "card (free_pages_of p) = (\<Sum>k < BUDDY_MAX_ORDER. card (free_heads p k) * 2 ^ k)"
proof -
  have fin: "finite (free_heads p k)" for k
    by (rule finite_subset [of _ "{..<npages p}"]) (auto simp: free_heads_def)
  have one: "k = m \<and> b = c" if "b \<in> free_heads p k" "c \<in> free_heads p m" "x \<in> {b..<b + 2 ^ k}"
    "x \<in> {c..<c + 2 ^ m}" for b c k m x
    using is_chunk_disjoint [OF free_head_chunk [OF ch that(1)] free_head_chunk [OF ch that(2)]] that(3,4)
    by blast
  have "card (\<Union>b \<in> free_heads p k. {b..<b + 2 ^ k}) = card (free_heads p k) * 2 ^ k" for k
  proof -
    have "card (\<Union>b \<in> free_heads p k. {b..<b + 2 ^ k}) = (\<Sum>b \<in> free_heads p k. card {b..<b + 2 ^ k})"
      by (rule card_UN_disjoint) (use fin one in \<open>blast+\<close>)
    then show ?thesis by simp
  qed
  moreover have "card (\<Union>k < BUDDY_MAX_ORDER. \<Union>b \<in> free_heads p k. {b..<b + 2 ^ k}) =
      (\<Sum>k < BUDDY_MAX_ORDER. card (\<Union>b \<in> free_heads p k. {b..<b + 2 ^ k}))"
    by (rule card_UN_disjoint) (use fin one in \<open>blast+\<close>)
  ultimately show ?thesis by (simp add: free_pages_split [OF ch])
qed

lemma free_mem_size_spec:
  assumes inv: "buddy_inv p"
  shows "get_free_mem_size_from_buddy p = of_nat (card (free_pages_of p) * 4096)"
proof -
  have ok: "lists_ok {} p" and ch: "chunks_ok p" using inv by (simp_all add: buddy_inv_def buddy_inv_except_def)
  have nr: "nr_free (free_lists p k) = of_nat (card (free_heads p k))" if "k < BUDDY_MAX_ORDER" for k
    using lists_okD [OF ok that] distinct_card by fastforce
  have "fold (\<lambda>k total. total + nr_free (free_lists p k) * (BUDDY_PAGE_SIZE * push_bit k 1)) [0..<n] 0
      = of_nat ((\<Sum>k < n. card (free_heads p k) * 2 ^ k) * 4096)" if "n \<le> BUDDY_MAX_ORDER" for n
    using that
  proof (induction n)
    case (Suc n)
    then show ?case by (simp add: nr BUDDY_PAGE_SIZE_def push_bit_eq_mult algebra_simps)
  qed simp
  then show ?thesis by (simp add: get_free_mem_size_from_buddy_def card_free_pages [OF ch])
qed

section \<open>The pool as an allocator of page blocks\<close>

definition live_chunks :: "phys_mem_pool \<Rightarrow> (nat \<times> nat) set" where
  "live_chunks p = {(b, k). is_chunk p b k True}"

definition chunk_pages :: "nat \<times> nat \<Rightarrow> nat set" where
  "chunk_pages c = {fst c..<fst c + 2 ^ snd c}"

definition get_chunk :: "nat \<Rightarrow> phys_mem_pool \<Rightarrow> ((nat \<times> nat) option \<times> phys_mem_pool) res" where
  "get_chunk k p = bindR (buddy_get_pages k p) (\<lambda>(x, p). Inr (map_option (\<lambda>b. (b, k)) x, p))"

definition put_chunk :: "nat \<times> nat \<Rightarrow> phys_mem_pool \<Rightarrow> phys_mem_pool res" where
  "put_chunk c p = buddy_free_pages (fst c) p"

definition pool_ok :: "u64 \<Rightarrow> phys_mem_pool \<Rightarrow> bool" where
  "pool_ok n p \<longleftrightarrow> buddy_inv p \<and> nr_free_past_end p = 0 \<and> pool_phys_page_num p = n"

lemma pool_okD: "pool_ok n p \<Longrightarrow> buddy_inv p" "pool_ok n p \<Longrightarrow> chunks_ok p"
  by (simp_all add: pool_ok_def buddy_inv_def buddy_inv_except_def)

lemma buddy_get_pages_total:
  assumes "pool_ok n p"
  shows "buddy_get_pages k p = Inr (None, p) \<or>
    (\<exists>b p'. buddy_get_pages k p = Inr (Some b, p') \<and> alloc_post k b p p')"
proof (cases "k \<le> BUDDY_MAX_ORDER")
  case True
  with buddy_get_pages_spec [OF pool_okD(1) [OF assms] True] assms show ?thesis
    by (simp add: pool_ok_def split: if_splits)
next
  case False
  then show ?thesis unfolding buddy_get_pages_def by (subst buddy_get_loop.simps) simp
qed

lemma is_chunk_frame:
  assumes "is_chunk p c j True" "frame_except A p p'" "{c..<c + 2 ^ j} \<inter> A = {}"
  shows "is_chunk p' c j True"
proof -
  have "page_metadata p' x = page_metadata p x" if "x \<in> {c..<c + 2 ^ j}" for x
  proof -
    have "x \<notin> A" using assms(3) that by blast
    moreover have "allocated (page_metadata p x)" using assms(1) that by (simp add: is_chunk_def)
    ultimately show ?thesis using assms(2) by (simp add: frame_except_def)
  qed
  then show ?thesis using assms(1,2) by (simp add: is_chunk_def frame_except_def base_frame_def)
qed

lemma is_chunk_back:
  assumes c: "is_chunk p' c j True" and f: "frame_except A p p'"
    and al: "\<And>x. x \<in> {c..<c + 2 ^ j} \<Longrightarrow> allocated (page_metadata p x) \<and> x \<notin> A"
  shows "is_chunk p c j True"
proof -
  have "page_metadata p' x = page_metadata p x" if "x \<in> {c..<c + 2 ^ j}" for x
    using al [OF that] f by (simp add: frame_except_def)
  then show ?thesis using c f by (simp add: is_chunk_def frame_except_def base_frame_def)
qed

lemma live_after_get:
  assumes post: "alloc_post k b p p'"
  shows "live_chunks p' = insert (b, k) (live_chunks p)" "(b, k) \<notin> live_chunks p"
proof -
  have inv': "chunks_ok p'" and c: "is_chunk p' b k True" and fr: "frame_except {} p p'"
    and sub: "{b..<b + 2 ^ k} \<subseteq> free_pages_of p"
    and free: "free_pages_of p' = free_pages_of p - {b..<b + 2 ^ k}"
    using post by (simp_all add: alloc_post_def buddy_inv_def buddy_inv_except_def)
  have np: "npages p' = npages p" using fr by (simp add: frame_except_def)
  have "is_chunk p' d j True \<longleftrightarrow> (d, j) = (b, k) \<or> is_chunk p d j True" for d j
  proof
    assume d: "is_chunk p' d j True"
    show "(d, j) = (b, k) \<or> is_chunk p d j True"
    proof (cases "{d..<d + 2 ^ j} \<inter> {b..<b + 2 ^ k} = {}")
      case True
      have "allocated (page_metadata p x)" if x: "x \<in> {d..<d + 2 ^ j}" for x
      proof -
        have "x \<notin> free_pages_of p'" "x < npages p'" using d x by (auto simp: is_chunk_def free_pages_of_def)
        moreover have "x \<notin> {b..<b + 2 ^ k}" using True x by blast
        ultimately have "x \<notin> free_pages_of p" "x < npages p" using free np by (blast, simp)
        then show ?thesis by (simp add: free_pages_of_def)
      qed
      then show ?thesis using is_chunk_back [OF d fr] by simp
    next
      case False
      then show ?thesis using is_chunk_disjoint [OF d c] by blast
    qed
  next
    assume "(d, j) = (b, k) \<or> is_chunk p d j True"
    then show "is_chunk p' d j True" using c is_chunk_frame [OF _ fr] by auto
  qed
  then show "live_chunks p' = insert (b, k) (live_chunks p)" by (auto simp: live_chunks_def)
  have "b \<in> free_pages_of p" using sub by auto
  then show "(b, k) \<notin> live_chunks p" by (auto simp: live_chunks_def is_chunk_def free_pages_of_def)
qed

lemma live_after_put:
  assumes ch: "chunks_ok p" and c: "is_chunk p b k True" and post: "free_post {b..<b + 2 ^ k} p p'"
  shows "live_chunks p' = live_chunks p - {(b, k)}"
proof -
  have fr: "frame_except {b..<b + 2 ^ k} p p'"
    and free: "free_pages_of p' = free_pages_of p \<union> {b..<b + 2 ^ k}"
    using post by (simp_all add: free_post_def)
  have np: "npages p' = npages p" using fr by (simp add: frame_except_def)
  have "is_chunk p' d j True \<longleftrightarrow> (d, j) \<noteq> (b, k) \<and> is_chunk p d j True" for d j
  proof
    assume d: "is_chunk p' d j True"
    have al: "x \<notin> free_pages_of p \<and> x \<notin> {b..<b + 2 ^ k} \<and> x < npages p" if x: "x \<in> {d..<d + 2 ^ j}" for x
    proof -
      have "x \<notin> free_pages_of p'" "x < npages p'" using d x by (auto simp: is_chunk_def free_pages_of_def)
      then show ?thesis unfolding free np by blast
    qed
    have "d \<in> {d..<d + 2 ^ j}" by simp
    then have "(d, j) \<noteq> (b, k)" using al by blast
    moreover have "is_chunk p d j True"
      by (rule is_chunk_back [OF d fr]) (use al in \<open>auto simp: free_pages_of_def\<close>)
    ultimately show "(d, j) \<noteq> (b, k) \<and> is_chunk p d j True" by simp
  next
    assume d: "(d, j) \<noteq> (b, k) \<and> is_chunk p d j True"
    then have "{d..<d + 2 ^ j} \<inter> {b..<b + 2 ^ k} = {}" using is_chunk_disjoint [OF _ c] by blast
    then show "is_chunk p' d j True" using d is_chunk_frame [OF _ fr] by blast
  qed
  then show ?thesis by (auto simp: live_chunks_def)
qed

interpretation pa: total_allocator "pool_ok n" live_chunks chunk_pages get_chunk put_chunk for n
proof (unfold_locales)
  fix s c d assume "pool_ok n s" "c \<in> live_chunks s" "d \<in> live_chunks s" "c \<noteq> d"
  then have "is_chunk s (fst c) (snd c) True" "is_chunk s (fst d) (snd d) True"
    by (auto simp: live_chunks_def)
  from is_chunk_disjoint [OF this] \<open>c \<noteq> d\<close> show "chunk_pages c \<inter> chunk_pages d = {}"
    unfolding chunk_pages_def by (meson disjoint_iff prod_eqI)
next
  fix s r c s' assume ok: "pool_ok n s" and g: "get_chunk r s = Inr (Some c, s')"
  then obtain b where "c = (b, r)" "alloc_post r b s s'"
    using buddy_get_pages_total [OF ok, of r] by (auto simp: get_chunk_def)
  then show "pool_ok n s' \<and> c \<notin> live_chunks s \<and> live_chunks s' = insert c (live_chunks s)"
    using live_after_get [of r b s s'] ok by (simp add: pool_ok_def alloc_post_def frame_except_def)
next
  fix s r s' assume ok: "pool_ok n s" and g: "get_chunk r s = Inr (None, s')"
  then show "pool_ok n s' \<and> live_chunks s' = live_chunks s"
    using buddy_get_pages_total [OF ok, of r] by (auto simp: get_chunk_def)
next
  fix s c assume ok: "pool_ok n s" and c: "c \<in> live_chunks s"
  then have ch: "is_chunk s (fst c) (snd c) True" by (auto simp: live_chunks_def)
  obtain s' where "buddy_free_pages (fst c) s = Inr s'" "free_post {fst c..<fst c + 2 ^ snd c} s s'"
    using buddy_free_pages_spec [OF pool_okD(1) [OF ok] ch] by blast
  then show "\<exists>s'. put_chunk c s = Inr s' \<and> pool_ok n s' \<and> live_chunks s' = live_chunks s - {c}"
    using live_after_put [OF pool_okD(2) [OF ok] ch] ok
    by (auto simp: put_chunk_def pool_ok_def free_post_def frame_except_def)
next
  fix s r assume "pool_ok n s"
  then show "\<exists>x s'. get_chunk r s = Inr (x, s')"
    using buddy_get_pages_total [of n s r] by (auto simp: get_chunk_def)
qed

section \<open>Properties of the page allocator\<close>

lemma free_page_has_free_from:
  assumes "chunks_ok p" "i \<in> free_pages_of p"
  shows "has_free_from p 0"
  using assms(2) unfolding free_pages_split [OF assms(1)] has_free_from_def by blast

lemma boot_pool:
  obtains p where "init_buddy 4096 6 0 = Inr p" "pool_ok 6 p" "buddy_inv p" "free_pages_of p = {..<6}"
    "pool_phys_page_num p = 6" "has_free_from p 0" "live_chunks p = {}"
proof -
  obtain p where p: "init_buddy 4096 6 0 = Inr p" "buddy_inv p" "free_pages_of p = {..<6}"
    "pool_phys_page_num p = 6" "nr_free_past_end p = 0"
    using init_buddy_spec [of 4096 6 0] by auto
  have ch: "chunks_ok p" using p(2) by (simp add: buddy_inv_def buddy_inv_except_def)
  have "has_free_from p 0" using free_page_has_free_from [OF ch, of 0] p(3) by simp
  moreover have "live_chunks p = {}"
  proof -
    have "b \<notin> free_pages_of p" "b < 6" if "is_chunk p b k True" for b k
      using that is_chunk_bound [OF that] p(4) by (auto simp: is_chunk_def free_pages_of_def)
    then show ?thesis using p(3) by (auto simp: live_chunks_def)
  qed
  ultimately show thesis using that p by (simp add: pool_ok_def)
qed

text \<open>C25: \<^verbatim>\<open>buddy_get_pages\<close> on a pool that satisfies the allocator's invariant, with a
  free chunk of the requested order or a larger one, returns the first page of a block of
  \<open>2 ^ k\<close> pages, naturally aligned by physical frame number and inside the pool; all pages of
  the block were free, exactly they stop being free, the metadata of every allocated page is
  unchanged, and the invariant holds again.\<close>

theorem buddy_get_pages_correct:
  assumes "buddy_inv p" "has_free_from p k"
  shows "\<exists>b p'. buddy_get_pages k p = Inr (Some b, p') \<and> buddy_inv p' \<and>
    2 ^ k dvd base_frame p + b \<and> b + 2 ^ k \<le> npages p \<and> {b..<b + 2 ^ k} \<subseteq> free_pages_of p \<and>
    free_pages_of p' = free_pages_of p - {b..<b + 2 ^ k} \<and>
    (\<forall>j. allocated (page_metadata p j) \<longrightarrow> page_metadata p' j = page_metadata p j)"
proof -
  have "k \<le> BUDDY_MAX_ORDER" using assms(2) by (auto simp: has_free_from_def)
  from buddy_get_pages_spec [OF assms(1) this] assms(2) obtain b p' where
    r: "buddy_get_pages k p = Inr (Some b, p')" and post: "alloc_post k b p p'" by auto
  have "base_frame p' = base_frame p" "npages p' = npages p" "is_chunk p' b k True"
    using post by (simp_all add: alloc_post_def frame_except_def base_frame_def)
  then have "2 ^ k dvd base_frame p + b \<and> b + 2 ^ k \<le> npages p" by (simp add: is_chunk_def)
  with r post show ?thesis by (auto simp: alloc_post_def frame_except_def)
qed

theorem buddy_get_pages_correct_witness:
  "\<exists>p b p'. init_buddy 4096 6 0 = Inr p \<and> buddy_get_pages 0 p = Inr (Some b, p') \<and> buddy_inv p' \<and>
    b < 6 \<and> free_pages_of p' = {..<6} - {b}"
proof -
  obtain p where p: "init_buddy 4096 6 0 = Inr p" "buddy_inv p" "free_pages_of p = {..<6}"
    "pool_phys_page_num p = 6" "has_free_from p 0" by (rule boot_pool)
  from buddy_get_pages_correct [OF p(2,5)] obtain b p' where
    "buddy_get_pages 0 p = Inr (Some b, p')" "buddy_inv p'" "b + 2 ^ 0 \<le> npages p"
    "free_pages_of p' = free_pages_of p - {b..<b + 2 ^ 0}" by blast
  with p show ?thesis by auto
qed

text \<open>C26: \<^verbatim>\<open>buddy_free_pages\<close> on an allocated chunk never faults: its merge loop ends,
  exactly the pages of the chunk become free, other allocated pages keep their metadata and the
  invariant holds again.\<close>

theorem buddy_free_pages_correct:
  assumes "buddy_inv p" "is_chunk p b k True"
  shows "\<exists>p'. buddy_free_pages b p = Inr p' \<and> buddy_inv p' \<and>
    free_pages_of p' = free_pages_of p \<union> {b..<b + 2 ^ k} \<and>
    (\<forall>j. j \<notin> {b..<b + 2 ^ k} \<and> allocated (page_metadata p j) \<longrightarrow> page_metadata p' j = page_metadata p j)"
proof -
  obtain p' where "buddy_free_pages b p = Inr p'" "free_post {b..<b + 2 ^ k} p p'"
    using buddy_free_pages_spec [OF assms] by blast
  then show ?thesis by (auto simp: free_post_def frame_except_def)
qed

theorem buddy_free_pages_correct_witness:
  "\<exists>p b p' p''. init_buddy 4096 6 0 = Inr p \<and> buddy_get_pages 0 p = Inr (Some b, p') \<and>
    buddy_free_pages b p' = Inr p'' \<and> free_pages_of p'' = {..<6}"
proof -
  obtain p where p: "init_buddy 4096 6 0 = Inr p" "buddy_inv p" "free_pages_of p = {..<6}"
    "has_free_from p 0" by (rule boot_pool)
  have "(0::nat) \<le> BUDDY_MAX_ORDER" by simp
  from buddy_get_pages_spec [OF p(2) this] p(4) obtain b p' where
    g: "buddy_get_pages 0 p = Inr (Some b, p')" and post: "alloc_post 0 b p p'" by auto
  then obtain p'' where "buddy_free_pages b p' = Inr p''" "free_pages_of p'' = free_pages_of p' \<union> {b..<b + 2 ^ 0}"
    using buddy_free_pages_correct [of p' b 0] by (auto simp: alloc_post_def)
  moreover have "free_pages_of p' \<union> {b..<b + 2 ^ 0} = {..<6}"
    using post p(3) by (auto simp: alloc_post_def)
  ultimately show ?thesis using p(1) g by (intro exI conjI) simp_all
qed





text \<open>C37: The loop bound \<^verbatim>\<open>match_order <= BUDDY_MAX_ORDER\<close> of
  \<^verbatim>\<open>buddy_get_pages\<close> makes it read one entry past the array of free lists: when no free
  chunk is large enough, the call returns \<^verbatim>\<open>NULL\<close> only if the word found there is 0, and
  otherwise follows a list head that does not exist.\<close>

theorem buddy_get_pages_exhausted:
  assumes "buddy_inv p" "k \<le> BUDDY_MAX_ORDER" "\<not> has_free_from p k"
  shows "buddy_get_pages k p = (if nr_free_past_end p = 0 then Inr (None, p) else Inl BadPtr)"
  using buddy_get_pages_spec [OF assms(1,2)] assms(3) by simp

theorem buddy_get_pages_exhausted_witness:
  "\<exists>p. init_buddy 4096 0 7 = Inr p \<and> buddy_get_pages 3 p = Inl BadPtr"
proof -
  obtain p where p: "init_buddy 4096 0 7 = Inr p" "buddy_inv p" "pool_phys_page_num p = 0"
    "nr_free_past_end p = 7"
    using init_buddy_spec [of 4096 0 7] by auto
  then have "\<not> has_free_from p 3" by (simp add: has_free_from_def free_heads_def)
  with p show ?thesis using buddy_get_pages_exhausted [OF p(2), of 3] by (simp add: BUDDY_MAX_ORDER_def)
qed

end
