(* ===== verification/Slab_Rep.thy ===== *)
theory Slab_Rep
  imports Kmalloc Buddy_Free
begin

text \<open>What kernel memory holds when the object allocator is intact: every order has a chain of
  slabs, every slab is a chunk of 512 pages whose pages point back to it, and its free slots are
  linked through their first words. The representation \<open>R\<close> gives, for each order, the slabs with
  their free slots. It determines the live blocks, which never overlap.\<close>

section \<open>Addresses\<close>

lemma unat_plus_small: "unat (a :: u64) + n < 2 ^ 64 \<Longrightarrow> unat (a + of_nat n) = unat a + n"
  by (simp add: unat_word_ariths unsigned_of_nat take_bit_nat_eq_self mod_less)

definition page_addr :: "phys_mem_pool \<Rightarrow> nat \<Rightarrow> vaddr" where
  "page_addr p i = of_nat i * BUDDY_PAGE_SIZE + pool_start_addr p"

lemma page_addr_nat: "pool_geometry p \<Longrightarrow> i < npages p \<Longrightarrow> unat (page_addr p i) = (base_frame p + i) * 4096"
  by (simp add: page_addr_def page_addr_unat)

definition slot_at :: "nat \<Rightarrow> u64 \<Rightarrow> nat \<Rightarrow> u64" where
  "slot_at ord s k = s + of_nat (k * 2 ^ ord)"

definition nslots :: "nat \<Rightarrow> nat" where
  "nslots ord = 2 ^ (21 - ord)"

definition slots_in :: "nat \<Rightarrow> u64 \<Rightarrow> u64 set" where
  "slots_in ord s = slot_at ord s ` {1..<nslots ord}"

definition slab_bytes :: "u64 \<Rightarrow> nat set" where
  "slab_bytes s = {unat s..<unat s + 2 ^ 21}"

abbreviation slab_order :: "nat \<Rightarrow> bool" where
  "slab_order ord \<equiv> 5 \<le> ord \<and> ord \<le> 11"

lemma nslots_mult: "ord \<le> 21 \<Longrightarrow> nslots ord * 2 ^ ord = 2 ^ 21"
  by (simp add: nslots_def power_add [symmetric])

lemma slot_bound: "ord \<le> 21 \<Longrightarrow> k < nslots ord \<Longrightarrow> k * 2 ^ ord + 2 ^ ord \<le> 2 ^ 21"
  using mult_le_mono1 [of "Suc k" "nslots ord" "2 ^ ord"] by (simp add: nslots_mult)

lemma slot_at_nat:
  assumes "unat s + 2 ^ 21 < 2 ^ 64" "ord \<le> 21" "k < nslots ord"
  shows "unat (slot_at ord s k) = unat s + k * 2 ^ ord"
  using slot_bound [OF assms(2,3)] assms(1) unfolding slot_at_def by (intro unat_plus_small) simp

lemma slot_at_inj:
  assumes "unat s + 2 ^ 21 < 2 ^ 64" "ord \<le> 21" "k < nslots ord" "j < nslots ord"
    "slot_at ord s k = slot_at ord s j"
  shows "k = j"
proof -
  have "unat s + k * 2 ^ ord = unat s + j * 2 ^ ord"
    unfolding slot_at_nat [OF assms(1-3), symmetric] slot_at_nat [OF assms(1,2,4), symmetric] assms(5) ..
  then show ?thesis by simp
qed

lemma slot_apart:
  fixes k j :: nat
  assumes "k \<noteq> j" "x \<in> {k * 2 ^ ord..<k * 2 ^ ord + 2 ^ ord}"
  shows "x \<noteq> j * 2 ^ ord"
proof
  assume x: "x = j * 2 ^ ord"
  have "k * 2 ^ ord \<le> j * 2 ^ ord" "j * 2 ^ ord < Suc k * 2 ^ ord" using assms(2) x by simp_all
  then have "k \<le> j" "j < Suc k" by (simp_all only: mult_le_cancel2 mult_less_cancel2)
  with assms(1) show False by simp
qed

section \<open>Linked structures\<close>

primrec linked :: "(u64 \<Rightarrow> u64) \<Rightarrow> u64 \<Rightarrow> u64 list \<Rightarrow> bool" where
  "linked nx a [] \<longleftrightarrow> a = 0"
| "linked nx a (x # xs) \<longleftrightarrow> a = x \<and> x \<noteq> 0 \<and> linked nx (nx x) xs"

lemma linked_cong: "(\<And>x. x \<in> set xs \<Longrightarrow> nx x = nx' x) \<Longrightarrow> linked nx a xs = linked nx' a xs"
  by (induction xs arbitrary: a) auto

lemma linked_unique: "linked nx a xs \<Longrightarrow> linked nx a ys \<Longrightarrow> xs = ys"
proof (induction xs arbitrary: a ys)
  case Nil
  then show ?case by (cases ys) auto
next
  case (Cons x xs)
  then show ?case by (cases ys) auto
qed

text \<open>A chain of slabs, each with the list of its free slots.\<close>

fun chain_rep :: "nat \<Rightarrow> (u64 \<times> u64 list) list \<Rightarrow> u64 \<Rightarrow> (u64 \<Rightarrow> u64) \<Rightarrow> bool" where
  "chain_rep ord [] a M \<longleftrightarrow> a = 0"
| "chain_rep ord ((s, fs) # r) a M \<longleftrightarrow> a = s \<and> s \<noteq> 0 \<and> linked M (M s) fs \<and> distinct fs \<and>
     set fs \<subseteq> slots_in ord s \<and> chain_rep ord r (M (s + 8)) M"

text \<open>A slab reads its first two words and the first words of its free slots.\<close>

definition reads :: "u64 \<times> u64 list \<Rightarrow> u64 set" where
  "reads e = {fst e, fst e + 8} \<union> set (snd e)"

lemma chain_rep_cong:
  "(\<And>e a. e \<in> set r \<Longrightarrow> a \<in> reads e \<Longrightarrow> M a = M' a) \<Longrightarrow> chain_rep ord r a M = chain_rep ord r a M'"
proof (induction r arbitrary: a)
  case (Cons e r)
  obtain s fs where e: "e = (s, fs)" by (cases e)
  have "M s = M' s" "M (s + 8) = M' (s + 8)" "\<And>x. x \<in> set fs \<Longrightarrow> M x = M' x"
    using Cons.prems [of e] e by (auto simp: reads_def)
  moreover have "chain_rep ord r (M' (s + 8)) M = chain_rep ord r (M' (s + 8)) M'"
    by (rule Cons.IH) (use Cons.prems in auto)
  ultimately show ?case using e linked_cong [of fs M M' "M s"] by simp
qed simp

lemma chain_rep_unique: "chain_rep ord r a M \<Longrightarrow> chain_rep ord r' a M \<Longrightarrow> r = r'"
proof (induction r arbitrary: a r')
  case Nil
  then show ?case by (cases r') auto
next
  case (Cons e r)
  obtain s fs where e: "e = (s, fs)" by (cases e)
  with Cons.prems have s: "a = s" "s \<noteq> 0" "linked M (M s) fs" "chain_rep ord r (M (s + 8)) M" by auto
  then obtain s' fs' t where r': "r' = (s', fs') # t" using Cons.prems(2) by (cases r') auto
  with Cons.prems(2) s have "s' = s" "linked M (M s) fs'" "chain_rep ord t (M (s + 8)) M" by auto
  with Cons.IH [OF s(4)] linked_unique [OF s(3)] e r' show ?case by simp
qed

section \<open>The representation\<close>

type_synonym rep = "nat \<Rightarrow> (u64 \<times> u64 list) list"

definition slab_chunk :: "phys_mem_pool \<Rightarrow> u64 \<Rightarrow> bool" where
  "slab_chunk p s \<longleftrightarrow> (\<exists>b. is_chunk p b 9 True \<and> s = page_addr p b \<and>
     (\<forall>i \<in> {b..<b + 512}. slab (page_metadata p i) = s))"

definition slabs_in :: "rep \<Rightarrow> nat \<Rightarrow> u64 set" where
  "slabs_in R ord = fst ` set (R ord)"

text \<open>The part about the pool: which pages belong to slabs.\<close>

definition pool_rep :: "rep \<Rightarrow> phys_mem_pool \<Rightarrow> bool" where
  "pool_rep R p \<longleftrightarrow> buddy_inv p \<and> 0 < pool_start_addr p \<and>
     (\<forall>ord. R ord \<noteq> [] \<longrightarrow> slab_order ord) \<and> (\<forall>ord. distinct (map fst (R ord))) \<and>
     (\<forall>o1 o2 s. s \<in> slabs_in R o1 \<and> s \<in> slabs_in R o2 \<longrightarrow> o1 = o2) \<and>
     (\<forall>ord. \<forall>s \<in> slabs_in R ord. slab_chunk p s) \<and>
     (\<forall>i < npages p. slab (page_metadata p i) \<noteq> 0 \<longrightarrow>
        (\<exists>ord. slab (page_metadata p i) \<in> slabs_in R ord) \<and>
        unat (page_addr p i) \<in> slab_bytes (slab (page_metadata p i)))"

definition mm_rep :: "rep \<Rightarrow> mm_state \<Rightarrow> bool" where
  "mm_rep R m \<longleftrightarrow> pool_rep R (pool m) \<and> (\<forall>ord. slab_order ord \<longrightarrow> chain_rep ord (R ord) (slabs m ord) (mem m))"

text \<open>Live blocks: an address and a length, in bytes.\<close>

definition slot_blocks :: "rep \<Rightarrow> (nat \<times> nat) set" where
  "slot_blocks R = {(unat x, 2 ^ ord) | x ord s fs. (s, fs) \<in> set (R ord) \<and> x \<in> slots_in ord s - set fs}"

definition page_blocks :: "phys_mem_pool \<Rightarrow> (nat \<times> nat) set" where
  "page_blocks p = {(unat (page_addr p b), 2 ^ k * 4096) | b k.
     is_chunk p b k True \<and> slab (page_metadata p b) = 0}"

definition rep_blocks :: "rep \<Rightarrow> mm_state \<Rightarrow> (nat \<times> nat) set" where
  "rep_blocks R m = slot_blocks R \<union> page_blocks (pool m)"

definition block_bytes :: "nat \<times> nat \<Rightarrow> nat set" where
  "block_bytes c = {fst c..<fst c + snd c}"

section \<open>Consequences for the pool\<close>

lemma pool_repD:
  assumes "pool_rep R p"
  shows "buddy_inv p" "pool_geometry p" "chunks_ok p" "0 < pool_start_addr p"
    "\<And>ord. R ord \<noteq> [] \<Longrightarrow> slab_order ord" "\<And>ord. distinct (map fst (R ord))"
    "\<And>s o1 o2. s \<in> slabs_in R o1 \<Longrightarrow> s \<in> slabs_in R o2 \<Longrightarrow> o1 = o2"
    "\<And>ord s. s \<in> slabs_in R ord \<Longrightarrow> slab_chunk p s"
    "\<And>i. i < npages p \<Longrightarrow> slab (page_metadata p i) \<noteq> 0 \<Longrightarrow>
       (\<exists>ord. slab (page_metadata p i) \<in> slabs_in R ord) \<and>
       unat (page_addr p i) \<in> slab_bytes (slab (page_metadata p i))"
  using assms unfolding pool_rep_def buddy_inv_def buddy_inv_except_def by blast+

definition chunk_bytes :: "phys_mem_pool \<Rightarrow> nat \<Rightarrow> nat \<Rightarrow> nat set" where
  "chunk_bytes p b k = {(base_frame p + b) * 4096..<(base_frame p + b + 2 ^ k) * 4096}"

lemma chunk_bytes_page:
  assumes "x \<in> chunk_bytes p b k"
  obtains i where "i \<in> {b..<b + 2 ^ k}" "x div 4096 = base_frame p + i"
proof -
  have "base_frame p + b \<le> x div 4096" "x div 4096 < base_frame p + b + 2 ^ k"
    using assms by (simp_all add: chunk_bytes_def less_eq_div_iff_mult_less_eq div_less_iff_less_mult)
  then have "x div 4096 - base_frame p \<in> {b..<b + 2 ^ k}" "x div 4096 = base_frame p + (x div 4096 - base_frame p)"
    by auto
  then show thesis by (rule that)
qed

lemma chunk_bytes_disjoint:
  assumes "is_chunk p b k al" "is_chunk p c j al'" "x \<in> chunk_bytes p b k" "x \<in> chunk_bytes p c j"
  shows "b = c \<and> k = j"
proof -
  obtain i where i: "i \<in> {b..<b + 2 ^ k}" "x div 4096 = base_frame p + i" by (rule chunk_bytes_page [OF assms(3)])
  obtain i' where i': "i' \<in> {c..<c + 2 ^ j}" "x div 4096 = base_frame p + i'" by (rule chunk_bytes_page [OF assms(4)])
  have "i = i'" using i(2) i'(2) by simp
  then show ?thesis using is_chunk_disjoint [OF assms(1,2) i(1)] i'(1) by simp
qed

lemma slab_chunk_bytes:
  assumes g: "pool_geometry p" and c: "is_chunk p b 9 True"
  shows "slab_bytes (page_addr p b) = chunk_bytes p b 9" "unat (page_addr p b) + 2 ^ 21 < 2 ^ 64"
proof -
  have b: "b < npages p" "b + 512 \<le> npages p" using c is_chunk_bound [OF c] by (simp_all add: is_chunk_def)
  have "(base_frame p + npages p) * 4096 < 2 ^ 64"
    using g base_frame_mult [OF g] by (simp add: pool_geometry_def algebra_simps)
  then show "unat (page_addr p b) + 2 ^ 21 < 2 ^ 64" using b page_addr_nat [OF g b(1)] by simp
  show "slab_bytes (page_addr p b) = chunk_bytes p b 9"
    using page_addr_nat [OF g b(1)] by (simp add: slab_bytes_def chunk_bytes_def algebra_simps)
qed

lemma slab_fits:
  assumes "pool_rep R p" "s \<in> slabs_in R ord"
  shows "unat s + 2 ^ 21 < 2 ^ 64" "s \<noteq> 0"
proof -
  obtain b where b: "is_chunk p b 9 True" "s = page_addr p b"
    using pool_repD(8) [OF assms] by (auto simp: slab_chunk_def)
  then show "unat s + 2 ^ 21 < 2 ^ 64" using slab_chunk_bytes(2) [OF pool_repD(2) [OF assms(1)]] by simp
  have "unat s = (base_frame p + b) * 4096" "0 < base_frame p * 4096"
    using b page_addr_nat [OF pool_repD(2) [OF assms(1)]] is_chunk_bound [OF b(1)] pool_repD(4) [OF assms(1)]
      base_frame_mult [OF pool_repD(2) [OF assms(1)]] by (simp_all add: word_less_nat_alt)
  then show "s \<noteq> 0" by auto
qed

text \<open>Different slabs do not overlap, and a slab overlaps no chunk of plain pages.\<close>

lemma slabs_apart:
  assumes rep: "pool_rep R p" and s: "s \<in> slabs_in R o1" and t: "t \<in> slabs_in R o2"
    and x: "x \<in> slab_bytes s" "x \<in> slab_bytes t"
  shows "s = t"
proof -
  note g = pool_repD(2) [OF rep]
  obtain b where b: "is_chunk p b 9 True" "s = page_addr p b" using pool_repD(8) [OF rep s] by (auto simp: slab_chunk_def)
  obtain c where c: "is_chunk p c 9 True" "t = page_addr p c" using pool_repD(8) [OF rep t] by (auto simp: slab_chunk_def)
  have "x \<in> chunk_bytes p b 9" "x \<in> chunk_bytes p c 9"
    using x b(2) c(2) slab_chunk_bytes(1) [OF g b(1)] slab_chunk_bytes(1) [OF g c(1)] by auto
  with chunk_bytes_disjoint [OF b(1) c(1)] b(2) c(2) show ?thesis by blast
qed

lemma page_block_apart:
  assumes rep: "pool_rep R p" and s: "s \<in> slabs_in R o1"
    and c: "is_chunk p b k True" "slab (page_metadata p b) = 0"
  shows "slab_bytes s \<inter> chunk_bytes p b k = {}"
proof (rule ccontr)
  assume "slab_bytes s \<inter> chunk_bytes p b k \<noteq> {}"
  then obtain x where x: "x \<in> slab_bytes s" "x \<in> chunk_bytes p b k" by blast
  obtain d where d: "is_chunk p d 9 True" "s = page_addr p d" "\<forall>i \<in> {d..<d + 512}. slab (page_metadata p i) = s"
    using pool_repD(8) [OF rep s] by (auto simp: slab_chunk_def)
  have "x \<in> chunk_bytes p d 9" using x(1) d(2) slab_chunk_bytes(1) [OF pool_repD(2) [OF rep] d(1)] by simp
  then have "d = b" using chunk_bytes_disjoint [OF d(1) c(1)] x(2) by blast
  then have "slab (page_metadata p b) = s" using d(3) by simp
  with c(2) slab_fits(2) [OF rep s] show False by simp
qed

lemma chunk_addr_bytes:
  assumes g: "pool_geometry p" and c: "is_chunk p b k True"
  shows "block_bytes (unat (page_addr p b), 2 ^ k * 4096) = chunk_bytes p b k"
  using page_addr_nat [OF g is_chunk_bound [OF c]] by (simp add: block_bytes_def chunk_bytes_def algebra_simps)

section \<open>Slots\<close>

lemma slots_inE:
  assumes "x \<in> slots_in ord s"
  obtains k where "1 \<le> k" "k < nslots ord" "x = slot_at ord s k"
  using assms by (auto simp: slots_in_def)

lemma slot_bytes:
  assumes fit: "unat s + 2 ^ 21 < 2 ^ 64" and ord: "ord \<le> 21" and x: "x \<in> slots_in ord s"
  shows "block_bytes (unat x, 2 ^ ord) \<subseteq> slab_bytes s" "unat s + 2 ^ ord \<le> unat x" "x \<noteq> 0"
proof -
  obtain k where k: "1 \<le> k" "k < nslots ord" "x = slot_at ord s k" by (rule slots_inE [OF x])
  have u: "unat x = unat s + k * 2 ^ ord" using slot_at_nat [OF fit ord k(2)] k(3) by simp
  show "block_bytes (unat x, 2 ^ ord) \<subseteq> slab_bytes s"
    using u slot_bound [OF ord k(2)] by (auto simp: block_bytes_def slab_bytes_def)
  have "2 ^ ord \<le> k * 2 ^ ord" using k(1) by simp
  then show le: "unat s + 2 ^ ord \<le> unat x" using u by simp
  have "0 < unat x" using le by (meson add_pos_nonneg le_add2 less_le_trans zero_le zero_less_numeral zero_less_power)
  then show "x \<noteq> 0" by auto
qed

lemma slot_of_byte:
  assumes fit: "unat s + 2 ^ 21 < 2 ^ 64" and ord: "ord \<le> 21"
    and x: "x \<in> slots_in ord s" and y: "y \<in> slots_in ord s"
    and b: "unat y \<in> block_bytes (unat x, 2 ^ ord)"
  shows "x = y"
proof -
  obtain k where k: "1 \<le> k" "k < nslots ord" "x = slot_at ord s k" by (rule slots_inE [OF x])
  obtain j where j: "1 \<le> j" "j < nslots ord" "y = slot_at ord s j" by (rule slots_inE [OF y])
  have "unat x = unat s + k * 2 ^ ord" "unat y = unat s + j * 2 ^ ord"
    using slot_at_nat [OF fit ord] k j by simp_all
  then have "j * 2 ^ ord \<in> {k * 2 ^ ord..<k * 2 ^ ord + 2 ^ ord}" using b by (auto simp: block_bytes_def)
  then have "j = k" using slot_apart [of k j "j * 2 ^ ord" ord] by blast
  then show ?thesis using k j by simp
qed

lemma slots_disjoint:
  assumes fit: "unat s + 2 ^ 21 < 2 ^ 64" and ord: "ord \<le> 21"
    and x: "x \<in> slots_in ord s" and y: "y \<in> slots_in ord s"
    and b: "z \<in> block_bytes (unat x, 2 ^ ord)" "z \<in> block_bytes (unat y, 2 ^ ord)"
  shows "x = y"
proof -
  have "unat y \<in> block_bytes (unat x, 2 ^ ord) \<or> unat x \<in> block_bytes (unat y, 2 ^ ord)"
    using b by (auto simp: block_bytes_def)
  then show ?thesis using slot_of_byte [OF fit ord x y] slot_of_byte [OF fit ord y x] by blast
qed

end
