(* ===== verification/Slab_Correct.thy ===== *)
theory Slab_Correct
  imports Slab_Rep
begin

text \<open>The slab allocator keeps the representation of \<open>Slab_Rep\<close>: what initialising a slab, taking a
  slot, and returning a slot do to it.\<close>

section \<open>Live blocks\<close>

definition entry_blocks :: "nat \<Rightarrow> u64 \<times> u64 list \<Rightarrow> (nat \<times> nat) set" where
  "entry_blocks ord e = (\<lambda>x. (unat x, 2 ^ ord)) ` (slots_in ord (fst e) - set (snd e))"

lemma slot_blocks_entries: "slot_blocks R = (\<Union>ord. \<Union>e \<in> set (R ord). entry_blocks ord e)"
  unfolding slot_blocks_def entry_blocks_def by fastforce

lemma rep_orders: "pool_rep R p \<Longrightarrow> e \<in> set (R ord) \<Longrightarrow> slab_order ord \<and> fst e \<in> slabs_in R ord"
  using pool_repD(5) [of R p ord] by (cases "R ord") (force simp: slabs_in_def)+

lemma slot_blockE:
  assumes rep: "pool_rep R p" and c: "c \<in> slot_blocks R"
  obtains ord s fs x where "(s, fs) \<in> set (R ord)" "s \<in> slabs_in R ord" "slab_order ord"
    "x \<in> slots_in ord s" "x \<notin> set fs" "c = (unat x, 2 ^ ord)" "block_bytes c \<subseteq> slab_bytes s"
    "unat s + 2 ^ ord \<le> unat x"
proof -
  obtain ord s fs x where x: "(s, fs) \<in> set (R ord)" "x \<in> slots_in ord s" "x \<notin> set fs" "c = (unat x, 2 ^ ord)"
    using c by (auto simp: slot_blocks_def)
  have o: "slab_order ord" "s \<in> slabs_in R ord" using rep_orders [OF rep x(1)] by simp_all
  then have "ord \<le> 21" by simp
  note S = slot_bytes [OF slab_fits(1) [OF rep o(2)] this x(2)]
  show thesis by (rule that [OF x(1) o(2,1) x(2-4)]) (use S x(4) in auto)
qed

lemma page_blockE:
  assumes rep: "pool_rep R p" and c: "c \<in> page_blocks p"
  obtains b k where "is_chunk p b k True" "slab (page_metadata p b) = 0"
    "c = (unat (page_addr p b), 2 ^ k * 4096)" "block_bytes c = chunk_bytes p b k"
proof -
  obtain b k where b: "is_chunk p b k True" "slab (page_metadata p b) = 0" "c = (unat (page_addr p b), 2 ^ k * 4096)"
    using c by (auto simp: page_blocks_def)
  with chunk_addr_bytes [OF pool_repD(2) [OF rep] b(1)] show thesis by (intro that) auto
qed

lemma entry_unique:
  assumes rep: "pool_rep R p" and e: "(s, fs) \<in> set (R o1)" "(s, gs) \<in> set (R o2)"
  shows "o1 = o2 \<and> fs = gs"
proof -
  have "o1 = o2" using pool_repD(7) [OF rep, of s o1 o2] e by (force simp: slabs_in_def)
  with pool_repD(6) [OF rep, of o1] e show ?thesis by (auto dest: eq_key_imp_eq_value)
qed

text \<open>Live blocks do not overlap.\<close>

lemma rep_blocks_disjoint:
  assumes rep: "pool_rep R (pool m)" and c: "c \<in> rep_blocks R m" and d: "d \<in> rep_blocks R m"
    and z: "z \<in> block_bytes c" "z \<in> block_bytes d"
  shows "c = d"
proof (cases "c \<in> slot_blocks R")
  case True
  then obtain ord s fs x where x: "(s, fs) \<in> set (R ord)" "s \<in> slabs_in R ord" "slab_order ord"
    "x \<in> slots_in ord s" "c = (unat x, 2 ^ ord)" "block_bytes c \<subseteq> slab_bytes s"
    by (elim slot_blockE [OF rep])
  show ?thesis
  proof (cases "d \<in> slot_blocks R")
    case True
    then obtain o2 t gs y where y: "(t, gs) \<in> set (R o2)" "t \<in> slabs_in R o2"
      "y \<in> slots_in o2 t" "d = (unat y, 2 ^ o2)" "block_bytes d \<subseteq> slab_bytes t"
      by (elim slot_blockE [OF rep])
    have st: "s = t" using slabs_apart [OF rep x(2) y(2), of z] z x(6) y(5) by blast
    then have o2: "ord = o2" using entry_unique [OF rep x(1)] y(1) by simp
    have "ord \<le> 21" using x(3) by simp
    from slots_disjoint [OF slab_fits(1) [OF rep x(2)] this x(4), of y z] y(3) z x(5) y(4) st o2
    show ?thesis by simp
  next
    case False
    then have "d \<in> page_blocks (pool m)" using d by (simp add: rep_blocks_def)
    then obtain b k where "is_chunk (pool m) b k True" "slab (page_metadata (pool m) b) = 0"
      "block_bytes d = chunk_bytes (pool m) b k" by (elim page_blockE [OF rep])
    with page_block_apart [OF rep x(2)] x(6) z show ?thesis by blast
  qed
next
  case False
  then have "c \<in> page_blocks (pool m)" using c by (simp add: rep_blocks_def)
  then obtain b k where b: "is_chunk (pool m) b k True" "slab (page_metadata (pool m) b) = 0"
    "c = (unat (page_addr (pool m) b), 2 ^ k * 4096)" "block_bytes c = chunk_bytes (pool m) b k"
    by (elim page_blockE [OF rep])
  show ?thesis
  proof (cases "d \<in> slot_blocks R")
    case True
    then obtain o2 t where y: "t \<in> slabs_in R o2" "block_bytes d \<subseteq> slab_bytes t"
      by (elim slot_blockE [OF rep])
    with page_block_apart [OF rep y(1) b(1,2)] z b(4) show ?thesis by blast
  next
    case False
    then have "d \<in> page_blocks (pool m)" using d by (simp add: rep_blocks_def)
    then obtain b' k' where b': "is_chunk (pool m) b' k' True" "d = (unat (page_addr (pool m) b'), 2 ^ k' * 4096)"
      "block_bytes d = chunk_bytes (pool m) b' k'" by (elim page_blockE [OF rep])
    with chunk_bytes_disjoint [OF b(1) b'(1), of z] z b(3,4) show ?thesis by simp
  qed
qed

section \<open>What the allocator reads\<close>

lemma chain_rep_entry:
  "chain_rep ord r a M \<Longrightarrow> (s, fs) \<in> set r \<Longrightarrow> linked M (M s) fs \<and> distinct fs \<and> set fs \<subseteq> slots_in ord s \<and> s \<noteq> 0"
proof (induction r arbitrary: a)
  case (Cons e r)
  show ?case
  proof (cases "e = (s, fs)")
    case True
    then show ?thesis using Cons.prems(1) by simp
  next
    case False
    then have "(s, fs) \<in> set r" "chain_rep ord r (M (fst e + 8)) M" using Cons.prems by (auto, cases e, simp)
    then show ?thesis using Cons.IH by blast
  qed
qed simp

lemma mm_rep_entry:
  assumes "mm_rep R m" "(s, fs) \<in> set (R ord)"
  shows "linked (mem m) (mem m s) fs" "distinct fs" "set fs \<subseteq> slots_in ord s" "s \<noteq> 0" "slab_order ord"
    "s \<in> slabs_in R ord" "unat s + 2 ^ 21 < 2 ^ 64"
proof -
  have p: "pool_rep R (pool m)" using assms(1) by (simp add: mm_rep_def)
  show o: "slab_order ord" "s \<in> slabs_in R ord" using rep_orders [OF p assms(2)] by simp_all
  then have "chain_rep ord (R ord) (slabs m ord) (mem m)" using assms(1) by (simp add: mm_rep_def)
  from chain_rep_entry [OF this assms(2)] show "linked (mem m) (mem m s) fs" "distinct fs"
    "set fs \<subseteq> slots_in ord s" "s \<noteq> 0" by simp_all
  show "unat s + 2 ^ 21 < 2 ^ 64" by (rule slab_fits(1) [OF p o(2)])
qed

lemma header_nat: "unat (s :: u64) + 2 ^ 21 < 2 ^ 64 \<Longrightarrow> unat (s + 8) = unat s + 8"
  using unat_plus_small [of s 8] by simp

lemma power_order: "slab_order ord \<Longrightarrow> (32 :: nat) \<le> 2 ^ ord \<and> (2 :: nat) ^ ord \<le> 2048"
  using power_increasing [of 5 ord "2 :: nat"] power_increasing [of ord 11 "2 :: nat"] by simp

lemma reads_in_slab:
  assumes rep: "mm_rep R m" and e: "(s, fs) \<in> set (R ord)" and a: "a \<in> reads (s, fs)"
  shows "unat a \<in> slab_bytes s"
proof (cases "a \<in> set fs")
  case True
  note E = mm_rep_entry [OF rep e]
  have "a \<in> slots_in ord s" "ord \<le> 21" using True E(3,5) by auto
  from slot_bytes(1) [OF E(7) this(2,1)] show ?thesis by (auto simp: block_bytes_def)
next
  case False
  then have "a = s \<or> a = s + 8" using a by (auto simp: reads_def)
  then show ?thesis using header_nat [OF mm_rep_entry(7) [OF rep e]] by (auto simp: slab_bytes_def)
qed

lemma reads_not_live:
  assumes rep: "mm_rep R m" and e: "(s, fs) \<in> set (R ord)" and a: "a \<in> reads (s, fs)"
    and c: "c \<in> rep_blocks R m"
  shows "unat a \<notin> block_bytes c"
proof
  assume ac: "unat a \<in> block_bytes c"
  note E = mm_rep_entry [OF rep e]
  have p: "pool_rep R (pool m)" using rep by (simp add: mm_rep_def)
  show False
  proof (cases "c \<in> slot_blocks R")
    case True
    then obtain o2 t gs x where x: "(t, gs) \<in> set (R o2)" "t \<in> slabs_in R o2" "slab_order o2" "x \<in> slots_in o2 t"
      "x \<notin> set gs" "c = (unat x, 2 ^ o2)" "block_bytes c \<subseteq> slab_bytes t" "unat t + 2 ^ o2 \<le> unat x"
      by (elim slot_blockE [OF p])
    have st: "s = t" using slabs_apart [OF p E(6) x(2)] reads_in_slab [OF rep e a] x(7) ac by blast
    then have eq: "ord = o2" "fs = gs" using entry_unique [OF p e] x(1) by simp_all
    show False
    proof (cases "a \<in> set fs")
      case True
      then have "a \<in> slots_in o2 t" "a \<noteq> x" "o2 \<le> 21" using E(3) eq st x(3,5) by auto
      with slot_of_byte [of t o2 x a] E(7) x(4,6) st ac show False by simp
    next
      case False
      then have "unat a \<le> unat s + 8" using a header_nat [OF E(7)] by (auto simp: reads_def)
      then show False using ac x(6,8) power_order [OF x(3)] st by (simp add: block_bytes_def)
    qed
  next
    case False
    then have "c \<in> page_blocks (pool m)" using c by (simp add: rep_blocks_def)
    then obtain b k where "is_chunk (pool m) b k True" "slab (page_metadata (pool m) b) = 0"
      "block_bytes c = chunk_bytes (pool m) b k" by (elim page_blockE [OF p])
    with page_block_apart [OF p E(6)] reads_in_slab [OF rep e a] ac show False by blast
  qed
qed

text \<open>So writes to live blocks, and to memory the allocator does not own, keep the representation.\<close>

lemma mm_rep_write:
  assumes rep: "mm_rep R m" and M: "\<And>a. (\<And>c. c \<in> rep_blocks R m \<Longrightarrow> unat a \<notin> block_bytes c) \<Longrightarrow> M a = mem m a"
  shows "mm_rep R (m\<lparr>mem := M\<rparr>)"
proof -
  have "chain_rep ord (R ord) (slabs m ord) M = chain_rep ord (R ord) (slabs m ord) (mem m)" for ord
    by (rule chain_rep_cong) (use reads_not_live [OF rep] M in force)
  then show ?thesis using rep by (simp add: mm_rep_def)
qed

section \<open>Changing one slab\<close>

lemma pool_rep_cong:
  assumes "\<And>ord. map fst (R' ord) = map fst (R ord)"
  shows "pool_rep R' p = pool_rep R p"
proof -
  have "slabs_in R' ord = slabs_in R ord" "R' ord = [] \<longleftrightarrow> R ord = []" for ord
    using assms [of ord] unfolding slabs_in_def by (metis set_map, metis map_is_Nil_conv)
  then show ?thesis using assms by (simp add: pool_rep_def)
qed

lemma chain_rep_update:
  assumes "chain_rep ord (pre @ (s, fs) # post) a M" "linked M' (M' s) fs'" "distinct fs'" "set fs' \<subseteq> slots_in ord s"
    "M' (s + 8) = M (s + 8)" "\<And>e a. e \<in> set (pre @ post) \<Longrightarrow> a \<in> reads e \<Longrightarrow> M a = M' a"
  shows "chain_rep ord (pre @ (s, fs') # post) a M'"
  using assms
proof (induction pre arbitrary: a)
  case Nil
  then show ?case using chain_rep_cong [of post M M' ord "M (s + 8)"] by simp
next
  case (Cons e pre)
  obtain t gs where e: "e = (t, gs)" by (cases e)
  have R: "M t = M' t" "M (t + 8) = M' (t + 8)" "\<And>x. x \<in> set gs \<Longrightarrow> M x = M' x"
    using Cons.prems(6) [of e] e by (auto simp: reads_def)
  have "chain_rep ord (pre @ (s, fs') # post) (M (t + 8)) M'"
    by (rule Cons.IH) (use Cons.prems e in auto)
  then show ?case using Cons.prems(1) e R linked_cong [of gs M M' "M t"] by simp
qed

lemma mm_rep_update:
  assumes rep: "mm_rep R m" and R: "R ord = pre @ (s, fs) # post"
    and out: "\<And>a. unat a \<notin> slab_bytes s \<Longrightarrow> M' a = mem m a"
    and fs': "linked M' (M' s) fs'" "distinct fs'" "set fs' \<subseteq> slots_in ord s" and nx: "M' (s + 8) = mem m (s + 8)"
  shows "mm_rep (R(ord := pre @ (s, fs') # post)) (m\<lparr>mem := M'\<rparr>)"
proof -
  have p: "pool_rep R (pool m)" using rep by (simp add: mm_rep_def)
  have e: "(s, fs) \<in> set (R ord)" using R by simp
  have agree: "mem m a = M' a" if "(t, gs) \<in> set (R o2)" "t \<noteq> s" "a \<in> reads (t, gs)" for t gs o2 a
  proof -
    have "unat a \<notin> slab_bytes s"
      using slabs_apart [OF p mm_rep_entry(6) [OF rep that(1)] mm_rep_entry(6) [OF rep e]]
        reads_in_slab [OF rep that(1,3)] that(2) by blast
    then show ?thesis by (simp add: out)
  qed
  have d: "distinct (map fst (R ord))" by (rule pool_repD(6) [OF p])
  have "chain_rep o2 ((R(ord := pre @ (s, fs') # post)) o2) (slabs m o2) M'" if o2: "slab_order o2" for o2
  proof (cases "o2 = ord")
    case True
    have "chain_rep ord (pre @ (s, fs') # post) (slabs m ord) M'"
    proof (rule chain_rep_update [where fs = fs and M = "mem m", OF _ fs' nx])
      show "chain_rep ord (pre @ (s, fs) # post) (slabs m ord) (mem m)"
        using rep o2 R unfolding mm_rep_def True by metis
    next
      fix x a assume x: "x \<in> set (pre @ post)" "a \<in> reads x"
      then have "x \<in> set (R ord)" "fst x \<noteq> s" using R d by (auto simp: image_iff)
      with agree [of "fst x" "snd x" ord a] x show "mem m a = M' a" by simp
    qed
    then show ?thesis using True by simp
  next
    case False
    have "chain_rep o2 (R o2) (slabs m o2) (mem m) = chain_rep o2 (R o2) (slabs m o2) M'"
    proof (rule chain_rep_cong)
      fix x a assume x: "x \<in> set (R o2)" "a \<in> reads x"
      have "fst x \<noteq> s" using entry_unique [OF p, of s "snd x" o2 fs ord] x(1) e False by (metis prod.collapse)
      with agree [of "fst x" "snd x" o2 a] x show "mem m a = M' a" by simp
    qed
    then show ?thesis using False rep o2 by (simp add: mm_rep_def)
  qed
  moreover have "pool_rep (R(ord := pre @ (s, fs') # post)) (pool m)"
    using p by (subst pool_rep_cong [of _ R]) (simp_all add: R)
  ultimately show ?thesis by (simp add: mm_rep_def)
qed

lemma slot_blocks_pop:
  assumes "R ord = pre @ (s, x # xs) # post" "x \<in> slots_in ord s" "x \<notin> set xs"
  shows "slot_blocks (R(ord := pre @ (s, xs) # post)) = insert (unat x, 2 ^ ord) (slot_blocks R)"
proof -
  let ?E = "\<lambda>r o2. \<Union>e \<in> set r. entry_blocks o2 e"
  have "?E (pre @ (s, xs) # post) ord = insert (unat x, 2 ^ ord) (?E (R ord) ord)"
    using assms by (auto simp: entry_blocks_def)
  then have "?E ((R(ord := pre @ (s, xs) # post)) o2) o2 =
      (if o2 = ord then {(unat x, 2 ^ ord)} else {}) \<union> ?E (R o2) o2" for o2
    by simp
  then show ?thesis unfolding slot_blocks_entries by (simp only: UN_Un_distrib) simp
qed

section \<open>Granting a block\<close>

definition ready :: "rep \<Rightarrow> bool" where
  "ready R \<longleftrightarrow> (\<forall>ord. slab_order ord \<longrightarrow> R ord \<noteq> [])"

definition keeps_blocks :: "rep \<Rightarrow> mm_state \<Rightarrow> mm_state \<Rightarrow> bool" where
  "keeps_blocks R m m' \<longleftrightarrow> (\<forall>c \<in> rep_blocks R m. \<forall>a. unat a \<in> block_bytes c \<longrightarrow> mem m' a = mem m a)"

definition granted :: "rep \<Rightarrow> mm_state \<Rightarrow> nat \<times> nat \<Rightarrow> rep \<Rightarrow> mm_state \<Rightarrow> bool" where
  "granted R m c R' m' \<longleftrightarrow> mm_rep R' m' \<and> ready R' \<and> c \<notin> rep_blocks R m \<and>
     rep_blocks R' m' = insert c (rep_blocks R m) \<and> keeps_blocks R m m'"

lemma pop_slot:
  assumes rep: "mm_rep R m" and rd: "ready R" and R: "R ord = pre @ (s, x # xs) # post"
  shows "mem m s = x" "x \<noteq> 0" "s \<noteq> 0"
    "granted R m (unat x, 2 ^ ord) (R(ord := pre @ (s, xs) # post)) (m\<lparr>mem := (mem m)(s := mem m x)\<rparr>)"
proof -
  have e: "(s, x # xs) \<in> set (R ord)" using R by simp
  note E = mm_rep_entry [OF rep e]
  have o21: "ord \<le> 21" using E(5) by simp
  show "mem m s = x" "x \<noteq> 0" "s \<noteq> 0" using E(1,4) by simp_all
  have ns: "s \<notin> set xs"
  proof
    assume "s \<in> set xs"
    then have "s \<in> slots_in ord s" using E(3) by auto
    from slot_bytes(2) [OF E(7) o21 this] show False using power_order [OF E(5)] by simp
  qed
  have "linked (mem m) (mem m x) xs" using E(1) by simp
  then have l: "linked ((mem m)(s := mem m x)) (mem m x) xs"
    using ns by (subst linked_cong [where nx' = "mem m"]) auto
  have "mm_rep (R(ord := pre @ (s, xs) # post)) (m\<lparr>mem := (mem m)(s := mem m x)\<rparr>)"
    by (rule mm_rep_update [OF rep R]) (use l E(2,3) in \<open>auto simp: slab_bytes_def\<close>)
  moreover have "ready (R(ord := pre @ (s, xs) # post))" using rd by (simp add: ready_def)
  moreover have "(unat x, 2 ^ ord) \<notin> rep_blocks R m"
    using reads_not_live [OF rep e, of x "(unat x, 2 ^ ord)"] by (auto simp: reads_def block_bytes_def)
  moreover have "rep_blocks (R(ord := pre @ (s, xs) # post)) (m\<lparr>mem := (mem m)(s := mem m x)\<rparr>) =
      insert (unat x, 2 ^ ord) (rep_blocks R m)"
    using slot_blocks_pop [of R ord pre s x xs post] R E(2,3) by (simp add: rep_blocks_def)
  moreover have "keeps_blocks R m (m\<lparr>mem := (mem m)(s := mem m x)\<rparr>)"
    using reads_not_live [OF rep e, of s] by (auto simp: keeps_blocks_def reads_def)
  ultimately show "granted R m (unat x, 2 ^ ord) (R(ord := pre @ (s, xs) # post)) (m\<lparr>mem := (mem m)(s := mem m x)\<rparr>)"
    by (simp add: granted_def)
qed

section \<open>Blocks of pages\<close>

definition page_block :: "phys_mem_pool \<Rightarrow> nat \<times> nat \<Rightarrow> nat \<times> nat" where
  "page_block p c = (unat (page_addr p (fst c)), 2 ^ snd c * 4096)"

lemma page_blocks_live:
  "page_blocks p = page_block p ` {c \<in> live_chunks p. slab (page_metadata p (fst c)) = 0}"
  by (force simp: page_blocks_def page_block_def live_chunks_def)

lemma image_remove:
  assumes "\<And>d. d \<in> A \<Longrightarrow> f d = f x \<Longrightarrow> d = x"
  shows "f ` (A - {x}) = f ` A - {f x}"
proof (rule set_eqI)
  fix y
  show "y \<in> f ` (A - {x}) \<longleftrightarrow> y \<in> f ` A - {f x}"
    using assms unfolding image_iff Diff_iff by fastforce
qed

lemma page_block_inj:
  assumes g: "pool_geometry p" and c: "is_chunk p (fst c) (snd c) True" and d: "is_chunk p (fst d) (snd d) True"
    and eq: "page_block p c = page_block p d"
  shows "c = d"
proof -
  have "(base_frame p + fst c) * 4096 = (base_frame p + fst d) * 4096" "(2 :: nat) ^ snd c = 2 ^ snd d"
    using eq page_addr_nat [OF g is_chunk_bound [OF c]] page_addr_nat [OF g is_chunk_bound [OF d]]
    by (simp_all add: page_block_def)
  then show ?thesis by (simp add: prod_eq_iff)
qed

lemma frame_addr:
  assumes "frame_except A p p'"
  shows "page_addr p' = page_addr p" "base_frame p' = base_frame p" "npages p' = npages p"
    "slab (page_metadata p' i) = slab (page_metadata p i)" "page_block p' = page_block p"
  using assms by (simp_all add: frame_except_def page_addr_def base_frame_def page_block_def fun_eq_iff)

lemma frame_slab_chunk:
  assumes fr: "frame_except A p p'" and c: "slab_chunk p s" and s: "s \<noteq> 0"
    and A: "\<And>i. i \<in> A \<Longrightarrow> slab (page_metadata p i) = 0"
  shows "slab_chunk p' s"
proof -
  obtain b where b: "is_chunk p b 9 True" "s = page_addr p b" "\<forall>i \<in> {b..<b + 512}. slab (page_metadata p i) = s"
    using c by (auto simp: slab_chunk_def)
  have "{b..<b + 2 ^ 9} \<inter> A = {}" using b(3) A s by fastforce
  then show ?thesis using b is_chunk_frame [OF b(1) fr] frame_addr [OF fr] by (auto simp: slab_chunk_def)
qed

lemma frame_pool_rep:
  assumes rep: "pool_rep R p" and fr: "frame_except A p p'" and inv: "buddy_inv p'"
    and A: "\<And>i. i \<in> A \<Longrightarrow> slab (page_metadata p i) = 0"
  shows "pool_rep R p'"
proof -
  have "pool_start_addr p' = pool_start_addr p" using fr by (simp add: frame_except_def)
  moreover have "slab_chunk p' s" if "s \<in> slabs_in R ord" for s ord
    using frame_slab_chunk [OF fr pool_repD(8) [OF rep that] slab_fits(2) [OF rep that] A] by blast
  ultimately show ?thesis using rep inv frame_addr [OF fr] by (simp add: pool_rep_def)
qed

text \<open>Free pages and the pages of plain blocks belong to no slab.\<close>

lemma slab_page_chunk:
  assumes rep: "pool_rep R p" and i: "i < npages p" "slab (page_metadata p i) \<noteq> 0"
  obtains b where "is_chunk p b 9 True" "i \<in> {b..<b + 2 ^ 9}" "slab (page_metadata p b) \<noteq> 0"
proof -
  obtain ord where s: "slab (page_metadata p i) \<in> slabs_in R ord"
    "unat (page_addr p i) \<in> slab_bytes (slab (page_metadata p i))" using pool_repD(9) [OF rep i] by blast
  obtain b where b: "is_chunk p b 9 True" "slab (page_metadata p i) = page_addr p b"
    "\<forall>j \<in> {b..<b + 512}. slab (page_metadata p j) = slab (page_metadata p i)"
    using pool_repD(8) [OF rep s(1)] by (auto simp: slab_chunk_def)
  have "(base_frame p + i) * 4096 \<in> chunk_bytes p b 9"
    using s(2) b(2) slab_chunk_bytes(1) [OF pool_repD(2) [OF rep] b(1)] page_addr_nat [OF pool_repD(2) [OF rep] i(1)]
    by simp
  then have "i \<in> {b..<b + 2 ^ 9}" by (auto simp: chunk_bytes_def)
  moreover have "slab (page_metadata p b) \<noteq> 0" using b(3) i(2) by simp
  ultimately show thesis using that b(1) by blast
qed

lemma no_slab_pages:
  assumes rep: "pool_rep R p" and c: "is_chunk p b k al" "al \<longrightarrow> slab (page_metadata p b) = 0"
    and i: "i \<in> {b..<b + 2 ^ k}"
  shows "slab (page_metadata p i) = 0"
proof (rule ccontr)
  assume s: "slab (page_metadata p i) \<noteq> 0"
  have "i < npages p" using c(1) i by (simp add: is_chunk_def)
  then obtain d where d: "is_chunk p d 9 True" "i \<in> {d..<d + 2 ^ 9}" "slab (page_metadata p d) \<noteq> 0"
    by (rule slab_page_chunk [OF rep _ s])
  have "d = b" using is_chunk_disjoint [OF d(1) c(1) d(2) i] by blast
  moreover have "al" using c(1) d(1,2) i unfolding is_chunk_def by blast
  ultimately show False using c(2) d(3) by simp
qed

lemma free_no_slab:
  assumes rep: "pool_rep R p" and i: "i \<in> free_pages_of p"
  shows "slab (page_metadata p i) = 0"
proof -
  have n: "i < npages p" "\<not> allocated (page_metadata p i)" using i by (simp_all add: free_pages_of_def)
  obtain b where b: "i \<in> {b..<b + 2 ^ order (page_metadata p i)}" "is_chunk p b (order (page_metadata p i)) False"
    using is_chunk_of_page [OF pool_repD(3) [OF rep] n(1) refl] n(2) by auto
  show ?thesis by (rule no_slab_pages [OF rep b(2) _ b(1)]) simp
qed

lemma pool_rep_get:
  assumes rep: "pool_rep R p" and post: "alloc_post k b p p'"
  shows "pool_rep R p'" "page_blocks p' = insert (page_block p (b, k)) (page_blocks p)"
    "page_block p (b, k) \<notin> page_blocks p" "slab (page_metadata p' b) = 0"
proof -
  have fr: "frame_except {} p p'" and inv: "buddy_inv p'" and c: "is_chunk p' b k True"
    and sub: "{b..<b + 2 ^ k} \<subseteq> free_pages_of p" using post by (simp_all add: alloc_post_def)
  show rep': "pool_rep R p'" by (rule frame_pool_rep [OF rep fr inv]) simp
  have "b \<in> free_pages_of p" using sub by auto
  from free_no_slab [OF rep this] show s: "slab (page_metadata p' b) = 0" by (simp add: frame_addr(4) [OF fr])
  note L = live_after_get [OF post]
  show "page_blocks p' = insert (page_block p (b, k)) (page_blocks p)"
    unfolding page_blocks_live L(1) using s frame_addr [OF fr] by auto
  show "page_block p (b, k) \<notin> page_blocks p"
  proof
    assume "page_block p (b, k) \<in> page_blocks p"
    then obtain d where d: "d \<in> live_chunks p" "page_block p (b, k) = page_block p d"
      by (auto simp: page_blocks_live)
    have "is_chunk p' (fst d) (snd d) True" using d(1) L(1) by (auto simp: live_chunks_def)
    then have "(b, k) = d" using page_block_inj [OF pool_repD(2) [OF rep'], of "(b, k)" d] c d(2) frame_addr(5) [OF fr] by simp
    with d(1) L(2) show False by simp
  qed
qed

lemma pool_rep_put:
  assumes rep: "pool_rep R p" and c: "is_chunk p b k True" "slab (page_metadata p b) = 0"
    and post: "free_post {b..<b + 2 ^ k} p p'"
  shows "pool_rep R p'" "page_blocks p' = page_blocks p - {page_block p (b, k)}"
proof -
  have fr: "frame_except {b..<b + 2 ^ k} p p'" and inv: "buddy_inv p'" using post by (simp_all add: free_post_def)
  show "pool_rep R p'" by (rule frame_pool_rep [OF rep fr inv]) (rule no_slab_pages [OF rep c(1)], use c(2) in simp)
  have inj: "d = (b, k)" if "d \<in> live_chunks p" "page_block p d = page_block p (b, k)" for d
    using page_block_inj [OF pool_repD(2) [OF rep], of d "(b, k)"] that c(1) by (auto simp: live_chunks_def)
  show "page_blocks p' = page_blocks p - {page_block p (b, k)}"
    unfolding page_blocks_live live_after_put [OF pool_repD(3) [OF rep] c(1) post] using frame_addr [OF fr] inj by auto
qed

section \<open>A new slab\<close>

text \<open>The pages of a chunk are labelled with the slab they carry.\<close>

definition label_pages :: "nat \<Rightarrow> nat \<Rightarrow> u64 \<Rightarrow> phys_mem_pool \<Rightarrow> phys_mem_pool" where
  "label_pages b n s p = p\<lparr>page_metadata := \<lambda>i. if i \<in> {b..<b + n}
     then (page_metadata p i)\<lparr>slab := s\<rparr> else page_metadata p i\<rparr>"

lemma label_pages_simps [simp]:
  "pool_start_addr (label_pages b n s p) = pool_start_addr p" "npages (label_pages b n s p) = npages p"
  "base_frame (label_pages b n s p) = base_frame p" "page_addr (label_pages b n s p) = page_addr p"
  "order (page_metadata (label_pages b n s p) i) = order (page_metadata p i)"
  "allocated (page_metadata (label_pages b n s p) i) = allocated (page_metadata p i)"
  "page_pool (page_metadata (label_pages b n s p) i) = page_pool (page_metadata p i)"
  "slab (page_metadata (label_pages b n s p) i) = (if i \<in> {b..<b + n} then s else slab (page_metadata p i))"
  "pool_geometry (label_pages b n s p) = pool_geometry p"
  by (simp_all add: label_pages_def base_frame_def page_addr_def pool_geometry_def fun_eq_iff)

lemma label_pages_chunks [simp]:
  "is_chunk (label_pages b n s p) c k al = is_chunk p c k al"
  "chunks_ok (label_pages b n s p) = chunks_ok p" "free_pages_of (label_pages b n s p) = free_pages_of p"
  by (simp_all add: is_chunk_def chunks_ok_def free_pages_of_def)

lemma label_pages_inv [simp]: "buddy_inv (label_pages b n s p) = buddy_inv p"
proof -
  have "lists_ok {} (label_pages b n s p) = lists_ok {} p"
    by (simp add: lists_ok_def free_heads_def) (simp add: label_pages_def)
  then show ?thesis by (simp add: buddy_inv_def buddy_inv_except_def)
qed

lemma page_addr_step:
  "page_addr p b + of_nat i * BUDDY_PAGE_SIZE = page_addr p (b + i)"
  by (simp add: page_addr_def algebra_simps)

lemma virt_to_page_addr: "pool_geometry p \<Longrightarrow> i < npages p \<Longrightarrow> virt_to_page p (page_addr p i) = Inr i"
  using virt_to_page_eq [of p "page_addr p i" "base_frame p + i" 0] page_addr_nat [of p i] by simp

lemma set_slab_loop_eq:
  assumes "pool_geometry p" "b + n \<le> npages p"
  shows "set_slab_loop (page_addr p b) n p = Inr (label_pages b n (page_addr p b) p)"
  using assms(2)
proof (induction n)
  case 0
  have "label_pages b 0 (page_addr p b) p = p" by (simp add: label_pages_def)
  then show ?case by simp
next
  case (Suc n)
  let ?q = "label_pages b n (page_addr p b) p"
  have "virt_to_page ?q (page_addr p (b + n)) = Inr (b + n)"
    using virt_to_page_addr [of ?q "b + n"] assms(1) Suc.prems by simp
  moreover have "upd_page (b + n) (\<lambda>x. x\<lparr>slab := page_addr p b\<rparr>) ?q = Inr (label_pages b (Suc n) (page_addr p b) p)"
    using Suc.prems by (auto simp: upd_page_def label_pages_def fun_eq_iff less_Suc_eq)
  ultimately show ?case using Suc by (simp add: page_addr_step)
qed

lemma pool_rep_new_slab:
  assumes rep: "pool_rep R p" and c: "is_chunk p b 9 True" "slab (page_metadata p b) = 0" and ord: "slab_order ord"
  defines "s \<equiv> page_addr p b"
  defines "q \<equiv> label_pages b 512 s p"
  shows "pool_rep (R(ord := (s, fs) # R ord)) q" "page_blocks q = page_blocks p - {page_block p (b, 9)}"
    "s \<notin> slabs_in R o2" "s \<noteq> 0"
proof -
  let ?R = "R(ord := (s, fs) # R ord)"
  note g = pool_repD(2) [OF rep]
  have no: "slab (page_metadata p i) = 0" if "i \<in> {b..<b + 512}" for i
    by (rule no_slab_pages [OF rep c(1)]) (use c(2) that in simp_all)
  have new: "s \<notin> slabs_in R o2" for o2
  proof
    assume s: "s \<in> slabs_in R o2"
    obtain d where d: "is_chunk p d 9 True" "s = page_addr p d" "\<forall>i \<in> {d..<d + 512}. slab (page_metadata p i) = s"
      using pool_repD(8) [OF rep s] by (auto simp: slab_chunk_def)
    have "d = b" using page_addr_nat [OF g is_chunk_bound [OF d(1)]] page_addr_nat [OF g is_chunk_bound [OF c(1)]] d(2)
      by (simp add: s_def)
    with d(3) c(2) slab_fits(2) [OF rep s] show False by simp
  qed
  then show "s \<notin> slabs_in R o2" .
  have "0 < base_frame p * 4096" using base_frame_mult [OF g] pool_repD(4) [OF rep] by (simp add: word_less_nat_alt)
  then have "0 < unat s" using page_addr_nat [OF g is_chunk_bound [OF c(1)]] by (simp add: s_def)
  then show "s \<noteq> 0" by auto
  have sl: "slabs_in ?R o2 = (if o2 = ord then insert s (slabs_in R ord) else slabs_in R o2)" for o2
    by (simp add: slabs_in_def)
  have ch: "slab_chunk q t" if t: "t \<in> slabs_in ?R o2" for t o2
  proof (cases "t = s")
    case True
    then show ?thesis using c(1) by (auto simp: slab_chunk_def q_def s_def)
  next
    case False
    then have tR: "t \<in> slabs_in R o2" using t sl by (simp split: if_splits)
    obtain d where d: "is_chunk p d 9 True" "t = page_addr p d" "\<forall>i \<in> {d..<d + 512}. slab (page_metadata p i) = t"
      using pool_repD(8) [OF rep tR] by (auto simp: slab_chunk_def)
    have "i \<notin> {b..<b + 512}" if "i \<in> {d..<d + 512}" for i
      using no [of i] d(3) that slab_fits(2) [OF rep tR] by auto
    with d show ?thesis by (auto simp: slab_chunk_def q_def)
  qed
  have pg: "(\<exists>o2. slab (page_metadata q i) \<in> slabs_in ?R o2) \<and> unat (page_addr q i) \<in> slab_bytes (slab (page_metadata q i))"
    if i: "i < npages q" "slab (page_metadata q i) \<noteq> 0" for i
  proof (cases "i \<in> {b..<b + 512}")
    case True
    have "unat (page_addr p i) = (base_frame p + i) * 4096" "unat (page_addr p b) = (base_frame p + b) * 4096"
      using page_addr_nat [OF g] i(1) is_chunk_bound [OF c(1)] by (simp_all add: q_def)
    with True have "unat (page_addr p i) \<in> slab_bytes s" by (simp add: slab_bytes_def s_def)
    then show ?thesis using True sl by (auto simp: q_def)
  next
    case False
    then obtain o2 where "slab (page_metadata p i) \<in> slabs_in R o2"
        "unat (page_addr p i) \<in> slab_bytes (slab (page_metadata p i))" "slab (page_metadata q i) = slab (page_metadata p i)"
      using pool_repD(9) [OF rep, of i] i by (auto simp: q_def)
    moreover from this(1) have "slab (page_metadata p i) \<in> slabs_in ?R o2" by (auto simp: sl)
    ultimately show ?thesis by (auto simp: q_def)
  qed
  show "pool_rep ?R q"
    unfolding pool_rep_def
  proof (intro conjI allI ballI impI)
    show "buddy_inv q" "0 < pool_start_addr q" using pool_repD(1,4) [OF rep] by (simp_all add: q_def)
    show "distinct (map fst (?R o2))" for o2 using pool_repD(6) [OF rep] new by (simp add: slabs_in_def)
    show "5 \<le> o2" "o2 \<le> 11" if "?R o2 \<noteq> []" for o2 using pool_repD(5) [OF rep, of o2] ord that by (auto split: if_splits)
    show "o1 = o2" if t: "t \<in> slabs_in ?R o1 \<and> t \<in> slabs_in ?R o2" for o1 o2 t
    proof (cases "t = s")
      case True
      then show ?thesis using t new [of o1] new [of o2] by (simp add: sl split: if_splits)
    next
      case False
      then have "t \<in> slabs_in R o1" "t \<in> slabs_in R o2" using t by (simp_all add: sl split: if_splits)
      then show ?thesis by (rule pool_repD(7) [OF rep])
    qed
    show "slab_chunk q t" if "t \<in> slabs_in ?R o2" for t o2 by (rule ch [OF that])
    show "\<exists>o2. slab (page_metadata q i) \<in> slabs_in ?R o2" if "i < npages q" "slab (page_metadata q i) \<noteq> 0" for i
      using pg [OF that] by (rule conjunct1)
    show "unat (page_addr q i) \<in> slab_bytes (slab (page_metadata q i))"
      if "i < npages q" "slab (page_metadata q i) \<noteq> 0" for i
      using pg [OF that] by (rule conjunct2)
  qed
  have lv: "live_chunks q = live_chunks p" by (simp add: live_chunks_def q_def)
  have key: "d = (b, 9)" if "d \<in> live_chunks p" "fst d \<in> {b..<b + 512}" for d
    using is_chunk_disjoint [OF _ c(1), of "fst d" "snd d" True "fst d"] that
    by (auto simp: live_chunks_def prod_eq_iff)
  have "slab (page_metadata q (fst d)) = 0 \<longleftrightarrow> slab (page_metadata p (fst d)) = 0 \<and> d \<noteq> (b, 9)"
    if "d \<in> live_chunks p" for d
  proof (cases "fst d \<in> {b..<b + 512}")
    case True
    with key [OF that True] \<open>s \<noteq> 0\<close> show ?thesis by (simp add: q_def)
  next
    case False
    then have "d \<noteq> (b, 9)" by auto
    with False show ?thesis by (auto simp: q_def)
  qed
  then have "{d \<in> live_chunks p. slab (page_metadata q (fst d)) = 0} =
      {d \<in> live_chunks p. slab (page_metadata p (fst d)) = 0} - {(b, 9)}"
    by blast
  moreover have inj: "d = (b, 9)" if "d \<in> live_chunks p" "page_block p d = page_block p (b, 9)" for d
    using page_block_inj [OF g, of d "(b, 9)"] that c(1) by (simp add: live_chunks_def case_prod_beta)
  moreover have "page_block q = page_block p" by (rule ext) (simp add: page_block_def q_def)
  ultimately have eq: "page_blocks q = page_block p ` ({d \<in> live_chunks p. slab (page_metadata p (fst d)) = 0} - {(b, 9)})"
    unfolding page_blocks_live lv by argo
  show "page_blocks q = page_blocks p - {page_block p (b, 9)}"
    unfolding eq page_blocks_live [of p] by (rule image_remove, rule inj) blast+
qed

text \<open>The slots of a new slab are linked in order.\<close>

lemma store_ok: "base \<noteq> 0 \<Longrightarrow> store base off v m = Inr (m\<lparr>mem := (mem m)(base + off := v)\<rparr>)"
  by (simp add: store_def)

lemma link_slots_eq:
  assumes "\<And>k. k < n \<Longrightarrow> slot + of_nat k * sz \<noteq> 0"
  shows "link_slots sz n slot m = Inr (slot + of_nat n * sz,
    m\<lparr>mem := \<lambda>a. if \<exists>k < n. a = slot + of_nat k * sz then a + sz else mem m a\<rparr>)"
  using assms
proof (induction n arbitrary: slot m)
  case (Suc n)
  have "slot \<noteq> 0" using Suc.prems [of 0] by simp
  have "slot + sz + of_nat k * sz \<noteq> 0" if "k < n" for k
    using Suc.prems [of "Suc k"] that by (simp add: algebra_simps)
  note IH = Suc.IH [of "slot + sz" "m\<lparr>mem := (mem m)(slot := slot + sz)\<rparr>", OF this]
  have "(\<exists>k < Suc n. a = slot + of_nat k * sz) \<longleftrightarrow> a = slot \<or> (\<exists>k < n. a = slot + sz + of_nat k * sz)" for a
    unfolding Ex_less_Suc2 by (simp add: algebra_simps)
  then have "(\<lambda>a. if \<exists>k < n. a = slot + sz + of_nat k * sz then a + sz else ((mem m)(slot := slot + sz)) a) =
      (\<lambda>a. if \<exists>k < Suc n. a = slot + of_nat k * sz then a + sz else mem m a)"
    by (auto simp: fun_eq_iff)
  moreover have "slot + sz + of_nat n * sz = slot + of_nat (Suc n) * sz" by (simp add: algebra_simps)
  ultimately show ?case
    using IH store_ok [OF \<open>slot \<noteq> 0\<close>, of 0] by (simp cong: if_cong)
qed simp

lemma linked_upt:
  assumes "j < n" "\<And>k. j \<le> k \<Longrightarrow> k < n \<Longrightarrow> g k \<noteq> 0 \<and> M (g k) = (if Suc k < n then g (Suc k) else 0)"
  shows "linked M (g j) (map g [j..<n])"
  using assms
proof (induction "n - j" arbitrary: j)
  case (Suc d)
  have e: "[j..<n] = j # [Suc j..<n]" using Suc.prems(1) by (simp add: upt_conv_Cons)
  show ?case
  proof (cases "Suc j < n")
    case True
    then have "linked M (g (Suc j)) (map g [Suc j..<n])" using Suc by simp
    then show ?thesis using e Suc.prems True by simp
  next
    case False
    then show ?thesis using e Suc.prems by simp
  qed
qed simp

definition full_list :: "nat \<Rightarrow> u64 \<Rightarrow> u64 list" where
  "full_list ord s = map (slot_at ord s) [1..<nslots ord]"

lemma full_list_set: "set (full_list ord s) = slots_in ord s"
  by (simp add: full_list_def slots_in_def)

lemma full_list_distinct: "unat s + 2 ^ 21 < 2 ^ 64 \<Longrightarrow> ord \<le> 21 \<Longrightarrow> distinct (full_list ord s)"
  using slot_at_inj [of s ord] by (simp add: full_list_def distinct_map inj_on_def)

lemma slab_orders: "slab_order ord \<Longrightarrow> ord \<in> {5, 6, 7, 8, 9, 10, 11}"
  by auto

lemma slot_count:
  assumes "slab_order ord"
  shows "unat (SLAB_INIT_SIZE div order_to_size ord - 1 - 1) = nslots ord - 2" "3 \<le> nslots ord"
  using slab_orders [OF assms] by (auto simp: SLAB_INIT_SIZE_def order_to_size_def nslots_def)

lemma order_to_size_eq: "order_to_size ord = of_nat (2 ^ ord)"
  by (simp add: order_to_size_def push_bit_eq_mult)

text \<open>What the stores of \<^verbatim>\<open>init_slab_cache\<close> leave in memory.\<close>

definition fresh_slab :: "nat \<Rightarrow> u64 \<Rightarrow> (u64 \<Rightarrow> u64) \<Rightarrow> (u64 \<Rightarrow> u64) \<Rightarrow> bool" where
  "fresh_slab ord s M M' \<longleftrightarrow> linked M' (M' s) (full_list ord s) \<and> M' (s + 8) = 0 \<and>
     (\<forall>a. unat a \<notin> slab_bytes s \<longrightarrow> M' a = M a)"

lemma init_stores:
  assumes fit: "unat s + 2 ^ 21 < 2 ^ 64" and s0: "s \<noteq> 0" and ord: "slab_order ord"
  shows "\<exists>M'. bindR (store s 0 (s + order_to_size ord) m) (\<lambda>m.
       bindR (store s 8 0 m) (\<lambda>m.
       bindR (store s 16 ((mem m (s + 16) AND NOT (mask 32)) OR of_nat ord) m) (\<lambda>m.
       bindR (link_slots (order_to_size ord) (unat (SLAB_INIT_SIZE div order_to_size ord - 1 - 1))
                (s + order_to_size ord) m) (\<lambda>(slot, m).
       bindR (store slot 0 0 m) (\<lambda>m. Inr (s, m)))))) = Inr (s, m\<lparr>mem := M'\<rparr>) \<and> fresh_slab ord s (mem m) M'"
proof -
  let ?N = "nslots ord"
  have o21: "ord \<le> 21" using ord by simp
  have slot: "s + order_to_size ord + of_nat k * order_to_size ord = slot_at ord s (Suc k)" for k
    by (simp add: slot_at_def order_to_size_eq algebra_simps)
  have bnd: "unat (slot_at ord s k) = unat s + k * 2 ^ ord" if "k < ?N" for k
    by (rule slot_at_nat [OF fit o21 that])
  have inb: "unat (slot_at ord s k) \<in> slab_bytes s" if "k < ?N" for k
    using bnd [OF that] slot_bound [OF o21 that] by (simp add: slab_bytes_def) (use power_order [OF ord] in linarith)
  have ge: "unat s + 32 \<le> unat (slot_at ord s k)" if "1 \<le> k" "k < ?N" for k
  proof -
    have "(32 :: nat) \<le> 1 * 2 ^ ord" "1 * 2 ^ ord \<le> k * 2 ^ ord" using power_order [OF ord] that(1) by simp_all
    with bnd [OF that(2)] show ?thesis by linarith
  qed
  have nz: "slot_at ord s k \<noteq> 0" if "1 \<le> k" "k < ?N" for k using ge [OF that] by auto
  have hd: "unat (s + 8) = unat s + 8" "unat (s + 16) = unat s + 16"
    using unat_plus_small [of s 8] unat_plus_small [of s 16] fit by simp_all
  define M1 where "M1 = (mem m)(s := s + order_to_size ord, s + 8 := 0,
    s + 16 := (mem m (s + 16) AND NOT (mask 32)) OR of_nat ord)"
  define M2 where "M2 = (\<lambda>a. if \<exists>k < ?N - 2. a = slot_at ord s (Suc k) then a + order_to_size ord else M1 a)"
  define M3 where "M3 = M2(slot_at ord s (?N - 1) := 0)"
  have N: "3 \<le> ?N" by (rule slot_count(2) [OF ord])
  have hdM: "M3 s = slot_at ord s 1" "M3 (s + 8) = 0"
  proof -
    have ne: "s \<noteq> slot_at ord s k" "s + 8 \<noteq> slot_at ord s k" if "1 \<le> k" "k < ?N" for k
      using ge [OF that] hd by auto
    have "s \<noteq> slot_at ord s (Suc k) \<and> s + 8 \<noteq> slot_at ord s (Suc k)" if "k < ?N - 2" for k
      using ne [of "Suc k"] that by simp
    then have "\<not> (\<exists>k < ?N - 2. s = slot_at ord s (Suc k))" "\<not> (\<exists>k < ?N - 2. s + 8 = slot_at ord s (Suc k))"
      by blast+
    moreover have "s \<noteq> slot_at ord s (?N - 1)" "s + 8 \<noteq> slot_at ord s (?N - 1)"
      using ne [of "?N - 1"] N by simp_all
    ultimately show "M3 s = slot_at ord s 1" "M3 (s + 8) = 0"
      using slot [of 0] by (auto simp: M3_def M2_def M1_def)
  qed
  have "M3 (slot_at ord s k) = (if Suc k < ?N then slot_at ord s (Suc k) else 0)" if k: "1 \<le> k" "k < ?N" for k
  proof (cases "Suc k < ?N")
    case True
    have ne: "slot_at ord s k \<noteq> slot_at ord s (?N - 1)" using slot_at_inj [OF fit o21 k(2), of "?N - 1"] True N by auto
    have ex: "\<exists>j < ?N - 2. slot_at ord s k = slot_at ord s (Suc j)" using k True by (intro exI [of _ "k - 1"]) auto
    have "slot_at ord s k + order_to_size ord = slot_at ord s (Suc k)"
      by (simp add: slot_at_def order_to_size_eq algebra_simps)
    then show ?thesis using True ne ex by (simp add: M3_def M2_def)
  next
    case False
    then have "k = ?N - 1" using k by simp
    then show ?thesis using False by (simp add: M3_def)
  qed
  with nz have "linked M3 (M3 s) (full_list ord s)"
    unfolding hdM(1) full_list_def using N by (intro linked_upt) auto
  moreover have "M3 a = mem m a" if a: "unat a \<notin> slab_bytes s" for a
  proof -
    have ne: "a \<noteq> slot_at ord s k" if "k < ?N" for k using inb [OF that] a by auto
    have "a \<noteq> slot_at ord s (Suc k)" if "k < ?N - 2" for k using ne [of "Suc k"] that by simp
    then have "\<not> (\<exists>k < ?N - 2. a = slot_at ord s (Suc k))" "a \<noteq> slot_at ord s (?N - 1)" using ne [of "?N - 1"] N by auto
    moreover have "a \<noteq> s" "a \<noteq> s + 8" "a \<noteq> s + 16" using a hd by (auto simp: slab_bytes_def)
    ultimately show ?thesis by (auto simp: M3_def M2_def M1_def)
  qed
  ultimately have fr: "fresh_slab ord s (mem m) M3" using hdM(2) by (simp add: fresh_slab_def)
  have "s + order_to_size ord + of_nat k * order_to_size ord \<noteq> 0" if "k < ?N - 2" for k
    unfolding slot using nz [of "Suc k"] that by simp
  then have L: "link_slots (order_to_size ord) (?N - 2) (s + order_to_size ord) (m\<lparr>mem := M1\<rparr>) =
      Inr (slot_at ord s (Suc (?N - 2)), m\<lparr>mem := M2\<rparr>)"
    by (subst link_slots_eq) (simp_all add: slot M2_def cong: if_cong)
  have l: "slot_at ord s (Suc (?N - 2)) = slot_at ord s (?N - 1)" using N by (intro arg_cong [of _ _ "slot_at ord s"]) arith
  have "slot_at ord s (?N - 1) \<noteq> 0" using nz [of "?N - 1"] N by simp
  then have st: "store (slot_at ord s (?N - 1)) 0 0 (m\<lparr>mem := M2\<rparr>) = Inr (m\<lparr>mem := M3\<rparr>)"
    by (simp add: store_def M3_def)
  have cnt: "unat (SLAB_INIT_SIZE div order_to_size ord - 2) = ?N - 2" using slot_count(1) [OF ord] by simp
  show ?thesis
    by (intro exI [of _ M3] conjI fr)
      (simp add: store_ok [of s] s0 cnt M1_def [symmetric] L l [simplified] st [simplified])
qed

end
