(* ===== verification/Kmalloc_Correct.thy ===== *)
theory Kmalloc_Correct
  imports Slab_Correct
begin

text \<open>Correctness of \<^verbatim>\<open>kmalloc\<close> and \<^verbatim>\<open>kfree\<close>: sizes and orders, the paths of
  \<^verbatim>\<open>_alloc_in_slab_nolock\<close>, and the two entry points as an \<open>allocator\<close>.\<close>

section \<open>Sizes and orders\<close>

lemma shift_loop_spec:
  assumes "1 \<le> t"
  shows "ord \<le> shift_loop t ord \<and> 2 ^ (shift_loop t ord - ord) \<le> t \<and> t < 2 ^ Suc (shift_loop t ord - ord)"
  using assms
proof (induction t ord rule: shift_loop.induct)
  case (1 t ord)
  show ?case
  proof (cases "t > 1")
    case True
    define r where "r = shift_loop (t div 2) (ord + 1)"
    have r: "ord + 1 \<le> r" "2 ^ (r - (ord + 1)) \<le> t div 2" "t div 2 < 2 ^ Suc (r - (ord + 1))"
      using 1 True by (simp_all add: r_def)
    have "r - ord = Suc (r - (ord + 1))" using r(1) by simp
    moreover have "shift_loop t ord = r" using True by (subst shift_loop.simps) (simp add: r_def)
    moreover have "2 * 2 ^ (r - (ord + 1)) \<le> t" "t < 2 * 2 ^ Suc (r - (ord + 1))" using r(2,3) by linarith+
    ultimately show ?thesis using r(1) by simp
  next
    case False
    then have "t = 1" "shift_loop t ord = ord" using 1 by (simp, subst shift_loop.simps, simp)
    then show ?thesis by simp
  qed
qed

text \<open>The order found is the least one whose block holds the size.\<close>

definition least_order :: "nat \<Rightarrow> nat \<Rightarrow> bool" where
  "least_order n k \<longleftrightarrow> n \<le> 2 ^ k \<and> (k = 0 \<or> 2 ^ (k - 1) < n)"

lemma least_order_unique: "least_order n k \<Longrightarrow> least_order n j \<Longrightarrow> k = j"
proof (rule ccontr)
  have *: False if "least_order n k" "least_order n j" "k < j" for k j
  proof -
    have "(2 :: nat) ^ k \<le> 2 ^ (j - 1)" by (rule power_increasing) (use that(3) in auto)
    moreover have "n \<le> 2 ^ k" "2 ^ (j - 1) < n" using that by (simp_all add: least_order_def)
    ultimately show False by linarith
  qed
  assume "least_order n k" "least_order n j" "k \<noteq> j"
  then show False using * [of k j] * [of j k] by linarith
qed

lemma loop_least_order:
  assumes "1 \<le> n"
  defines "k \<equiv> shift_loop (int n) 0"
  shows "least_order n (if n > 2 ^ k then k + 1 else k)" "2 ^ k \<le> n"
proof -
  have k: "(2 :: int) ^ k \<le> int n" "int n < 2 ^ Suc k" using shift_loop_spec [of "int n" 0] assms by simp_all
  then have k: "2 ^ k \<le> n" "n < 2 ^ Suc k"
    by (metis of_nat_le_iff of_nat_numeral of_nat_power) (metis k(2) of_nat_less_iff of_nat_numeral of_nat_power)
  then show "2 ^ k \<le> n" by simp
  have "2 ^ (k - 1) < n" if "k \<noteq> 0" "n = 2 ^ k" using that by (cases k) auto
  then show "least_order n (if n > 2 ^ k then k + 1 else k)" using k by (auto simp: least_order_def)
qed

lemma size_to_order_spec:
  assumes "0 < sz" "sz < 2 ^ 30"
  obtains k where "size_to_order sz = Inr k" "least_order (unat sz) k"
proof -
  define n where "n = unat sz"
  have n: "1 \<le> n" "n < 2 ^ 30" using assms by (simp_all add: n_def word_less_nat_alt Suc_le_eq)
  have sz: "sz = of_nat n" by (simp add: n_def)
  have "sint (ucast sz :: u32) = int n"
    using n(2) by (simp add: sz signed_of_nat unsigned_of_nat take_bit_nat_eq_self signed_take_bit_int_eq_self)
  moreover define k where "k = shift_loop (int n) 0"
  note L = loop_least_order [OF n(1), folded k_def]
  have "k < 31"
  proof (rule ccontr)
    assume "\<not> k < 31"
    then have "(2 :: nat) ^ 31 \<le> 2 ^ k" by (intro power_increasing) simp_all
    then show False using L(2) n(2) by simp
  qed
  moreover have "unat (2 ^ k :: u64) = 2 ^ k" using \<open>k < 31\<close> by (intro unat_power_small) simp
  ultimately have "size_to_order sz = Inr (if n > 2 ^ k then k + 1 else k)"
    by (simp add: size_to_order_def shl_int_def k_def [symmetric] word_less_nat_alt n_def [symmetric])
  with L(1) show thesis by (intro that) (simp_all add: n_def)
qed

lemma size_to_order_512: "size_to_order (SLAB_INIT_SIZE div BUDDY_PAGE_SIZE) = Inr 9"
proof -
  obtain k where "size_to_order 512 = Inr k" "least_order (unat (512 :: u64)) k"
    by (rule size_to_order_spec [of 512]) simp_all
  moreover have "least_order 512 9" by (simp add: least_order_def)
  ultimately show ?thesis using least_order_unique [of 512 k 9] by (simp add: SLAB_INIT_SIZE_def BUDDY_PAGE_SIZE_def)
qed

text \<open>The order of the slab that serves a request.\<close>

definition slab_order_of :: "u64 \<Rightarrow> nat res" where
  "slab_order_of sz = bindR (size_to_order sz) (\<lambda>k. Inr (if k < SLAB_MIN_ORDER then SLAB_MIN_ORDER else k))"

lemma slab_order_of_spec:
  assumes "sz \<le> 2048"
  obtains k where "slab_order_of sz = Inr k" "slab_order k" "unat sz \<le> 2 ^ k"
proof (cases "sz = 0")
  case True
  have "shift_loop 0 0 = 0" by (subst shift_loop.simps) simp
  then have "slab_order_of sz = Inr 5"
    by (simp add: True slab_order_of_def size_to_order_def shl_int_def SLAB_MIN_ORDER_def)
  then show thesis by (rule that) (simp_all add: True)
next
  case False
  then have "0 < sz" by (simp add: word_gt_0)
  moreover have "sz < 2 ^ 30" using assms by (rule le_less_trans) simp
  ultimately obtain k where k: "size_to_order sz = Inr k" "least_order (unat sz) k" by (rule size_to_order_spec)
  have "k \<le> 11"
  proof (rule ccontr)
    assume "\<not> k \<le> 11"
    then have "(2 :: nat) ^ 11 \<le> 2 ^ (k - 1)" by (intro power_increasing) simp_all
    moreover have "unat sz \<le> 2048" using assms by (simp add: word_le_nat_alt)
    ultimately show False using k(2) \<open>\<not> k \<le> 11\<close> by (simp add: least_order_def)
  qed
  moreover have "unat sz \<le> 2 ^ k" using k(2) by (simp add: least_order_def)
  moreover have "(2 :: nat) ^ k \<le> 2 ^ 5" if "k < 5" using that by (intro power_increasing) simp_all
  ultimately show thesis
    by (intro that [of "if k < 5 then 5 else k"]) (auto simp: slab_order_of_def k(1) SLAB_MIN_ORDER_def)
qed

section \<open>Pages\<close>

lemma get_pages_cases:
  assumes rep: "mm_rep R m"
  obtains (fail) e where "get_pages k m = Inl e" "\<not> has_free_from (pool m) k"
  | (none) "get_pages k m = Inr (0, m)" "\<not> has_free_from (pool m) k"
  | (some) b p' where "get_pages k m = Inr (page_addr (pool m) b, m\<lparr>pool := p'\<rparr>)"
      "alloc_post k b (pool m) p'" "page_addr (pool m) b \<noteq> 0" "has_free_from (pool m) k"
      "buddy_get_pages k (pool m) = Inr (Some b, p')"
proof -
  have p: "pool_rep R (pool m)" using rep by (simp add: mm_rep_def)
  note inv = pool_repD(1) [OF p]
  show thesis
  proof (cases "k \<le> BUDDY_MAX_ORDER")
    case True
    note S = buddy_get_pages_spec [OF inv True]
    show thesis
    proof (cases "has_free_from (pool m) k")
      case True
      then obtain b p' where b: "buddy_get_pages k (pool m) = Inr (Some b, p')" "alloc_post k b (pool m) p'"
        using S by auto
      have fr: "frame_except {} (pool m) p'" and c: "is_chunk p' b k True" and inv': "buddy_inv p'"
        using b(2) by (simp_all add: alloc_post_def)
      have "page_to_virt p' b = Inr (page_addr (pool m) b)"
        using page_to_virt_eq [OF _ is_chunk_bound [OF c]] inv' frame_addr(1) [OF fr]
        by (simp add: buddy_inv_def buddy_inv_except_def page_addr_def fun_eq_iff)
      moreover have "page_addr (pool m) b \<noteq> 0"
      proof -
        have "0 < unat (pool_start_addr (pool m))" using pool_repD(4) [OF p] by (simp add: word_less_nat_alt)
        moreover have "b < npages (pool m)" using is_chunk_bound [OF c] frame_addr(3) [OF fr] by simp
        from page_addr_nat [OF pool_repD(2) [OF p] this] base_frame_mult [OF pool_repD(2) [OF p]]
        have "unat (pool_start_addr (pool m)) \<le> unat (page_addr (pool m) b)" by simp
        ultimately show ?thesis by auto
      qed
      ultimately show thesis using b True by (intro some) (simp_all add: get_pages_def)
    next
      case False
      then show thesis using S fail none by (cases "nr_free_past_end (pool m) = 0") (simp_all add: get_pages_def)
    qed
  next
    case False
    then have "buddy_get_pages k (pool m) = Inr (None, pool m)"
      unfolding buddy_get_pages_def by (subst buddy_get_loop.simps) simp
    moreover have "\<not> has_free_from (pool m) k" using False by (auto simp: has_free_from_def)
    ultimately show thesis by (intro none) (simp_all add: get_pages_def)
  qed
qed

lemma get_pages_granted:
  assumes rep: "mm_rep R m" and rd: "ready R" and post: "alloc_post k b (pool m) p'"
  shows "granted R m (unat (page_addr (pool m) b), 2 ^ k * 4096) R (m\<lparr>pool := p'\<rparr>)"
proof -
  have p: "pool_rep R (pool m)" using rep by (simp add: mm_rep_def)
  note G = pool_rep_get [OF p post]
  have "page_block (pool m) (b, k) \<notin> slot_blocks R"
  proof
    assume "page_block (pool m) (b, k) \<in> slot_blocks R"
    then obtain ord s where s: "s \<in> slabs_in R ord" "block_bytes (page_block (pool m) (b, k)) \<subseteq> slab_bytes s"
      by (elim slot_blockE [OF G(1)])
    have c: "is_chunk p' b k True" and fr: "frame_except {} (pool m) p'" using post by (simp_all add: alloc_post_def)
    have "block_bytes (page_block p' (b, k)) = chunk_bytes p' b k"
      using chunk_addr_bytes [OF pool_repD(2) [OF G(1)] c] by (simp add: page_block_def)
    moreover have "unat (page_addr p' b) \<in> block_bytes (page_block p' (b, k))"
      by (simp add: block_bytes_def page_block_def)
    ultimately show False using page_block_apart [OF G(1) s(1) c G(4)] s(2) frame_addr(5) [OF fr] by auto
  qed
  moreover have "mm_rep R (m\<lparr>pool := p'\<rparr>)" using rep G(1) by (simp add: mm_rep_def)
  ultimately show ?thesis
    using rd G(2,3) by (auto simp: granted_def rep_blocks_def keeps_blocks_def page_block_def)
qed

section \<open>A new slab\<close>

lemma alloc_slab_memory_spec:
  assumes rep: "mm_rep R m" and post: "alloc_post 9 b (pool m) p'"
    and g: "get_pages 9 m = Inr (page_addr (pool m) b, m\<lparr>pool := p'\<rparr>)"
  shows "alloc_slab_memory SLAB_INIT_SIZE m =
    Inr (page_addr (pool m) b, m\<lparr>pool := label_pages b 512 (page_addr (pool m) b) p'\<rparr>)"
proof -
  have p: "pool_rep R p'" by (rule pool_rep_get(1) [OF _ post]) (use rep in \<open>simp add: mm_rep_def\<close>)
  have c: "is_chunk p' b 9 True" and fr: "frame_except {} (pool m) p'" using post by (simp_all add: alloc_post_def)
  have a: "page_addr (pool m) b = page_addr p' b" by (simp add: frame_addr(1) [OF fr])
  have "unat (order_to_size 9) = 512" by (simp add: order_to_size_def)
  moreover have "b + 512 \<le> npages p'" using c by (simp add: is_chunk_def)
  ultimately show ?thesis
    using virt_to_page_addr [OF pool_repD(2) [OF p] is_chunk_bound [OF c]]
      set_slab_loop_eq [OF pool_repD(2) [OF p], of b 512]
    by (simp add: alloc_slab_memory_def size_to_order_512 g a)
qed

lemma alloc_slab_memory_fails:
  assumes rep: "mm_rep R m" and no: "\<not> has_free_from (pool m) 9"
  shows "\<exists>e. alloc_slab_memory SLAB_INIT_SIZE m = Inl e"
proof (rule get_pages_cases [OF rep, of 9])
  have p: "pool_rep R (pool m)" using rep by (simp add: mm_rep_def)
  show ?thesis if "get_pages 9 m = Inr (0, m)"
  proof -
    have "0 < base_frame (pool m)"
      using pool_repD(4) [OF p] base_frame_mult [OF pool_repD(2) [OF p]] by (simp add: word_less_nat_alt)
    then have "virt_to_page (pool m) 0 = Inl Bug" using virt_to_page_eq [OF pool_repD(2) [OF p], of 0 0 0] by simp
    then show ?thesis by (simp add: alloc_slab_memory_def size_to_order_512 that)
  qed
qed (use no in \<open>simp_all add: alloc_slab_memory_def size_to_order_512\<close>)

text \<open>A slab that was just initialised and put in front of its chain changes no live block.\<close>

definition front :: "nat \<Rightarrow> u64 \<Rightarrow> mm_state \<Rightarrow> mm_state" where
  "front ord s m = m\<lparr>mem := (mem m)(s + 8 := slabs m ord), slabs := (slabs m)(ord := s)\<rparr>"

definition extended :: "rep \<Rightarrow> mm_state \<Rightarrow> rep \<Rightarrow> mm_state \<Rightarrow> bool" where
  "extended R m R' m' \<longleftrightarrow> mm_rep R' m' \<and> rep_blocks R' m' = rep_blocks R m \<and> keeps_blocks R m m'"

lemma front_chain:
  assumes rep: "mm_rep R m" and new: "pool_rep (R(ord := (s, full_list ord s) # R ord)) q" and ord: "slab_order ord"
    and fresh: "fresh_slab ord s (mem m) M" and notin: "\<And>o2. s \<notin> slabs_in R o2" and o2: "slab_order o2"
  defines "R' \<equiv> R(ord := (s, full_list ord s) # R ord)"
  shows "chain_rep o2 (R' o2) (((slabs m)(ord := s)) o2) (M(s + 8 := slabs m ord))"
proof -
  let ?M = "M(s + 8 := slabs m ord)"
  have sR: "s \<in> slabs_in R' ord" by (simp add: R'_def slabs_in_def)
  note fit = slab_fits [OF new [folded R'_def] sR]
  have agree: "mem m a = ?M a" if e: "e \<in> set (R o3)" and a: "a \<in> reads e" for e a o3
  proof -
    obtain t fs where tf: "e = (t, fs)" by (cases e)
    have "t \<in> slabs_in R o3" using e tf by (force simp: slabs_in_def)
    then have "t \<in> slabs_in R' o3" "t \<noteq> s" using notin by (auto simp: R'_def slabs_in_def)
    moreover have "unat a \<in> slab_bytes t" using reads_in_slab [OF rep] e a tf by blast
    ultimately have "unat a \<notin> slab_bytes s" using slabs_apart [OF new [folded R'_def] _ sR] by blast
    moreover have "unat (s + 8) \<in> slab_bytes s" using header_nat [OF fit(1)] by (simp add: slab_bytes_def)
    ultimately show ?thesis using fresh by (auto simp: fresh_slab_def)
  qed
  have old: "chain_rep o3 (R o3) (slabs m o3) ?M" if "slab_order o3" for o3
    using rep that chain_rep_cong [of "R o3" "mem m" ?M o3 "slabs m o3", OF agree] by (simp add: mm_rep_def)
  have "s + 8 \<notin> slots_in ord s"
  proof
    assume "s + 8 \<in> slots_in ord s"
    from slot_bytes(2) [OF fit(1) _ this] header_nat [OF fit(1)] power_order [OF ord] ord show False by simp
  qed
  then have "linked ?M (?M s) (full_list ord s)"
    using fresh by (subst linked_cong [where nx' = M]) (auto simp: fresh_slab_def full_list_set)
  moreover have "distinct (full_list ord s)" using full_list_distinct [OF fit(1)] ord by simp
  ultimately show ?thesis using old [OF o2] old [OF ord] fit(2) full_list_set by (simp add: R'_def)
qed

lemma front_keeps:
  assumes rep: "mm_rep R' m'" and s: "(s, full_list ord s) \<in> set (R' ord)" and c: "c \<in> rep_blocks R' m'"
  shows "block_bytes c \<inter> slab_bytes s = {}"
proof (cases "c \<in> slot_blocks R'")
  case True
  have p: "pool_rep R' (pool m')" using rep by (simp add: mm_rep_def)
  obtain o2 t fs x where x: "(t, fs) \<in> set (R' o2)" "t \<in> slabs_in R' o2" "x \<in> slots_in o2 t" "x \<notin> set fs"
    "block_bytes c \<subseteq> slab_bytes t" using True by (elim slot_blockE [OF p])
  have "t \<noteq> s"
  proof
    assume "t = s"
    then have "o2 = ord" "fs = full_list ord s" using entry_unique [OF p x(1)] s by simp_all
    then show False using x(3,4) \<open>t = s\<close> by (simp add: full_list_set)
  qed
  then show ?thesis using slabs_apart [OF p x(2) mm_rep_entry(6) [OF rep s]] x(5) by blast
next
  case False
  then have c: "c \<in> page_blocks (pool m')" using c by (simp add: rep_blocks_def)
  have p: "pool_rep R' (pool m')" using rep by (simp add: mm_rep_def)
  obtain b k where "is_chunk (pool m') b k True" "slab (page_metadata (pool m') b) = 0"
    "block_bytes c = chunk_bytes (pool m') b k" by (rule page_blockE [OF p c])
  with page_block_apart [OF p mm_rep_entry(6) [OF rep s]] show ?thesis by blast
qed

lemma slot_blocks_full: "slot_blocks (R(ord := (s, full_list ord s) # R ord)) = slot_blocks R"
proof -
  have "entry_blocks ord (s, full_list ord s) = {}" by (simp add: entry_blocks_def full_list_set)
  then have "(\<Union>e \<in> set ((R(ord := (s, full_list ord s) # R ord)) o2). entry_blocks o2 e) = (\<Union>e \<in> set (R o2). entry_blocks o2 e)"
    for o2 by simp
  then show ?thesis unfolding slot_blocks_entries by (simp only:)
qed

lemma init_slab_cache_spec:
  assumes rep: "mm_rep R m" and ord: "slab_order ord" and free: "has_free_from (pool m) 9"
  obtains s m' where "init_slab_cache ord SLAB_INIT_SIZE m = Inr (s, m')" "s \<noteq> 0" "slabs m' = slabs m"
    "mem m' (s + 8) = 0" "npages (pool m') = npages (pool m)"
    "extended R m (R(ord := (s, full_list ord s) # R ord)) (front ord s m')"
    "\<exists>b p'. buddy_get_pages 9 (pool m) = Inr (Some b, p') \<and> alloc_post 9 b (pool m) p' \<and> pool m' = label_pages b 512 s p'"
proof -
  have p: "pool_rep R (pool m)" using rep by (simp add: mm_rep_def)
  obtain b p' where b: "get_pages 9 m = Inr (page_addr (pool m) b, m\<lparr>pool := p'\<rparr>)" "alloc_post 9 b (pool m) p'"
    "buddy_get_pages 9 (pool m) = Inr (Some b, p')"
    by (rule get_pages_cases [OF rep, of 9]) (use free in auto)
  have c: "is_chunk p' b 9 True" and fr: "frame_except {} (pool m) p'" using b(2) by (simp_all add: alloc_post_def)
  note G = pool_rep_get [OF p b(2)]
  define s where "s = page_addr (pool m) b"
  define q where "q = label_pages b 512 s p'"
  define R' where "R' = R(ord := (s, full_list ord s) # R ord)"
  have s': "s = page_addr p' b" by (simp add: s_def frame_addr(1) [OF fr])
  note N = pool_rep_new_slab [OF G(1) c G(4) ord, folded s', folded q_def]
  have fit: "unat s + 2 ^ 21 < 2 ^ 64" using slab_chunk_bytes(2) [OF pool_repD(2) [OF G(1)] c] s' by simp
  obtain M where M: "init_slab_cache ord SLAB_INIT_SIZE m = Inr (s, m\<lparr>pool := q, mem := M\<rparr>)" "fresh_slab ord s (mem m) M"
    using init_stores [OF fit N(4) ord, of "m\<lparr>pool := q\<rparr>"]
    by (auto simp: init_slab_cache_def alloc_slab_memory_spec [OF rep b(2,1)] Let_def s_def [symmetric] q_def [symmetric])
  let ?m = "m\<lparr>pool := q, mem := M\<rparr>"
  have rep': "mm_rep R' (front ord s ?m)"
    using front_chain [OF rep N(1) ord M(2) N(3)] N(1) by (simp add: mm_rep_def front_def R'_def)
  moreover have blk: "rep_blocks R' (front ord s ?m) = rep_blocks R m"
    using N(2) G(2,3) frame_addr(5) [OF fr] slot_blocks_full [of R ord s] by (auto simp: rep_blocks_def front_def R'_def)
  moreover have "keeps_blocks R m (front ord s ?m)"
    unfolding keeps_blocks_def
  proof (intro ballI allI impI)
    fix d and a :: u64 assume d: "d \<in> rep_blocks R m" and a: "unat a \<in> block_bytes d"
    have "unat a \<notin> slab_bytes s"
      using front_keeps [OF rep', of s ord d] d a blk by (auto simp: R'_def)
    moreover have "unat (s + 8) \<in> slab_bytes s" using header_nat [OF fit] by (simp add: slab_bytes_def)
    ultimately show "mem (front ord s ?m) a = mem m a" using M(2) by (auto simp: front_def fresh_slab_def)
  qed
  ultimately have "extended R m R' (front ord s ?m)" by (simp add: extended_def)
  moreover have "npages q = npages (pool m)" by (simp add: q_def frame_addr(3) [OF fr])
  moreover have "\<exists>b p'. buddy_get_pages 9 (pool m) = Inr (Some b, p') \<and> alloc_post 9 b (pool m) p' \<and> q = label_pages b 512 s p'"
    using b(2,3) q_def by blast
  ultimately show thesis using M N(4) by (intro that [of s ?m]) (simp_all add: fresh_slab_def R'_def)
qed

section \<open>Taking a slot\<close>

lemma load_ok: "base \<noteq> 0 \<Longrightarrow> load base off m = Inr (mem m (base + off))"
  by (simp add: load_def)

lemma next_slab_loop_none:
  "chain_rep ord r a (mem m) \<Longrightarrow> length r \<le> fuel \<Longrightarrow> \<forall>e \<in> set r. snd e = [] \<Longrightarrow>
   next_slab_loop fuel a m = Inr (None, m)"
proof (induction r arbitrary: a fuel)
  case Nil
  then show ?case by (cases fuel) simp_all
next
  case (Cons e r)
  obtain f where f: "fuel = Suc f" using Cons.prems(2) by (cases fuel) auto
  obtain s where e: "e = (s, [])" using Cons.prems(3) by (cases e) auto
  have s: "a = s" "s \<noteq> 0" "mem m s = 0" "chain_rep ord r (mem m (s + 8)) (mem m)" using Cons.prems(1) e by auto
  have "next_slab_loop f (mem m (s + 8)) m = Inr (None, m)"
    using Cons.IH [OF s(4), of f] Cons.prems(2,3) f by simp
  then show ?case using s f by (simp add: load_ok)
qed

lemma next_slab_loop_some:
  "chain_rep ord (pre @ (s, x # xs) # post) a (mem m) \<Longrightarrow> length pre < fuel \<Longrightarrow> \<forall>e \<in> set pre. snd e = [] \<Longrightarrow>
   next_slab_loop fuel a m = Inr (Some x, m\<lparr>mem := (mem m)(s := mem m x)\<rparr>)"
proof (induction pre arbitrary: a fuel)
  case Nil
  then obtain f where "fuel = Suc f" by (cases fuel) auto
  then show ?case using Nil by (simp add: load_ok store_ok fun_upd_def)
next
  case (Cons e pre)
  obtain f where f: "fuel = Suc f" using Cons.prems(2) by (cases fuel) auto
  obtain t where e: "e = (t, [])" using Cons.prems(3) by (cases e) auto
  have t: "a = t" "t \<noteq> 0" "mem m t = 0" "chain_rep ord (pre @ (s, x # xs) # post) (mem m (t + 8)) (mem m)"
    using Cons.prems(1) e by auto
  have "next_slab_loop f (mem m (t + 8)) m = Inr (Some x, m\<lparr>mem := (mem m)(s := mem m x)\<rparr>)"
    by (rule Cons.IH [OF t(4)]) (use Cons.prems(2,3) f in simp_all)
  then show ?case using t f by (simp add: load_ok fun_upd_def)
qed

text \<open>There are at most as many slabs as pages, so the fuel of the loop is enough.\<close>

lemma chain_length:
  assumes "pool_rep R p"
  shows "length (R ord) \<le> npages p"
proof -
  have "slabs_in R ord \<subseteq> page_addr p ` {..<npages p}"
    using pool_repD(8) [OF assms, of _ ord] is_chunk_bound by (fastforce simp: slab_chunk_def)
  then have "card (slabs_in R ord) \<le> card (page_addr p ` {..<npages p})" by (intro card_mono) simp_all
  also have "\<dots> \<le> npages p" using card_image_le [of "{..<npages p}" "page_addr p"] by simp
  moreover have "card (slabs_in R ord) = length (R ord)"
    using distinct_card [OF pool_repD(6) [OF assms, of ord]] by (simp add: slabs_in_def)
  ultimately show ?thesis by simp
qed

definition spare :: "rep \<Rightarrow> nat \<Rightarrow> nat" where
  "spare R ord = sum_list (map (\<lambda>e. length (snd e)) (R ord))"

lemma alloc_hit:
  assumes rep: "mm_rep R m" and rd: "ready R" and ord: "slab_order ord" and ex: "\<exists>e \<in> set (R ord). snd e \<noteq> []"
  obtains x m' R' where "alloc_in_slab_nolock (Suc fuel) (slabs m ord) ord m = Inr (x, m')" "x \<noteq> 0"
    "granted R m (unat x, 2 ^ ord) R' m'" "pool m' = pool m" "spare R ord = Suc (spare R' ord)"
    "\<forall>o2. o2 \<noteq> ord \<longrightarrow> spare R' o2 = spare R o2"
proof -
  obtain pre e post where d: "R ord = pre @ e # post" "snd e \<noteq> []" "\<forall>y \<in> set pre. \<not> snd y \<noteq> []"
    using split_list_first_prop [OF ex] by blast
  obtain s x xs where e: "e = (s, x # xs)" using d(2) by (cases e) (auto simp: neq_Nil_conv)
  note P = pop_slot [OF rep rd, of ord pre s x xs post, OF d(1) [unfolded e]]
  have ch: "chain_rep ord (pre @ (s, x # xs) # post) (slabs m ord) (mem m)"
    using rep ord d(1) e unfolding mm_rep_def by metis
  have "alloc_in_slab_nolock (Suc fuel) (slabs m ord) ord m = Inr (x, m\<lparr>mem := (mem m)(s := mem m x)\<rparr>)"
  proof (cases pre)
    case Nil
    then have "slabs m ord = s" using ch by simp
    then show ?thesis using P(1-3) by (simp add: load_ok store_ok)
  next
    case (Cons y ys)
    obtain t where y: "y = (t, [])" using d(3) Cons by (cases y) auto
    have t: "slabs m ord = t" "t \<noteq> 0" "mem m t = 0" "chain_rep ord (ys @ (s, x # xs) # post) (mem m (t + 8)) (mem m)"
      using ch Cons y by auto
    have "length ys < npages (pool m)"
      using chain_length [of R "pool m" ord] rep d(1) Cons by (simp add: mm_rep_def)
    from next_slab_loop_some [OF t(4) this] d(3) Cons t show ?thesis by (simp add: load_ok)
  qed
  then show thesis by (rule that [OF _ P(2,4)]) (simp_all add: spare_def d(1) e)
qed

lemma alloc_miss:
  assumes rep: "mm_rep R m" and rd: "ready R" and ord: "slab_order ord" and none: "\<forall>e \<in> set (R ord). snd e = []"
  shows "alloc_in_slab_nolock (Suc fuel) (slabs m ord) ord m =
     bindR (init_slab_cache ord SLAB_INIT_SIZE m) (\<lambda>(new_slab, m').
     bindR (store new_slab 8 (slabs m ord) m') (\<lambda>m'.
       alloc_in_slab_nolock fuel new_slab ord (m'\<lparr>slabs := (slabs m')(ord := new_slab)\<rparr>)))"
proof -
  obtain s r where R: "R ord = (s, []) # r" using rd ord none by (cases "R ord") (auto simp: ready_def)
  have ch: "chain_rep ord (R ord) (slabs m ord) (mem m)" using rep ord by (simp add: mm_rep_def)
  then have s: "slabs m ord = s" "s \<noteq> 0" "mem m s = 0" "chain_rep ord r (mem m (s + 8)) (mem m)" using R by auto
  have "length r \<le> npages (pool m)" using chain_length [of R "pool m" ord] rep R by (simp add: mm_rep_def)
  from next_slab_loop_none [OF s(4) this] none R s show ?thesis by (simp add: load_ok)
qed

lemma extended_granted:
  assumes "extended R m R1 m1" "granted R1 m1 c R2 m2"
  shows "granted R m c R2 m2"
  using assms unfolding extended_def granted_def keeps_blocks_def by auto

text \<open>The recursion of \<^verbatim>\<open>_alloc_in_slab_nolock\<close> is at most two deep.\<close>

lemma alloc_from_slab_spec:
  assumes rep: "mm_rep R m" and rd: "ready R" and ord: "slab_order ord"
  shows "if (\<exists>e \<in> set (R ord). snd e \<noteq> []) \<or> has_free_from (pool m) 9
     then \<exists>x m' R'. alloc_from_slab (slabs m ord) ord m = Inr (x, m') \<and> x \<noteq> 0 \<and> granted R m (unat x, 2 ^ ord) R' m'
     else \<exists>e. alloc_from_slab (slabs m ord) ord m = Inl e"
proof (cases "\<exists>e \<in> set (R ord). snd e \<noteq> []")
  case True
  obtain x m' R' where "alloc_in_slab_nolock (Suc 1) (slabs m ord) ord m = Inr (x, m')" "x \<noteq> 0"
    "granted R m (unat x, 2 ^ ord) R' m'" by (rule alloc_hit [OF rep rd ord True])
  then show ?thesis using True by (auto simp: alloc_from_slab_def numeral_2_eq_2)
next
  case False
  then have none: "\<forall>e \<in> set (R ord). snd e = []" by simp
  note M = alloc_miss [OF rep rd ord none, of "Suc 0"]
  show ?thesis
  proof (cases "has_free_from (pool m) 9")
    case True
    obtain s m1 where s: "init_slab_cache ord SLAB_INIT_SIZE m = Inr (s, m1)" "s \<noteq> 0" "slabs m1 = slabs m"
      "extended R m (R(ord := (s, full_list ord s) # R ord)) (front ord s m1)"
      by (rule init_slab_cache_spec [OF rep ord True])
    let ?R = "R(ord := (s, full_list ord s) # R ord)"
    have "full_list ord s \<noteq> []" using slot_count(2) [OF ord] by (simp add: full_list_def)
    then have "\<exists>e \<in> set (?R ord). snd e \<noteq> []" by simp
    moreover have "mm_rep ?R (front ord s m1)" "ready ?R" using s(4) rd by (simp_all add: extended_def ready_def)
    ultimately obtain x m' R' where x: "alloc_in_slab_nolock (Suc 0) (slabs (front ord s m1) ord) ord (front ord s m1) = Inr (x, m')"
      "x \<noteq> 0" "granted ?R (front ord s m1) (unat x, 2 ^ ord) R' m'" using ord by (elim alloc_hit [where fuel = 0])
    have "alloc_from_slab (slabs m ord) ord m = Inr (x, m')"
      using x(1) s(1-3) M by (simp add: alloc_from_slab_def numeral_2_eq_2 store_ok front_def del: alloc_in_slab_nolock.simps)
    then show ?thesis using True x(2) extended_granted [OF s(4) x(3)] by auto
  next
    case no: False
    then obtain e where "alloc_slab_memory SLAB_INIT_SIZE m = Inl e" using alloc_slab_memory_fails [OF rep] by blast
    then have "alloc_from_slab (slabs m ord) ord m = Inl e"
      using M by (simp add: alloc_from_slab_def numeral_2_eq_2 init_slab_cache_def del: alloc_in_slab_nolock.simps)
    then show ?thesis using no False by auto
  qed
qed

section \<open>Returning a slot\<close>

lemma slot_page:
  assumes rep: "pool_rep R p" and s: "s \<in> slabs_in R ord" and x: "unat x \<in> slab_bytes s"
  obtains i where "virt_to_page p x = Inr i" "get_page p i = Inr (page_metadata p i)" "slab (page_metadata p i) = s"
proof -
  note g = pool_repD(2) [OF rep]
  obtain b where b: "is_chunk p b 9 True" "s = page_addr p b" "\<forall>i \<in> {b..<b + 512}. slab (page_metadata p i) = s"
    using pool_repD(8) [OF rep s] by (auto simp: slab_chunk_def)
  have "unat x \<in> chunk_bytes p b 9" using x slab_chunk_bytes(1) [OF g b(1)] b(2) by simp
  then obtain i where i: "i \<in> {b..<b + 2 ^ 9}" "unat x div 4096 = base_frame p + i" by (rule chunk_bytes_page)
  have n: "i < npages p" using b(1) i(1) by (simp add: is_chunk_def)
  have "unat x = (base_frame p + i) * 4096 + unat x mod 4096" using i(2) by (metis div_mult_mod_eq)
  from virt_to_page_eq [OF g this] n have "virt_to_page p x = Inr i" by simp
  moreover have "slab (page_metadata p i) = s" using b(3) i(1) by (auto dest: bspec [of _ _ i])
  ultimately show thesis using n by (intro that) (simp_all add: get_page_def)
qed

text \<open>The block \<open>c\<close> is gone, and the contents of all others are kept.\<close>

definition released :: "rep \<Rightarrow> mm_state \<Rightarrow> nat \<times> nat \<Rightarrow> rep \<Rightarrow> mm_state \<Rightarrow> bool" where
  "released R m c R' m' \<longleftrightarrow> mm_rep R' m' \<and> ready R' \<and> rep_blocks R' m' = rep_blocks R m - {c} \<and>
     (\<forall>d \<in> rep_blocks R m - {c}. \<forall>a. unat a \<in> block_bytes d \<longrightarrow> mem m' a = mem m a)"

lemma push_slot:
  assumes rep: "mm_rep R m" and rd: "ready R" and R: "R ord = pre @ (s, fs) # post"
    and x: "x \<in> slots_in ord s" "x \<notin> set fs"
  shows "released R m (unat x, 2 ^ ord) (R(ord := pre @ (s, x # fs) # post))
    (m\<lparr>mem := (mem m)(x := mem m s, s := x)\<rparr>)"
proof -
  let ?M = "(mem m)(x := mem m s, s := x)" and ?R = "R(ord := pre @ (s, x # fs) # post)"
  have e: "(s, fs) \<in> set (R ord)" using R by simp
  note E = mm_rep_entry [OF rep e]
  have o21: "ord \<le> 21" using E(5) by simp
  note X = slot_bytes [OF E(7) o21 x(1)]
  have ns: "s \<noteq> y \<and> s + 8 \<noteq> y" if "y \<in> slots_in ord s" for y
    using slot_bytes(2) [OF E(7) o21 that] power_order [OF E(5)] header_nat [OF E(7)] by auto
  have "linked ?M (mem m s) fs" using E(1,3) ns x(2) by (subst linked_cong [where nx' = "mem m"]) auto
  then have l: "linked ?M (?M s) (x # fs)" using ns [OF x(1)] X(3) by auto
  have bytes: "unat x \<in> slab_bytes s" "unat s \<in> slab_bytes s"
    using subsetD [OF X(1), of "unat x"] by (auto simp: block_bytes_def slab_bytes_def)
  have rep': "mm_rep ?R (m\<lparr>mem := ?M\<rparr>)"
    by (rule mm_rep_update [OF rep R]) (use l E(2,3) x ns [OF x(1)] bytes in auto)
  have e': "(s, x # fs) \<in> set (?R ord)" by simp
  have "?R(ord := pre @ (s, fs) # post) = R" using R by auto
  then have slot: "slot_blocks R = insert (unat x, 2 ^ ord) (slot_blocks ?R)"
    using slot_blocks_pop [of ?R ord pre s x fs post] x by simp
  have new: "(unat x, 2 ^ ord) \<notin> rep_blocks ?R (m\<lparr>mem := ?M\<rparr>)"
  proof
    assume "(unat x, 2 ^ ord) \<in> rep_blocks ?R (m\<lparr>mem := ?M\<rparr>)"
    from reads_not_live [OF rep' e' _ this, of x] show False by (simp add: reads_def block_bytes_def)
  qed
  have eq: "rep_blocks ?R (m\<lparr>mem := ?M\<rparr>) = rep_blocks R m - {(unat x, 2 ^ ord)}"
    using slot new by (auto simp: rep_blocks_def)
  have "mem (m\<lparr>mem := ?M\<rparr>) a = mem m a" if d: "d \<in> rep_blocks R m - {(unat x, 2 ^ ord)}" and a: "unat a \<in> block_bytes d" for d a
  proof -
    have "a \<noteq> s" "a \<noteq> x"
      using reads_not_live [OF rep' e' _ d [folded eq], of a] a by (auto simp: reads_def)
    then show ?thesis by simp
  qed
  moreover have "ready ?R" using rd by (simp add: ready_def)
  ultimately show ?thesis using rep' eq by (simp add: released_def)
qed

lemma kfree_slot:
  assumes rep: "mm_rep R m" and rd: "ready R" and c: "(a, n) \<in> slot_blocks R"
  shows "\<exists>R' m'. kfree (of_nat a) m = Inr m' \<and> released R m (a, n) R' m'"
proof -
  have p: "pool_rep R (pool m)" using rep by (simp add: mm_rep_def)
  obtain ord s fs x where x: "(s, fs) \<in> set (R ord)" "s \<in> slabs_in R ord" "slab_order ord"
    "x \<in> slots_in ord s" "x \<notin> set fs" "(a, n) = (unat x, 2 ^ ord)" "block_bytes (a, n) \<subseteq> slab_bytes s"
    by (rule slot_blockE [OF p c])
  have "unat x \<in> slab_bytes s" using x(6,7) by (auto simp: block_bytes_def)
  then obtain i where i: "virt_to_page (pool m) x = Inr i" "get_page (pool m) i = Inr (page_metadata (pool m) i)"
    "slab (page_metadata (pool m) i) = s" by (rule slot_page [OF p x(2)])
  have "s \<noteq> 0" "x \<noteq> 0" "ord \<le> 21" "unat s + 2 ^ 21 < 2 ^ 64"
    using mm_rep_entry(4,7) [OF rep x(1)] slot_bytes(3) [of s ord x] x(3,4) by auto
  then have k: "kfree x m = Inr (m\<lparr>mem := (mem m)(x := mem m s, s := x)\<rparr>)"
    by (simp add: kfree_def free_in_slab_def i load_ok store_ok)
  obtain pre post where "R ord = pre @ (s, fs) # post" using x(1) by (meson split_list)
  from push_slot [OF rep rd this x(4,5)] k x(6) show ?thesis by auto
qed

lemma kfree_pages:
  assumes rep: "mm_rep R m" and rd: "ready R" and c: "(a, n) \<in> page_blocks (pool m)"
  shows "\<exists>R' m'. kfree (of_nat a) m = Inr m' \<and> free_pages (of_nat a) m = Inr m' \<and> mem m' = mem m \<and> released R m (a, n) R' m'"
proof -
  have p: "pool_rep R (pool m)" using rep by (simp add: mm_rep_def)
  obtain b k where b: "is_chunk (pool m) b k True" "slab (page_metadata (pool m) b) = 0"
    "(a, n) = (unat (page_addr (pool m) b), 2 ^ k * 4096)" "block_bytes (a, n) = chunk_bytes (pool m) b k"
    by (rule page_blockE [OF p c])
  note bn = is_chunk_bound [OF b(1)]
  obtain p' where p': "buddy_free_pages b (pool m) = Inr p'" "free_post {b..<b + 2 ^ k} (pool m) p'"
    using buddy_free_pages_spec [OF pool_repD(1) [OF p] b(1)] by blast
  have k: "kfree (page_addr (pool m) b) m = Inr (m\<lparr>pool := p'\<rparr>)" "free_pages (page_addr (pool m) b) m = Inr (m\<lparr>pool := p'\<rparr>)"
    using virt_to_page_addr [OF pool_repD(2) [OF p] bn] bn p'(1) b(2) by (simp_all add: kfree_def free_pages_def get_page_def)
  note P = pool_rep_put [OF p b(1,2) p'(2)]
  have "(a, n) \<notin> slot_blocks R"
  proof
    assume "(a, n) \<in> slot_blocks R"
    then obtain ord s where "s \<in> slabs_in R ord" "block_bytes (a, n) \<subseteq> slab_bytes s" by (elim slot_blockE [OF p])
    moreover have "a \<in> block_bytes (a, n)" using b(3) by (simp add: block_bytes_def)
    ultimately show False using page_block_apart [OF p _ b(1,2)] b(4) by blast
  qed
  then have "rep_blocks R (m\<lparr>pool := p'\<rparr>) = rep_blocks R m - {(a, n)}"
    using P(2) b(3) by (auto simp: rep_blocks_def page_block_def)
  then have "released R m (a, n) R (m\<lparr>pool := p'\<rparr>)" using rep rd P(1) by (simp add: released_def mm_rep_def)
  then show ?thesis using k b(3) by auto
qed

section \<open>The two entry points\<close>

text \<open>The length of the block that serves a request.\<close>

definition block_size :: "u64 \<Rightarrow> nat res" where
  "block_size sz =
     (if sz \<le> 2048 then bindR (slab_order_of sz) (\<lambda>k. Inr (2 ^ k))
      else if sz \<le> 4096 then Inr 4096
      else bindR (size_to_page_order sz) (\<lambda>k. Inr (2 ^ k * 4096)))"

lemma alloc_in_slab_eq:
  "sz \<le> 2048 \<Longrightarrow> alloc_in_slab sz m = bindR (slab_order_of sz) (\<lambda>k. alloc_from_slab (slabs m k) k m)"
  by (cases "size_to_order sz")
    (auto simp: alloc_in_slab_def slab_order_of_def BUG_ON_def order_to_size_def SLAB_MAX_ORDER_def Let_def)

lemma kmalloc_granted:
  assumes rep: "mm_rep R m" and rd: "ready R" and k: "kmalloc sz m = Inr (a, m')"
  shows "(a = 0 \<and> m' = m) \<or> (a \<noteq> 0 \<and> (\<exists>n R'. block_size sz = Inr n \<and> granted R m (unat a, n) R' m'))"
proof (cases "sz \<le> 2048")
  case True
  obtain ord where ord: "slab_order_of sz = Inr ord" "slab_order ord" by (rule slab_order_of_spec [OF True])
  have "alloc_from_slab (slabs m ord) ord m = Inr (a, m')"
    using k True ord(1) by (simp add: kmalloc_def alloc_in_slab_eq order_to_size_def SLAB_MAX_ORDER_def)
  then show ?thesis
    using alloc_from_slab_spec [OF rep rd ord(2)] True ord(1) by (auto simp: block_size_def split: if_splits)
next
  case False
  have pages: "a = 0 \<and> m' = m \<or> a \<noteq> 0 \<and> (\<exists>R'. granted R m (unat a, 2 ^ ord * 4096) R' m')"
    if "get_pages ord m = Inr (a, m')" for ord
    by (rule get_pages_cases [OF rep, of ord]) (use that get_pages_granted [OF rep rd] in auto)
  show ?thesis
  proof (cases "sz \<le> 4096")
    case le: True
    then have "get_pages 0 m = Inr (a, m')"
      using k False by (simp add: kmalloc_def order_to_size_def SLAB_MAX_ORDER_def BUDDY_PAGE_SIZE_def)
    from pages [OF this] show ?thesis using False le by (auto simp: block_size_def)
  next
    case gt: False
    then obtain ord where "size_to_page_order sz = Inr ord" "get_pages ord m = Inr (a, m')"
      using k False by (auto simp: kmalloc_def order_to_size_def SLAB_MAX_ORDER_def BUDDY_PAGE_SIZE_def outcome_simps)
    with pages [OF this(2)] show ?thesis using False gt by (auto simp: block_size_def)
  qed
qed

end
