(* ===== verification/Buddy_Coalesce.thy ===== *)
theory Buddy_Coalesce
  imports Buddy_Free
begin

text \<open>The buddy allocator never keeps two free buddies apart: splitting leaves one of the halves in
  use, and freeing merges until no buddy is free. So every aligned run of free pages lies in one
  free chunk, and a request is served exactly when such a run exists.\<close>

unbundle bit_operations_syntax

section \<open>Free buddies\<close>

definition buddies :: "phys_mem_pool \<Rightarrow> nat \<Rightarrow> nat \<Rightarrow> nat \<Rightarrow> bool" where
  "buddies p k b c \<longleftrightarrow> base_frame p + c = (base_frame p + b) XOR 2 ^ k"

definition coalesced_except :: "nat set \<Rightarrow> phys_mem_pool \<Rightarrow> bool" where
  "coalesced_except X p \<longleftrightarrow> (\<forall>k b c. Suc k < BUDDY_MAX_ORDER \<longrightarrow> b \<in> free_heads p k \<longrightarrow> c \<in> free_heads p k \<longrightarrow>
     buddies p k b c \<longrightarrow> b \<in> X \<or> c \<in> X)"

definition coalesced :: "phys_mem_pool \<Rightarrow> bool" where
  "coalesced p \<longleftrightarrow> coalesced_except {} p"

lemma buddies_sym: "buddies p k b c \<Longrightarrow> buddies p k c b"
  by (simp add: buddies_def xor.assoc)

lemma buddies_unique: "buddies p k b c \<Longrightarrow> buddies p k b d \<Longrightarrow> c = d"
  by (simp add: buddies_def)

lemma coalesced_exceptI:
  assumes "\<And>k b c. Suc k < BUDDY_MAX_ORDER \<Longrightarrow> b \<in> free_heads p k \<Longrightarrow> c \<in> free_heads p k \<Longrightarrow>
     buddies p k b c \<Longrightarrow> b \<notin> X \<Longrightarrow> c \<notin> X \<Longrightarrow> False"
  shows "coalesced_except X p"
  using assms unfolding coalesced_except_def by blast

lemma coalesced_exceptD:
  "coalesced_except X p \<Longrightarrow> Suc k < BUDDY_MAX_ORDER \<Longrightarrow> b \<in> free_heads p k \<Longrightarrow> c \<in> free_heads p k \<Longrightarrow>
   buddies p k b c \<Longrightarrow> b \<in> X \<or> c \<in> X"
  unfolding coalesced_except_def by blast

lemma coalesced_mono: "coalesced_except X p \<Longrightarrow> X \<subseteq> Y \<Longrightarrow> coalesced_except Y p"
  unfolding coalesced_except_def by blast

text \<open>A change that adds only heads in \<open>X\<close> keeps the property outside \<open>X\<close>.\<close>

lemma coalesced_sub:
  assumes "coalesced_except Y p" "base_frame p' = base_frame p"
    "\<And>k b. b \<in> free_heads p' k \<Longrightarrow> b \<notin> X \<Longrightarrow> b \<in> free_heads p k \<and> b \<notin> Y"
  shows "coalesced_except X p'"
proof (rule coalesced_exceptI)
  fix k b c assume k: "Suc k < BUDDY_MAX_ORDER" and h: "b \<in> free_heads p' k" "c \<in> free_heads p' k"
    and bc: "buddies p' k b c" and X: "b \<notin> X" "c \<notin> X"
  have "buddies p k b c" using bc assms(2) by (simp add: buddies_def)
  with coalesced_exceptD [OF assms(1) k] assms(3) h X show False by blast
qed

section \<open>Splitting and handing out\<close>

lemma buddy_invD: "buddy_inv p \<Longrightarrow> chunks_ok p" "buddy_inv p \<Longrightarrow> pool_geometry p" "buddy_inv p \<Longrightarrow> lists_ok {} p"
  by (simp_all add: buddy_inv_def buddy_inv_except_def)

lemma split_step_coalesced:
  assumes inv: "buddy_inv p" and f: "first \<in> free_heads p (Suc k)" and co: "coalesced_except {first} p"
    and run: "split_step first k p = Inr p'"
  shows "coalesced_except {first} p'"
proof (rule coalesced_exceptI)
  fix m b c assume m: "Suc m < BUDDY_MAX_ORDER" and b: "b \<in> free_heads p' m" "b \<notin> {first}"
    and c: "c \<in> free_heads p' m" "c \<notin> {first}" and bc: "buddies p' m b c"
  have ch: "is_chunk p first (Suc k) False" by (rule free_head_chunk [OF buddy_invD(1) [OF inv] f])
  then have rng: "first + 2 ^ Suc k \<le> npages p" and al: "2 ^ Suc k dvd base_frame p + first"
    by (simp_all add: is_chunk_def)
  have rm: "remarked first (Suc k) k False p p'" using split_step_metadata [OF run] by (simp add: remarked_def)
  have heads: "free_heads p' m = (free_heads p m - {first..<first + 2 ^ Suc k}) \<union> (if m = k then {first, first + 2 ^ k} else {})"
    using remarked_free_heads [OF rm rng, of m] heads_of_halves [OF al] by (cases "m = k") simp_all
  have al': "2 ^ k dvd base_frame p + first" using al by (rule dvd_trans [rotated]) simp
  have "even ((base_frame p + first) div 2 ^ k)"
    using al by (metis dvd_div_iff_mult power_Suc power_not_zero al' zero_neq_numeral mult.commute)
  then have "buddies p' k first (first + 2 ^ k)"
    using flip_aligned [OF al'] remarked_base(1) [OF rm] by (simp add: buddies_def)
  then have "x \<noteq> first + 2 ^ k \<and> y \<noteq> first + 2 ^ k" if "m = k" "buddies p' m x y" "x \<noteq> first" "y \<noteq> first" for x y
    using that buddies_sym buddies_unique by blast
  then have "b \<in> free_heads p m" "c \<in> free_heads p m"
    using b c bc unfolding heads by (auto split: if_splits)
  moreover have "buddies p m b c" using bc remarked_base(1) [OF rm] by (simp add: buddies_def)
  ultimately show False using coalesced_exceptD [OF co m] b(2) c(2) by blast
qed

lemma split_page_coalesced:
  "buddy_inv p \<Longrightarrow> page \<in> free_heads p m \<Longrightarrow> k \<le> m \<Longrightarrow> coalesced_except {page} p \<Longrightarrow>
   split_page k page p = Inr (page', p') \<Longrightarrow> coalesced_except {page} p'"
proof (induction m arbitrary: p)
  case 0
  then have "split_page k page p = Inr (page, p)"
    by (subst split_page.simps) (simp add: get_page_def free_heads_def)
  with 0 show ?case by simp
next
  case (Suc m)
  have pg: "get_page p page = Inr (page_metadata p page)" "order (page_metadata p page) = Suc m"
    using Suc.prems by (simp_all add: get_page_def free_heads_def)
  show ?case
  proof (cases "k = Suc m")
    case True
    then have "split_page k page p = Inr (page, p)" using pg by (subst split_page.simps) simp
    with Suc.prems show ?thesis by simp
  next
    case False
    obtain q where q: "split_step page m p = Inr q" "buddy_inv q" "page \<in> free_heads q m"
      using split_step_inv [OF Suc.prems(1,2)] by blast
    have "split_page k page p = split_page k page q" using q(1) pg False by (subst split_page.simps) simp
    moreover have "coalesced_except {page} q" by (rule split_step_coalesced [OF Suc.prems(1,2,4) q(1)])
    ultimately show ?thesis using Suc.IH [OF q(2,3)] False Suc.prems(3,5) by simp
  qed
qed

lemma hand_out_coalesced:
  assumes inv: "buddy_inv p" and f: "b \<in> free_heads p k" and co: "coalesced_except {b} p"
    and run: "hand_out b k p = Inr p'"
  shows "coalesced p'"
proof -
  have c: "is_chunk p b k False" by (rule free_head_chunk [OF buddy_invD(1) [OF inv] f])
  obtain q r where q: "mark_pages b k True (2 ^ k) p = Inr q" and r: "add_nr_free k (- 1) q = Inr r"
    and d: "page_list_del b r = Inr p'" using run by (auto simp: hand_out_def set_alloc_page_def outcome_simps)
  have rm: "remarked b k k True p p'"
    using mark_pages_remarked [OF q] upd_free_list_frame [OF r [unfolded add_nr_free_def]] page_list_del_frame [OF d]
    by (simp add: remarked_def)
  show ?thesis
    unfolding coalesced_def
    by (rule coalesced_sub [OF co remarked_base(1) [OF rm]]) (simp add: remarked_chunk_heads [OF c rm])
qed

lemma buddy_get_loop_coalesced:
  assumes inv: "buddy_inv p" and co: "coalesced p"
  shows "k \<le> m \<Longrightarrow> buddy_get_loop k m p = Inr (Some b, p') \<Longrightarrow> coalesced p'"
proof (induction "BUDDY_MAX_ORDER - m" arbitrary: m)
  case 0
  then show ?case using buddy_get_loop_end [of k p]
    by (cases "m = BUDDY_MAX_ORDER") (auto simp: buddy_get_loop.simps [of k m] split: if_splits)
next
  case (Suc n)
  then have m: "m < BUDDY_MAX_ORDER" by simp
  show ?case
  proof (cases "free_heads p m = {}")
    case True
    then show ?thesis
      using Suc.hyps(1) [of "Suc m"] Suc.hyps(2) Suc.prems
        buddy_get_loop_miss [OF buddy_invD(2) [OF inv] buddy_invD(3) [OF inv] m True] by simp
  next
    case False
    note L = lists_okD [OF buddy_invD(3) [OF inv] m]
    obtain h hs where hs: "fl_nodes (free_lists p m) = h # hs" using L(2) False by (cases "fl_nodes (free_lists p m)") auto
    have h: "h \<in> free_heads p m" using L(2) hs by auto
    obtain q where q: "split_page k h p = Inr (h, q)" "buddy_inv q" "h \<in> free_heads q k"
      using split_page_spec [OF inv h Suc.prems(1)] by blast
    have pg: "get_page q h = Inr (page_metadata q h)" "order (page_metadata q h) = k"
      using q(3) by (simp_all add: free_heads_def get_page_def)
    have "nr_free (free_lists p m) > 0" using nr_free_pos [OF buddy_invD(2) [OF inv] buddy_invD(3) [OF inv] m] hs by simp
    then have "buddy_get_loop k m p = bindR (hand_out h k q) (\<lambda>p. Inr (Some h, p))"
      using m by (subst buddy_get_loop.simps) (simp add: hs q(1) pg hand_out_def bindR_assoc)
    then have "hand_out h k q = Inr p'" using Suc.prems(2) by (cases "hand_out h k q") simp_all
    moreover have "coalesced_except {h} q"
      using split_page_coalesced [OF inv h Suc.prems(1) _ q(1)] co coalesced_mono [of "{}" p "{h}"]
      by (simp add: coalesced_def)
    ultimately show ?thesis using hand_out_coalesced [OF q(2,3)] by blast
  qed
qed

lemma buddy_get_pages_coalesced:
  "buddy_inv p \<Longrightarrow> coalesced p \<Longrightarrow> buddy_get_pages k p = Inr (Some b, p') \<Longrightarrow> coalesced p'"
  unfolding buddy_get_pages_def using buddy_get_loop_coalesced by blast

section \<open>Merging\<close>

lemma merge_page_coalesced:
  "buddy_inv_except {it} p \<Longrightarrow> it \<in> free_heads p k \<Longrightarrow> coalesced_except {it} p \<Longrightarrow>
   merge_page it p = Inr (it', p') \<Longrightarrow> coalesced p'"
proof (induction "BUDDY_MAX_ORDER - k" arbitrary: it p k rule: less_induct)
  case less
  have ch: "chunks_ok p" and g: "pool_geometry p" using less.prems by (simp_all add: buddy_inv_except_def)
  have c: "is_chunk p it k False" using free_head_chunk [OF ch less.prems(2)] .
  have i: "it < npages p" "order (page_metadata p it) = k" using less.prems by (simp_all add: free_heads_def)
  have k: "k < BUDDY_MAX_ORDER" and al: "2 ^ k dvd base_frame p + it" using c by (simp_all add: is_chunk_def)
  define Bf where "Bf = (base_frame p + it) XOR 2 ^ k"
  note gb = get_buddy_chunk_eq [OF g ch i(1) i(2) [symmetric] k, folded Bf_def]
  show ?case
  proof (cases "base_frame p \<le> Bf \<and> Bf < base_frame p + npages p \<and>
      \<not> allocated (page_metadata p (Bf - base_frame p)) \<and> order (page_metadata p (Bf - base_frame p)) = k \<and>
      k < BUDDY_MAX_ORDER - 1")
    case False
    then have "merge_page it p = Inr (it, p)" using i by (subst merge_page.simps) (auto simp: gb get_page_def)
    then have p': "p' = p" using less.prems(4) by simp
    have no: "\<not> (c \<in> free_heads p m \<and> buddies p m it c \<and> it \<in> free_heads p m \<and> Suc m < BUDDY_MAX_ORDER)" for m c
    proof
      assume a: "c \<in> free_heads p m \<and> buddies p m it c \<and> it \<in> free_heads p m \<and> Suc m < BUDDY_MAX_ORDER"
      then have "m = k" using i(2) by (simp add: free_heads_def)
      then have "Bf = base_frame p + c" using a by (simp add: Bf_def buddies_def)
      then show False using a False \<open>m = k\<close> by (auto simp: free_heads_def)
    qed
    have "coalesced_except {} p"
    proof (rule coalesced_exceptI)
      fix m b c assume m: "Suc m < BUDDY_MAX_ORDER" and h: "b \<in> free_heads p m" "c \<in> free_heads p m" and bc: "buddies p m b c"
      then have "b = it \<or> c = it" using coalesced_exceptD [OF less.prems(3)] by blast
      then show False using no [of b m] no [of c m] m h bc buddies_sym [OF bc] by blast
    qed
    then show ?thesis by (simp add: p' coalesced_def)
  next
    case True
    define b where "b = Bf - base_frame p"
    have blk: "base_frame p + b = (base_frame p + it) XOR 2 ^ k" using True by (simp add: b_def Bf_def)
    have b: "b < npages p" "\<not> allocated (page_metadata p b)" "order (page_metadata p b) = k"
      using True by (auto simp: b_def)
    then have fb: "b \<in> free_heads p k" using buddy_block(1) [OF al blk] by (simp add: free_heads_def)
    obtain q where q: "merge_step it b p = Inr (min it b, q)" "buddy_inv_except {min it b} q"
      "min it b \<in> free_heads q (Suc k)"
      using merge_step_inv [OF less.prems(1,2) fb blk] True by (auto simp: less_diff_conv)
    have om: "order (page_metadata p (min it b)) = k" using i(2) b(3) by (simp add: min_def)
    have rm: "remarked (min it b) (Suc k) (Suc k) False p q"
      using merge_step_metadata [OF q(1)] unfolding om by (simp add: remarked_def)
    have "free_heads q m = (free_heads p m - {it, b}) \<union> (if m = Suc k then {min it b} else {})" for m
      by (rule merged_heads [OF c free_head_chunk [OF ch fb] blk rm])
    then have "coalesced_except {min it b} q"
      by (intro coalesced_sub [OF less.prems(3) remarked_base(1) [OF rm]]) (auto split: if_splits)
    moreover have "merge_page it p = merge_page (min it b) q"
      using i b True q(1) by (subst merge_page.simps) (simp add: gb get_page_def b_def [symmetric])
    ultimately show ?thesis using less.hyps [OF _ q(2,3)] less.prems(4) k by (simp add: diff_less_mono2)
  qed
qed

lemma coalesced_same:
  assumes "page_metadata p' = page_metadata p" "pool_start_addr p' = pool_start_addr p"
    "pool_mem_size p' = pool_mem_size p" "pool_phys_page_num p' = pool_phys_page_num p"
  shows "coalesced p' = coalesced p"
  using same_metadata(3) [OF assms] assms(2) by (simp add: coalesced_def coalesced_except_def buddies_def base_frame_def)

lemma buddy_free_pages_coalesced:
  assumes inv: "buddy_inv p" and c: "is_chunk p b k True" and co: "coalesced p" and run: "buddy_free_pages b p = Inr p'"
  shows "coalesced p'"
proof -
  obtain q where q: "set_free_page b k p = Inr q" "buddy_inv_except {b} q" "b \<in> free_heads q k"
    using set_free_inv [OF inv c] by blast
  have rm: "remarked b k k False p q" using mark_pages_remarked q(1) by (simp add: set_free_page_def)
  have "coalesced_except {b} q"
    by (rule coalesced_sub [OF co [unfolded coalesced_def] remarked_base(1) [OF rm]])
      (auto simp: remarked_chunk_heads [OF c rm] split: if_splits)
  moreover have "get_page p b = Inr (page_metadata p b)" "order (page_metadata p b) = k"
    using c is_chunk_bound [OF c] by (simp_all add: is_chunk_def get_page_def)
  then obtain it r s and pg :: page where r: "merge_page b q = Inr (it, r)" "page_list_add it (order pg) r = Inr s"
    "add_nr_free (order pg) 1 s = Inr p'"
    using run by (auto simp: buddy_free_pages_def q(1) outcome_simps)
  ultimately have "coalesced r" using merge_page_coalesced [OF q(2,3)] by blast
  moreover have "coalesced p' = coalesced r"
    by (rule coalesced_same)
      (use upd_free_list_frame [OF r(2) [unfolded page_list_add_def]] upd_free_list_frame [OF r(3) [unfolded add_nr_free_def]]
        in simp_all)
  ultimately show ?thesis by simp
qed

lemma free_each_coalesced:
  assumes inv: "buddy_inv p" and free: "free_pages_of p = {}" and meta: "\<And>j. page_metadata p j = boot_page"
  shows "n \<le> npages p \<Longrightarrow> free_each n p = Inr p' \<Longrightarrow> coalesced p'"
proof (induction n arbitrary: p')
  case 0
  have "free_heads p k = {}" for k using free by (auto simp: free_heads_def free_pages_of_def)
  then show ?case using 0 by (simp add: coalesced_def coalesced_except_def)
next
  case (Suc n)
  obtain q where q: "free_each n p = Inr q" "buddy_inv q" "frame_except {..<n} p q"
    using free_each_spec [OF inv free meta, of n] Suc.prems(1) by auto
  have "page_metadata q n = boot_page" "npages q = npages p"
    using q(3) meta [of n] by (auto simp: frame_except_def boot_page_def)
  then have c: "is_chunk q n 0 True"
    using Suc.prems by (simp add: is_chunk_def boot_page_def BUDDY_MAX_ORDER_def)
  have "coalesced q" using Suc.IH [OF _ q(1)] Suc.prems(1) by simp
  moreover have "buddy_free_pages n q = Inr p'" using Suc.prems(2) q(1) by simp
  ultimately show ?case by (rule buddy_free_pages_coalesced [OF q(2) c])
qed

lemma init_buddy_coalesced:
  assumes "4096 dvd unat start" "unat start + unat n * 4096 < 2 ^ 64" "init_buddy start n past = Inr p"
  shows "coalesced p"
  by (rule free_each_coalesced [OF init_pool_inv [OF assms(1,2)], where past1 = past])
    (use assms(3) in \<open>simp_all add: init_pool_def boot_page_def init_buddy_def\<close>)

section \<open>Aligned runs of free pages\<close>

definition free_run :: "phys_mem_pool \<Rightarrow> nat \<Rightarrow> nat \<Rightarrow> bool" where
  "free_run p c k \<longleftrightarrow> 2 ^ k dvd base_frame p + c \<and> {c..<c + 2 ^ k} \<subseteq> free_pages_of p"

lemma nested_aligned:
  fixes S :: nat
  assumes "2 ^ m dvd S + b" "2 ^ k dvd S + c" "k \<le> m" "x \<in> {b..<b + 2 ^ m}" "x \<in> {c..<c + 2 ^ k}"
  shows "{c..<c + 2 ^ k} \<subseteq> {b..<b + 2 ^ m}"
proof -
  obtain d where d: "2 ^ k dvd S + d" "x \<in> {d..<d + 2 ^ k}" "b \<le> d" "d + 2 ^ k \<le> b + 2 ^ m"
    by (rule sub_block [OF assms(1,3,4)])
  have "S + d = S + c" by (rule aligned_unique [OF d(1) assms(2), of "S + x"]) (use d(2) assms(5) in auto)
  then show ?thesis using d(3,4) by auto
qed

lemma run_in_chunk:
  assumes inv: "buddy_inv p" and co: "coalesced p"
  shows "k < BUDDY_MAX_ORDER \<Longrightarrow> free_run p c k \<Longrightarrow>
    \<exists>m b. k \<le> m \<and> b \<in> free_heads p m \<and> {c..<c + 2 ^ k} \<subseteq> {b..<b + 2 ^ m}"
proof (induction k arbitrary: c)
  case 0
  then have "c \<in> free_pages_of p" by (auto simp: free_run_def)
  then obtain m b where "b \<in> free_heads p m" "c \<in> {b..<b + 2 ^ m}"
    unfolding free_pages_split [OF buddy_invD(1) [OF inv]] by blast
  then show ?case by (intro exI [of _ m] exI [of _ b]) auto
next
  case (Suc k)
  let ?d = "c + 2 ^ k"
  have al: "2 ^ Suc k dvd base_frame p + c" using Suc.prems(2) by (simp add: free_run_def)
  then have al': "2 ^ k dvd base_frame p + c" by (rule dvd_trans [rotated]) simp
  have al2: "2 ^ k dvd base_frame p + ?d" using al' by (simp add: add.assoc [symmetric])
  have sub: "{c..<c + 2 ^ Suc k} = {c..<c + 2 ^ k} \<union> {?d..<?d + 2 ^ k}" by auto
  have "free_run p c k" "free_run p ?d k" using Suc.prems(2) al' al2 unfolding free_run_def sub by auto
  from Suc.IH [OF _ this(1)] Suc.IH [OF _ this(2)] Suc.prems(1)
  obtain m b m' b' where b: "k \<le> m" "b \<in> free_heads p m" "{c..<c + 2 ^ k} \<subseteq> {b..<b + 2 ^ m}"
    and b': "k \<le> m'" "b' \<in> free_heads p m'" "{?d..<?d + 2 ^ k} \<subseteq> {b'..<b' + 2 ^ m'}" by auto
  have c: "c \<in> {b..<b + 2 ^ m}" and d: "?d \<in> {b'..<b' + 2 ^ m'}" using b(3) b'(3) by (auto simp: subset_iff)
  consider "k < m" | "k < m'" | "m = k" "m' = k" using b(1) b'(1) by linarith
  then show ?case
  proof cases
    case 1
    have "{c..<c + 2 ^ Suc k} \<subseteq> {b..<b + 2 ^ m}"
      by (rule nested_aligned [OF _ al _ c]) (use 1 b(2) in \<open>auto simp: free_heads_def\<close>)
    then show ?thesis using 1 b(2) by (intro exI [of _ m] exI [of _ b]) simp
  next
    case 2
    have "{c..<c + 2 ^ Suc k} \<subseteq> {b'..<b' + 2 ^ m'}"
      by (rule nested_aligned [OF _ al _ d]) (use 2 b'(2) in \<open>auto simp: free_heads_def\<close>)
    then show ?thesis using 2 b'(2) by (intro exI [of _ m'] exI [of _ b']) simp
  next
    case 3
    have "base_frame p + b = base_frame p + c"
      by (rule aligned_unique [OF _ al', of _ "base_frame p + c"]) (use b(2) c 3 in \<open>auto simp: free_heads_def\<close>)
    moreover have "base_frame p + b' = base_frame p + ?d"
      by (rule aligned_unique [OF _ al2, of _ "base_frame p + ?d"]) (use b'(2) d 3 in \<open>auto simp: free_heads_def\<close>)
    ultimately have eq: "b = c" "b' = ?d" by simp_all
    have "even ((base_frame p + c) div 2 ^ k)"
      using al by (metis dvd_div_iff_mult power_Suc power_not_zero al' zero_neq_numeral mult.commute)
    then have "buddies p k c ?d" using flip_aligned [OF al'] by (simp add: buddies_def)
    then show ?thesis
      using coalesced_exceptD [OF co [unfolded coalesced_def] Suc.prems(1)] b(2) b'(2) eq 3 by blast
  qed
qed

lemma has_free_from_iff:
  assumes inv: "buddy_inv p" and co: "coalesced p" and k: "k < BUDDY_MAX_ORDER"
  shows "has_free_from p k \<longleftrightarrow> (\<exists>c. free_run p c k)"
proof
  assume "has_free_from p k"
  then obtain m b where m: "k \<le> m" "b \<in> free_heads p m" by (auto simp: has_free_from_def)
  have "is_chunk p b m False" by (rule free_head_chunk [OF buddy_invD(1) [OF inv] m(2)])
  then have "{b..<b + 2 ^ m} \<subseteq> free_pages_of p" "2 ^ m dvd base_frame p + b"
    by (auto simp: free_chunk_pages is_chunk_def free_pages_of_def)
  moreover have "2 ^ k dvd base_frame p + b" using calculation(2) m(1) le_imp_power_dvd dvd_trans by blast
  moreover have "{b..<b + 2 ^ k} \<subseteq> {b..<b + 2 ^ m}" using m(1) by simp
  ultimately have "free_run p b k" unfolding free_run_def by blast
  then show "\<exists>c. free_run p c k" by blast
next
  assume "\<exists>c. free_run p c k"
  then obtain c where c: "free_run p c k" by blast
  obtain m b where m: "k \<le> m" "b \<in> free_heads p m" using run_in_chunk [OF inv co k c] by blast
  moreover have "m < BUDDY_MAX_ORDER"
    using free_head_chunk [OF buddy_invD(1) [OF inv] m(2)] by (simp add: is_chunk_def)
  ultimately show "has_free_from p k" by (auto simp: has_free_from_def)
qed

section \<open>The pool as an allocator that does not fragment\<close>

definition coalesced_pool :: "u64 \<Rightarrow> phys_mem_pool \<Rightarrow> bool" where
  "coalesced_pool n p \<longleftrightarrow> pool_ok n p \<and> coalesced p"

interpretation pc: total_allocator "coalesced_pool n" live_chunks chunk_pages get_chunk put_chunk for n
proof (unfold_locales)
  fix s c d assume "coalesced_pool n s" "c \<in> live_chunks s" "d \<in> live_chunks s" "c \<noteq> d"
  then show "chunk_pages c \<inter> chunk_pages d = {}" using pa.live_disjoint [of n s c d] by (simp add: coalesced_pool_def)
next
  fix s r c s' assume ok: "coalesced_pool n s" and g: "get_chunk r s = Inr (Some c, s')"
  then obtain b where "buddy_get_pages r s = Inr (Some b, s')"
    by (auto simp: get_chunk_def outcome_simps)
  then have "coalesced s'"
    using buddy_get_pages_coalesced [of s r b s'] ok pool_okD(1) [of n s] by (simp add: coalesced_pool_def)
  then show "coalesced_pool n s' \<and> c \<notin> live_chunks s \<and> live_chunks s' = insert c (live_chunks s)"
    using pa.get_fresh [OF _ g, of n] ok by (simp add: coalesced_pool_def)
next
  fix s r s' assume ok: "coalesced_pool n s" and g: "get_chunk r s = Inr (None, s')"
  then have "s' = s" using buddy_get_pages_total [of n s r] by (auto simp: get_chunk_def coalesced_pool_def)
  then show "coalesced_pool n s' \<and> live_chunks s' = live_chunks s" using ok by simp
next
  fix s c assume ok: "coalesced_pool n s" and c: "c \<in> live_chunks s"
  then obtain s' where s': "put_chunk c s = Inr s'" "pool_ok n s'" "live_chunks s' = live_chunks s - {c}"
    using pa.put_live [of n s c] by (auto simp: coalesced_pool_def)
  have "is_chunk s (fst c) (snd c) True" using c by (simp add: live_chunks_def case_prod_beta)
  then have "coalesced s'"
    using buddy_free_pages_coalesced [of s "fst c" "snd c" s'] ok s'(1) pool_okD(1) [of n s]
    by (simp add: coalesced_pool_def put_chunk_def)
  then show "\<exists>s'. put_chunk c s = Inr s' \<and> coalesced_pool n s' \<and> live_chunks s' = live_chunks s - {c}"
    using s' by (simp add: coalesced_pool_def)
next
  fix s r assume "coalesced_pool n s"
  then show "\<exists>x s'. get_chunk r s = Inr (x, s')" using pa.get_total [of n s r] by (simp add: coalesced_pool_def)
qed

lemma init_coalesced_pool:
  assumes "4096 dvd unat start" "unat start + unat n * 4096 < 2 ^ 64"
  obtains p where "init_buddy start n 0 = Inr p" "coalesced_pool n p" "live_chunks p = {}"
    "free_pages_of p = {..<unat n}" "pool_start_addr p = start" "\<forall>j. slab (page_metadata p j) = 0"
proof -
  obtain p where p: "init_buddy start n 0 = Inr p" "buddy_inv p" "free_pages_of p = {..<unat n}"
    "pool_start_addr p = start" "pool_phys_page_num p = n" "nr_free_past_end p = 0" "\<forall>j. slab (page_metadata p j) = 0"
    using init_buddy_spec [OF assms] by blast
  have "b \<notin> free_pages_of p \<and> b < unat n" if "is_chunk p b k True" for b k
    using that is_chunk_bound [OF that] p(5) by (auto simp: is_chunk_def free_pages_of_def)
  then have "live_chunks p = {}" using p(3) by (auto simp: live_chunks_def)
  moreover have "coalesced_pool n p"
    using p init_buddy_coalesced [OF assms p(1)] by (simp add: coalesced_pool_def pool_ok_def)
  ultimately show thesis using p that by blast
qed



end
