(* ===== verification/Kmalloc_Spec.thy ===== *)
theory Kmalloc_Spec
  imports Kmalloc_Correct Buddy_Coalesce
begin

text \<open>\<^verbatim>\<open>kmalloc\<close> and \<^verbatim>\<open>kfree\<close> implement the allocator contract on byte ranges, and
  \<^verbatim>\<open>mm_init\<close> establishes it: the properties a client of kernel memory relies on.\<close>

unbundle bit_operations_syntax

section \<open>The invariant and the live blocks of a state\<close>

definition mm_ok :: "mm_state \<Rightarrow> bool" where
  "mm_ok m \<longleftrightarrow> (\<exists>R. mm_rep R m \<and> ready R)"

definition live_blocks :: "mm_state \<Rightarrow> (nat \<times> nat) set" where
  "live_blocks m = {c. \<exists>R. mm_rep R m \<and> c \<in> rep_blocks R m}"

lemma mm_rep_unique: "mm_rep R m \<Longrightarrow> mm_rep R' m \<Longrightarrow> R = R'"
proof (rule ext)
  fix ord assume R: "mm_rep R m" "mm_rep R' m"
  show "R ord = R' ord"
  proof (cases "slab_order ord")
    case True
    then show ?thesis using R chain_rep_unique unfolding mm_rep_def by blast
  next
    case False
    then have "R ord = []" "R' ord = []"
      using R pool_repD(5) [of R "pool m" ord] pool_repD(5) [of R' "pool m" ord] by (auto simp: mm_rep_def)
    then show ?thesis by simp
  qed
qed

lemma live_blocks_rep: "mm_rep R m \<Longrightarrow> live_blocks m = rep_blocks R m"
  using mm_rep_unique by (auto simp: live_blocks_def)

lemma mm_okE:
  assumes "mm_ok m"
  obtains R where "mm_rep R m" "ready R" "live_blocks m = rep_blocks R m" "pool_rep R (pool m)"
  using assms live_blocks_rep by (auto simp: mm_ok_def mm_rep_def)

lemma mm_okI: "mm_rep R m \<Longrightarrow> ready R \<Longrightarrow> mm_ok m"
  by (auto simp: mm_ok_def)

text \<open>At least \<open>n\<close> slots of an order are free in the slabs there are.\<close>

definition has_slots :: "nat \<Rightarrow> nat \<Rightarrow> mm_state \<Rightarrow> bool" where
  "has_slots n ord m \<longleftrightarrow> (\<exists>R. mm_rep R m \<and> ready R \<and> n \<le> spare R ord)"

section \<open>The contract\<close>

definition kget :: "u64 \<Rightarrow> mm_state \<Rightarrow> ((nat \<times> nat) option \<times> mm_state) res" where
  "kget sz m = bindR (kmalloc sz m) (\<lambda>(a, m).
     if a = 0 then Inr (None, m) else bindR (block_size sz) (\<lambda>n. Inr (Some (unat a, n), m)))"

definition kput :: "nat \<times> nat \<Rightarrow> mm_state \<Rightarrow> mm_state res" where
  "kput c m = kfree (of_nat (fst c)) m"

lemma kmalloc_step:
  assumes ok: "mm_ok m" and k: "kmalloc sz m = Inr (a, m')"
  shows "(a = 0 \<and> m' = m) \<or> (a \<noteq> 0 \<and> mm_ok m' \<and> (\<exists>n. block_size sz = Inr n \<and> (unat a, n) \<notin> live_blocks m \<and>
    live_blocks m' = insert (unat a, n) (live_blocks m)) \<and>
    (\<forall>c \<in> live_blocks m. \<forall>x. unat x \<in> block_bytes c \<longrightarrow> mem m' x = mem m x))"
proof -
  obtain R where R: "mm_rep R m" "ready R" "live_blocks m = rep_blocks R m" by (rule mm_okE [OF ok])
  show ?thesis
    using kmalloc_granted [OF R(1,2) k]
  proof (elim disjE conjE exE)
    fix n R' assume n: "a \<noteq> 0" "block_size sz = Inr n" and g: "granted R m (unat a, n) R' m'"
    then have rep': "mm_rep R' m'" "ready R'" by (simp_all add: granted_def)
    then have "live_blocks m' = rep_blocks R' m'" "mm_ok m'" using live_blocks_rep mm_okI by blast+
    then show ?thesis using n g R(3) by (auto simp: granted_def keeps_blocks_def)
  qed simp
qed

lemma kfree_step:
  assumes ok: "mm_ok m" and c: "c \<in> live_blocks m"
  shows "\<exists>m'. kfree (of_nat (fst c)) m = Inr m' \<and> mm_ok m' \<and> live_blocks m' = live_blocks m - {c} \<and>
    (\<forall>d \<in> live_blocks m - {c}. \<forall>x. unat x \<in> block_bytes d \<longrightarrow> mem m' x = mem m x)"
proof -
  obtain R where R: "mm_rep R m" "ready R" "live_blocks m = rep_blocks R m" by (rule mm_okE [OF ok])
  have "\<exists>R' m'. kfree (of_nat (fst c)) m = Inr m' \<and> released R m c R' m'"
    using c R(3) kfree_slot [OF R(1,2), of "fst c" "snd c"] kfree_pages [OF R(1,2), of "fst c" "snd c"]
    by (auto simp: rep_blocks_def)
  then obtain R' m' where r: "kfree (of_nat (fst c)) m = Inr m'" "released R m c R' m'" by blast
  then have "live_blocks m' = rep_blocks R' m'" "mm_ok m'"
    using live_blocks_rep mm_okI by (auto simp: released_def)
  then show ?thesis using r R(3) by (auto simp: released_def)
qed

text \<open>Taking a slot that is there, and writing into live blocks.\<close>

lemma kmalloc_slot:
  assumes slots: "has_slots (Suc n) ord m" and sz: "sz \<le> 2048" "slab_order_of sz = Inr ord"
  obtains a m' where "kmalloc sz m = Inr (a, m')" "a \<noteq> 0" "has_slots n ord m'"
    "\<forall>o2 k. o2 \<noteq> ord \<longrightarrow> has_slots k o2 m \<longrightarrow> has_slots k o2 m'"
proof -
  obtain R where R: "mm_rep R m" "ready R" "Suc n \<le> spare R ord" using slots by (auto simp: has_slots_def)
  have ord: "slab_order ord" using slab_order_of_spec [OF sz(1)] sz(2) by auto
  have ex: "\<exists>e \<in> set (R ord). snd e \<noteq> []"
  proof (rule ccontr)
    assume "\<not> (\<exists>e \<in> set (R ord). snd e \<noteq> [])"
    then have "spare R ord = 0" by (auto simp: spare_def)
    with R(3) show False by simp
  qed
  obtain x m' R' where "alloc_in_slab_nolock (Suc 1) (slabs m ord) ord m = Inr (x, m')" "x \<noteq> 0"
    "granted R m (unat x, 2 ^ ord) R' m'" "pool m' = pool m" "spare R ord = Suc (spare R' ord)"
    "\<forall>o2. o2 \<noteq> ord \<longrightarrow> spare R' o2 = spare R o2" by (rule alloc_hit [OF R(1,2) ord ex])
  moreover from this have "\<forall>o2 k. o2 \<noteq> ord \<longrightarrow> has_slots k o2 m \<longrightarrow> has_slots k o2 m'"
    using mm_rep_unique [OF R(1)] unfolding has_slots_def granted_def by metis
  ultimately show thesis
    using sz R(3) by (intro that [of x m']) (auto simp: kmalloc_def alloc_in_slab_eq alloc_from_slab_def numeral_2_eq_2
        order_to_size_def SLAB_MAX_ORDER_def has_slots_def granted_def)
qed

lemma has_slots_write:
  assumes "has_slots n ord m" "\<forall>x. (\<forall>c \<in> live_blocks m. unat x \<notin> block_bytes c) \<longrightarrow> M x = mem m x"
  shows "has_slots n ord (m\<lparr>mem := M\<rparr>)"
proof -
  obtain R where R: "mm_rep R m" "ready R" "n \<le> spare R ord" using assms(1) by (auto simp: has_slots_def)
  have "mm_rep R (m\<lparr>mem := M\<rparr>)" by (rule mm_rep_write [OF R(1)]) (use assms(2) live_blocks_rep [OF R(1)] in blast)
  then show ?thesis using R by (auto simp: has_slots_def)
qed

lemma live_blocks_disjoint:
  assumes "mm_ok m" "c \<in> live_blocks m" "d \<in> live_blocks m" "c \<noteq> d"
  shows "block_bytes c \<inter> block_bytes d = {}"
proof -
  obtain R where "live_blocks m = rep_blocks R m" "pool_rep R (pool m)" by (rule mm_okE [OF assms(1)])
  with rep_blocks_disjoint assms(2-4) show ?thesis by blast
qed

lemma mm_ok_write:
  assumes "mm_ok m" "\<forall>x. (\<forall>c \<in> live_blocks m. unat x \<notin> block_bytes c) \<longrightarrow> M x = mem m x"
  shows "mm_ok (m\<lparr>mem := M\<rparr>)" "live_blocks (m\<lparr>mem := M\<rparr>) = live_blocks m"
proof -
  obtain R where R: "mm_rep R m" "ready R" "live_blocks m = rep_blocks R m" by (rule mm_okE [OF assms(1)])
  have "mm_rep R (m\<lparr>mem := M\<rparr>)" by (rule mm_rep_write [OF R(1)]) (use assms(2) R(3) in blast)
  moreover have "rep_blocks R (m\<lparr>mem := M\<rparr>) = rep_blocks R m" by (simp add: rep_blocks_def)
  ultimately show "mm_ok (m\<lparr>mem := M\<rparr>)" "live_blocks (m\<lparr>mem := M\<rparr>) = live_blocks m"
    using R(2,3) live_blocks_rep mm_okI by metis+
qed

lemma live_block_fits:
  assumes "mm_ok m" "(a, n) \<in> live_blocks m"
  shows "0 < a" "a + n < 2 ^ 64"
proof -
  obtain R where R: "mm_rep R m" "live_blocks m = rep_blocks R m" and p: "pool_rep R (pool m)"
    by (rule mm_okE [OF assms(1)])
  have "0 < a \<and> a + n < 2 ^ 64"
  proof (cases "(a, n) \<in> slot_blocks R")
    case True
    then obtain ord s fs x where x: "(s, fs) \<in> set (R ord)" "slab_order ord" "x \<in> slots_in ord s" "(a, n) = (unat x, 2 ^ ord)"
      "unat s + 2 ^ ord \<le> unat x" by (rule slot_blockE [OF p])
    have fit: "unat s + 2 ^ 21 < 2 ^ 64" by (rule mm_rep_entry(7) [OF R(1) x(1)])
    obtain k where k: "k < nslots ord" "x = slot_at ord s k" by (rule slots_inE [OF x(3)])
    have "unat x = unat s + k * 2 ^ ord" "k * 2 ^ ord + 2 ^ ord \<le> 2 ^ 21"
      using slot_at_nat [OF fit _ k(1)] slot_bound [OF _ k(1)] x(2) k(2) by simp_all
    then show ?thesis using x(4,5) fit power_order [OF x(2)] by simp
  next
    case False
    then have "(a, n) \<in> page_blocks (pool m)" using assms(2) R(2) by (simp add: rep_blocks_def)
    then obtain b k where b: "is_chunk (pool m) b k True" "(a, n) = (unat (page_addr (pool m) b), 2 ^ k * 4096)"
      by (rule page_blockE [OF p])
    note g = pool_repD(2) [OF p]
    have "a = (base_frame (pool m) + b) * 4096" "n = 2 ^ k * 4096" "b + 2 ^ k \<le> npages (pool m)"
      using b page_addr_nat [OF g is_chunk_bound [OF b(1)]] by (simp_all add: is_chunk_def)
    moreover have "base_frame (pool m) * 4096 = unat (pool_start_addr (pool m))" by (rule base_frame_mult [OF g])
    moreover have "0 < unat (pool_start_addr (pool m))" using pool_repD(4) [OF p] by (simp add: word_less_nat_alt)
    moreover have "unat (pool_start_addr (pool m)) + npages (pool m) * 4096 < 2 ^ 64" using g by (simp add: pool_geometry_def)
    ultimately show ?thesis by simp
  qed
  then show "0 < a" "a + n < 2 ^ 64" by simp_all
qed

interpretation km: allocator mm_ok live_blocks block_bytes kget kput
proof (unfold_locales)
  fix s c d assume "mm_ok s" "c \<in> live_blocks s" "d \<in> live_blocks s" "c \<noteq> d"
  then show "block_bytes c \<inter> block_bytes d = {}" by (rule live_blocks_disjoint)
next
  fix s r c s' assume ok: "mm_ok s" and g: "kget r s = Inr (Some c, s')"
  obtain a where a: "kmalloc r s = Inr (a, s')" "a \<noteq> 0" "bindR (block_size r) (\<lambda>n. Inr (Some (unat a, n), s')) = Inr (Some c, s')"
    using g by (auto simp: kget_def outcome_simps split: if_splits)
  with kmalloc_step [OF ok a(1)] show "mm_ok s' \<and> c \<notin> live_blocks s \<and> live_blocks s' = insert c (live_blocks s)" by auto
next
  fix s r s' assume ok: "mm_ok s" and g: "kget r s = Inr (None, s')"
  then have "kmalloc r s = Inr (0, s')" by (auto simp: kget_def outcome_simps split: if_splits)
  with kmalloc_step [OF ok this] ok show "mm_ok s' \<and> live_blocks s' = live_blocks s" by auto
next
  fix s c assume "mm_ok s" "c \<in> live_blocks s"
  then show "\<exists>s'. kput c s = Inr s' \<and> mm_ok s' \<and> live_blocks s' = live_blocks s - {c}"
    using kfree_step unfolding kput_def by blast
qed

section \<open>Sizes of blocks\<close>

lemma round_up_nat:
  assumes "unat sz + 4095 < 2 ^ 64"
  shows "unat (ROUND_UP sz 4096) = (unat sz + 4095) div 4096 * 4096"
proof -
  have u: "unat (sz + 4095) = unat sz + 4095" using unat_plus_small [of sz 4095] assms by simp
  have "(sz + 4095) AND NOT (mask 12) = push_bit 12 (drop_bit 12 (sz + 4095))"
    by (rule bit_eqI) (auto simp: bit_simps)
  moreover have "unat (push_bit 12 (drop_bit 12 (sz + 4095))) = (unat sz + 4095) div 4096 * 4096"
  proof -
    have "unat (drop_bit 12 (sz + 4095)) = (unat sz + 4095) div 4096"
      by (simp add: drop_bit_eq_div unat_div u)
    moreover have "(unat sz + 4095) div 4096 * 4096 < 2 ^ 64"
      using assms div_times_less_eq_dividend [of "unat sz + 4095" 4096] by linarith
    ultimately show ?thesis by (simp add: push_bit_eq_mult unat_word_ariths)
  qed
  moreover have "ROUND_UP sz 4096 = (sz + 4095) AND NOT (mask 12)"
    by (simp add: ROUND_UP_def mask_eq_exp_minus_1 add.commute)
  ultimately show ?thesis by argo
qed

lemma size_to_page_order_bound:
  assumes "unat sz + 4095 < 2 ^ 64" "0 < sz" "size_to_page_order sz = Inr k"
  shows "unat sz \<le> 2 ^ k * 4096"
proof -
  define n where "n = (unat sz + 4095) div 4096"
  have n: "unat (ROUND_UP sz BUDDY_PAGE_SIZE div BUDDY_PAGE_SIZE) = n"
    using round_up_nat [OF assms(1)] by (simp add: BUDDY_PAGE_SIZE_def unat_div n_def)
  have "0 < unat sz" using assms(2) by (simp add: word_less_nat_alt)
  then have n1: "1 \<le> n" "unat sz \<le> n * 4096" by (simp_all add: n_def)
  define j where "j = shift_loop (int n) 0"
  have "uint (ROUND_UP sz BUDDY_PAGE_SIZE div BUDDY_PAGE_SIZE) = int n" using n by (metis uint_nat)
  then have "j < 31" "k = (if n > 2 ^ j then j + 1 else j)"
    using assms(3) n unat_power_small [of j]
    by (auto simp: size_to_page_order_def Let_def shl_int_def j_def [symmetric] word_less_nat_alt split: if_splits)
  with loop_least_order(1) [OF n1(1), folded j_def] have "n \<le> 2 ^ k" by (simp add: least_order_def)
  with n1(2) show ?thesis by (meson le_trans mult_le_mono1)
qed

lemma block_size_bound:
  assumes "unat sz + 4095 < 2 ^ 64" "block_size sz = Inr n"
  shows "unat sz \<le> n"
proof (cases "sz \<le> 2048")
  case True
  obtain k where "slab_order_of sz = Inr k" "unat sz \<le> 2 ^ k" by (rule slab_order_of_spec [OF True])
  then show ?thesis using True assms(2) by (simp add: block_size_def)
next
  case False
  then have "0 < sz" by (simp add: word_less_nat_alt word_le_nat_alt)
  then show ?thesis
    using False assms size_to_page_order_bound [OF assms(1)]
    by (auto simp: block_size_def word_le_nat_alt outcome_simps split: if_splits)
qed

section \<open>Initialisation\<close>

lemma label_pages_coalesced [simp]: "coalesced (label_pages b n s p) = coalesced p"
  by (simp add: coalesced_def coalesced_except_def buddies_def free_heads_def)

text \<open>Every slab takes one aligned run of 512 pages and leaves the others.\<close>

lemma free_runs_after:
  assumes post: "alloc_post 9 b p p'"
  shows "{c. free_run p c 9} - {b} \<subseteq> {c. free_run p' c 9}"
proof (rule subsetI)
  fix c assume c: "c \<in> {c. free_run p c 9} - {b}"
  have fr: "frame_except {} p p'" and ch: "is_chunk p' b 9 True"
    and free: "free_pages_of p' = free_pages_of p - {b..<b + 2 ^ 9}" using post by (simp_all add: alloc_post_def)
  have "{c..<c + 2 ^ 9} \<inter> {b..<b + 2 ^ 9} = {}"
  proof (rule ccontr)
    assume "{c..<c + 2 ^ 9} \<inter> {b..<b + 2 ^ 9} \<noteq> {}"
    then obtain x where x: "x \<in> {c..<c + 2 ^ 9}" "x \<in> {b..<b + 2 ^ 9}" by blast
    have "base_frame p + c = base_frame p + b"
      by (rule aligned_unique [of 9 _ _ "base_frame p + x"])
        (use c x ch frame_addr(2) [OF fr] in \<open>auto simp: free_run_def is_chunk_def\<close>)
    then show False using c by simp
  qed
  moreover have r: "2 ^ 9 dvd base_frame p + c" "{c..<c + 2 ^ 9} \<subseteq> free_pages_of p" using c by (simp_all add: free_run_def)
  ultimately have "{c..<c + 2 ^ 9} \<subseteq> free_pages_of p'" unfolding free by blast
  then show "c \<in> {c. free_run p' c 9}" using r(1) frame_addr(2) [OF fr] by (simp add: free_run_def)
qed

lemma finite_free_runs: "finite {c. free_run p c k}"
  by (rule finite_subset [of _ "{..<npages p}"]) (auto simp: free_run_def free_pages_of_def subset_iff)

lemma init_slab_cache_runs:
  assumes rep: "mm_rep R m" and ord: "slab_order ord" "R ord = []" and co: "coalesced (pool m)"
    and n: "Suc n \<le> card {c. free_run (pool m) c 9}"
  obtains s m' where "init_slab_cache ord SLAB_INIT_SIZE m = Inr (s, m')" "coalesced (pool m')"
    "n \<le> card {c. free_run (pool m') c 9}" "mm_rep (R(ord := [(s, full_list ord s)])) (m'\<lparr>slabs := (slabs m')(ord := s)\<rparr>)"
    "rep_blocks (R(ord := [(s, full_list ord s)])) (m'\<lparr>slabs := (slabs m')(ord := s)\<rparr>) = rep_blocks R m"
    "pool_start_addr (pool m') = pool_start_addr (pool m)"
proof -
  have p: "pool_rep R (pool m)" using rep by (simp add: mm_rep_def)
  have "{c. free_run (pool m) c 9} \<noteq> {}" using n by (metis card.empty Suc_n_not_le_n le_zero_eq old.nat.distinct(2))
  then have free: "has_free_from (pool m) 9"
    using has_free_from_iff [OF pool_repD(1) [OF p] co, of 9] by (auto simp: BUDDY_MAX_ORDER_def)
  obtain s m' where s: "init_slab_cache ord SLAB_INIT_SIZE m = Inr (s, m')" "slabs m' = slabs m" "mem m' (s + 8) = 0"
    "extended R m (R(ord := (s, full_list ord s) # R ord)) (front ord s m')"
    "\<exists>b p'. buddy_get_pages 9 (pool m) = Inr (Some b, p') \<and> alloc_post 9 b (pool m) p' \<and> pool m' = label_pages b 512 s p'"
    by (rule init_slab_cache_spec [OF rep ord(1) free])
  obtain b p' where g: "buddy_get_pages 9 (pool m) = Inr (Some b, p')" and b: "alloc_post 9 b (pool m) p'"
    and pm: "pool m' = label_pages b 512 s p'" using s(5) by blast
  have "chain_rep ord [] (slabs m ord) (mem m)" using rep ord unfolding mm_rep_def by metis
  then have z: "slabs m ord = 0" by simp
  have fr: "front ord s m' = m'\<lparr>slabs := (slabs m')(ord := s)\<rparr>"
    using s(2,3) z by (simp add: front_def fun_upd_idem)
  have "card {c. free_run (pool m) c 9} - 1 \<le> card {c. free_run p' c 9}"
    using card_mono [OF finite_free_runs free_runs_after [OF b]] by (simp add: card_Diff_singleton_if split: if_splits)
  moreover have "free_run (pool m') c 9 = free_run p' c 9" for c by (simp add: free_run_def pm)
  ultimately have "n \<le> card {c. free_run (pool m') c 9}" using n by simp
  moreover have "coalesced (pool m')" using buddy_get_pages_coalesced [OF pool_repD(1) [OF p] co g] pm by simp
  moreover have "pool_start_addr (pool m') = pool_start_addr (pool m)" using b by (simp add: pm alloc_post_def frame_except_def)
  ultimately show thesis using s(1,4) fr ord(2) by (intro that [of s m']) (simp_all add: extended_def)
qed

lemma init_slab_loop_spec:
  assumes "mm_rep R m" "coalesced (pool m)" "length ords \<le> card {c. free_run (pool m) c 9}" "distinct ords"
    "\<forall>ord \<in> set ords. slab_order ord \<and> R ord = []"
  shows "\<exists>R' m'. init_slab_loop ords m = Inr m' \<and> mm_rep R' m' \<and> rep_blocks R' m' = rep_blocks R m \<and>
    (\<forall>ord. R ord \<noteq> [] \<or> ord \<in> set ords \<longrightarrow> R' ord \<noteq> []) \<and> coalesced (pool m') \<and>
    card {c. free_run (pool m) c 9} \<le> length ords + card {c. free_run (pool m') c 9} \<and>
    (\<forall>ord \<in> set ords. \<exists>s. R' ord = [(s, full_list ord s)]) \<and> (\<forall>ord. ord \<notin> set ords \<longrightarrow> R' ord = R ord) \<and>
    pool_start_addr (pool m') = pool_start_addr (pool m)"
  using assms
proof (induction ords arbitrary: R m)
  case Nil
  then show ?case by auto
next
  case (Cons ord ords)
  define n where "n = card {c. free_run (pool m) c 9} - 1"
  have n: "Suc n \<le> card {c. free_run (pool m) c 9}" "length ords \<le> n" using Cons.prems(3) by (simp_all add: n_def)
  have o: "slab_order ord" "R ord = []" using Cons.prems(5) by simp_all
  obtain s m1 where s: "init_slab_cache ord SLAB_INIT_SIZE m = Inr (s, m1)" "coalesced (pool m1)"
    "n \<le> card {c. free_run (pool m1) c 9}"
    "mm_rep (R(ord := [(s, full_list ord s)])) (m1\<lparr>slabs := (slabs m1)(ord := s)\<rparr>)"
    "rep_blocks (R(ord := [(s, full_list ord s)])) (m1\<lparr>slabs := (slabs m1)(ord := s)\<rparr>) = rep_blocks R m"
    "pool_start_addr (pool m1) = pool_start_addr (pool m)"
    by (rule init_slab_cache_runs [OF Cons.prems(1) o Cons.prems(2) n(1)])
  let ?R = "R(ord := [(s, full_list ord s)])" and ?m = "m1\<lparr>slabs := (slabs m1)(ord := s)\<rparr>"
  have "\<exists>R' m'. init_slab_loop ords ?m = Inr m' \<and> mm_rep R' m' \<and> rep_blocks R' m' = rep_blocks ?R ?m \<and>
    (\<forall>o2. ?R o2 \<noteq> [] \<or> o2 \<in> set ords \<longrightarrow> R' o2 \<noteq> []) \<and> coalesced (pool m') \<and>
    card {c. free_run (pool ?m) c 9} \<le> length ords + card {c. free_run (pool m') c 9} \<and>
    (\<forall>ord \<in> set ords. \<exists>s. R' ord = [(s, full_list ord s)]) \<and> (\<forall>ord. ord \<notin> set ords \<longrightarrow> R' ord = ?R ord) \<and>
    pool_start_addr (pool m') = pool_start_addr (pool ?m)"
    by (rule Cons.IH [OF s(4)]) (use Cons.prems(4,5) s(2,3) n in auto)
  then obtain R' m' where r: "init_slab_loop ords ?m = Inr m'" "mm_rep R' m'" "rep_blocks R' m' = rep_blocks ?R ?m"
    "\<forall>o2. ?R o2 \<noteq> [] \<or> o2 \<in> set ords \<longrightarrow> R' o2 \<noteq> []" "coalesced (pool m')"
    "card {c. free_run (pool m1) c 9} \<le> length ords + card {c. free_run (pool m') c 9}"
    "\<forall>ord \<in> set ords. \<exists>s. R' ord = [(s, full_list ord s)]" "\<forall>ord. ord \<notin> set ords \<longrightarrow> R' ord = ?R ord"
    "pool_start_addr (pool m') = pool_start_addr (pool m1)"
    by auto
  have "init_slab_loop (ord # ords) m = Inr m'" using s(1) r(1) by simp
  moreover have "R' o2 \<noteq> []" if "R o2 \<noteq> [] \<or> o2 \<in> set (ord # ords)" for o2
    using r(4) [rule_format, of o2] that by (cases "o2 = ord") simp_all
  moreover have "\<exists>s. R' o2 = [(s, full_list o2 s)]" if "o2 \<in> set (ord # ords)" for o2
    using that r(7) [rule_format, of o2] r(8) [rule_format, of o2] Cons.prems(4) by (cases "o2 = ord") auto
  moreover have "R' o2 = R o2" if "o2 \<notin> set (ord # ords)" for o2 using r(8) [rule_format, of o2] that by simp
  moreover have "card {c. free_run (pool m) c 9} \<le> length (ord # ords) + card {c. free_run (pool m') c 9}"
    using r(6) s(3) by (simp add: n_def)
  ultimately show ?case using r(2,3,5,9) s(5,6) by (intro exI [of _ R'] exI [of _ m'] conjI) auto
qed

lemma empty_rep:
  assumes "coalesced_pool n p" "live_chunks p = {}" "0 < pool_start_addr p" "\<And>j. slab (page_metadata p j) = 0"
  shows "mm_rep (\<lambda>_. []) \<lparr>pool = p, slabs = \<lambda>_. 0, mem = contents\<rparr>"
    "rep_blocks (\<lambda>_. []) \<lparr>pool = p, slabs = \<lambda>_. 0, mem = contents\<rparr> = {}"
  using assms pool_okD(1) [of n p]
  by (auto simp: mm_rep_def pool_rep_def slabs_in_def rep_blocks_def slot_blocks_def page_blocks_live coalesced_pool_def)

lemma initial_runs:
  assumes "free_pages_of p = {..<n}" "4608 \<le> n"
  shows "8 \<le> card {c. free_run p c 9}"
proof -
  obtain c0 where c0: "c0 < 512" "512 dvd base_frame p + c0"
  proof (cases "base_frame p mod 512 = 0")
    case True
    then show thesis by (intro that [of 0]) auto
  next
    case False
    have "base_frame p + (512 - base_frame p mod 512) = 512 * (base_frame p div 512) + 512"
      using mult_div_mod_eq [of 512 "base_frame p"] mod_less_divisor [of 512 "base_frame p"] by linarith
    then have "512 dvd base_frame p + (512 - base_frame p mod 512)" by simp
    then show thesis using False by (intro that [of "512 - base_frame p mod 512"]) simp_all
  qed
  have "free_run p (c0 + 512 * i) 9" if "i < 8" for i
  proof -
    have "c0 + 512 * i + 512 \<le> n" using c0(1) that assms(2) by linarith
    then have "{c0 + 512 * i..<c0 + 512 * i + 2 ^ 9} \<subseteq> free_pages_of p" unfolding assms(1) by (intro subsetI) simp
    moreover have "2 ^ 9 dvd base_frame p + (c0 + 512 * i)"
      using dvd_add [OF c0(2), of "512 * i"] by (simp add: add.assoc)
    ultimately show ?thesis by (simp add: free_run_def)
  qed
  then have "(\<lambda>i. c0 + 512 * i) ` {..<8} \<subseteq> {c. free_run p c 9}" by auto
  moreover have "card ((\<lambda>i. c0 + 512 * i) ` {..<8}) = 8" by (subst card_image) (auto simp: inj_on_def)
  ultimately show ?thesis using card_mono [OF finite_free_runs] by metis
qed

text \<open>The memory map of the board leaves room for the seven slabs.\<close>

lemma boot_geometry:
  assumes "unat img_end \<le> 0x3b000000"
  defines "fs \<equiv> phys_to_virt (ROUND_UP img_end PAGE_SIZE)" and "fe \<equiv> phys_to_virt (USABLE_MEM_END - RESERVED_FOR_GPU)"
  defines "n \<equiv> pool_page_num fs fe"
  shows "4096 dvd unat (pool_start fs n)" "unat (pool_start fs n) + unat n * 4096 < 2 ^ 64" "4608 \<le> unat n"
    "0 < pool_start fs n" "unat (pool_start fs n) + unat n * 4096 \<le> unat fe"
    "KBASE \<le> pool_start fs n"
proof -
  define r where "r = (unat img_end + 4095) div 4096 * 4096"
  have r: "r \<le> 0x3b000000" "unat (ROUND_UP img_end PAGE_SIZE) = r"
    using round_up_nat [of img_end] assms(1) by (simp_all add: r_def PAGE_SIZE_def)
  have k: "unat KBASE = 0xFFFFFF0000000000" by (simp add: KBASE_def)
  have ufs: "unat fs = r + 0xFFFFFF0000000000"
    using r by (simp add: fs_def phys_to_virt_def unat_word_ariths k)
  have ufe: "unat fe = 0x3d000000 + 0xFFFFFF0000000000"
    by (simp add: fe_def phys_to_virt_def KBASE_def USABLE_MEM_END_def RESERVED_FOR_GPU_def)
  have "unat (fe - fs) = 0x3d000000 - r" using ufs ufe r(1) by (simp add: unat_sub word_le_nat_alt)
  then have un: "unat n = (0x3d000000 - r) div 4136"
    by (simp add: n_def pool_page_num_def PAGE_SIZE_def SIZEOF_PAGE_def unat_div)
  show n: "4608 \<le> unat n" using r(1) by (simp add: un less_eq_div_iff_mult_less_eq)
  have n2: "unat n * 4136 \<le> 0x3d000000 - r" unfolding un by (rule div_times_less_eq_dividend)
  have "unat (n * 40) = unat n * 40" using n2 by (simp add: unat_word_ariths)
  then have us: "unat (fs + n * SIZEOF_PAGE) = r + 0xFFFFFF0000000000 + unat n * 40"
    using ufs n2 r(1) by (simp add: SIZEOF_PAGE_def unat_word_ariths)
  have ps: "unat (pool_start fs n) = (r + 0xFFFFFF0000000000 + unat n * 40 + 4095) div 4096 * 4096"
    using round_up_nat [of "fs + n * SIZEOF_PAGE"] us n2 r(1) by (simp add: pool_start_def PAGE_SIZE_def)
  then show "4096 dvd unat (pool_start fs n)" by simp
  have le: "unat (pool_start fs n) \<le> r + 0xFFFFFF0000000000 + unat n * 40 + 4095"
    unfolding ps by (rule div_times_less_eq_dividend)
  then show "unat (pool_start fs n) + unat n * 4096 < 2 ^ 64" using n2 r(1) by simp
  have "r + 0xFFFFFF0000000000 + unat n * 40 + 4095 < unat (pool_start fs n) + 4096"
    unfolding ps using mod_less_divisor [of 4096 "r + 0xFFFFFF0000000000 + unat n * 40 + 4095"]
      div_mult_mod_eq [of "r + 0xFFFFFF0000000000 + unat n * 40 + 4095" 4096] by linarith
  then show "0 < pool_start fs n" "KBASE \<le> pool_start fs n"
    by (simp_all add: word_less_nat_alt word_le_nat_alt k)
  have "(r + 0xFFFFFF0000000000 + unat n * 40 + 4095) div 4096 + unat n =
      (r + 0xFFFFFF0000000000 + unat n * 40 + 4095 + unat n * 4096) div 4096" by simp
  also have "\<dots> \<le> (0x3d000000 + 0xFFFFFF0000000000 + 4095) div 4096" by (rule div_le_mono) (use n2 r(1) in linarith)
  finally have "((r + 0xFFFFFF0000000000 + unat n * 40 + 4095) div 4096 + unat n) * 4096 \<le> unat fe" unfolding ufe by simp
  then show "unat (pool_start fs n) + unat n * 4096 \<le> unat fe" unfolding ps by (simp add: add_mult_distrib)
qed

lemma mm_boot:
  assumes img: "unat img_end \<le> 0x3b000000"
  obtains m where "mm_init img_end 0 contents = Inr m" "mm_ok m" "live_blocks m = {}" "has_free_from (pool m) 9"
    "KBASE \<le> pool_start_addr (pool m)" "\<forall>ord. slab_order ord \<longrightarrow> has_slots 1000 ord m"
proof -
  define fs where "fs = phys_to_virt (ROUND_UP img_end PAGE_SIZE)"
  define n where "n = pool_page_num fs (phys_to_virt (USABLE_MEM_END - RESERVED_FOR_GPU))"
  note G = boot_geometry [OF img, folded fs_def, folded n_def]
  obtain p where p: "init_buddy (pool_start fs n) n 0 = Inr p" "coalesced_pool n p" "live_chunks p = {}"
    "free_pages_of p = {..<unat n}" "pool_start_addr p = pool_start fs n" "\<forall>j. slab (page_metadata p j) = 0"
    by (rule init_coalesced_pool [OF G(1,2)])
  let ?m = "\<lparr>pool = p, slabs = \<lambda>_. 0, mem = contents\<rparr>"
  note E = empty_rep [OF p(2,3) _ p(6) [rule_format], of contents]
  have runs: "8 \<le> card {c. free_run p c 9}" by (rule initial_runs [OF p(4) G(3)])
  have co: "coalesced p" using p(2) by (simp add: coalesced_pool_def)
  have ords: "[SLAB_MIN_ORDER..<Suc SLAB_MAX_ORDER] = [5, 6, 7, 8, 9, 10, 11]"
    by (simp add: SLAB_MIN_ORDER_def SLAB_MAX_ORDER_def upt_rec)
  obtain R m where m: "init_slab_loop [5, 6, 7, 8, 9, 10, 11] ?m = Inr m" "mm_rep R m"
    "rep_blocks R m = {}" "\<forall>ord. ord \<in> set [5, 6, 7, 8, 9, 10, 11] \<longrightarrow> R ord \<noteq> []" "coalesced (pool m)"
    "card {c. free_run p c 9} \<le> 7 + card {c. free_run (pool m) c 9}" "pool_start_addr (pool m) = pool_start_addr p"
    "\<forall>ord. ord \<in> set [5, 6, 7, 8, 9, 10, 11] \<longrightarrow> (\<exists>s. R ord = [(s, full_list ord s)])"
    using init_slab_loop_spec [of "\<lambda>_. []" ?m "[5, 6, 7, 8, 9, 10, 11]"] E G(4) p(5) runs co by auto
  have rd: "ready R" using m(4) slab_orders by (auto simp: ready_def)
  have "has_slots 1000 ord m" if ord: "slab_order ord" for ord
  proof -
    have "ord \<in> set [5, 6, 7, 8, 9, 10, 11]" using ord slab_orders by auto
    then obtain s where "R ord = [(s, full_list ord s)]" using m(8) by blast
    then have "spare R ord = nslots ord - 1" by (simp add: spare_def full_list_def)
    moreover have "1001 \<le> nslots ord" using slab_orders [of ord] ord by (auto simp: nslots_def)
    ultimately show ?thesis using m(2) rd by (auto simp: has_slots_def)
  qed
  moreover have "{c. free_run (pool m) c 9} \<noteq> {}"
  proof
    assume "{c. free_run (pool m) c 9} = {}"
    then show False using m(6) runs unfolding \<open>{c. free_run (pool m) c 9} = {}\<close> by simp
  qed
  then have "has_free_from (pool m) 9"
    using has_free_from_iff [OF _ m(5), of 9] m(2) pool_repD(1) by (auto simp: mm_rep_def BUDDY_MAX_ORDER_def)
  moreover have "init_slab ?m = Inr m" unfolding init_slab_def ords by (rule m(1))
  then have "mm_init img_end 0 contents = Inr m"
    using p(1) by (simp add: mm_init_def parse_mem_map_def Let_def fs_def n_def)
  ultimately show thesis using m(2,3,7) live_blocks_rep [OF m(2)] mm_okI rd p(5) G(6) by (intro that [of m]) simp_all
qed

lemma kmalloc_small_total:
  assumes "mm_ok m" "sz \<le> 2048" "has_free_from (pool m) 9"
  shows "\<exists>a m'. kmalloc sz m = Inr (a, m') \<and> a \<noteq> 0"
proof -
  obtain R where R: "mm_rep R m" "ready R" by (rule mm_okE [OF assms(1)])
  obtain k where k: "slab_order_of sz = Inr k" "slab_order k" by (rule slab_order_of_spec [OF assms(2)])
  have "\<exists>x m'. alloc_from_slab (slabs m k) k m = Inr (x, m') \<and> x \<noteq> 0"
    using alloc_from_slab_spec [OF R k(2)] assms(3) by auto
  then show ?thesis
    using assms(2) k(1) by (simp add: kmalloc_def alloc_in_slab_eq order_to_size_def SLAB_MAX_ORDER_def)
qed

section \<open>Properties of kernel memory allocation\<close>



text \<open>C22: A successful \<^verbatim>\<open>kmalloc\<close> returns a block that holds the requested size (for sizes
  whose rounding does not wrap around) and overlaps no live block. It becomes the only new live
  block, and the contents of all live blocks stay as they were.\<close>

theorem kmalloc_fresh:
  assumes "mm_ok m" "kmalloc sz m = Inr (a, m')" "a \<noteq> 0" "unat sz + 4095 < 2 ^ 64"
  shows "mm_ok m' \<and> (\<exists>n. unat sz \<le> n \<and> live_blocks m' = insert (unat a, n) (live_blocks m) \<and>
      (\<forall>c \<in> live_blocks m. block_bytes c \<inter> block_bytes (unat a, n) = {})) \<and>
    (\<forall>c \<in> live_blocks m. \<forall>x. unat x \<in> block_bytes c \<longrightarrow> mem m' x = mem m x)"
proof -
  obtain n where n: "mm_ok m'" "block_size sz = Inr n" "(unat a, n) \<notin> live_blocks m"
    "live_blocks m' = insert (unat a, n) (live_blocks m)"
    "\<forall>c \<in> live_blocks m. \<forall>x. unat x \<in> block_bytes c \<longrightarrow> mem m' x = mem m x"
    using kmalloc_step [OF assms(1,2)] assms(3) by auto
  have "block_bytes c \<inter> block_bytes (unat a, n) = {}" if "c \<in> live_blocks m" for c
    by (rule live_blocks_disjoint [OF n(1)]) (use n(3,4) that in auto)
  with n block_size_bound [OF assms(4) n(2)] show ?thesis by blast
qed

theorem kmalloc_fresh_witness:
  "\<exists>m a m'. mm_init 0x200000 0 (\<lambda>_. 0) = Inr m \<and> kmalloc 100 m = Inr (a, m') \<and> mm_ok m' \<and>
    (\<exists>n. 100 \<le> n \<and> live_blocks m' = {(unat a, n)})"
proof -
  obtain m where m: "mm_init 0x200000 0 (\<lambda>_. 0) = Inr m" "mm_ok m" "live_blocks m = {}" "has_free_from (pool m) 9"
    by (rule mm_boot [of "0x200000" "\<lambda>_. 0"]) simp
  obtain a m' where a: "kmalloc 100 m = Inr (a, m')" "a \<noteq> 0" using kmalloc_small_total [OF m(2) _ m(4), of 100] by auto
  with kmalloc_fresh [OF m(2) a] m show ?thesis by auto
qed

text \<open>C23: \<^verbatim>\<open>kfree\<close> of any live block succeeds, whether it came from a slab or from the page
  allocator: it removes exactly that block and keeps the contents of the others.\<close>

theorem kfree_releases:
  assumes "mm_ok m" "(unat a, n) \<in> live_blocks m"
  shows "\<exists>m'. kfree a m = Inr m' \<and> mm_ok m' \<and> live_blocks m' = live_blocks m - {(unat a, n)} \<and>
    (\<forall>d \<in> live_blocks m - {(unat a, n)}. \<forall>x. unat x \<in> block_bytes d \<longrightarrow> mem m' x = mem m x)"
  using kfree_step [OF assms] by simp

theorem kfree_releases_witness:
  "\<exists>m a m' m''. mm_init 0x200000 0 (\<lambda>_. 0) = Inr m \<and> kmalloc 100 m = Inr (a, m') \<and> kfree a m' = Inr m'' \<and>
    mm_ok m'' \<and> live_blocks m'' = {}"
proof -
  obtain m where m: "mm_init 0x200000 0 (\<lambda>_. 0) = Inr m" "mm_ok m" "live_blocks m = {}" "has_free_from (pool m) 9"
    by (rule mm_boot [of "0x200000" "\<lambda>_. 0"]) simp
  obtain a m' where a: "kmalloc 100 m = Inr (a, m')" "a \<noteq> 0" using kmalloc_small_total [OF m(2) _ m(4), of 100] by auto
  then obtain n where n: "mm_ok m'" "live_blocks m' = {(unat a, n)}" using kmalloc_step [OF m(2) a(1)] m(3) by auto
  with kfree_releases [of m' a n] m(1) a(1) show ?thesis by auto
qed





text \<open>C36: \<^verbatim>\<open>size_to_page_order\<close> rounds the size up in 64 bits. For the last 4095 sizes the
  sum wraps around, so \<^verbatim>\<open>kmalloc\<close> hands out a single page for a request of almost
  \<open>2 ^ 64\<close> bytes.\<close>

theorem kmalloc_huge_size_wraps:
  assumes "2 ^ 64 \<le> unat sz + 4095"
  shows "kmalloc sz m = get_pages 0 m"
proof -
  have lt: "unat sz < 2 ^ 64" by (rule order.strict_trans2 [OF unsigned_less]) simp
  have "unat (sz + 4095) = (unat sz + 4095) mod 2 ^ 64" by (simp add: unat_word_ariths)
  also have "\<dots> = unat sz + 4095 - 2 ^ 64" using assms lt by (simp add: le_mod_geq)
  finally have u: "unat (sz + 4095) < 4096" using lt by simp
  have "(sz + 4095) AND NOT (mask 12) = push_bit 12 (drop_bit 12 (sz + 4095))"
    by (rule bit_eqI) (auto simp: bit_simps)
  also have "drop_bit 12 (sz + 4095) = 0"
    using u by (simp add: drop_bit_eq_div word_unat_eq_iff unat_div)
  finally have r: "ROUND_UP sz BUDDY_PAGE_SIZE = 0"
    by (simp add: ROUND_UP_def BUDDY_PAGE_SIZE_def mask_eq_exp_minus_1 add.commute)
  have "shift_loop 0 0 = 0" by (subst shift_loop.simps) simp
  then have "size_to_page_order sz = Inr 0" by (simp add: size_to_page_order_def r shl_int_def)
  moreover have "\<not> sz \<le> 2048" "\<not> sz \<le> 4096" using assms by (simp_all add: word_le_nat_alt)
  ultimately show ?thesis
    by (simp add: kmalloc_def order_to_size_def SLAB_MAX_ORDER_def BUDDY_PAGE_SIZE_def)
qed

theorem kmalloc_huge_size_wraps_witness:
  "\<forall>m. kmalloc (- 1) m = get_pages 0 m \<and> (2 :: nat) ^ 64 - 1 = unat (- 1 :: u64)"
proof -
  have "unat (- 1 :: u64) = 2 ^ 64 - 1" by (simp add: unsigned_minus_1_eq_mask mask_eq_exp_minus_1)
  then show ?thesis using kmalloc_huge_size_wraps [of "- 1"] by simp
qed

end
