(* ===== verification/Node_Tree.thy ===== *)
theory Node_Tree
  imports Kmalloc_Spec
begin

text \<open>Trees of fixed-size nodes in kernel memory: the radix tree and the page table have the same
  shape, a root node, an index per level computed from the key, and entries that lead to child
  nodes. The locale takes the node size, the index function, the reading of an entry as a child, and
  the level of the leaves; its lemmas say what linking a new node and writing a leaf entry do to the
  mapping from keys to leaf entries, and that the nodes of other structures stay untouched.\<close>

section \<open>Addresses of live blocks\<close>

lemma live_block_pos: "mm_ok m \<Longrightarrow> (a, n) \<in> live_blocks m \<Longrightarrow> 0 < n"
proof -
  assume "mm_ok m" and an: "(a, n) \<in> live_blocks m"
  then obtain R where "live_blocks m = rep_blocks R m" by (elim mm_okE)
  then show "0 < n" using an by (auto simp: rep_blocks_def slot_blocks_def page_blocks_def)
qed

text \<open>The address of a fresh block is not the address of any live block.\<close>

lemma fresh_address:
  assumes "mm_ok m" "mm_ok m'" "(a, n) \<notin> live_blocks m" "live_blocks m' = insert (a, n) (live_blocks m)" "c \<in> live_blocks m"
  shows "fst c \<noteq> a"
proof
  assume "fst c = a"
  have "0 < snd c" "0 < n" using live_block_pos [OF assms(1), of "fst c" "snd c"] live_block_pos [OF assms(2), of a n] assms(4,5) by auto
  then have "a \<in> block_bytes c" "a \<in> block_bytes (a, n)" using \<open>fst c = a\<close> by (auto simp: block_bytes_def)
  moreover have "block_bytes c \<inter> block_bytes (a, n) = {}"
    by (rule live_blocks_disjoint [OF assms(2)]) (use assms(3-5) in auto)
  ultimately show False by blast
qed

section \<open>Walks\<close>

primrec walk :: "(nat \<Rightarrow> 'k \<Rightarrow> u64) \<Rightarrow> (u64 \<Rightarrow> u64 option) \<Rightarrow> (u64 \<Rightarrow> u64) \<Rightarrow> u64 \<Rightarrow> nat \<Rightarrow> 'k \<Rightarrow> u64 option" where
  "walk idx child M root 0 k = Some root"
| "walk idx child M root (Suc l) k =
     (case walk idx child M root l k of None \<Rightarrow> None | Some p \<Rightarrow> child (M (p + 8 * idx l k)))"

text \<open>The entry a key leads to; 0 where the path ends early.\<close>

definition leaf_entry :: "(nat \<Rightarrow> 'k \<Rightarrow> u64) \<Rightarrow> (u64 \<Rightarrow> u64 option) \<Rightarrow> nat \<Rightarrow> (u64 \<Rightarrow> u64) \<Rightarrow> u64 \<Rightarrow> 'k \<Rightarrow> u64" where
  "leaf_entry idx child depth M root k =
     (case walk idx child M root depth k of None \<Rightarrow> 0 | Some p \<Rightarrow> M (p + 8 * idx depth k))"

text \<open>Two keys that take the same way through the first \<open>l\<close> levels.\<close>

definition agree :: "(nat \<Rightarrow> 'k \<Rightarrow> u64) \<Rightarrow> nat \<Rightarrow> 'k \<Rightarrow> 'k \<Rightarrow> bool" where
  "agree idx l k k' \<longleftrightarrow> (\<forall>i < l. idx i k = idx i k')"

text \<open>A well-formed tree: its nodes are live blocks, and no node is reached in two ways.\<close>

definition tree_ok :: "nat \<Rightarrow> (nat \<Rightarrow> 'k \<Rightarrow> u64) \<Rightarrow> (u64 \<Rightarrow> u64 option) \<Rightarrow> nat \<Rightarrow> mm_state \<Rightarrow> u64 \<Rightarrow> bool" where
  "tree_ok nsize idx child depth m root \<longleftrightarrow> mm_ok m \<and>
     (\<forall>l k p. l \<le> depth \<longrightarrow> walk idx child (mem m) root l k = Some p \<longrightarrow> (unat p, nsize) \<in> live_blocks m) \<and>
     (\<forall>l l' k k' p. l \<le> depth \<longrightarrow> l' \<le> depth \<longrightarrow> walk idx child (mem m) root l k = Some p \<longrightarrow>
        walk idx child (mem m) root l' k' = Some p \<longrightarrow> l = l' \<and> agree idx l k k')"

definition reach :: "(nat \<Rightarrow> 'k \<Rightarrow> u64) \<Rightarrow> (u64 \<Rightarrow> u64 option) \<Rightarrow> nat \<Rightarrow> (u64 \<Rightarrow> u64) \<Rightarrow> u64 \<Rightarrow> nat set" where
  "reach idx child depth M root = {unat p | p l k. l \<le> depth \<and> walk idx child M root l k = Some p}"

text \<open>All live blocks but those at \<open>A\<close> keep their contents.\<close>

definition keeps_outside :: "nat set \<Rightarrow> mm_state \<Rightarrow> mm_state \<Rightarrow> bool" where
  "keeps_outside A m m' \<longleftrightarrow> live_blocks m \<subseteq> live_blocks m' \<and>
     (\<forall>c \<in> live_blocks m. fst c \<notin> A \<longrightarrow> (\<forall>a. unat a \<in> block_bytes c \<longrightarrow> mem m' a = mem m a))"

lemma keeps_outside_refl: "keeps_outside A m m"
  by (simp add: keeps_outside_def)

lemma keeps_outside_trans:
  "keeps_outside A m m1 \<Longrightarrow> keeps_outside B m1 m2 \<Longrightarrow> A \<subseteq> C \<Longrightarrow> (\<forall>c \<in> live_blocks m. fst c \<in> B \<longrightarrow> fst c \<in> C) \<Longrightarrow>
   keeps_outside C m m2"
  unfolding keeps_outside_def by (metis (no_types, lifting) subset_iff)

lemma agree_sym: "agree idx l k k' \<Longrightarrow> agree idx l k' k"
  by (auto simp: agree_def)

lemma agree_trans: "agree idx l a b \<Longrightarrow> agree idx l b c \<Longrightarrow> agree idx l a c"
  by (auto simp: agree_def)

lemma agree_Suc: "agree idx (Suc l) k k' \<longleftrightarrow> agree idx l k k' \<and> idx l k = idx l k'"
  by (auto simp: agree_def less_Suc_eq)

lemma walk_agree: "agree idx l k k' \<Longrightarrow> walk idx child M root l k = walk idx child M root l k'"
  by (induction l) (auto simp: agree_Suc split: option.splits)

lemma agree_mono: "agree idx l k k' \<Longrightarrow> j \<le> l \<Longrightarrow> agree idx j k k'"
  by (auto simp: agree_def)

lemma walk_None_mono: "walk idx child M root l k = None \<Longrightarrow> l \<le> l' \<Longrightarrow> walk idx child M root l' k = None"
  by (induction l') (auto simp: le_Suc_eq)

lemma tree_okD:
  assumes "tree_ok nsize idx child depth m root"
  shows "mm_ok m"
    "l \<le> depth \<Longrightarrow> walk idx child (mem m) root l k = Some p \<Longrightarrow> (unat p, nsize) \<in> live_blocks m"
    "l \<le> depth \<Longrightarrow> l' \<le> depth \<Longrightarrow> walk idx child (mem m) root l k = Some p \<Longrightarrow>
       walk idx child (mem m) root l' k' = Some p \<Longrightarrow> l = l' \<and> agree idx l k k'"
  using assms unfolding tree_ok_def by blast+

section \<open>Linking nodes and writing entries\<close>

locale node_tree =
  fixes nsize :: nat and idx :: "nat \<Rightarrow> 'k \<Rightarrow> u64" and child :: "u64 \<Rightarrow> u64 option" and depth :: nat
  assumes idx_bound: "8 * unat (idx l k) + 8 \<le> nsize" and child_zero: "child 0 = None"
begin

lemma slot_nat:
  assumes "mm_ok m" "(unat p, nsize) \<in> live_blocks m"
  shows "unat (p + 8 * idx l k) = unat p + 8 * unat (idx l k)"
    "unat (p + 8 * idx l k) \<in> block_bytes (unat p, nsize)" "p \<noteq> 0"
proof -
  note F = live_block_fits [OF assms]
  have "8 * idx l k = of_nat (8 * unat (idx l k))" by simp
  then show u: "unat (p + 8 * idx l k) = unat p + 8 * unat (idx l k)"
    using unat_plus_small [of p "8 * unat (idx l k)"] F(2) idx_bound [of l k] by simp
  show "unat (p + 8 * idx l k) \<in> block_bytes (unat p, nsize)"
    unfolding block_bytes_def u using idx_bound [of l k] by simp
  show "p \<noteq> 0" using F(1) by auto
qed

lemma block_eq:
  assumes ok: "mm_ok m" and p: "(unat p, nsize) \<in> live_blocks m" and c: "c \<in> live_blocks m"
    and x: "unat (p + 8 * idx l k) \<in> block_bytes c"
  shows "c = (unat p, nsize)"
  using live_blocks_disjoint [OF ok c p] slot_nat(2) [OF ok p, of l k] x by blast

lemma slot_eq:
  assumes ok: "mm_ok m" and p: "(unat p, nsize) \<in> live_blocks m" and q: "(unat q, nsize) \<in> live_blocks m"
    and eq: "p + 8 * idx l k = q + 8 * idx l' k'"
  shows "p = q \<and> idx l k = idx l' k'"
proof -
  have "(unat q, nsize) = (unat p, nsize)"
    using block_eq [OF ok p q, of l k] slot_nat(2) [OF ok q, of l' k'] eq by simp
  then have "p = q" by (simp add: word_unat_eq_iff)
  moreover have "unat (idx l k) = unat (idx l' k')"
    using slot_nat(1) [OF ok p, of l k] slot_nat(1) [OF ok p, of l' k'] eq \<open>p = q\<close> by simp
  ultimately show ?thesis by (simp add: word_unat_eq_iff)
qed

text \<open>A write to one entry changes only the walks that pass through it.\<close>

lemma walk_frame:
  assumes ok: "tree_ok nsize idx child depth m root" and l: "l \<le> depth"
    and p: "walk idx child (mem m) root l k = Some p"
    and frame: "\<And>q j k'. (unat q, nsize) \<in> live_blocks m \<Longrightarrow> q + 8 * idx j k' \<noteq> p + 8 * idx l k \<Longrightarrow>
      M' (q + 8 * idx j k') = mem m (q + 8 * idx j k')"
  shows "l' \<le> depth \<Longrightarrow> \<not> (l < l' \<and> agree idx (Suc l) k k') \<Longrightarrow>
    walk idx child M' root l' k' = walk idx child (mem m) root l' k'"
proof (induction l')
  case (Suc j)
  have IH: "walk idx child M' root j k' = walk idx child (mem m) root j k'" using Suc by auto
  show ?case
  proof (cases "walk idx child (mem m) root j k'")
    case (Some q)
    have q: "(unat q, nsize) \<in> live_blocks m" using tree_okD(2) [OF ok _ Some] Suc.prems(1) by simp
    have "q + 8 * idx j k' \<noteq> p + 8 * idx l k"
    proof
      assume "q + 8 * idx j k' = p + 8 * idx l k"
      then have e: "q = p" "idx j k' = idx l k"
        using slot_eq [OF tree_okD(1) [OF ok] q tree_okD(2) [OF ok l p]] by simp_all
      then have "l = j \<and> agree idx l k k'"
        using Some Suc.prems(1) by (intro tree_okD(3) [OF ok l _ p]) simp_all
      then show False using Suc.prems(2) e(2) by (auto simp: agree_Suc)
    qed
    then show ?thesis using IH Some frame [OF q] by simp
  qed (simp add: IH)
qed simp

lemma leaf_write:
  fixes v :: u64
  assumes ok: "tree_ok nsize idx child depth m root" and p: "walk idx child (mem m) root depth k = Some p"
  defines "m' \<equiv> m\<lparr>mem := (mem m)(p + 8 * idx depth k := v)\<rparr>"
  shows "tree_ok nsize idx child depth m' root"
    "leaf_entry idx child depth (mem m') root k' =
       (if agree idx (Suc depth) k k' then v else leaf_entry idx child depth (mem m) root k')"
    "live_blocks m' = live_blocks m" "reach idx child depth (mem m') root = reach idx child depth (mem m) root"
    "keeps_outside (reach idx child depth (mem m) root) m m'" "pool m' = pool m"
    "l \<le> depth \<Longrightarrow> walk idx child (mem m') root l j = walk idx child (mem m) root l j"
proof -
  have pl: "(unat p, nsize) \<in> live_blocks m" by (rule tree_okD(2) [OF ok _ p]) simp
  note mok = tree_okD(1) [OF ok]
  have w: "walk idx child (mem m') root l j = walk idx child (mem m) root l j" if "l \<le> depth" for l j
    by (rule walk_frame [OF ok _ p _ that]) (use that in \<open>auto simp: m'_def\<close>)
  have in_p: "unat (p + 8 * idx depth k) \<in> block_bytes (unat p, nsize)" by (rule slot_nat(2) [OF mok pl])
  have "\<forall>x. (\<forall>c \<in> live_blocks m. unat x \<notin> block_bytes c) \<longrightarrow> ((mem m)(p + 8 * idx depth k := v)) x = mem m x"
    using pl in_p by auto
  note M = mm_ok_write [OF mok this, folded m'_def]
  show "tree_ok nsize idx child depth m' root"
    using ok M w unfolding tree_ok_def by simp
  show "live_blocks m' = live_blocks m" by (rule M(2))
  show "reach idx child depth (mem m') root = reach idx child depth (mem m) root"
    unfolding reach_def using w by (metis (no_types))
  show "walk idx child (mem m') root l j = walk idx child (mem m) root l j" if "l \<le> depth" by (rule w [OF that])
  show "pool m' = pool m" by (simp add: m'_def)
  have "unat p \<in> reach idx child depth (mem m) root" using p by (auto simp: reach_def)
  then have "mem m' a = mem m a" if "c \<in> live_blocks m" "fst c \<notin> reach idx child depth (mem m) root" "unat a \<in> block_bytes c" for c a
    using block_eq [OF mok pl that(1), of depth k] that by (auto simp: m'_def)
  then show "keeps_outside (reach idx child depth (mem m) root) m m'" by (auto simp: keeps_outside_def M)
  show "leaf_entry idx child depth (mem m') root k' =
       (if agree idx (Suc depth) k k' then v else leaf_entry idx child depth (mem m) root k')"
  proof (cases "walk idx child (mem m) root depth k'")
    case None
    then have "\<not> agree idx (Suc depth) k k'" using p walk_agree by (metis agree_Suc option.distinct(1))
    then show ?thesis using None w [of depth k'] by (simp add: leaf_entry_def)
  next
    case (Some q)
    have q: "(unat q, nsize) \<in> live_blocks m" by (rule tree_okD(2) [OF ok _ Some]) simp
    have "q + 8 * idx depth k' = p + 8 * idx depth k \<longleftrightarrow> agree idx (Suc depth) k k'"
    proof
      assume "q + 8 * idx depth k' = p + 8 * idx depth k"
      then have "q = p" "idx depth k' = idx depth k" using slot_eq [OF mok q pl] by simp_all
      then show "agree idx (Suc depth) k k'" using tree_okD(3) [OF ok _ _ p, of depth k'] Some by (simp add: agree_Suc)
    next
      assume "agree idx (Suc depth) k k'"
      then have "agree idx depth k k'" "idx depth k = idx depth k'" by (simp_all add: agree_Suc)
      then show "q + 8 * idx depth k' = p + 8 * idx depth k" using walk_agree p Some by (metis option.inject)
    qed
    then show ?thesis using w [of depth k'] Some by (auto simp: leaf_entry_def m'_def)
  qed
qed

text \<open>A fresh, cleared node is linked where the walk of \<open>k\<close> ended.\<close>

lemma walk_linked:
  assumes ok: "tree_ok nsize idx child depth m root" and l: "l < depth"
    and p: "walk idx child (mem m) root l k = Some p"
    and link: "child (M' (p + 8 * idx l k)) = Some n" and zero: "\<And>j k'. M' (n + 8 * idx j k') = 0"
    and frame: "\<And>q j k'. (unat q, nsize) \<in> live_blocks m \<Longrightarrow> q + 8 * idx j k' \<noteq> p + 8 * idx l k \<Longrightarrow>
      M' (q + 8 * idx j k') = mem m (q + 8 * idx j k')"
    and l': "l' \<le> depth"
  shows "walk idx child M' root l' k' =
    (if l < l' \<and> agree idx (Suc l) k k' then if l' = Suc l then Some n else None
     else walk idx child (mem m) root l' k')"
proof (cases "l < l' \<and> agree idx (Suc l) k k'")
  case True
  have "walk idx child M' root l k' = walk idx child (mem m) root l k'"
    by (rule walk_frame [OF ok _ p frame]) (use l in auto)
  also have "\<dots> = Some p" using True p walk_agree by (metis agree_Suc)
  finally have s: "walk idx child M' root (Suc l) k' = Some n" using link True by (simp add: agree_Suc)
  show ?thesis
  proof (cases "l' = Suc l")
    case False
    have "walk idx child M' root (Suc (Suc l)) k' = None" unfolding walk.simps(2) [of _ _ _ _ "Suc l"] s by (simp add: zero child_zero)
    then have "walk idx child M' root l' k' = None" by (rule walk_None_mono) (use True False in simp)
    then show ?thesis using True False by simp
  qed (use True s in simp)
next
  case False
  have "walk idx child M' root l' k' = walk idx child (mem m) root l' k'"
    by (rule walk_frame [OF ok _ p frame l' False]) (use l in simp)
  then show ?thesis using False by auto
qed

lemma link_node:
  assumes ok: "tree_ok nsize idx child depth m root" and l: "l < depth"
    and p: "walk idx child (mem m) root l k = Some p" and none: "child (mem m (p + 8 * idx l k)) = None"
    and ok': "mm_ok m'" and new: "(unat n, nsize) \<notin> live_blocks m" and live: "live_blocks m' = insert (unat n, nsize) (live_blocks m)"
    and link: "child (mem m' (p + 8 * idx l k)) = Some n" and zero': "\<forall>j k'. mem m' (n + 8 * idx j k') = 0"
    and frame': "\<forall>c a. c \<in> live_blocks m \<longrightarrow> unat a \<in> block_bytes c \<longrightarrow> a \<noteq> p + 8 * idx l k \<longrightarrow> mem m' a = mem m a"
  shows "tree_ok nsize idx child depth m' root" "walk idx child (mem m') root (Suc l) k = Some n"
    "leaf_entry idx child depth (mem m') root k' = leaf_entry idx child depth (mem m) root k'"
    "reach idx child depth (mem m') root \<subseteq> insert (unat n) (reach idx child depth (mem m) root)"
    "keeps_outside (reach idx child depth (mem m) root) m m'"
    "j \<le> depth \<Longrightarrow> walk idx child (mem m') root j k' = Some q \<Longrightarrow> q + 8 * idx j k' = p + 8 * idx l k \<or>
       mem m' (q + 8 * idx j k') = 0 \<or>
       walk idx child (mem m) root j k' = Some q \<and> mem m' (q + 8 * idx j k') = mem m (q + 8 * idx j k')"
proof -
  note mok = tree_okD(1) [OF ok] and zero = zero' [rule_format] and frame = frame' [rule_format]
  have pl: "(unat p, nsize) \<in> live_blocks m" by (rule tree_okD(2) [OF ok _ p]) (use l in simp)
  have fr: "mem m' (q + 8 * idx j k') = mem m (q + 8 * idx j k')"
    if "(unat q, nsize) \<in> live_blocks m" "q + 8 * idx j k' \<noteq> p + 8 * idx l k" for q j k'
    by (rule frame [OF that(1) slot_nat(2) [OF mok that(1)] that(2)])
  have W: "walk idx child (mem m') root l' k' =
    (if l < l' \<and> agree idx (Suc l) k k' then if l' = Suc l then Some n else None
     else walk idx child (mem m) root l' k')" if "l' \<le> depth" for l' k'
    by (rule walk_linked [OF ok l p link zero _ that]) (rule fr)
  have old: "(unat q, nsize) \<in> live_blocks m" "q \<noteq> n" if "walk idx child (mem m) root j k' = Some q" "j \<le> depth" for q j k'
    using tree_okD(2) [OF ok that(2,1)] new by auto
  have walk': "(l < j \<and> agree idx (Suc l) k k' \<and> j = Suc l \<and> q = n) \<or> (q \<noteq> n \<and> walk idx child (mem m) root j k' = Some q)"
    if "walk idx child (mem m') root j k' = Some q" "j \<le> depth" for q j k'
    using that(1) old(2) [OF _ that(2), of k'] unfolding W [OF that(2)] by (auto split: if_splits)
  show "q + 8 * idx j k' = p + 8 * idx l k \<or> mem m' (q + 8 * idx j k') = 0 \<or>
       walk idx child (mem m) root j k' = Some q \<and> mem m' (q + 8 * idx j k') = mem m (q + 8 * idx j k')"
    if "j \<le> depth" "walk idx child (mem m') root j k' = Some q"
    using walk' [OF that(2,1)] zero [of j k'] old(1) [OF _ that(1)] fr [of q j k'] by blast
  show "tree_ok nsize idx child depth m' root"
    unfolding tree_ok_def
  proof (intro conjI allI impI ok')
    show "(unat q, nsize) \<in> live_blocks m'" if "j \<le> depth" "walk idx child (mem m') root j k' = Some q" for j k' q
      using walk' [OF that(2,1)] old(1) [OF _ that(1), of k'] live by auto
    show "j = j'" "agree idx j a b" if "j \<le> depth" "j' \<le> depth" "walk idx child (mem m') root j a = Some q"
      "walk idx child (mem m') root j' b = Some q" for j j' a b q
      using walk' [OF that(3,1)] walk' [OF that(4,2)] tree_okD(3) [OF ok that(1,2), of a q b]
        agree_trans [OF agree_sym, of idx "Suc l" k a b] by auto
  qed
  show "walk idx child (mem m') root (Suc l) k = Some n" using W [of "Suc l" k] l by (simp add: agree_def)
  show "reach idx child depth (mem m') root \<subseteq> insert (unat n) (reach idx child depth (mem m) root)"
    unfolding reach_def using walk' by blast
  have "unat p \<in> reach idx child depth (mem m) root" using p l by (auto simp: reach_def intro: less_imp_le)
  then have "mem m' a = mem m a" if "c \<in> live_blocks m" "fst c \<notin> reach idx child depth (mem m) root" "unat a \<in> block_bytes c" for c a
    by (rule_tac frame [OF that(1,3)]) (use block_eq [OF mok pl that(1), of l k] that in auto)
  then show "keeps_outside (reach idx child depth (mem m) root) m m'" using live by (auto simp: keeps_outside_def)
  show "leaf_entry idx child depth (mem m') root k' = leaf_entry idx child depth (mem m) root k'"
  proof (cases "agree idx (Suc l) k k'")
    case True
    have "walk idx child (mem m) root (Suc l) k = None" using p none by simp
    then have "walk idx child (mem m) root (Suc l) k' = None" using walk_agree [OF True] by metis
    then have "walk idx child (mem m) root depth k' = None" by (rule walk_None_mono) (use l in simp)
    then show ?thesis using W [of depth k'] True l by (auto simp: leaf_entry_def zero)
  next
    case False
    then have w: "walk idx child (mem m') root depth k' = walk idx child (mem m) root depth k'" using W [of depth k'] by simp
    have "mem m' (q + 8 * idx depth k') = mem m (q + 8 * idx depth k')" if q: "walk idx child (mem m) root depth k' = Some q" for q
    proof (rule fr)
      show ql: "(unat q, nsize) \<in> live_blocks m" by (rule tree_okD(2) [OF ok _ q]) simp
      have "q \<noteq> p" using tree_okD(3) [OF ok _ _ p, of depth k'] q l by auto
      then show "q + 8 * idx depth k' \<noteq> p + 8 * idx l k" using slot_eq [OF mok ql pl] by blast
    qed
    then show ?thesis using w by (simp add: leaf_entry_def split: option.splits)
  qed
qed

text \<open>A cleared block is a tree without entries.\<close>

lemma fresh_root:
  assumes ok: "mm_ok m" and root: "(unat root, nsize) \<in> live_blocks m" and zero: "\<And>j k. mem m (root + 8 * idx j k) = 0"
  shows "tree_ok nsize idx child depth m root" "walk idx child (mem m) root l k = (if l = 0 then Some root else None)"
    "leaf_entry idx child depth (mem m) root k = 0" "reach idx child depth (mem m) root = {unat root}"
proof -
  have w: "walk idx child (mem m) root l k = (if l = 0 then Some root else None)" for l k
    by (induction l) (simp_all add: zero child_zero)
  then show "walk idx child (mem m) root l k = (if l = 0 then Some root else None)" .
  show "tree_ok nsize idx child depth m root" using ok root by (auto simp: tree_ok_def w agree_def split: if_splits)
  show "leaf_entry idx child depth (mem m) root k = 0" by (simp add: leaf_entry_def w zero)
  show "reach idx child depth (mem m) root = {unat root}" by (auto simp: reach_def w split: if_splits)
qed

text \<open>A structure whose nodes are disjoint from what changed is as before.\<close>

lemma other_tree:
  assumes ok: "tree_ok nsize idx child depth m root" and ok': "mm_ok m'" and keeps: "keeps_outside A m m'"
    and dis: "reach idx child depth (mem m) root \<inter> A = {}"
  shows "tree_ok nsize idx child depth m' root"
    "leaf_entry idx child depth (mem m') root k = leaf_entry idx child depth (mem m) root k"
    "reach idx child depth (mem m') root = reach idx child depth (mem m) root"
    "l \<le> depth \<Longrightarrow> walk idx child (mem m') root l k = walk idx child (mem m) root l k"
    "l \<le> depth \<Longrightarrow> walk idx child (mem m) root l k = Some p \<Longrightarrow> mem m' (p + 8 * idx j k') = mem m (p + 8 * idx j k')"
proof -
  have same: "mem m' (p + 8 * idx j k') = mem m (p + 8 * idx j k')" if "walk idx child (mem m) root l k = Some p" "l \<le> depth" for p l k j k'
  proof -
    have "(unat p, nsize) \<in> live_blocks m" by (rule tree_okD(2) [OF ok that(2,1)])
    moreover have "unat p \<notin> A" using that dis by (auto simp: reach_def)
    ultimately show ?thesis using keeps slot_nat(2) [OF tree_okD(1) [OF ok], of p j k'] unfolding keeps_outside_def by auto
  qed
  have w: "walk idx child (mem m') root l k = walk idx child (mem m) root l k" if "l \<le> depth" for l k
    using that
  proof (induction l)
    case (Suc l)
    then show ?case using same [of l k _ l k] by (cases "walk idx child (mem m) root l k") auto
  qed simp
  show "tree_ok nsize idx child depth m' root"
    using ok ok' keeps w unfolding tree_ok_def keeps_outside_def by (simp add: subset_iff)
  show "l \<le> depth \<Longrightarrow> walk idx child (mem m') root l k = walk idx child (mem m) root l k" by (rule w)
  show "mem m' (p + 8 * idx j k') = mem m (p + 8 * idx j k')"
    if "l \<le> depth" "walk idx child (mem m) root l k = Some p" using same [OF that(2,1)] .
  show "leaf_entry idx child depth (mem m') root k = leaf_entry idx child depth (mem m) root k"
    using w [of depth k] same [of depth k] by (simp add: leaf_entry_def split: option.splits)
  show "reach idx child depth (mem m') root = reach idx child depth (mem m) root"
    unfolding reach_def using w by (metis (no_types))
qed

end

end
