(* ===== verification/Page_Table.thy ===== *)
theory Page_Table
  imports Kmalloc
begin

text \<open>The page tables of \<^verbatim>\<open>kernel/arch/aarch64/mm/page_table.c\<close>, in kernel memory: a page
  table page is 512 words, entry \<open>i\<close> at offset \<open>8 * i\<close>. The bit fields of
  \<^verbatim>\<open>pte_t\<close> (\<^verbatim>\<open>arch/mm/page_table.h\<close>) are a position and a width.\<close>

section \<open>Page table entries\<close>

definition get_field :: "nat \<Rightarrow> nat \<Rightarrow> u64 \<Rightarrow> u64" where
  "get_field pos len w = take_bit len (drop_bit pos w)"

definition set_field :: "nat \<Rightarrow> nat \<Rightarrow> u64 \<Rightarrow> u64 \<Rightarrow> u64" where
  "set_field pos len v w = (w AND NOT (push_bit pos (mask len))) OR push_bit pos (take_bit len v)"

definition pte_is_valid :: "u64 \<Rightarrow> u64" where "pte_is_valid = get_field 0 1"
definition pte_next_table_addr :: "u64 \<Rightarrow> u64" where "pte_next_table_addr = get_field 12 36"
definition pte_l1_pfn :: "u64 \<Rightarrow> u64" where "pte_l1_pfn = get_field 30 18"
definition pte_l2_pfn :: "u64 \<Rightarrow> u64" where "pte_l2_pfn = get_field 21 27"
definition pte_l3_pfn :: "u64 \<Rightarrow> u64" where "pte_l3_pfn = get_field 12 36"

definition set_is_valid :: "u64 \<Rightarrow> u64 \<Rightarrow> u64" where "set_is_valid = set_field 0 1"
definition set_is_table :: "u64 \<Rightarrow> u64 \<Rightarrow> u64" where "set_is_table = set_field 1 1"
definition set_next_table_addr :: "u64 \<Rightarrow> u64 \<Rightarrow> u64" where "set_next_table_addr = set_field 12 36"
definition set_l1_pfn :: "u64 \<Rightarrow> u64 \<Rightarrow> u64" where "set_l1_pfn = set_field 30 18"
definition set_l2_pfn :: "u64 \<Rightarrow> u64 \<Rightarrow> u64" where "set_l2_pfn = set_field 21 27"
definition set_l3_pfn :: "u64 \<Rightarrow> u64 \<Rightarrow> u64" where "set_l3_pfn = set_field 12 36"
definition set_attr_index :: "u64 \<Rightarrow> u64 \<Rightarrow> u64" where "set_attr_index = set_field 2 3"
definition set_AP :: "u64 \<Rightarrow> u64 \<Rightarrow> u64" where "set_AP = set_field 6 2"
definition set_SH :: "u64 \<Rightarrow> u64 \<Rightarrow> u64" where "set_SH = set_field 8 2"
definition set_AF :: "u64 \<Rightarrow> u64 \<Rightarrow> u64" where "set_AF = set_field 10 1"
definition set_nG :: "u64 \<Rightarrow> u64 \<Rightarrow> u64" where "set_nG = set_field 11 1"
definition set_PXN :: "u64 \<Rightarrow> u64 \<Rightarrow> u64" where "set_PXN = set_field 53 1"
definition set_UXN :: "u64 \<Rightarrow> u64 \<Rightarrow> u64" where "set_UXN = set_field 54 1"

definition IS_PTE_INVALID :: "u64 \<Rightarrow> bool" where "IS_PTE_INVALID pte = (\<not> bit pte 0)"
definition IS_PTE_TABLE :: "u64 \<Rightarrow> bool" where "IS_PTE_TABLE pte = bit pte 1"

definition PAGE_SHIFT :: nat where "PAGE_SHIFT = 12"
definition PAGE_ORDER :: nat where "PAGE_ORDER = 9"
definition PTP_ENTRIES :: nat where "PTP_ENTRIES = 512"
definition PAGE_SIZE_2M :: u64 where "PAGE_SIZE_2M = 0x200000"
definition PAGE_SIZE_1G :: u64 where "PAGE_SIZE_1G = 0x40000000"

text \<open>\<^verbatim>\<open>Lx_INDEX_SHIFT\<close>, \<^verbatim>\<open>GET_Lx_INDEX\<close> and \<^verbatim>\<open>GET_VA_OFFSET_Lx\<close> for
  \<open>x\<close> from 0 to 3.\<close>

definition INDEX_SHIFT :: "nat \<Rightarrow> nat" where
  "INDEX_SHIFT level = (3 - level) * PAGE_ORDER + PAGE_SHIFT"

definition GET_INDEX :: "nat \<Rightarrow> vaddr \<Rightarrow> u64" where
  "GET_INDEX level va = drop_bit (INDEX_SHIFT level) va AND (push_bit PAGE_ORDER 1 - 1)"

definition GET_VA_OFFSET :: "nat \<Rightarrow> vaddr \<Rightarrow> u64" where
  "GET_VA_OFFSET level va = va AND (push_bit (INDEX_SHIFT level) 1 - 1)"

definition VMR_READ :: u64 where "VMR_READ = 1"
definition VMR_WRITE :: u64 where "VMR_WRITE = 2"
definition VMR_EXEC :: u64 where "VMR_EXEC = 4"
definition VMR_DEVICE :: u64 where "VMR_DEVICE = 8"
definition VMR_NOCACHE :: u64 where "VMR_NOCACHE = 16"

lemmas vmr_flags = VMR_READ_def VMR_WRITE_def VMR_EXEC_def VMR_DEVICE_def VMR_NOCACHE_def

text \<open>The bits that \<^verbatim>\<open>set_pte_flags\<close> writes (always through the layout
  \<^verbatim>\<open>l3_page\<close>); the kind is always \<^verbatim>\<open>USER_PTE\<close>.\<close>

definition set_pte_flags :: "u64 \<Rightarrow> u64 \<Rightarrow> u64" where
  "set_pte_flags flags e =
     (let e = set_AP (if flags AND VMR_WRITE \<noteq> 0 then 1 else 3) e;
          e = set_UXN (if flags AND VMR_EXEC \<noteq> 0 then 0 else 1) e;
          e = set_PXN 1 e;
          e = set_AF 1 e;
          e = set_nG 1 e;
          e = set_SH 3 e in
      if flags AND VMR_DEVICE \<noteq> 0 then set_SH 0 (set_attr_index 1 e)
      else if flags AND VMR_NOCACHE \<noteq> 0 then set_attr_index 2 e
      else set_attr_index 0 e)"

section \<open>Walking the levels\<close>

definition GET_NEXT_PTP :: "u64 \<Rightarrow> vaddr" where
  "GET_NEXT_PTP pte = phys_to_virt (push_bit PAGE_SHIFT (pte_next_table_addr pte))"

definition NORMAL_PTP :: int where "NORMAL_PTP = 0"
definition BLOCK_PTP :: int where "BLOCK_PTP = 1"

text \<open>\<^verbatim>\<open>get_next_ptp\<close>: the return value, the two out-parameters \<^verbatim>\<open>next_ptp\<close> and
  \<^verbatim>\<open>pte\<close> when it writes them, and the memory. The flag \<open>pte_out\<close> says whether the caller
  passed a pointer for \<^verbatim>\<open>pte\<close> or NULL. \<^verbatim>\<open>memset\<close> on a NULL page faults.\<close>

definition get_next_ptp :: "vaddr \<Rightarrow> nat \<Rightarrow> vaddr \<Rightarrow> bool \<Rightarrow> bool \<Rightarrow> mm_state
    \<Rightarrow> (int \<times> (vaddr \<times> vaddr) option \<times> mm_state) res" where
  "get_next_ptp cur_ptp level va pte_out alloc m =
     (if cur_ptp = 0 then Inr (- ENOMAPPING, None, m)
      else BUG_ON (level > 3) (
        let entry = cur_ptp + 8 * GET_INDEX level va in
        if IS_PTE_INVALID (mem m entry) \<and> \<not> alloc then Inr (- ENOMAPPING, None, m)
        else
          bindR (if IS_PTE_INVALID (mem m entry) then
                   bindR (get_pages 0 m) (\<lambda>(new_ptp, m).
                     if new_ptp = 0 then Inl BadPtr
                     else
                       let m = zero_words new_ptp PAGE_SIZE m;
                           new_ptp_paddr = virt_to_phys new_ptp;
                           e = mem m entry;
                           e = set_is_valid 1 e;
                           e = set_is_table 1 e;
                           e = set_next_table_addr (drop_bit PAGE_SHIFT new_ptp_paddr) e in
                       Inr (m\<lparr>mem := (mem m)(entry := e)\<rparr>))
                 else Inr m) (\<lambda>m.
            if \<not> pte_out then Inl BadPtr
            else Inr (if IS_PTE_TABLE (mem m entry) then NORMAL_PTP else BLOCK_PTP,
                      Some (GET_NEXT_PTP (mem m entry), entry), m))))"

section \<open>Translation\<close>

text \<open>\<^verbatim>\<open>query_in_pgtbl\<close>: the return value, what it writes to \<^verbatim>\<open>*pa\<close> (nothing for a
  block entry in the top level) and to \<^verbatim>\<open>*entry\<close>. The argument \<open>n\<close> of the loop counts
  the levels that are left.\<close>

primrec query_loop :: "nat \<Rightarrow> vaddr \<Rightarrow> nat \<Rightarrow> vaddr \<Rightarrow> bool \<Rightarrow> mm_state
    \<Rightarrow> (int \<times> paddr option \<times> vaddr option) res" where
  "query_loop 0 cur_ptp level va pte_out m = Inl Bug"
| "query_loop (Suc n) cur_ptp level va pte_out m =
     bindR (get_next_ptp cur_ptp level va pte_out False m) (\<lambda>(retval, out, m).
       case out of
         None \<Rightarrow> Inr (- ENOMAPPING, None, None)
       | Some (next_ptp, entry) \<Rightarrow>
         if level = 3 \<or> retval = BLOCK_PTP then
           Inr (0,
             (if level = 1 then
                Some (push_bit (INDEX_SHIFT 1) (pte_l1_pfn (mem m entry)) + GET_VA_OFFSET 1 va)
              else if level = 2 then
                Some (push_bit (INDEX_SHIFT 2) (pte_l2_pfn (mem m entry)) + GET_VA_OFFSET 2 va)
              else if level = 3 then
                Some (push_bit (INDEX_SHIFT 3) (pte_l3_pfn (mem m entry)) + GET_VA_OFFSET 3 va)
              else None), Some entry)
         else query_loop n next_ptp (level + 1) va pte_out m)"

definition query_in_pgtbl :: "vaddr \<Rightarrow> vaddr \<Rightarrow> bool \<Rightarrow> mm_state
    \<Rightarrow> (int \<times> paddr option \<times> vaddr option) res" where
  "query_in_pgtbl pgtbl va pte_out m = query_loop 5 pgtbl 0 va pte_out m"

section \<open>Mapping\<close>

text \<open>The inner loops \<^verbatim>\<open>while (level <= ...)\<close> of the mapping functions, over \<open>n\<close>
  levels: only the last return value is kept. \<^verbatim>\<open>next_ptp\<close> keeps its value when
  \<^verbatim>\<open>get_next_ptp\<close> does not write it.\<close>

primrec map_levels :: "nat \<Rightarrow> nat \<Rightarrow> vaddr \<Rightarrow> vaddr \<Rightarrow> vaddr \<Rightarrow> int \<Rightarrow> mm_state
    \<Rightarrow> (int \<times> vaddr \<times> mm_state) res" where
  "map_levels 0 level va cur_ptp next_ptp retval m = Inr (retval, next_ptp, m)"
| "map_levels (Suc n) level va cur_ptp next_ptp retval m =
     bindR (get_next_ptp cur_ptp level va True True m) (\<lambda>(retval, out, m).
       let next_ptp = (case out of None \<Rightarrow> next_ptp | Some (p, _) \<Rightarrow> p) in
       map_levels n (level + 1) va next_ptp next_ptp retval m)"

text \<open>The final entry: \<^verbatim>\<open>is_page\<close>/\<^verbatim>\<open>is_table\<close> and \<^verbatim>\<open>is_valid\<close>, the frame
  number, and the flags.\<close>

definition l3_entry :: "paddr \<Rightarrow> u64 \<Rightarrow> u64 \<Rightarrow> u64" where
  "l3_entry pa flags e =
     set_pte_flags flags (set_l3_pfn (drop_bit PAGE_SHIFT pa) (set_is_valid 1 (set_is_table 1 e)))"

definition l2_entry :: "paddr \<Rightarrow> u64 \<Rightarrow> u64 \<Rightarrow> u64" where
  "l2_entry pa flags e =
     set_pte_flags flags (set_l2_pfn (drop_bit (INDEX_SHIFT 2) pa) (set_is_table 0 (set_is_valid 1 e)))"

definition l1_entry :: "paddr \<Rightarrow> u64 \<Rightarrow> u64 \<Rightarrow> u64" where
  "l1_entry pa flags e =
     set_pte_flags flags (set_l1_pfn (drop_bit (INDEX_SHIFT 1) pa) (set_is_table 0 (set_is_valid 1 e)))"

definition upd_entry :: "vaddr \<Rightarrow> nat \<Rightarrow> vaddr \<Rightarrow> (u64 \<Rightarrow> u64) \<Rightarrow> mm_state \<Rightarrow> mm_state res" where
  "upd_entry ptp level va f m =
     bindR (load ptp (8 * GET_INDEX level va) m) (\<lambda>e. store ptp (8 * GET_INDEX level va) (f e) m)"

definition map_page :: "vaddr \<Rightarrow> vaddr \<Rightarrow> paddr \<Rightarrow> u64 \<Rightarrow> mm_state \<Rightarrow> mm_state res" where
  "map_page pgtbl cur_va cur_pa flags m =
     bindR (map_levels 3 0 cur_va pgtbl 0 0 m) (\<lambda>(retval, next_ptp, m).
       BUG_ON (retval \<noteq> NORMAL_PTP) (upd_entry next_ptp 3 cur_va (l3_entry cur_pa flags) m))"

text \<open>The loop over the pages; running out of fuel means that the cursor wrapped around.\<close>

primrec map_range_loop :: "nat \<Rightarrow> u64 \<Rightarrow> vaddr \<Rightarrow> vaddr \<Rightarrow> paddr \<Rightarrow> u64 \<Rightarrow> u64 \<Rightarrow> mm_state \<Rightarrow> mm_state res" where
  "map_range_loop 0 cursor pgtbl cur_va cur_pa len flags m = (if cursor < len then Inl Diverge else Inr m)"
| "map_range_loop (Suc fuel) cursor pgtbl cur_va cur_pa len flags m =
     (if cursor < len then
        bindR (map_page pgtbl cur_va cur_pa flags m) (\<lambda>m.
          map_range_loop fuel (cursor + PAGE_SIZE) pgtbl (cur_va + PAGE_SIZE) (cur_pa + PAGE_SIZE) len flags m)
      else Inr m)"

definition range_fuel :: "u64 \<Rightarrow> nat" where
  "range_fuel len = unat (len div PAGE_SIZE) + 1"

definition map_range_in_pgtbl :: "vaddr \<Rightarrow> vaddr \<Rightarrow> paddr \<Rightarrow> u64 \<Rightarrow> u64 \<Rightarrow> mm_state \<Rightarrow> (int \<times> mm_state) res" where
  "map_range_in_pgtbl pgtbl va pa len flags m =
     bindR (map_range_loop (range_fuel len) 0 pgtbl va pa len flags m) (\<lambda>m. Inr (0, m))"

section \<open>Unmapping\<close>

primrec unmap_levels :: "nat \<Rightarrow> nat \<Rightarrow> vaddr \<Rightarrow> vaddr \<Rightarrow> vaddr \<Rightarrow> mm_state \<Rightarrow> vaddr res" where
  "unmap_levels 0 level va cur_ptp next_ptp m = Inr next_ptp"
| "unmap_levels (Suc n) level va cur_ptp next_ptp m =
     bindR (get_next_ptp cur_ptp level va True False m) (\<lambda>(retval, out, m).
       BUG_ON (retval \<noteq> NORMAL_PTP) (
         case out of
           None \<Rightarrow> unmap_levels n (level + 1) va next_ptp next_ptp m
         | Some (p, _) \<Rightarrow> unmap_levels n (level + 1) va p p m))"

definition unmap_page :: "vaddr \<Rightarrow> vaddr \<Rightarrow> mm_state \<Rightarrow> mm_state res" where
  "unmap_page pgtbl cur_va m =
     bindR (unmap_levels 3 0 cur_va pgtbl 0 m) (\<lambda>next_ptp. upd_entry next_ptp 3 cur_va (set_is_valid 0) m)"

primrec unmap_range_loop :: "nat \<Rightarrow> u64 \<Rightarrow> vaddr \<Rightarrow> vaddr \<Rightarrow> u64 \<Rightarrow> mm_state \<Rightarrow> mm_state res" where
  "unmap_range_loop 0 cursor pgtbl cur_va len m = (if cursor < len then Inl Diverge else Inr m)"
| "unmap_range_loop (Suc fuel) cursor pgtbl cur_va len m =
     (if cursor < len then
        bindR (unmap_page pgtbl cur_va m) (\<lambda>m.
          unmap_range_loop fuel (cursor + PAGE_SIZE) pgtbl (cur_va + PAGE_SIZE) len m)
      else Inr m)"

definition unmap_range_in_pgtbl :: "vaddr \<Rightarrow> vaddr \<Rightarrow> u64 \<Rightarrow> mm_state \<Rightarrow> (int \<times> mm_state) res" where
  "unmap_range_in_pgtbl pgtbl va len m =
     bindR (unmap_range_loop (range_fuel len) 0 pgtbl va len m) (\<lambda>m. Inr (0, m))"

section \<open>Huge pages\<close>

lemma huge_shrinks [termination_simp]:
  "PAGE_SIZE_1G \<le> len \<Longrightarrow> unat (len - PAGE_SIZE_1G) < unat len"
  "PAGE_SIZE_2M \<le> len \<Longrightarrow> unat (len - PAGE_SIZE_2M) < unat len"
  by (simp_all add: unat_sub word_le_nat_alt PAGE_SIZE_1G_def PAGE_SIZE_2M_def)

text \<open>The loops over 1 GB and 2 MB blocks; each returns what is left of the range.\<close>

function map_1g_loop :: "vaddr \<Rightarrow> vaddr \<Rightarrow> paddr \<Rightarrow> u64 \<Rightarrow> u64 \<Rightarrow> mm_state
    \<Rightarrow> (vaddr \<times> paddr \<times> u64 \<times> mm_state) res" where
  "map_1g_loop pgtbl cur_va cur_pa len flags m =
     (if len \<ge> PAGE_SIZE_1G then
        bindR (map_levels 1 0 cur_va pgtbl 0 0 m) (\<lambda>(retval, next_ptp, m).
          BUG_ON (retval \<noteq> NORMAL_PTP) (
            bindR (upd_entry next_ptp 1 cur_va (l1_entry cur_pa flags) m) (\<lambda>m.
              map_1g_loop pgtbl (cur_va + PAGE_SIZE_1G) (cur_pa + PAGE_SIZE_1G) (len - PAGE_SIZE_1G) flags m)))
      else Inr (cur_va, cur_pa, len, m))"
  by pat_completeness auto
termination
  by (relation "measure (\<lambda>(_, _, _, len, _). unat len)") (auto simp: huge_shrinks)

function map_2m_loop :: "vaddr \<Rightarrow> vaddr \<Rightarrow> paddr \<Rightarrow> u64 \<Rightarrow> u64 \<Rightarrow> mm_state
    \<Rightarrow> (vaddr \<times> paddr \<times> u64 \<times> mm_state) res" where
  "map_2m_loop pgtbl cur_va cur_pa len flags m =
     (if len \<ge> PAGE_SIZE_2M then
        bindR (map_levels 2 0 cur_va pgtbl 0 0 m) (\<lambda>(retval, next_ptp, m).
          BUG_ON (retval \<noteq> NORMAL_PTP) (
            bindR (upd_entry next_ptp 2 cur_va (l2_entry cur_pa flags) m) (\<lambda>m.
              map_2m_loop pgtbl (cur_va + PAGE_SIZE_2M) (cur_pa + PAGE_SIZE_2M) (len - PAGE_SIZE_2M) flags m)))
      else Inr (cur_va, cur_pa, len, m))"
  by pat_completeness auto
termination
  by (relation "measure (\<lambda>(_, _, _, len, _). unat len)") (auto simp: huge_shrinks)

declare map_1g_loop.simps [simp del] map_2m_loop.simps [simp del]

definition map_range_in_pgtbl_huge :: "vaddr \<Rightarrow> vaddr \<Rightarrow> paddr \<Rightarrow> u64 \<Rightarrow> u64 \<Rightarrow> mm_state
    \<Rightarrow> (int \<times> mm_state) res" where
  "map_range_in_pgtbl_huge pgtbl va pa len flags m =
     bindR (map_1g_loop pgtbl va pa len flags m) (\<lambda>(cur_va, cur_pa, len, m).
     bindR (map_2m_loop pgtbl cur_va cur_pa len flags m) (\<lambda>(cur_va, cur_pa, len, m).
       map_range_in_pgtbl pgtbl cur_va cur_pa len flags m))"

function unmap_1g_loop :: "vaddr \<Rightarrow> vaddr \<Rightarrow> u64 \<Rightarrow> mm_state \<Rightarrow> (vaddr \<times> u64 \<times> mm_state) res" where
  "unmap_1g_loop pgtbl cur_va len m =
     (if len \<ge> PAGE_SIZE_1G then
        bindR (unmap_levels 1 0 cur_va pgtbl 0 m) (\<lambda>next_ptp.
        bindR (upd_entry next_ptp 1 cur_va (set_is_valid 0) m) (\<lambda>m.
          unmap_1g_loop pgtbl (cur_va + PAGE_SIZE_1G) (len - PAGE_SIZE_1G) m))
      else Inr (cur_va, len, m))"
  by pat_completeness auto
termination
  by (relation "measure (\<lambda>(_, _, len, _). unat len)") (auto simp: huge_shrinks)

function unmap_2m_loop :: "vaddr \<Rightarrow> vaddr \<Rightarrow> u64 \<Rightarrow> mm_state \<Rightarrow> (vaddr \<times> u64 \<times> mm_state) res" where
  "unmap_2m_loop pgtbl cur_va len m =
     (if len \<ge> PAGE_SIZE_2M then
        bindR (unmap_levels 2 0 cur_va pgtbl 0 m) (\<lambda>next_ptp.
        bindR (upd_entry next_ptp 2 cur_va (set_is_valid 0) m) (\<lambda>m.
          unmap_2m_loop pgtbl (cur_va + PAGE_SIZE_2M) (len - PAGE_SIZE_2M) m))
      else Inr (cur_va, len, m))"
  by pat_completeness auto
termination
  by (relation "measure (\<lambda>(_, _, len, _). unat len)") (auto simp: huge_shrinks)

declare unmap_1g_loop.simps [simp del] unmap_2m_loop.simps [simp del]

definition unmap_range_in_pgtbl_huge :: "vaddr \<Rightarrow> vaddr \<Rightarrow> u64 \<Rightarrow> mm_state \<Rightarrow> (int \<times> mm_state) res" where
  "unmap_range_in_pgtbl_huge pgtbl va len m =
     bindR (unmap_1g_loop pgtbl va len m) (\<lambda>(cur_va, len, m).
     bindR (unmap_2m_loop pgtbl cur_va len m) (\<lambda>(cur_va, len, m).
       unmap_range_in_pgtbl pgtbl cur_va len m))"

section \<open>Freeing\<close>

text \<open>\<^verbatim>\<open>free_page_table\<close>: three nested loops over the entries that point to tables.\<close>

definition each_table :: "(vaddr \<Rightarrow> mm_state \<Rightarrow> mm_state res) \<Rightarrow> vaddr \<Rightarrow> mm_state \<Rightarrow> mm_state res" where
  "each_table body ptp m =
     for_upto PTP_ENTRIES (\<lambda>i m.
       bindR (load ptp (8 * of_nat i) m) (\<lambda>pte.
         if IS_PTE_INVALID pte \<or> \<not> IS_PTE_TABLE pte then Inr m
         else body (GET_NEXT_PTP pte) m)) m"

definition free_page_table :: "vaddr \<Rightarrow> mm_state \<Rightarrow> mm_state res" where
  "free_page_table pgtbl m =
     (if pgtbl = 0 then Inr m
      else
        bindR (each_table (\<lambda>l1_ptp m.
          bindR (each_table (\<lambda>l2_ptp m.
            bindR (each_table (\<lambda>l3_ptp m. free_pages l3_ptp m) l2_ptp m) (\<lambda>m. free_pages l2_ptp m))
            l1_ptp m) (\<lambda>m. free_pages l1_ptp m))
          pgtbl m) (\<lambda>m. free_pages pgtbl m))"

end
