(* ===== verification/Page_Table_Correct.thy ===== *)
theory Page_Table_Correct
  imports Node_Tree Page_Table
begin

text \<open>The page tables as trees of nodes: \<^verbatim>\<open>query_in_pgtbl\<close> reads the leaf entry of an
  address, \<^verbatim>\<open>map_range_in_pgtbl\<close> changes exactly the entries of the range,
  \<^verbatim>\<open>unmap_range_in_pgtbl\<close> clears them, and other address spaces are untouched. Tables with
  4 KiB pages only: no block entries.\<close>

unbundle bit_operations_syntax

section \<open>Bit fields\<close>

lemma bit_set_field:
  "pos + len \<le> 64 \<Longrightarrow> bit (set_field pos len v w) i \<longleftrightarrow>
   (if pos \<le> i \<and> i < pos + len then bit v (i - pos) else bit w i)"
  unfolding set_field_def by (auto simp: bit_simps dest: bit_imp_le_length)

lemma get_set_field:
  assumes "pos + len \<le> 64"
  shows "get_field pos len (set_field pos len v w) = take_bit len v"
  by (rule bit_eqI) (use assms in \<open>auto simp: get_field_def bit_set_field bit_simps\<close>)

lemma get_set_field_other:
  assumes "pos + len \<le> 64" "pos' + len' \<le> 64" "pos + len \<le> pos' \<or> pos' + len' \<le> pos"
  shows "get_field pos len (set_field pos' len' v w) = get_field pos len w"
  by (rule bit_eqI) (use assms in \<open>auto simp: get_field_def bit_set_field bit_simps\<close>)

lemmas set_field_defs = set_is_valid_def set_is_table_def set_next_table_addr_def set_l1_pfn_def set_l2_pfn_def
  set_l3_pfn_def set_attr_index_def set_AP_def set_SH_def set_AF_def set_nG_def set_PXN_def set_UXN_def

lemma set_pte_flags_keeps:
  "bit (set_pte_flags flags e) 0 = bit e 0" "bit (set_pte_flags flags e) 1 = bit e 1"
  "get_field 12 36 (set_pte_flags flags e) = get_field 12 36 e"
  by (simp_all add: set_pte_flags_def Let_def set_field_defs bit_set_field get_set_field_other)

lemma l3_entry_fields:
  "bit (l3_entry pa flags e) 0" "pte_l3_pfn (l3_entry pa flags e) = take_bit 36 (drop_bit 12 pa)"
  by (simp_all add: l3_entry_def set_pte_flags_keeps pte_l3_pfn_def set_field_defs get_set_field bit_set_field
      PAGE_SHIFT_def)

definition table_entry :: "vaddr \<Rightarrow> u64 \<Rightarrow> u64" where
  "table_entry new_ptp e =
     set_next_table_addr (drop_bit PAGE_SHIFT (virt_to_phys new_ptp)) (set_is_table 1 (set_is_valid 1 e))"

lemma table_entry_fields:
  "bit (table_entry n e) 0" "bit (table_entry n e) 1"
  "pte_next_table_addr (table_entry n e) = take_bit 36 (drop_bit 12 (virt_to_phys n))"
  by (simp_all add: table_entry_def pte_next_table_addr_def set_field_defs get_set_field bit_set_field PAGE_SHIFT_def)

lemma low_page_round:
  fixes pa :: u64
  assumes "unat pa < 2 ^ 48" "4096 dvd unat pa"
  shows "push_bit 12 (take_bit 36 (drop_bit 12 pa)) = pa"
proof -
  have "take_bit 12 pa = 0"
    using assms(2) by (simp add: take_bit_eq_mod word_unat_eq_iff unat_mod dvd_eq_mod_eq_0)
  then have p: "push_bit 12 (drop_bit 12 pa) = pa" using bits_ident [of 12 pa] by simp
  have "unat (drop_bit 12 pa) < 2 ^ 36" using assms(1) by (simp add: drop_bit_eq_div unat_div)
  then have "take_bit 36 (drop_bit 12 pa) = drop_bit 12 pa"
    by (simp add: take_bit_eq_mod word_unat_eq_iff unat_mod)
  then show ?thesis using p by simp
qed

lemma next_table_entry:
  assumes "KBASE \<le> n" "4096 dvd unat n"
  shows "GET_NEXT_PTP (table_entry n e) = n"
proof -
  have u: "unat (virt_to_phys n) = unat n - unat KBASE" using assms(1) by (simp add: virt_to_phys_def unat_sub)
  have "unat n < 2 ^ 64" by (rule order.strict_trans2 [OF unsigned_less]) simp
  then have "unat (virt_to_phys n) < 2 ^ 48" unfolding u by (simp add: KBASE_def)
  moreover have "4096 dvd unat (virt_to_phys n)"
    unfolding u using assms by (intro dvd_diff_nat) (simp_all add: KBASE_def)
  ultimately show ?thesis
    by (simp add: GET_NEXT_PTP_def table_entry_fields low_page_round PAGE_SHIFT_def phys_to_virt_def virt_to_phys_def)
qed

section \<open>Page tables as trees\<close>

definition pt_child :: "u64 \<Rightarrow> u64 option" where
  "pt_child e = (if \<not> IS_PTE_INVALID e \<and> IS_PTE_TABLE e then Some (GET_NEXT_PTP e) else None)"

lemma get_index_bound: "unat (GET_INDEX l va) < 512"
proof -
  have "GET_INDEX l va = take_bit 9 (drop_bit (INDEX_SHIFT l) va)"
    by (simp add: GET_INDEX_def PAGE_ORDER_def take_bit_eq_mask mask_eq_exp_minus_1)
  then show ?thesis by (simp add: take_bit_eq_mod unat_mod)
qed

interpretation pt: node_tree 4096 GET_INDEX pt_child 3
proof
  fix l va show "8 * unat (GET_INDEX l va) + 8 \<le> 4096" using get_index_bound [of l va] by simp
next
  show "pt_child 0 = None" by (simp add: pt_child_def IS_PTE_INVALID_def)
qed

abbreviation pt_walk :: "mm_state \<Rightarrow> vaddr \<Rightarrow> nat \<Rightarrow> vaddr \<Rightarrow> vaddr option" where
  "pt_walk m \<equiv> walk GET_INDEX pt_child (mem m)"

abbreviation pt_entry :: "mm_state \<Rightarrow> vaddr \<Rightarrow> vaddr \<Rightarrow> u64" where
  "pt_entry m \<equiv> leaf_entry GET_INDEX pt_child 3 (mem m)"

abbreviation pt_pages :: "mm_state \<Rightarrow> vaddr \<Rightarrow> nat set" where
  "pt_pages m \<equiv> reach GET_INDEX pt_child 3 (mem m)"

definition no_blocks :: "mm_state \<Rightarrow> vaddr \<Rightarrow> bool" where
  "no_blocks m pgtbl \<longleftrightarrow> (\<forall>l va p. l < 3 \<longrightarrow> pt_walk m pgtbl l va = Some p \<longrightarrow>
     IS_PTE_INVALID (mem m (p + 8 * GET_INDEX l va)) \<or> IS_PTE_TABLE (mem m (p + 8 * GET_INDEX l va)))"

definition pgtbl_ok :: "vaddr \<Rightarrow> mm_state \<Rightarrow> bool" where
  "pgtbl_ok pgtbl m \<longleftrightarrow> tree_ok 4096 GET_INDEX pt_child 3 m pgtbl \<and> no_blocks m pgtbl \<and> KBASE \<le> pool_start_addr (pool m)"

lemma pgtbl_okD:
  assumes "pgtbl_ok pgtbl m"
  shows "tree_ok 4096 GET_INDEX pt_child 3 m pgtbl" "mm_ok m" "KBASE \<le> pool_start_addr (pool m)"
    "l \<le> 3 \<Longrightarrow> pt_walk m pgtbl l va = Some p \<Longrightarrow> p \<noteq> 0"
    "l < 3 \<Longrightarrow> pt_walk m pgtbl l va = Some p \<Longrightarrow>
       IS_PTE_INVALID (mem m (p + 8 * GET_INDEX l va)) \<or> IS_PTE_TABLE (mem m (p + 8 * GET_INDEX l va))"
proof -
  show t: "tree_ok 4096 GET_INDEX pt_child 3 m pgtbl" and "KBASE \<le> pool_start_addr (pool m)"
    using assms by (simp_all add: pgtbl_ok_def)
  then show ok: "mm_ok m" by (simp add: tree_ok_def)
  show "p \<noteq> 0" if "l \<le> 3" "pt_walk m pgtbl l va = Some p"
    using pt.slot_nat(3) [OF ok tree_okD(2) [OF t that]] .
  show "l < 3 \<Longrightarrow> pt_walk m pgtbl l va = Some p \<Longrightarrow>
       IS_PTE_INVALID (mem m (p + 8 * GET_INDEX l va)) \<or> IS_PTE_TABLE (mem m (p + 8 * GET_INDEX l va))"
    using assms unfolding pgtbl_ok_def no_blocks_def by blast
qed

section \<open>Translation\<close>

definition entry_pa :: "u64 \<Rightarrow> vaddr \<Rightarrow> paddr" where
  "entry_pa e va = push_bit (INDEX_SHIFT 3) (pte_l3_pfn e) + GET_VA_OFFSET 3 va"

text \<open>What a query returns, apart from the address of the entry.\<close>

definition query_result :: "u64 \<Rightarrow> vaddr \<Rightarrow> int \<times> paddr option" where
  "query_result e va = (if bit e 0 then (0, Some (entry_pa e va)) else (- ENOMAPPING, None))"

lemma query_loop_spec:
  assumes ok: "pgtbl_ok pgtbl m"
  shows "l \<le> 3 \<Longrightarrow> pt_walk m pgtbl l va = Some cur \<Longrightarrow> 3 - l < n \<Longrightarrow>
    \<exists>en. query_loop n cur l va True m = Inr (fst (query_result (pt_entry m pgtbl va) va), snd (query_result (pt_entry m pgtbl va) va), en)"
proof (induction "3 - l" arbitrary: l cur n)
  case 0
  then have l: "l = 3" by simp
  obtain n' where n: "n = Suc n'" using 0 by (cases n) auto
  have c: "cur \<noteq> 0" using pgtbl_okD(4) [OF ok] 0 by blast
  have e: "pt_entry m pgtbl va = mem m (cur + 8 * GET_INDEX 3 va)" using 0 l by (simp add: leaf_entry_def)
  show ?case
    unfolding l n using c e
    by (simp add: get_next_ptp_def IS_PTE_INVALID_def query_result_def entry_pa_def Let_def BUG_ON_def)
next
  case (Suc d)
  then have l: "l < 3" by simp
  obtain n' where n: "n = Suc n'" using Suc by (cases n) auto
  have c: "cur \<noteq> 0" using pgtbl_okD(4) [OF ok] Suc.prems by blast
  let ?e = "mem m (cur + 8 * GET_INDEX l va)"
  show ?case
  proof (cases "IS_PTE_INVALID ?e")
    case True
    then have "pt_walk m pgtbl (Suc l) va = None" using Suc.prems(2) by (simp add: pt_child_def)
    then have "pt_walk m pgtbl 3 va = None" by (rule walk_None_mono) (use l in simp)
    then have "pt_entry m pgtbl va = 0" by (simp add: leaf_entry_def)
    then show ?thesis unfolding n using c l True by (simp add: get_next_ptp_def query_result_def BUG_ON_def)
  next
    case False
    then have t: "IS_PTE_TABLE ?e" using pgtbl_okD(5) [OF ok l Suc.prems(2)] by blast
    then have w: "pt_walk m pgtbl (Suc l) va = Some (GET_NEXT_PTP ?e)" using Suc.prems(2) False by (simp add: pt_child_def)
    have "\<exists>en. query_loop n' (GET_NEXT_PTP ?e) (Suc l) va True m =
        Inr (fst (query_result (pt_entry m pgtbl va) va), snd (query_result (pt_entry m pgtbl va) va), en)"
      by (rule Suc.hyps(1) [OF _ _ w]) (use Suc.hyps(2) Suc.prems(3) l n in auto)
    then show ?thesis
      unfolding n using c l False t by (simp add: get_next_ptp_def BUG_ON_def NORMAL_PTP_def BLOCK_PTP_def Let_def)
  qed
qed

lemma query_spec:
  assumes "pgtbl_ok pgtbl m"
  shows "\<exists>en. query_in_pgtbl pgtbl va True m =
    Inr (fst (query_result (pt_entry m pgtbl va) va), snd (query_result (pt_entry m pgtbl va) va), en)"
  unfolding query_in_pgtbl_def by (rule query_loop_spec [OF assms]) simp_all

section \<open>One more table page\<close>

lemma get_page_step:
  assumes ok: "mm_ok m" and free: "free_pages_of (pool m) \<noteq> {}"
  obtains n m' where "get_pages 0 m = Inr (n, m')" "n \<noteq> 0" "mm_ok m'" "(unat n, 4096) \<notin> live_blocks m"
    "live_blocks m' = insert (unat n, 4096) (live_blocks m)" "mem m' = mem m"
    "pool_start_addr (pool m') = pool_start_addr (pool m)" "pool_start_addr (pool m) \<le> n" "4096 dvd unat n"
    "card (free_pages_of (pool m)) = Suc (card (free_pages_of (pool m')))"
proof -
  obtain R where R: "mm_rep R m" "ready R" "live_blocks m = rep_blocks R m" and p: "pool_rep R (pool m)"
    by (rule mm_okE [OF ok])
  note inv = pool_repD [OF p]
  have "has_free_from (pool m) 0" using free free_page_has_free_from [OF inv(3)] by blast
  then obtain b p' where b: "get_pages 0 m = Inr (page_addr (pool m) b, m\<lparr>pool := p'\<rparr>)" "alloc_post 0 b (pool m) p'"
    "page_addr (pool m) b \<noteq> 0" by (rule_tac get_pages_cases [OF R(1), of 0]) auto
  have g: "granted R m (unat (page_addr (pool m) b), 2 ^ 0 * 4096) R (m\<lparr>pool := p'\<rparr>)"
    by (rule get_pages_granted [OF R(1,2) b(2)])
  then have ok': "mm_ok (m\<lparr>pool := p'\<rparr>)" "live_blocks (m\<lparr>pool := p'\<rparr>) = rep_blocks R (m\<lparr>pool := p'\<rparr>)"
    using mm_okI [of R "m\<lparr>pool := p'\<rparr>"] live_blocks_rep [of R "m\<lparr>pool := p'\<rparr>"] by (simp_all add: granted_def)
  have bn: "b < npages (pool m)" "b \<in> free_pages_of (pool m)" and fp: "free_pages_of p' = free_pages_of (pool m) - {b}"
    using b(2) by (auto simp: alloc_post_def free_pages_of_def)
  note a = page_addr_nat [OF inv(2) bn(1)]
  have "unat (pool_start_addr (pool m)) \<le> unat (page_addr (pool m) b)"
    using a base_frame_mult [OF inv(2)] by simp
  moreover have "finite (free_pages_of (pool m))" by (simp add: free_pages_of_def)
  then have "card (free_pages_of (pool m)) = Suc (card (free_pages_of (pool m) - {b}))" by (rule card.remove [OF _ bn(2)])
  moreover have "pool_start_addr p' = pool_start_addr (pool m)" using b(2) by (simp add: alloc_post_def frame_except_def)
  ultimately show thesis
    using b(1,3) g ok' R(3) a fp
    by (intro that [of "page_addr (pool m) b" "m\<lparr>pool := p'\<rparr>"]) (simp_all add: granted_def word_le_nat_alt)
qed

text \<open>What one walk down the levels leaves unchanged: the leaf entries, and everything outside the
  table's own pages.\<close>

definition pt_grows :: "vaddr \<Rightarrow> mm_state \<Rightarrow> mm_state \<Rightarrow> bool" where
  "pt_grows pgtbl m m' \<longleftrightarrow> pgtbl_ok pgtbl m' \<and> (\<forall>va. pt_entry m' pgtbl va = pt_entry m pgtbl va) \<and>
     keeps_outside (pt_pages m pgtbl) m m' \<and> (\<forall>a \<in> pt_pages m' pgtbl. a \<in> pt_pages m pgtbl \<or> (\<forall>c \<in> live_blocks m. fst c \<noteq> a))"

lemma pt_grows_refl: "pgtbl_ok pgtbl m \<Longrightarrow> pt_grows pgtbl m m"
  by (simp add: pt_grows_def keeps_outside_refl)

lemma pt_grows_trans: "pt_grows pgtbl m m1 \<Longrightarrow> pt_grows pgtbl m1 m2 \<Longrightarrow> pt_grows pgtbl m m2"
proof -
  assume a: "pt_grows pgtbl m m1" and b: "pt_grows pgtbl m1 m2"
  have live: "live_blocks m \<subseteq> live_blocks m1" using a by (simp add: pt_grows_def keeps_outside_def)
  have "keeps_outside (pt_pages m pgtbl) m m2"
    by (rule keeps_outside_trans [of "pt_pages m pgtbl" m m1 "pt_pages m1 pgtbl"])
      (use a b in \<open>auto simp: pt_grows_def\<close>)
  moreover have "x \<in> pt_pages m pgtbl \<or> (\<forall>c \<in> live_blocks m. fst c \<noteq> x)" if "x \<in> pt_pages m2 pgtbl" for x
    using that a b live unfolding pt_grows_def by blast
  ultimately show ?thesis using a b by (simp add: pt_grows_def)
qed

lemma get_next_ptp_hit:
  assumes "pgtbl_ok pgtbl m" "l < 3" "pt_walk m pgtbl l va = Some cur" "pt_walk m pgtbl (Suc l) va = Some nx"
  shows "get_next_ptp cur l va True alloc m = Inr (NORMAL_PTP, Some (nx, cur + 8 * GET_INDEX l va), m)"
  using assms pgtbl_okD(4) [OF assms(1), of l va cur]
  by (auto simp: get_next_ptp_def BUG_ON_def pt_child_def Let_def split: if_splits)

lemma get_next_ptp_new:
  assumes ok: "pgtbl_ok pgtbl m" and l: "l < 3" and cur: "pt_walk m pgtbl l va = Some cur"
    and none: "pt_walk m pgtbl (Suc l) va = None" and free: "free_pages_of (pool m) \<noteq> {}"
  obtains n m' where "get_next_ptp cur l va True True m = Inr (NORMAL_PTP, Some (n, cur + 8 * GET_INDEX l va), m')"
    "pt_grows pgtbl m m'" "pt_walk m' pgtbl (Suc l) va = Some n"
    "card (free_pages_of (pool m)) = Suc (card (free_pages_of (pool m')))"
proof -
  note T = pgtbl_okD(1) [OF ok]
  note mok = pgtbl_okD(2) [OF ok]
  let ?e = "cur + 8 * GET_INDEX l va"
  have c: "cur \<noteq> 0" using pgtbl_okD(4) [OF ok _ cur] l by simp
  have cl: "(unat cur, 4096) \<in> live_blocks m" by (rule tree_okD(2) [OF T _ cur]) (use l in simp)
  have chn: "pt_child (mem m ?e) = None" using none cur by simp
  have inv: "IS_PTE_INVALID (mem m ?e)" using chn pgtbl_okD(5) [OF ok l cur] by (auto simp: pt_child_def split: if_splits)
  obtain n m1 where n: "get_pages 0 m = Inr (n, m1)" "n \<noteq> 0" "mm_ok m1" "(unat n, 4096) \<notin> live_blocks m"
    "live_blocks m1 = insert (unat n, 4096) (live_blocks m)" "mem m1 = mem m"
    "pool_start_addr (pool m1) = pool_start_addr (pool m)" "pool_start_addr (pool m) \<le> n" "4096 dvd unat n"
    "card (free_pages_of (pool m)) = Suc (card (free_pages_of (pool m1)))" by (rule get_page_step [OF mok free])
  define Z where "Z = (\<lambda>x. if unat x \<in> block_bytes (unat n, 4096) then 0 else mem m x)"
  define M where "M = Z(?e := table_entry n (mem m ?e))"
  define m' where "m' = m1\<lparr>mem := M\<rparr>"
  have dis: "block_bytes c \<inter> block_bytes (unat n, 4096) = {}" if "c \<in> live_blocks m" for c
    by (rule live_blocks_disjoint [OF n(3)]) (use n(4,5) that in auto)
  have en: "unat ?e \<in> block_bytes (unat cur, 4096)" by (rule pt.slot_nat(2) [OF mok cl])
  then have "Z ?e = mem m ?e" using dis [OF cl] by (auto simp: Z_def)
  then have run: "get_next_ptp cur l va True True m = Inr (NORMAL_PTP, Some (n, ?e), m')"
    using c l inv n(1,2,6) table_entry_fields [of n "mem m ?e"] next_table_entry [of n "mem m ?e"]
      order_trans [OF pgtbl_okD(3) [OF ok] n(8)] n(9)
    by (simp add: get_next_ptp_def BUG_ON_def Let_def zero_words_def PAGE_SIZE_def IS_PTE_INVALID_def IS_PTE_TABLE_def
        m'_def M_def Z_def block_bytes_def table_entry_def cong: if_cong)
  have "\<forall>x. (\<forall>c \<in> live_blocks m1. unat x \<notin> block_bytes c) \<longrightarrow> M x = mem m1 x"
    using n(5,6) cl en by (auto simp: M_def Z_def)
  note W = mm_ok_write [OF n(3) this, folded m'_def]
  have nch: "pt_child (table_entry n (mem m ?e)) = Some n"
    using table_entry_fields [of n "mem m ?e"] next_table_entry [of n "mem m ?e"] order_trans [OF pgtbl_okD(3) [OF ok] n(8)] n(9)
    by (simp add: pt_child_def IS_PTE_INVALID_def IS_PTE_TABLE_def)
  have nl: "(unat n, 4096) \<in> live_blocks m1" using n(5) by simp
  have zero: "mem m' (n + 8 * GET_INDEX j k) = 0" for j k
  proof -
    have "unat (n + 8 * GET_INDEX j k) \<in> block_bytes (unat n, 4096)" by (rule pt.slot_nat(2) [OF n(3) nl])
    then show ?thesis using dis [OF cl] en by (auto simp: m'_def M_def Z_def)
  qed
  have frame: "mem m' a = mem m a" if "c \<in> live_blocks m" "unat a \<in> block_bytes c" "a \<noteq> ?e" for c a
    using dis [OF that(1)] that(2,3) by (auto simp: m'_def M_def Z_def)
  have lk: "pt_child (mem m' ?e) = Some n" using nch by (simp add: m'_def M_def)
  have "\<forall>j k. mem m' (n + 8 * GET_INDEX j k) = 0"
    "\<forall>c a. c \<in> live_blocks m \<longrightarrow> unat a \<in> block_bytes c \<longrightarrow> a \<noteq> ?e \<longrightarrow> mem m' a = mem m a"
    using zero frame by blast+
  note L = pt.link_node [OF T l cur chn W(1) n(4) trans [OF W(2) n(5)] lk this]
  have "no_blocks m' pgtbl"
    unfolding no_blocks_def
  proof (intro allI impI)
    fix j k q assume j: "j < 3" and q: "pt_walk m' pgtbl j k = Some q"
    show "IS_PTE_INVALID (mem m' (q + 8 * GET_INDEX j k)) \<or> IS_PTE_TABLE (mem m' (q + 8 * GET_INDEX j k))"
      using L(6) [OF less_imp_le [OF j] q] pgtbl_okD(5) [OF ok j, of k q] table_entry_fields(2) [of n "mem m ?e"]
      by (auto simp: IS_PTE_INVALID_def IS_PTE_TABLE_def m'_def M_def)
  qed
  moreover have "x \<in> pt_pages m pgtbl \<or> (\<forall>c \<in> live_blocks m. fst c \<noteq> x)" if "x \<in> pt_pages m' pgtbl" for x
    using that L(4) fresh_address [OF mok n(3,4,5)] by auto
  ultimately have "pt_grows pgtbl m m'"
    using L(1,3,5) pgtbl_okD(3) [OF ok] n(7) by (simp add: pt_grows_def pgtbl_ok_def m'_def)
  then show thesis using run L(2) n(10) by (intro that [of n m']) (simp_all add: m'_def)
qed

end
