(* ===== verification/Page_Table_Map.thy ===== *)
theory Page_Table_Map
  imports Page_Table_Correct
begin

text \<open>Mapping and unmapping ranges of pages: \<^verbatim>\<open>map_range_in_pgtbl\<close> and
  \<^verbatim>\<open>unmap_range_in_pgtbl\<close> as updates of the function from virtual page numbers to frames and
  access rights.\<close>

unbundle bit_operations_syntax

section \<open>Page numbers\<close>

definition vpn :: "vaddr \<Rightarrow> nat" where
  "vpn va = unat (take_bit 36 (drop_bit 12 va))"

lemma vpn_nat: "vpn va = unat va div 4096 mod 2 ^ 36"
  by (simp add: vpn_def take_bit_eq_mod unat_mod drop_bit_eq_div unat_div)

lemma get_index_take: "GET_INDEX l va = take_bit 9 (drop_bit (INDEX_SHIFT l) va)"
  by (simp add: GET_INDEX_def PAGE_ORDER_def take_bit_eq_mask mask_eq_exp_minus_1)

lemma take_bit_eq_bits:
  fixes a b :: u64
  shows "take_bit n a = take_bit n b \<longleftrightarrow> (\<forall>i < n. bit a i = bit b i)"
proof
  assume "take_bit n a = take_bit n b"
  then show "\<forall>i < n. bit a i = bit b i" by (metis bit_take_bit_iff)
qed (auto intro!: bit_eqI simp: bit_take_bit_iff)

text \<open>Two addresses take the same way through the four levels just when they lie in one page.\<close>

lemma agree_vpn: "agree GET_INDEX 4 va va' \<longleftrightarrow> vpn va = vpn va'"
proof -
  have "agree GET_INDEX 4 va va' \<longleftrightarrow> (\<forall>l < 4. \<forall>i < 9. bit va (i + INDEX_SHIFT l) = bit va' (i + INDEX_SHIFT l))"
    by (simp add: agree_def get_index_take take_bit_eq_bits bit_drop_bit_eq ac_simps)
  also have "\<dots> \<longleftrightarrow> (\<forall>j < 36. bit va (12 + j) = bit va' (12 + j))"
  proof (rule iffI; intro allI impI)
    fix j :: nat assume a: "\<forall>l < 4. \<forall>i < 9. bit va (i + INDEX_SHIFT l) = bit va' (i + INDEX_SHIFT l)" and j: "j < 36"
    have "j mod 9 + INDEX_SHIFT (3 - j div 9) = 12 + j"
      using j div_mult_mod_eq [of j 9] by (simp add: INDEX_SHIFT_def PAGE_ORDER_def PAGE_SHIFT_def)
    then show "bit va (12 + j) = bit va' (12 + j)" using a [rule_format, of "3 - j div 9" "j mod 9"] by simp
  next
    fix l i :: nat assume a: "\<forall>j < 36. bit va (12 + j) = bit va' (12 + j)" and "l < 4" "i < 9"
    then show "bit va (i + INDEX_SHIFT l) = bit va' (i + INDEX_SHIFT l)"
      using a [rule_format, of "(3 - l) * 9 + i"] by (simp add: INDEX_SHIFT_def PAGE_ORDER_def PAGE_SHIFT_def ac_simps)
  qed
  also have "\<dots> \<longleftrightarrow> take_bit 36 (drop_bit 12 va) = take_bit 36 (drop_bit 12 va')"
    by (simp add: take_bit_eq_bits bit_drop_bit_eq)
  finally show ?thesis by (simp add: vpn_def word_unat_eq_iff)
qed

section \<open>Entries as frames with access rights\<close>

type_synonym pt_right = "u64 \<times> u64"

definition pte_rights :: "u64 \<Rightarrow> pt_right" where
  "pte_rights e = (get_field 6 2 e, get_field 54 1 e)"

definition flag_rights :: "u64 \<Rightarrow> pt_right" where
  "flag_rights flags = ((if flags AND VMR_WRITE \<noteq> 0 then 1 else 3), (if flags AND VMR_EXEC \<noteq> 0 then 0 else 1))"

definition frame_of :: "u64 \<Rightarrow> (nat \<times> pt_right) option" where
  "frame_of e = (if bit e 0 then Some (unat (pte_l3_pfn e), pte_rights e) else None)"

text \<open>The abstract state of a page table: which frame each address is mapped to.\<close>

definition pt_map :: "mm_state \<Rightarrow> vaddr \<Rightarrow> vaddr \<Rightarrow> (nat \<times> pt_right) option" where
  "pt_map m pgtbl va = frame_of (pt_entry m pgtbl va)"

lemma l3_entry_frame:
  "frame_of (l3_entry pa flags e) = Some (vpn pa, flag_rights flags)"
proof -
  have "pte_rights (l3_entry pa flags e) = flag_rights flags"
    by (simp add: l3_entry_def set_pte_flags_def Let_def set_field_defs pte_rights_def flag_rights_def
        get_set_field get_set_field_other take_bit_eq_mod)
  then show ?thesis by (simp add: frame_of_def l3_entry_fields vpn_def)
qed

lemma cleared_entry_frame: "frame_of (set_is_valid 0 e) = None"
  by (simp add: frame_of_def set_is_valid_def bit_set_field)

section \<open>One page\<close>

lemma map_levels_spec:
  assumes "pgtbl_ok pgtbl m" "pt_walk m pgtbl l va = Some cur" "l + n = 3" "n \<le> card (free_pages_of (pool m))"
    "n = 0 \<longrightarrow> nx0 = cur"
  shows "\<exists>r nx m'. map_levels n l va cur nx0 r0 m = Inr (r, nx, m') \<and> pt_grows pgtbl m m' \<and>
    pt_walk m' pgtbl 3 va = Some nx \<and> (n \<noteq> 0 \<longrightarrow> r = NORMAL_PTP) \<and>
    card (free_pages_of (pool m)) \<le> n + card (free_pages_of (pool m'))"
  using assms
proof (induction n arbitrary: l cur nx0 r0 m)
  case 0
  then show ?case by (auto intro: pt_grows_refl)
next
  case (Suc n)
  have l: "l < 3" using Suc.prems(3) by simp
  obtain nx m1 where s: "get_next_ptp cur l va True True m = Inr (NORMAL_PTP, Some (nx, cur + 8 * GET_INDEX l va), m1)"
    "pt_grows pgtbl m m1" "pt_walk m1 pgtbl (Suc l) va = Some nx"
    "card (free_pages_of (pool m)) \<le> Suc (card (free_pages_of (pool m1)))"
  proof (cases "pt_walk m pgtbl (Suc l) va")
    case None
    have "free_pages_of (pool m) \<noteq> {}" using Suc.prems(4) by auto
    from get_next_ptp_new [OF Suc.prems(1) l Suc.prems(2) None this] that show thesis by (metis order_refl)
  next
    case (Some nx)
    then show thesis
      using get_next_ptp_hit [OF Suc.prems(1) l Suc.prems(2) Some] pt_grows_refl [OF Suc.prems(1)] that by auto
  qed
  have ok: "pgtbl_ok pgtbl m1" using s(2) by (simp add: pt_grows_def)
  obtain r nx' m' where r: "map_levels n (Suc l) va nx nx NORMAL_PTP m1 = Inr (r, nx', m')" "pt_grows pgtbl m1 m'"
    "pt_walk m' pgtbl 3 va = Some nx'" "n \<noteq> 0 \<longrightarrow> r = NORMAL_PTP"
    "card (free_pages_of (pool m1)) \<le> n + card (free_pages_of (pool m'))"
    using Suc.IH [OF ok s(3), of nx NORMAL_PTP] Suc.prems(3,4) s(4) by auto
  have "n = 0 \<Longrightarrow> r = NORMAL_PTP" using r(1) by simp
  then show ?case using s(1,4) r pt_grows_trans [OF s(2) r(2)] by auto
qed

text \<open>What a change of leaf entries keeps: the table stays well-formed, and only its own pages, old
  and new, are written.\<close>

definition pt_changes :: "vaddr \<Rightarrow> mm_state \<Rightarrow> mm_state \<Rightarrow> bool" where
  "pt_changes pgtbl m m' \<longleftrightarrow> pgtbl_ok pgtbl m' \<and> keeps_outside (pt_pages m pgtbl) m m' \<and>
     (\<forall>a \<in> pt_pages m' pgtbl. a \<in> pt_pages m pgtbl \<or> (\<forall>c \<in> live_blocks m. fst c \<noteq> a))"

lemma pt_changes_refl: "pgtbl_ok pgtbl m \<Longrightarrow> pt_changes pgtbl m m"
  by (simp add: pt_changes_def keeps_outside_refl)

lemma pt_changes_trans: "pt_changes pgtbl m m1 \<Longrightarrow> pt_changes pgtbl m1 m2 \<Longrightarrow> pt_changes pgtbl m m2"
proof -
  assume a: "pt_changes pgtbl m m1" and b: "pt_changes pgtbl m1 m2"
  have live: "live_blocks m \<subseteq> live_blocks m1" using a by (simp add: pt_changes_def keeps_outside_def)
  have "keeps_outside (pt_pages m pgtbl) m m2"
    by (rule keeps_outside_trans [of "pt_pages m pgtbl" m m1 "pt_pages m1 pgtbl"])
      (use a b in \<open>auto simp: pt_changes_def\<close>)
  moreover have "x \<in> pt_pages m pgtbl \<or> (\<forall>c \<in> live_blocks m. fst c \<noteq> x)" if "x \<in> pt_pages m2 pgtbl" for x
    using that a b live unfolding pt_changes_def by blast
  ultimately show ?thesis using b by (simp add: pt_changes_def)
qed

lemma upd_entry_spec:
  assumes ok: "pgtbl_ok pgtbl m" and w: "pt_walk m pgtbl 3 va = Some p"
  obtains m' where "upd_entry p 3 va f m = Inr m'" "pt_changes pgtbl m m'" "pool m' = pool m"
    "\<forall>x. pt_entry m' pgtbl x = (if vpn x = vpn va then f (pt_entry m pgtbl va) else pt_entry m pgtbl x)"
    "\<forall>l x. l \<le> 3 \<longrightarrow> pt_walk m' pgtbl l x = pt_walk m pgtbl l x"
proof -
  let ?e = "mem m (p + 8 * GET_INDEX 3 va)"
  let ?m = "m\<lparr>mem := (mem m)(p + 8 * GET_INDEX 3 va := f ?e)\<rparr>"
  note L = pt.leaf_write [OF pgtbl_okD(1) [OF ok] w, where v = "f ?e"]
  have p: "p \<noteq> 0" using pgtbl_okD(4) [OF ok _ w] by simp
  have e: "pt_entry m pgtbl va = ?e" using w by (simp add: leaf_entry_def)
  have "no_blocks ?m pgtbl"
    unfolding no_blocks_def
  proof (intro allI impI)
    fix l x q assume l: "l < 3" and q: "pt_walk ?m pgtbl l x = Some q"
    have q': "pt_walk m pgtbl l x = Some q" using q L(7) [of l x] l by simp
    have ql: "(unat q, 4096) \<in> live_blocks m" by (rule tree_okD(2) [OF pgtbl_okD(1) [OF ok] _ q']) (use l in simp)
    have pl: "(unat p, 4096) \<in> live_blocks m" by (rule tree_okD(2) [OF pgtbl_okD(1) [OF ok] _ w]) simp
    have "q \<noteq> p" using tree_okD(3) [OF pgtbl_okD(1) [OF ok] _ _ q', of 3 va] w l by auto
    then have "q + 8 * GET_INDEX l x \<noteq> p + 8 * GET_INDEX 3 va"
      using pt.slot_eq [OF pgtbl_okD(2) [OF ok] ql pl, of l x 3 va] by blast
    then show "IS_PTE_INVALID (mem ?m (q + 8 * GET_INDEX l x)) \<or> IS_PTE_TABLE (mem ?m (q + 8 * GET_INDEX l x))"
      using pgtbl_okD(5) [OF ok l q'] by simp
  qed
  then have ok': "pgtbl_ok pgtbl ?m" using L(1) pgtbl_okD(3) [OF ok] by (simp add: pgtbl_ok_def)
  show thesis
  proof (rule that [of ?m])
    show "upd_entry p 3 va f m = Inr ?m" using p by (simp add: upd_entry_def load_def store_def)
    show "pt_changes pgtbl m ?m" using ok' L(4,5) by (simp add: pt_changes_def)
    show "\<forall>x. pt_entry ?m pgtbl x = (if vpn x = vpn va then f (pt_entry m pgtbl va) else pt_entry m pgtbl x)"
      using L(2) agree_vpn [of va] e by (auto simp: numeral_eq_Suc)
    show "\<forall>l x. l \<le> 3 \<longrightarrow> pt_walk ?m pgtbl l x = pt_walk m pgtbl l x" using L(7) by blast
  qed simp
qed

lemma map_page_spec:
  assumes ok: "pgtbl_ok pgtbl m" and free: "3 \<le> card (free_pages_of (pool m))"
  obtains m' where "map_page pgtbl va pa flags m = Inr m'" "pt_changes pgtbl m m'"
    "\<forall>x. pt_map m' pgtbl x = (if vpn x = vpn va then Some (vpn pa, flag_rights flags) else pt_map m pgtbl x)"
    "card (free_pages_of (pool m)) \<le> 3 + card (free_pages_of (pool m'))"
proof -
  obtain r nx m1 where s: "map_levels 3 0 va pgtbl 0 0 m = Inr (r, nx, m1)" "pt_grows pgtbl m m1"
    "pt_walk m1 pgtbl 3 va = Some nx" "r = NORMAL_PTP" "card (free_pages_of (pool m)) \<le> 3 + card (free_pages_of (pool m1))"
    using map_levels_spec [OF ok, of 0 va pgtbl 3 0 0] free by auto
  have ok1: "pgtbl_ok pgtbl m1" and g: "pt_changes pgtbl m m1" using s(2) by (simp_all add: pt_grows_def pt_changes_def)
  obtain m' where u: "upd_entry nx 3 va (l3_entry pa flags) m1 = Inr m'" "pt_changes pgtbl m1 m'" "pool m' = pool m1"
    "\<forall>x. pt_entry m' pgtbl x = (if vpn x = vpn va then l3_entry pa flags (pt_entry m1 pgtbl va) else pt_entry m1 pgtbl x)"
    by (rule upd_entry_spec [OF ok1 s(3), of "l3_entry pa flags"])
  show thesis
  proof (rule that [of m'])
    show "map_page pgtbl va pa flags m = Inr m'" using s(1,4) u(1) by (simp add: map_page_def)
    show "pt_changes pgtbl m m'" by (rule pt_changes_trans [OF g u(2)])
    show "\<forall>x. pt_map m' pgtbl x = (if vpn x = vpn va then Some (vpn pa, flag_rights flags) else pt_map m pgtbl x)"
      using s(2) u(4) by (simp add: pt_map_def l3_entry_frame pt_grows_def)
    show "card (free_pages_of (pool m)) \<le> 3 + card (free_pages_of (pool m'))" using s(5) u(3) by simp
  qed
qed

section \<open>Ranges\<close>

definition page_count :: "u64 \<Rightarrow> u64 \<Rightarrow> nat" where
  "page_count cursor len = (unat len - unat cursor + 4095) div 4096"

lemma page_count_simps:
  assumes "unat len \<le> 2 ^ 48"
  shows "cursor < len \<longleftrightarrow> page_count cursor len \<noteq> 0"
    "page_count cursor len = Suc n \<Longrightarrow> page_count (cursor + PAGE_SIZE) len = n"
proof -
  show iff: "cursor < len \<longleftrightarrow> page_count cursor len \<noteq> 0"
    by (simp add: page_count_def word_less_nat_alt div_eq_0_iff) linarith
  assume n: "page_count cursor len = Suc n"
  then have "unat cursor < unat len" using iff by (simp add: word_less_nat_alt)
  then have "unat (cursor + PAGE_SIZE) = unat cursor + 4096" using assms by (simp add: PAGE_SIZE_def unat_word_ariths)
  moreover have "(unat len - (unat cursor + 4096) + 4095) div 4096 = (unat len - unat cursor + 4095) div 4096 - 1"
    using \<open>unat cursor < unat len\<close> by (cases "unat cursor + 4096 \<le> unat len") (auto simp: div_eq_0_iff le_div_geq)
  ultimately show "page_count (cursor + PAGE_SIZE) len = n" using n unfolding page_count_def by (simp only: diff_Suc_1)
qed

text \<open>The next page of an aligned range that stays below \<open>2 ^ 48\<close>.\<close>

lemma next_page:
  assumes "4096 dvd unat a" "unat a + 4096 * Suc n \<le> 2 ^ 48"
  shows "vpn a = unat a div 4096" "4096 dvd unat (a + PAGE_SIZE)" "unat (a + PAGE_SIZE) = unat a + 4096"
    "unat (a + PAGE_SIZE) div 4096 = Suc (unat a div 4096)"
proof -
  have "unat a < 2 ^ 48" using assms(2) by simp
  then show "vpn a = unat a div 4096" by (simp add: vpn_nat)
  show u: "unat (a + PAGE_SIZE) = unat a + 4096" using assms(2) by (simp add: PAGE_SIZE_def unat_word_ariths)
  show "4096 dvd unat (a + PAGE_SIZE)" "unat (a + PAGE_SIZE) div 4096 = Suc (unat a div 4096)"
    using assms(1) by (simp_all add: u)
qed

lemma range_fuel_enough: "page_count 0 len \<le> range_fuel len"
proof -
  have "(unat len + 4095) div 4096 \<le> (unat len + 4096) div 4096" by (rule div_le_mono) simp
  then show ?thesis by (simp add: page_count_def range_fuel_def PAGE_SIZE_def unat_div)
qed

lemma map_range_loop_spec:
  assumes "pgtbl_ok pgtbl m" "page_count cursor len = n" "n \<le> fuel" "unat len \<le> 2 ^ 48"
    "4096 dvd unat va" "unat va + 4096 * n \<le> 2 ^ 48" "4096 dvd unat pa" "unat pa + 4096 * n \<le> 2 ^ 48"
    "3 * n \<le> card (free_pages_of (pool m))"
  shows "\<exists>m'. map_range_loop fuel cursor pgtbl va pa len flags m = Inr m' \<and> pt_changes pgtbl m m' \<and>
    card (free_pages_of (pool m)) \<le> 3 * n + card (free_pages_of (pool m')) \<and>
    (\<forall>x. pt_map m' pgtbl x = (if unat va div 4096 \<le> vpn x \<and> vpn x < unat va div 4096 + n
       then Some (unat pa div 4096 + (vpn x - unat va div 4096), flag_rights flags) else pt_map m pgtbl x))"
  using assms
proof (induction n arbitrary: m cursor fuel va pa)
  case 0
  then have "\<not> cursor < len" using page_count_simps(1) [of len cursor] by simp
  then have "map_range_loop fuel cursor pgtbl va pa len flags m = Inr m" by (cases fuel) simp_all
  then show ?case using 0 by (auto intro: pt_changes_refl)
next
  case (Suc n)
  obtain f where f: "fuel = Suc f" "n \<le> f" using Suc.prems(3) by (cases fuel) auto
  have c: "cursor < len" using page_count_simps(1) [of len cursor] Suc.prems(2,4) by simp
  note V = next_page [OF Suc.prems(5,6)] and P = next_page [OF Suc.prems(7,8)]
  obtain m1 where m1: "map_page pgtbl va pa flags m = Inr m1" "pt_changes pgtbl m m1"
    "\<forall>x. pt_map m1 pgtbl x = (if vpn x = vpn va then Some (vpn pa, flag_rights flags) else pt_map m pgtbl x)"
    "card (free_pages_of (pool m)) \<le> 3 + card (free_pages_of (pool m1))"
    by (rule map_page_spec [OF Suc.prems(1)]) (use Suc.prems(9) in simp)
  have ok1: "pgtbl_ok pgtbl m1" using m1(2) by (simp add: pt_changes_def)
  obtain m' where m': "map_range_loop f (cursor + PAGE_SIZE) pgtbl (va + PAGE_SIZE) (pa + PAGE_SIZE) len flags m1 = Inr m'"
    "pt_changes pgtbl m1 m'" "card (free_pages_of (pool m1)) \<le> 3 * n + card (free_pages_of (pool m'))"
    "\<forall>x. pt_map m' pgtbl x = (if unat (va + PAGE_SIZE) div 4096 \<le> vpn x \<and> vpn x < unat (va + PAGE_SIZE) div 4096 + n
       then Some (unat (pa + PAGE_SIZE) div 4096 + (vpn x - unat (va + PAGE_SIZE) div 4096), flag_rights flags)
       else pt_map m1 pgtbl x)"
    using Suc.IH [OF ok1 page_count_simps(2) [OF Suc.prems(4,2)] f(2) Suc.prems(4) V(2) _ P(2)] V(3) P(3) Suc.prems(6,8,9) m1(4)
    by auto
  have "pt_map m' pgtbl x = (if unat va div 4096 \<le> vpn x \<and> vpn x < unat va div 4096 + Suc n
       then Some (unat pa div 4096 + (vpn x - unat va div 4096), flag_rights flags) else pt_map m pgtbl x)" for x
    using m'(4) [rule_format, of x] m1(3) [rule_format, of x] unfolding V(1,4) P(1,4) by auto
  then show ?case using c f(1) m1(1,4) m'(1,3) pt_changes_trans [OF m1(2) m'(2)] by auto
qed

text \<open>A range of whole pages below \<open>2 ^ 48\<close>.\<close>

definition page_range :: "u64 \<Rightarrow> u64 \<Rightarrow> bool" where
  "page_range a len \<longleftrightarrow> unat len \<le> 2 ^ 48 \<and> 4096 dvd unat a \<and> unat a + 4096 * page_count 0 len \<le> 2 ^ 48"

lemma map_range_spec:
  assumes "pgtbl_ok pgtbl m" "page_range va len" "page_range pa len" "3 * page_count 0 len \<le> card (free_pages_of (pool m))"
  obtains m' where "map_range_in_pgtbl pgtbl va pa len flags m = Inr (0, m')" "pt_changes pgtbl m m'"
    "\<forall>x. pt_map m' pgtbl x = (if unat va div 4096 \<le> vpn x \<and> vpn x < unat va div 4096 + page_count 0 len
       then Some (unat pa div 4096 + (vpn x - unat va div 4096), flag_rights flags) else pt_map m pgtbl x)"
  using map_range_loop_spec [OF assms(1) refl range_fuel_enough, of len va pa flags] assms(2-4) that
  by (auto simp: map_range_in_pgtbl_def page_range_def)

section \<open>Unmapping\<close>

lemma unmap_levels_hit:
  assumes ok: "pgtbl_ok pgtbl m" and w: "pt_walk m pgtbl 3 va = Some p"
  shows "pt_walk m pgtbl l va = Some cur \<Longrightarrow> l + n = 3 \<Longrightarrow> n = 0 \<longrightarrow> nx0 = cur \<Longrightarrow>
    unmap_levels n l va cur nx0 m = Inr p"
proof (induction n arbitrary: l cur nx0)
  case (Suc n)
  have "pt_walk m pgtbl (Suc l) va \<noteq> None"
  proof
    assume "pt_walk m pgtbl (Suc l) va = None"
    then have "pt_walk m pgtbl 3 va = None" by (rule walk_None_mono) (use Suc.prems in simp)
    then show False using w by simp
  qed
  then obtain nx where nx: "pt_walk m pgtbl (Suc l) va = Some nx" by blast
  have "unmap_levels n (Suc l) va nx nx m = Inr p" by (rule Suc.IH [OF nx]) (use Suc.prems in auto)
  then show ?case using get_next_ptp_hit [OF ok _ Suc.prems(1) nx, of False] Suc.prems(2) by simp
qed (use w in simp)

text \<open>Where a level is missing, unmapping stops with a \<^verbatim>\<open>BUG\<close>.\<close>

lemma unmap_levels_miss:
  assumes ok: "pgtbl_ok pgtbl m" and w: "pt_walk m pgtbl 3 va = None"
  shows "pt_walk m pgtbl l va = Some cur \<Longrightarrow> l + n = 3 \<Longrightarrow> unmap_levels n l va cur nx0 m = Inl Bug"
proof (induction n arbitrary: l cur nx0)
  case 0
  then show ?case using w by simp
next
  case (Suc n)
  have c: "cur \<noteq> 0" using pgtbl_okD(4) [OF ok _ Suc.prems(1)] Suc.prems(2) by simp
  show ?case
  proof (cases "pt_walk m pgtbl (Suc l) va")
    case None
    then have "IS_PTE_INVALID (mem m (cur + 8 * GET_INDEX l va))"
      using Suc.prems pgtbl_okD(5) [OF ok _ Suc.prems(1)] by (auto simp: pt_child_def split: if_splits)
    then show ?thesis using c Suc.prems(2) by (simp add: get_next_ptp_def NORMAL_PTP_def ENOMAPPING_def Let_def)
  next
    case (Some nx)
    have "unmap_levels n (Suc l) va nx nx m = Inl Bug" by (rule Suc.IH [OF Some]) (use Suc.prems in simp)
    then show ?thesis using get_next_ptp_hit [OF ok _ Suc.prems(1) Some, of False] Suc.prems(2) by simp
  qed
qed

lemma unmap_page_spec:
  assumes ok: "pgtbl_ok pgtbl m" and w: "pt_walk m pgtbl 3 va \<noteq> None"
  obtains m' where "unmap_page pgtbl va m = Inr m'" "pt_changes pgtbl m m'"
    "\<forall>x. pt_map m' pgtbl x = (if vpn x = vpn va then None else pt_map m pgtbl x)"
    "\<forall>x. pt_walk m' pgtbl 3 x = pt_walk m pgtbl 3 x"
proof -
  obtain p where p: "pt_walk m pgtbl 3 va = Some p" using w by blast
  have r: "unmap_levels 3 0 va pgtbl 0 m = Inr p" by (rule unmap_levels_hit [OF ok p]) simp_all
  obtain m' where u: "upd_entry p 3 va (set_is_valid 0) m = Inr m'" "pt_changes pgtbl m m'"
    "\<forall>x. pt_entry m' pgtbl x = (if vpn x = vpn va then set_is_valid 0 (pt_entry m pgtbl va) else pt_entry m pgtbl x)"
    "\<forall>l x. l \<le> 3 \<longrightarrow> pt_walk m' pgtbl l x = pt_walk m pgtbl l x"
    by (rule upd_entry_spec [OF ok p, of "set_is_valid 0"])
  show thesis by (rule that [of m']) (use r u in \<open>simp_all add: unmap_page_def pt_map_def cleared_entry_frame\<close>)
qed

lemma unmap_range_loop_spec:
  assumes "pgtbl_ok pgtbl m" "page_count cursor len = n" "n \<le> fuel" "unat len \<le> 2 ^ 48"
    "4096 dvd unat va" "unat va + 4096 * n \<le> 2 ^ 48"
    "\<forall>x. unat va div 4096 \<le> vpn x \<and> vpn x < unat va div 4096 + n \<longrightarrow> pt_walk m pgtbl 3 x \<noteq> None"
  shows "\<exists>m'. unmap_range_loop fuel cursor pgtbl va len m = Inr m' \<and> pt_changes pgtbl m m' \<and>
    (\<forall>x. pt_map m' pgtbl x = (if unat va div 4096 \<le> vpn x \<and> vpn x < unat va div 4096 + n
       then None else pt_map m pgtbl x))"
  using assms
proof (induction n arbitrary: m cursor fuel va)
  case 0
  then have "\<not> cursor < len" using page_count_simps(1) [of len cursor] by simp
  then have "unmap_range_loop fuel cursor pgtbl va len m = Inr m" by (cases fuel) simp_all
  then show ?case using 0 by (auto intro: pt_changes_refl)
next
  case (Suc n)
  obtain f where f: "fuel = Suc f" "n \<le> f" using Suc.prems(3) by (cases fuel) auto
  have c: "cursor < len" using page_count_simps(1) [of len cursor] Suc.prems(2,4) by simp
  note V = next_page [OF Suc.prems(5,6)]
  obtain m1 where m1: "unmap_page pgtbl va m = Inr m1" "pt_changes pgtbl m m1"
    "\<forall>x. pt_map m1 pgtbl x = (if vpn x = vpn va then None else pt_map m pgtbl x)"
    "\<forall>x. pt_walk m1 pgtbl 3 x = pt_walk m pgtbl 3 x"
    by (rule unmap_page_spec [OF Suc.prems(1), of va]) (use Suc.prems(7) V(1) in auto)
  have ok1: "pgtbl_ok pgtbl m1" using m1(2) by (simp add: pt_changes_def)
  have "\<forall>x. unat (va + PAGE_SIZE) div 4096 \<le> vpn x \<and> vpn x < unat (va + PAGE_SIZE) div 4096 + n \<longrightarrow>
      pt_walk m1 pgtbl 3 x \<noteq> None" using Suc.prems(7) m1(4) unfolding V(4) by auto
  then obtain m' where m': "unmap_range_loop f (cursor + PAGE_SIZE) pgtbl (va + PAGE_SIZE) len m1 = Inr m'"
    "pt_changes pgtbl m1 m'"
    "\<forall>x. pt_map m' pgtbl x = (if unat (va + PAGE_SIZE) div 4096 \<le> vpn x \<and> vpn x < unat (va + PAGE_SIZE) div 4096 + n
       then None else pt_map m1 pgtbl x)"
    using Suc.IH [OF ok1 page_count_simps(2) [OF Suc.prems(4,2)] f(2) Suc.prems(4) V(2)] V(3) Suc.prems(6) by auto
  have "pt_map m' pgtbl x = (if unat va div 4096 \<le> vpn x \<and> vpn x < unat va div 4096 + Suc n
       then None else pt_map m pgtbl x)" for x
    using m'(3) [rule_format, of x] m1(3) [rule_format, of x] unfolding V(1,4) by auto
  then show ?case using c f(1) m1(1) m'(1) pt_changes_trans [OF m1(2) m'(2)] by auto
qed

lemma unmap_range_spec:
  assumes "pgtbl_ok pgtbl m" "page_range va len"
    "\<forall>x. unat va div 4096 \<le> vpn x \<and> vpn x < unat va div 4096 + page_count 0 len \<longrightarrow> pt_walk m pgtbl 3 x \<noteq> None"
  obtains m' where "unmap_range_in_pgtbl pgtbl va len m = Inr (0, m')" "pt_changes pgtbl m m'"
    "\<forall>x. pt_map m' pgtbl x = (if unat va div 4096 \<le> vpn x \<and> vpn x < unat va div 4096 + page_count 0 len
       then None else pt_map m pgtbl x)"
  using unmap_range_loop_spec [OF assms(1) refl range_fuel_enough _ _ _ assms(3)] assms(2) that
  by (auto simp: unmap_range_in_pgtbl_def page_range_def)

lemma mapped_walk: "pt_map m pgtbl x \<noteq> None \<Longrightarrow> pt_walk m pgtbl 3 x \<noteq> None"
  by (cases "pt_walk m pgtbl 3 x") (auto simp: pt_map_def frame_of_def leaf_entry_def)

text \<open>A table whose pages are kept stays as it is.\<close>

lemma other_keeps:
  assumes k: "keeps_outside A m m'" and ok': "mm_ok m'" "KBASE \<le> pool_start_addr (pool m')" and o: "pgtbl_ok other m"
    and dis: "pt_pages m other \<inter> A = {}"
  shows "pgtbl_ok other m'" "pt_map m' other x = pt_map m other x" "pt_pages m' other = pt_pages m other"
proof -
  note T = pt.other_tree [OF pgtbl_okD(1) [OF o] ok'(1) k dis]
  have "no_blocks m' other"
    unfolding no_blocks_def
  proof (intro allI impI)
    fix l va p assume l: "l < 3" and p: "pt_walk m' other l va = Some p"
    have "pt_walk m other l va = Some p" using T(4) [of l va] l p by simp
    then show "IS_PTE_INVALID (mem m' (p + 8 * GET_INDEX l va)) \<or> IS_PTE_TABLE (mem m' (p + 8 * GET_INDEX l va))"
      using T(5) [of l va p l va] pgtbl_okD(5) [OF o l] l by simp
  qed
  then show "pgtbl_ok other m'" using T(1) ok'(2) by (simp add: pgtbl_ok_def)
  show "pt_map m' other x = pt_map m other x" by (simp add: pt_map_def T(2))
  show "pt_pages m' other = pt_pages m other" by (rule T(3))
qed

lemma pt_pages_live: "pgtbl_ok pgtbl m \<Longrightarrow> a \<in> pt_pages m pgtbl \<Longrightarrow> \<exists>c \<in> live_blocks m. fst c = a"
proof -
  assume ok: "pgtbl_ok pgtbl m" and "a \<in> pt_pages m pgtbl"
  then obtain p l k where "a = unat p" "l \<le> 3" "pt_walk m pgtbl l k = Some p" by (auto simp: reach_def)
  then show ?thesis using tree_okD(2) [OF pgtbl_okD(1) [OF ok]] by force
qed

text \<open>Two tables that share no page: whatever one of them does to itself, the other stays as it is.\<close>

lemma other_space:
  assumes ch: "pt_changes pgtbl m m'" and o: "pgtbl_ok other m" and dis: "pt_pages m pgtbl \<inter> pt_pages m other = {}"
  shows "pgtbl_ok other m'" "pt_map m' other x = pt_map m other x" "pt_pages m' pgtbl \<inter> pt_pages m' other = {}"
proof -
  have ok': "pgtbl_ok pgtbl m'" and dis': "pt_pages m other \<inter> pt_pages m pgtbl = {}" using ch dis by (auto simp: pt_changes_def)
  note K = other_keeps [OF _ pgtbl_okD(2,3) [OF ok'] o dis', of, OF conjunct1 [OF conjunct2 [OF ch [unfolded pt_changes_def]]]]
  show "pgtbl_ok other m'" "pt_map m' other x = pt_map m other x" by (rule K(1,2))+
  show "pt_pages m' pgtbl \<inter> pt_pages m' other = {}"
    using ch dis pt_pages_live [OF o] unfolding K(3) pt_changes_def by blast
qed

section \<open>New tables\<close>

lemma new_pgtbl:
  assumes ok: "mm_ok m" and free: "free_pages_of (pool m) \<noteq> {}" and base: "KBASE \<le> pool_start_addr (pool m)"
  obtains n m1 where "get_pages 0 m = Inr (n, m1)" "n \<noteq> 0" "pgtbl_ok n (zero_words n PAGE_SIZE m1)"
    "\<forall>x. pt_map (zero_words n PAGE_SIZE m1) n x = None" "pt_pages (zero_words n PAGE_SIZE m1) n = {unat n}"
    "\<forall>x. pt_walk (zero_words n PAGE_SIZE m1) n 3 x = None"
    "pool (zero_words n PAGE_SIZE m1) = pool m1" "pool_start_addr (pool m1) = pool_start_addr (pool m)"
    "card (free_pages_of (pool m)) = Suc (card (free_pages_of (pool m1)))" "keeps_outside {} m (zero_words n PAGE_SIZE m1)"
    "\<forall>c \<in> live_blocks m. fst c \<noteq> unat n"
proof -
  obtain n m1 where n: "get_pages 0 m = Inr (n, m1)" "n \<noteq> 0" "mm_ok m1" "(unat n, 4096) \<notin> live_blocks m"
    "live_blocks m1 = insert (unat n, 4096) (live_blocks m)" "mem m1 = mem m"
    "pool_start_addr (pool m1) = pool_start_addr (pool m)"
    "card (free_pages_of (pool m)) = Suc (card (free_pages_of (pool m1)))" by (rule get_page_step [OF ok free])
  define M where "M = (\<lambda>x. if unat x \<in> block_bytes (unat n, 4096) then 0 else mem m1 x)"
  have z: "zero_words n PAGE_SIZE m1 = m1\<lparr>mem := M\<rparr>"
    by (simp add: zero_words_def M_def block_bytes_def PAGE_SIZE_def cong: if_cong)
  have "\<forall>x. (\<forall>c \<in> live_blocks m1. unat x \<notin> block_bytes c) \<longrightarrow> M x = mem m1 x" using n(5) by (auto simp: M_def)
  note W = mm_ok_write [OF n(3) this]
  have nl: "(unat n, 4096) \<in> live_blocks (m1\<lparr>mem := M\<rparr>)" using W(2) n(5) by simp
  have "M (n + 8 * GET_INDEX j k) = 0" for j k using pt.slot_nat(2) [OF W(1) nl, of j k] by (simp add: M_def)
  note T = pt.fresh_root [OF W(1) nl, simplified, OF this]
  have "no_blocks (m1\<lparr>mem := M\<rparr>) n" using T(2) \<open>\<And>j k. M (n + 8 * GET_INDEX j k) = 0\<close>
    by (auto simp: no_blocks_def IS_PTE_INVALID_def split: if_splits)
  then have okn: "pgtbl_ok n (m1\<lparr>mem := M\<rparr>)" using T(1) base n(7) by (simp add: pgtbl_ok_def)
  have dis: "block_bytes c \<inter> block_bytes (unat n, 4096) = {}" if "c \<in> live_blocks m" for c
    by (rule live_blocks_disjoint [OF n(3)]) (use n(4,5) that in auto)
  have "keeps_outside {} m (m1\<lparr>mem := M\<rparr>)"
    unfolding keeps_outside_def
  proof (intro conjI ballI allI impI)
    fix c and a :: u64 assume "c \<in> live_blocks m" "unat a \<in> block_bytes c"
    then have "unat a \<notin> block_bytes (unat n, 4096)" using dis by blast
    then show "mem (m1\<lparr>mem := M\<rparr>) a = mem m a" using n(6) by (simp add: M_def)
  qed (use W(2) n(5) in auto)
  then show thesis
    using that [OF n(1,2)] okn T(2,3,4) n(7,8) fresh_address [OF ok n(3,4,5)] unfolding z
    by (simp add: pt_map_def frame_of_def)
qed

section \<open>Properties of the page tables\<close>

definition translate :: "vaddr \<Rightarrow> vaddr \<Rightarrow> mm_state \<Rightarrow> (int \<times> paddr option) res" where
  "translate pgtbl va m = bindR (query_in_pgtbl pgtbl va True m) (\<lambda>(r, pa, _). Inr (r, pa))"

lemma translate_map:
  assumes "pgtbl_ok pgtbl m"
  shows "translate pgtbl va m = Inr (case pt_map m pgtbl va of None \<Rightarrow> (- ENOMAPPING, None)
    | Some (f, _) \<Rightarrow> (0, Some (of_nat (f * 4096 + unat va mod 4096))))"
proof -
  have "va AND 4095 = take_bit 12 va" by (simp add: take_bit_eq_mask mask_eq_exp_minus_1)
  also have "\<dots> = of_nat (unat va mod 4096)" by (simp add: take_bit_eq_mod word_unat_eq_iff unat_mod unat_of_nat)
  finally have "push_bit 12 (pte_l3_pfn e) + (va AND 4095) = of_nat (unat (pte_l3_pfn e) * 4096 + unat va mod 4096)" for e
    by (simp add: push_bit_eq_mult)
  then show ?thesis
    using query_spec [OF assms, of va]
    by (auto simp: translate_def query_result_def pt_map_def frame_of_def entry_pa_def GET_VA_OFFSET_def INDEX_SHIFT_def PAGE_SHIFT_def)
qed

definition in_range :: "u64 \<Rightarrow> u64 \<Rightarrow> vaddr \<Rightarrow> bool" where
  "in_range va len x \<longleftrightarrow> unat va \<le> unat x \<and> unat x < unat va + 4096 * page_count 0 len"

lemma in_range_vpn:
  assumes "page_range va len" "unat x < 2 ^ 48"
  shows "in_range va len x \<longleftrightarrow> unat va div 4096 \<le> vpn x \<and> vpn x < unat va div 4096 + page_count 0 len"
proof -
  obtain v where v: "unat va = 4096 * v" using assms(1) by (auto simp: page_range_def)
  have x: "vpn x = unat x div 4096" using assms(2) by (simp add: vpn_nat)
  have "4096 * v \<le> unat x \<longleftrightarrow> v \<le> unat x div 4096" by (simp add: less_eq_div_iff_mult_less_eq ac_simps)
  moreover have "unat x < 4096 * (v + n) \<longleftrightarrow> unat x div 4096 < v + n" for n by (simp add: div_less_iff_less_mult ac_simps)
  ultimately show ?thesis by (simp add: in_range_def v x distrib_left)
qed

lemma range_offset:
  assumes "page_range va len" "page_range pa len" "unat x < 2 ^ 48" "in_range va len x"
  shows "of_nat ((unat pa div 4096 + (vpn x - unat va div 4096)) * 4096 + unat x mod 4096) = pa + (x - va)"
proof -
  obtain v p where v: "unat va = 4096 * v" and p: "unat pa = 4096 * p" using assms(1,2) by (auto simp: page_range_def elim!: dvdE)
  have x: "vpn x = unat x div 4096" using assms(3) by (simp add: vpn_nat)
  have le: "v \<le> unat x div 4096" using assms(4) v by (simp add: in_range_def less_eq_div_iff_mult_less_eq ac_simps)
  have "(p + (unat x div 4096 - v)) * 4096 + unat x mod 4096 + unat va = unat pa + unat x"
    using le v p div_mult_mod_eq [of "unat x" 4096] by (simp add: algebra_simps)
  then have "(of_nat ((p + (unat x div 4096 - v)) * 4096 + unat x mod 4096 + unat va) :: u64) = of_nat (unat pa + unat x)"
    by (simp only:)
  then have "(of_nat ((p + (unat x div 4096 - v)) * 4096 + unat x mod 4096) :: u64) + va = pa + x"
    unfolding of_nat_add of_nat_unat by simp
  then show ?thesis unfolding x v p by (simp add: algebra_simps)
qed

text \<open>A range whose addresses are all translated has its tables of the last level.\<close>

lemma range_walk:
  assumes "pgtbl_ok pgtbl m" "page_range va len"
    "\<forall>x. in_range va len x \<longrightarrow> translate pgtbl x m \<noteq> Inr (- ENOMAPPING, None)"
  shows "\<forall>x. unat va div 4096 \<le> vpn x \<and> vpn x < unat va div 4096 + page_count 0 len \<longrightarrow> pt_walk m pgtbl 3 x \<noteq> None"
proof (intro allI impI)
  fix x assume x: "unat va div 4096 \<le> vpn x \<and> vpn x < unat va div 4096 + page_count 0 len"
  define y where "y = take_bit 48 x"
  have y: "unat y < 2 ^ 48" by (simp add: y_def take_bit_eq_mod unat_mod)
  have "drop_bit 12 (take_bit 48 x) = take_bit 36 (drop_bit 12 x)" by (simp add: take_bit_drop_bit)
  then have v: "vpn y = vpn x" by (simp add: y_def vpn_def)
  then have "in_range va len y" using in_range_vpn [OF assms(2) y] x by simp
  then have "pt_map m pgtbl y \<noteq> None" using assms(3) translate_map [OF assms(1), of y] by (cases "pt_map m pgtbl y") auto
  then have "pt_walk m pgtbl 3 y \<noteq> None" by (rule mapped_walk)
  moreover have "agree GET_INDEX 3 y x" using v agree_vpn [of y x] agree_mono by fastforce
  ultimately show "pt_walk m pgtbl 3 x \<noteq> None" using walk_agree by metis
qed

lemma boot_free:
  obtains m where "mm_init 0x200000 0 (\<lambda>_. 0) = Inr m" "mm_ok m" "KBASE \<le> pool_start_addr (pool m)"
    "512 \<le> card (free_pages_of (pool m))"
proof -
  obtain m where m: "mm_init 0x200000 0 (\<lambda>_. 0) = Inr m" "mm_ok m" "has_free_from (pool m) 9"
    "KBASE \<le> pool_start_addr (pool m)" by (rule mm_boot [of "0x200000" "\<lambda>_. 0"]) simp
  obtain R where "pool_rep R (pool m)" by (rule mm_okE [OF m(2)])
  then have co: "chunks_ok (pool m)" by (rule pool_repD(3))
  obtain b k where b: "b \<in> free_heads (pool m) k" "9 \<le> k" using m(3) by (auto simp: has_free_from_def)
  have "card {b..<b + 2 ^ k} \<le> card (free_pages_of (pool m))"
    by (rule card_mono [OF _ free_chunk_pages [OF free_head_chunk [OF co b(1)]]]) (simp add: free_pages_of_def)
  moreover have "(2::nat) ^ 9 \<le> 2 ^ k" by (rule power_increasing [OF b(2)]) simp
  ultimately show thesis using m that by simp
qed

text \<open>After the start, two pages are taken for two page tables.\<close>

definition boot_tables :: "mm_state \<Rightarrow> vaddr \<Rightarrow> vaddr \<Rightarrow> bool" where
  "boot_tables s a b \<longleftrightarrow> (\<exists>m m1 m2. mm_init 0x200000 0 (\<lambda>_. 0) = Inr m \<and> get_pages 0 m = Inr (a, m1) \<and>
     get_pages 0 (zero_words a PAGE_SIZE m1) = Inr (b, m2) \<and> s = zero_words b PAGE_SIZE m2)"

lemma boot_pgtbl:
  obtains s a b where "boot_tables s a b" "pgtbl_ok a s" "pgtbl_ok b s" "\<forall>x. pt_map s a x = None"
    "\<forall>x. pt_map s b x = None" "pt_pages s a \<inter> pt_pages s b = {}" "500 \<le> card (free_pages_of (pool s))"
    "\<forall>x. pt_walk s b 3 x = None"
proof -
  obtain m where m: "mm_init 0x200000 0 (\<lambda>_. 0) = Inr m" "mm_ok m" "KBASE \<le> pool_start_addr (pool m)"
    "512 \<le> card (free_pages_of (pool m))" by (rule boot_free)
  have f: "free_pages_of (pool m) \<noteq> {}" using m(4) by auto
  obtain a m1 where a: "get_pages 0 m = Inr (a, m1)" "pgtbl_ok a (zero_words a PAGE_SIZE m1)"
    "\<forall>x. pt_map (zero_words a PAGE_SIZE m1) a x = None" "pt_pages (zero_words a PAGE_SIZE m1) a = {unat a}"
    "pool (zero_words a PAGE_SIZE m1) = pool m1" "card (free_pages_of (pool m)) = Suc (card (free_pages_of (pool m1)))"
    by (rule new_pgtbl [OF m(2) f m(3)])
  let ?s1 = "zero_words a PAGE_SIZE m1"
  have c1: "511 \<le> card (free_pages_of (pool ?s1))" using a(5,6) m(4) by simp
  then have f1: "free_pages_of (pool ?s1) \<noteq> {}" by auto
  obtain b m2 where b: "get_pages 0 ?s1 = Inr (b, m2)" "pgtbl_ok b (zero_words b PAGE_SIZE m2)"
    "\<forall>x. pt_map (zero_words b PAGE_SIZE m2) b x = None" "pt_pages (zero_words b PAGE_SIZE m2) b = {unat b}"
    "\<forall>x. pt_walk (zero_words b PAGE_SIZE m2) b 3 x = None"
    "pool (zero_words b PAGE_SIZE m2) = pool m2" "card (free_pages_of (pool ?s1)) = Suc (card (free_pages_of (pool m2)))"
    "keeps_outside {} ?s1 (zero_words b PAGE_SIZE m2)" "\<forall>c \<in> live_blocks ?s1. fst c \<noteq> unat b"
    by (rule new_pgtbl [OF pgtbl_okD(2) [OF a(2)] f1 pgtbl_okD(3) [OF a(2)]])
  note K = other_keeps [OF b(8) pgtbl_okD(2,3) [OF b(2)] a(2)]
  have "pt_pages (zero_words b PAGE_SIZE m2) a \<inter> pt_pages (zero_words b PAGE_SIZE m2) b = {}"
    using K(3) b(4,9) pt_pages_live [OF a(2), of "unat b"] by auto
  then show thesis
    using that [of "zero_words b PAGE_SIZE m2" a b] m(1) a b(1-3,5-7) c1 K(1,2) by (auto simp: boot_tables_def)
qed

text \<open>C3: \<^verbatim>\<open>map_range_in_pgtbl\<close> maps a range. On a well-formed page table, with a page-aligned
  range below \<open>2 ^ 48\<close> and three free pages for every page of the range, the call returns 0. From
  then on \<^verbatim>\<open>query_in_pgtbl\<close> translates every address of the range to the physical address at
  the same offset, and every other address as before.\<close>

theorem map_range_translates:
  assumes "pgtbl_ok pgtbl m" "page_range va len" "page_range pa len" "3 * page_count 0 len \<le> card (free_pages_of (pool m))"
  shows "\<exists>m'. map_range_in_pgtbl pgtbl va pa len flags m = Inr (0, m') \<and> pgtbl_ok pgtbl m' \<and>
    (\<forall>x. unat x < 2 ^ 48 \<longrightarrow> translate pgtbl x m' =
       (if in_range va len x then Inr (0, Some (pa + (x - va))) else translate pgtbl x m))"
proof -
  obtain m' where m': "map_range_in_pgtbl pgtbl va pa len flags m = Inr (0, m')" "pt_changes pgtbl m m'"
    "\<forall>x. pt_map m' pgtbl x = (if unat va div 4096 \<le> vpn x \<and> vpn x < unat va div 4096 + page_count 0 len
       then Some (unat pa div 4096 + (vpn x - unat va div 4096), flag_rights flags) else pt_map m pgtbl x)"
    by (rule map_range_spec [OF assms])
  have ok: "pgtbl_ok pgtbl m'" using m'(2) by (simp add: pt_changes_def)
  have "translate pgtbl x m' = (if in_range va len x then Inr (0, Some (pa + (x - va))) else translate pgtbl x m)"
    if "unat x < 2 ^ 48" for x
    using m'(3) [rule_format, of x, folded in_range_vpn [OF assms(2) that]] range_offset [OF assms(2,3) that]
    by (simp add: translate_map [OF ok] translate_map [OF assms(1)])
  with m'(1) ok show ?thesis by blast
qed

lemma small_range:
  "page_range 0x10000 0x2000" "page_range 0x80000 0x2000" "page_count 0 0x2000 = 2"
  "in_range 0x10000 0x2000 0x11234" "\<not> in_range 0x10000 0x2000 0x12000"
  by (simp_all add: page_range_def page_count_def in_range_def)

theorem map_range_translates_witness:
  "\<exists>s a b s'. boot_tables s a b \<and> map_range_in_pgtbl a 0x10000 0x80000 0x2000 VMR_READ s = Inr (0, s') \<and>
     translate a 0x11234 s' = Inr (0, Some 0x81234) \<and> translate a 0x12000 s' = Inr (- ENOMAPPING, None)"
proof -
  obtain s a b where s: "boot_tables s a b" "pgtbl_ok a s" "\<forall>x. pt_map s a x = None" "500 \<le> card (free_pages_of (pool s))"
    by (rule boot_pgtbl)
  obtain s' where s': "map_range_in_pgtbl a 0x10000 0x80000 0x2000 VMR_READ s = Inr (0, s')"
    "\<forall>x. unat x < 2 ^ 48 \<longrightarrow> translate a x s' =
       (if in_range 0x10000 0x2000 x then Inr (0, Some (0x80000 + (x - 0x10000))) else translate a x s)"
    using map_range_translates [OF s(2) small_range(1,2), of VMR_READ] s(4) small_range(3) by auto
  show ?thesis
    using s(1) s'(1) s'(2) [rule_format, of "0x11234"] s'(2) [rule_format, of "0x12000"] small_range(4,5)
      translate_map [OF s(2)] s(3) by auto
qed

text \<open>C13: the access rights of the range are those of the flags and no other entry changes. The
  table, seen as a function from addresses to frames with rights, is updated exactly on the range:
  user code may write there only with \<^verbatim>\<open>VMR_WRITE\<close>, and execute only with
  \<^verbatim>\<open>VMR_EXEC\<close>.\<close>

theorem map_range_rights:
  assumes "pgtbl_ok pgtbl m" "page_range va len" "page_range pa len" "3 * page_count 0 len \<le> card (free_pages_of (pool m))"
  shows "\<exists>m'. map_range_in_pgtbl pgtbl va pa len flags m = Inr (0, m') \<and>
    pt_map m' pgtbl = (\<lambda>x. if vpn x \<in> {vpn va ..< vpn va + page_count 0 len}
      then Some (vpn pa + (vpn x - vpn va), (if flags AND VMR_WRITE \<noteq> 0 then 1 else 3, if flags AND VMR_EXEC \<noteq> 0 then 0 else 1))
      else pt_map m pgtbl x)"
proof -
  obtain m' where m': "map_range_in_pgtbl pgtbl va pa len flags m = Inr (0, m')"
    "\<forall>x. pt_map m' pgtbl x = (if unat va div 4096 \<le> vpn x \<and> vpn x < unat va div 4096 + page_count 0 len
       then Some (unat pa div 4096 + (vpn x - unat va div 4096), flag_rights flags) else pt_map m pgtbl x)"
    by (rule map_range_spec [OF assms])
  show ?thesis
  proof (cases "page_count 0 len")
    case 0
    then show ?thesis using m' by (intro exI [of _ m']) (auto simp: fun_eq_iff)
  next
    case (Suc n)
    have "vpn va = unat va div 4096" "vpn pa = unat pa div 4096"
      using assms(2,3) Suc by (auto simp: page_range_def intro!: next_page(1) [of _ n])
    then show ?thesis using m' by (intro exI [of _ m']) (auto simp: flag_rights_def fun_eq_iff)
  qed
qed

theorem map_range_rights_witness:
  "\<exists>s a b s'. boot_tables s a b \<and> map_range_in_pgtbl a 0x10000 0x80000 0x2000 VMR_READ s = Inr (0, s') \<and>
     pt_map s' a 0x11234 = Some (0x81, (3, 1))"
proof -
  obtain s a b where s: "boot_tables s a b" "pgtbl_ok a s" "500 \<le> card (free_pages_of (pool s))" by (rule boot_pgtbl)
  have "vpn 0x11234 = 0x11" "vpn 0x10000 = 0x10" "vpn 0x80000 = 0x80" "VMR_READ AND VMR_WRITE = 0" "VMR_READ AND VMR_EXEC = 0"
    by (simp_all add: vpn_nat vmr_flags)
  moreover obtain s' where "map_range_in_pgtbl a 0x10000 0x80000 0x2000 VMR_READ s = Inr (0, s')"
    "pt_map s' a = (\<lambda>x. if vpn x \<in> {vpn 0x10000 ..< vpn 0x10000 + page_count 0 0x2000}
      then Some (vpn 0x80000 + (vpn x - vpn 0x10000), (if VMR_READ AND VMR_WRITE \<noteq> 0 then 1 else 3, if VMR_READ AND VMR_EXEC \<noteq> 0 then 0 else 1))
      else pt_map s a x)"
    using map_range_rights [OF s(2) small_range(1,2), of VMR_READ] s(3) small_range(3) by auto
  ultimately have "pt_map s' a 0x11234 = Some (0x81, (3, 1))" by (simp add: small_range(3))
  then show ?thesis using s(1) \<open>map_range_in_pgtbl a 0x10000 0x80000 0x2000 VMR_READ s = Inr (0, s')\<close> by blast
qed

text \<open>C6: address spaces are isolated. Mapping into one page table, or unmapping from it, leaves
  every translation of another table that shares no page with it as it was, and the two tables
  still share no page.\<close>

theorem address_spaces_isolated:
  assumes "pgtbl_ok pgtbl m" "pgtbl_ok other m" "pt_pages m pgtbl \<inter> pt_pages m other = {}" "page_range va len"
    "(page_range pa len \<and> 3 * page_count 0 len \<le> card (free_pages_of (pool m)) \<and>
        map_range_in_pgtbl pgtbl va pa len flags m = Inr (r, m')) \<or>
     ((\<forall>x. in_range va len x \<longrightarrow> translate pgtbl x m \<noteq> Inr (- ENOMAPPING, None)) \<and>
        unmap_range_in_pgtbl pgtbl va len m = Inr (r, m'))"
  shows "pgtbl_ok other m' \<and> translate other x m' = translate other x m \<and> pt_pages m' pgtbl \<inter> pt_pages m' other = {}"
proof -
  have "pt_changes pgtbl m m'"
    using assms(5)
  proof
    assume a: "page_range pa len \<and> 3 * page_count 0 len \<le> card (free_pages_of (pool m)) \<and>
        map_range_in_pgtbl pgtbl va pa len flags m = Inr (r, m')"
    show ?thesis by (rule map_range_spec [OF assms(1,4), of pa flags]) (use a in auto)
  next
    assume a: "(\<forall>x. in_range va len x \<longrightarrow> translate pgtbl x m \<noteq> Inr (- ENOMAPPING, None)) \<and>
        unmap_range_in_pgtbl pgtbl va len m = Inr (r, m')"
    show ?thesis by (rule unmap_range_spec [OF assms(1,4) range_walk [OF assms(1,4)]]) (use a in auto)
  qed
  note O = other_space [OF this assms(2,3)]
  show ?thesis using O translate_map [OF O(1)] translate_map [OF assms(2)] by simp
qed

theorem address_spaces_isolated_witness:
  "\<exists>s a b s'. boot_tables s a b \<and> map_range_in_pgtbl a 0x10000 0x80000 0x2000 VMR_READ s = Inr (0, s') \<and>
     pgtbl_ok b s' \<and> translate b 0x11234 s' = Inr (- ENOMAPPING, None)"
proof -
  obtain s a b where s: "boot_tables s a b" "pgtbl_ok a s" "pgtbl_ok b s" "\<forall>x. pt_map s b x = None"
    "pt_pages s a \<inter> pt_pages s b = {}" "500 \<le> card (free_pages_of (pool s))" by (rule boot_pgtbl)
  have f: "3 * page_count 0 0x2000 \<le> card (free_pages_of (pool s))" using s(6) small_range(3) by simp
  obtain s' where s': "map_range_in_pgtbl a 0x10000 0x80000 0x2000 VMR_READ s = Inr (0, s')"
    by (rule map_range_spec [OF s(2) small_range(1,2) f])
  show ?thesis
    using address_spaces_isolated [OF s(2,3,5) small_range(1) disjI1, of "0x80000" VMR_READ 0 s' "0x11234"] s(1,4) s' f
      small_range(2) translate_map [OF s(3)] by auto
qed

text \<open>C14: \<^verbatim>\<open>unmap_range_in_pgtbl\<close> on a range that is mapped returns 0 and undoes the mapping:
  no address of the range is translated any more, every other address is translated as before.\<close>

theorem unmap_range_clears:
  assumes "pgtbl_ok pgtbl m" "page_range va len"
    "\<forall>x. in_range va len x \<longrightarrow> translate pgtbl x m \<noteq> Inr (- ENOMAPPING, None)"
  shows "\<exists>m'. unmap_range_in_pgtbl pgtbl va len m = Inr (0, m') \<and> pgtbl_ok pgtbl m' \<and>
    (\<forall>x. unat x < 2 ^ 48 \<longrightarrow> translate pgtbl x m' =
       (if in_range va len x then Inr (- ENOMAPPING, None) else translate pgtbl x m))"
proof -
  obtain m' where m': "unmap_range_in_pgtbl pgtbl va len m = Inr (0, m')" "pt_changes pgtbl m m'"
    "\<forall>x. pt_map m' pgtbl x = (if unat va div 4096 \<le> vpn x \<and> vpn x < unat va div 4096 + page_count 0 len
       then None else pt_map m pgtbl x)"
    by (rule unmap_range_spec [OF assms(1,2) range_walk [OF assms]])
  have ok: "pgtbl_ok pgtbl m'" using m'(2) by (simp add: pt_changes_def)
  have "translate pgtbl x m' = (if in_range va len x then Inr (- ENOMAPPING, None) else translate pgtbl x m)"
    if "unat x < 2 ^ 48" for x
    using m'(3) [rule_format, of x, folded in_range_vpn [OF assms(2) that]]
    by (simp add: translate_map [OF ok] translate_map [OF assms(1)])
  with m'(1) ok show ?thesis by blast
qed

theorem unmap_range_clears_witness:
  "\<exists>s a b s1 s2. boot_tables s a b \<and> map_range_in_pgtbl a 0x10000 0x80000 0x2000 VMR_READ s = Inr (0, s1) \<and>
     unmap_range_in_pgtbl a 0x10000 0x2000 s1 = Inr (0, s2) \<and> translate a 0x11234 s1 \<noteq> Inr (- ENOMAPPING, None) \<and>
     translate a 0x11234 s2 = Inr (- ENOMAPPING, None)"
proof -
  obtain s a b where s: "boot_tables s a b" "pgtbl_ok a s" "500 \<le> card (free_pages_of (pool s))" by (rule boot_pgtbl)
  have f: "3 * page_count 0 0x2000 \<le> card (free_pages_of (pool s))" using s(3) small_range(3) by simp
  obtain s1 where s1: "map_range_in_pgtbl a 0x10000 0x80000 0x2000 VMR_READ s = Inr (0, s1)" "pt_changes a s s1"
    "\<forall>x. pt_map s1 a x = (if unat (0x10000 :: u64) div 4096 \<le> vpn x \<and> vpn x < unat (0x10000 :: u64) div 4096 + page_count 0 0x2000
       then Some (unat (0x80000 :: u64) div 4096 + (vpn x - unat (0x10000 :: u64) div 4096), flag_rights VMR_READ) else pt_map s a x)"
    by (rule map_range_spec [OF s(2) small_range(1,2) f])
  have ok: "pgtbl_ok a s1" using s1(2) by (simp add: pt_changes_def)
  have mapped: "translate a x s1 \<noteq> Inr (- ENOMAPPING, None)" if x: "in_range 0x10000 0x2000 x" for x
  proof -
    have "unat x < 2 ^ 48" using x small_range(3) by (simp add: in_range_def)
    then show ?thesis
      using s1(3) [rule_format, of x] in_range_vpn [OF small_range(1), of x] x by (simp add: translate_map [OF ok])
  qed
  then show ?thesis
    using unmap_range_clears [OF ok small_range(1)] s(1) s1(1) small_range(4) mapped by fastforce
qed

text \<open>C34: unmapping a page that was never touched, so that its table of the last level does not
  exist, does not succeed silently: the kernel stops with a \<^verbatim>\<open>BUG\<close>. Anonymous memory is
  mapped lazily, so an area that was never used is such a range.\<close>

theorem unmap_untouched_bug:
  assumes "pgtbl_ok pgtbl m" "pt_walk m pgtbl 3 va = None" "0 < len"
  shows "unmap_range_in_pgtbl pgtbl va len m = Inl Bug"
proof -
  have "unmap_levels 3 0 va pgtbl 0 m = Inl Bug" by (rule unmap_levels_miss [OF assms(1,2)]) simp_all
  then show ?thesis using assms(3) by (simp add: unmap_range_in_pgtbl_def range_fuel_def unmap_page_def)
qed

theorem unmap_untouched_bug_witness:
  "\<exists>s a b. boot_tables s a b \<and> unmap_range_in_pgtbl b 0x10000 0x2000 s = Inl Bug"
proof -
  obtain s a b where s: "boot_tables s a b" "pgtbl_ok b s" "\<forall>x. pt_walk s b 3 x = None" by (rule boot_pgtbl)
  then show ?thesis using unmap_untouched_bug [OF s(2), of "0x10000" "0x2000"] by auto
qed

end
