(* ===== verification/Page_Table_Free.thy ===== *)
theory Page_Table_Free
  imports Page_Table_Map
begin

text \<open>Releasing a page table: \<^verbatim>\<open>free_page_table\<close> visits every table page exactly once. The
  pages below a table page are the union of what lies below its entries; the well-formedness of the
  tree makes these sets disjoint, so that no page is freed twice.\<close>

unbundle bit_operations_syntax

section \<open>Releasing one page\<close>

definition freed :: "nat set \<Rightarrow> mm_state \<Rightarrow> mm_state \<Rightarrow> bool" where
  "freed A m m' \<longleftrightarrow> mm_ok m' \<and> mem m' = mem m \<and> live_blocks m' = live_blocks m - (\<lambda>a. (a, 4096)) ` A"

lemma free_page_step:
  assumes ok: "mm_ok m" and p: "(unat p, 4096) \<in> live_blocks m"
  shows "\<exists>m'. free_pages p m = Inr m' \<and> freed {unat p} m m'"
proof -
  obtain R where R: "mm_rep R m" "ready R" "live_blocks m = rep_blocks R m" "pool_rep R (pool m)" by (rule mm_okE [OF ok])
  have "(unat p, 4096) \<notin> slot_blocks R"
  proof
    assume "(unat p, 4096) \<in> slot_blocks R"
    then obtain ord where "R ord \<noteq> []" "(4096 :: nat) = 2 ^ ord" by (force simp: slot_blocks_def)
    moreover from this have "ord \<le> 11" using pool_repD(5) [OF R(4)] by blast
    then have "(2 :: nat) ^ ord \<le> 2 ^ 11" by (rule power_increasing) simp
    ultimately show False by simp
  qed
  then have "(unat p, 4096) \<in> page_blocks (pool m)" using p R(3) by (auto simp: rep_blocks_def)
  from kfree_pages [OF R(1,2) this] obtain R' m' where m': "free_pages p m = Inr m'" "mem m' = mem m"
    "released R m (unat p, 4096) R' m'" by auto
  then show ?thesis
    using R(3) live_blocks_rep [of R' m'] mm_okI [of R' m'] by (auto simp: freed_def released_def)
qed

lemma freed_trans: "freed A m m1 \<Longrightarrow> freed B m1 m2 \<Longrightarrow> freed (A \<union> B) m m2"
  by (auto simp: freed_def)

text \<open>A loop whose turns release disjoint sets of pages.\<close>

definition frees :: "(u64 \<Rightarrow> u64) \<Rightarrow> nat set \<Rightarrow> (mm_state \<Rightarrow> mm_state res) \<Rightarrow> bool" where
  "frees M A f \<longleftrightarrow> (\<forall>m. mm_ok m \<and> mem m = M \<and> (\<lambda>a. (a, 4096)) ` A \<subseteq> live_blocks m \<longrightarrow> (\<exists>m'. f m = Inr m' \<and> freed A m m'))"

lemma freesD:
  "frees M A f \<Longrightarrow> mm_ok m \<Longrightarrow> mem m = M \<Longrightarrow> (\<lambda>a. (a, 4096)) ` A \<subseteq> live_blocks m \<Longrightarrow> \<exists>m'. f m = Inr m' \<and> freed A m m'"
  by (auto simp: frees_def)

lemma frees_page: "frees M {unat p} (free_pages p)"
  using free_page_step by (auto simp: frees_def)

lemma frees_seq:
  assumes "frees M A f" "frees M B g" "A \<inter> B = {}"
  shows "frees M (A \<union> B) (\<lambda>m. bindR (f m) g)"
  unfolding frees_def
proof (intro allI impI)
  fix m assume m: "mm_ok m \<and> mem m = M \<and> (\<lambda>a. (a, 4096)) ` (A \<union> B) \<subseteq> live_blocks m"
  then obtain m1 where m1: "f m = Inr m1" "freed A m m1" using freesD [OF assms(1), of m] by (auto simp: image_Un)
  have "(\<lambda>a. (a, 4096)) ` B \<subseteq> live_blocks m1" using m m1(2) assms(3) by (auto simp: freed_def)
  then obtain m2 where "g m1 = Inr m2" "freed B m1 m2" using freesD [OF assms(2), of m1] m m1(2) by (auto simp: freed_def)
  then show "\<exists>m'. bindR (f m) g = Inr m' \<and> freed (A \<union> B) m m'" using m1 freed_trans by fastforce
qed

lemma frees_skip: "frees M {} Inr"
  by (simp add: frees_def freed_def)

lemma frees_loop:
  assumes "\<forall>i < n. frees M (A i) (body i)" "\<forall>i < n. \<forall>j < n. i \<noteq> j \<longrightarrow> A i \<inter> A j = {}"
  shows "frees M (\<Union>i < n. A i) (for_upto n body)"
  using assms
proof (induction n)
  case 0
  then show ?case by (simp add: frees_def freed_def)
next
  case (Suc n)
  have "A i \<inter> A n = {}" if "i < n" for i using Suc.prems(2) [rule_format, of i n] that by simp
  then have "(\<Union>i < n. A i) \<inter> A n = {}" by blast
  then have "frees M ((\<Union>i < n. A i) \<union> A n) (\<lambda>m. bindR (for_upto n body m) (body n))"
    by (intro frees_seq) (use Suc in auto)
  moreover have "(\<Union>i < n. A i) \<union> A n = (\<Union>i < Suc n. A i)" by (auto simp: less_Suc_eq)
  ultimately show ?case by (simp add: frees_def)
qed

section \<open>The pages below a table page\<close>

primrec below :: "nat \<Rightarrow> (u64 \<Rightarrow> u64) \<Rightarrow> u64 \<Rightarrow> nat set" where
  "below 0 M p = {unat p}"
| "below (Suc d) M p = (\<Union>i < 512. case pt_child (M (p + 8 * of_nat i)) of None \<Rightarrow> {} | Some q \<Rightarrow> below d M q) \<union> {unat p}"

text \<open>Every index of every level occurs among the addresses that agree above that level.\<close>

lemma index_key:
  assumes "l \<le> 3" "i < 512"
  obtains k' where "agree GET_INDEX l k k'" "GET_INDEX l k' = of_nat i"
proof
  define k' where "k' = set_field (INDEX_SHIFT l) 9 (of_nat i) k"
  have s: "INDEX_SHIFT l + 9 \<le> 64" by (simp add: INDEX_SHIFT_def PAGE_ORDER_def PAGE_SHIFT_def)
  have "unat (of_nat i :: u64) < 2 ^ 9" using assms(2) by (simp add: unat_of_nat)
  then have "take_bit 9 (of_nat i :: u64) = of_nat i" by (simp add: take_bit_eq_mod word_unat_eq_iff unat_mod)
  then show "GET_INDEX l k' = of_nat i" using get_set_field [OF s, of "of_nat i" k] by (simp add: k'_def get_index_take get_field_def)
  show "agree GET_INDEX l k k'"
    unfolding agree_def
  proof (intro allI impI)
    fix j assume j: "j < l"
    have "INDEX_SHIFT l + 9 \<le> INDEX_SHIFT j" "INDEX_SHIFT j + 9 \<le> 64"
      using j assms(1) by (simp_all add: INDEX_SHIFT_def PAGE_ORDER_def PAGE_SHIFT_def)
    then show "GET_INDEX j k = GET_INDEX j k'"
      using get_set_field_other [of "INDEX_SHIFT j" 9 "INDEX_SHIFT l" 9 "of_nat i" k] s
      by (simp add: k'_def get_index_take get_field_def)
  qed
qed

lemma below_walk:
  "l + d = 3 \<Longrightarrow> walk GET_INDEX pt_child M root l k = Some p \<Longrightarrow>
   below d M p = {unat q | q j k'. l \<le> j \<and> j \<le> 3 \<and> agree GET_INDEX l k k' \<and> walk GET_INDEX pt_child M root j k' = Some q}"
proof (induction d arbitrary: l k p)
  case 0
  then have l: "l = 3" by simp
  show ?case
  proof (intro set_eqI iffI)
    fix a assume "a \<in> below 0 M p"
    then have "a = unat p" by simp
    moreover have "agree GET_INDEX 3 k k" by (simp add: agree_def)
    ultimately show "a \<in> {unat q | q j k'. l \<le> j \<and> j \<le> 3 \<and> agree GET_INDEX l k k' \<and> walk GET_INDEX pt_child M root j k' = Some q}"
      using 0(2) unfolding l by blast
  next
    fix a assume "a \<in> {unat q | q j k'. l \<le> j \<and> j \<le> 3 \<and> agree GET_INDEX l k k' \<and> walk GET_INDEX pt_child M root j k' = Some q}"
    then obtain q j k' where q: "a = unat q" "l \<le> j" "j \<le> 3" "agree GET_INDEX l k k'" "walk GET_INDEX pt_child M root j k' = Some q" by blast
    then have "j = 3" using l by simp
    then have "q = p" using q(4,5) 0(2) walk_agree [of GET_INDEX 3 k k' pt_child M root] unfolding l by simp
    then show "a \<in> below 0 M p" using q(1) by simp
  qed
next
  case (Suc d)
  let ?W = "walk GET_INDEX pt_child M root"
  let ?S = "\<lambda>l k. {unat q | q j k'. l \<le> j \<and> j \<le> 3 \<and> agree GET_INDEX l k k' \<and> ?W j k' = Some q}"
  have l: "l < 3" using Suc.prems(1) by simp
  show ?case
  proof (intro set_eqI iffI)
    fix a assume "a \<in> below (Suc d) M p"
    then consider "a = unat p" | i q where "i < 512" "pt_child (M (p + 8 * of_nat i)) = Some q" "a \<in> below d M q"
      by (auto split: option.splits)
    then show "a \<in> ?S l k"
    proof cases
      case 1
      have "agree GET_INDEX l k k" by (simp add: agree_def)
      then show ?thesis using 1 Suc.prems(2) less_imp_le [OF l] by blast
    next
      case (2 i q)
      obtain k' where k': "agree GET_INDEX l k k'" "GET_INDEX l k' = of_nat i" using index_key [of l i k] 2(1) l by auto
      have "?W (Suc l) k' = Some q" using Suc.prems(2) walk_agree [OF k'(1)] k'(2) 2(2) by simp
      then have "a \<in> ?S (Suc l) k'" using Suc.IH [of "Suc l" k' q] 2(3) Suc.prems(1) by simp
      then obtain x j k2 where x: "a = unat x" "Suc l \<le> j" "j \<le> 3" "agree GET_INDEX (Suc l) k' k2" "?W j k2 = Some x" by blast
      have "agree GET_INDEX l k k2" using x(4) by (intro agree_trans [OF k'(1)]) (simp add: agree_Suc)
      then show ?thesis using x Suc_leD [OF x(2)] by blast
    qed
  next
    fix a assume "a \<in> ?S l k"
    then obtain q j k' where a: "a = unat q" "l \<le> j" "j \<le> 3" "agree GET_INDEX l k k'" "?W j k' = Some q" by blast
    show "a \<in> below (Suc d) M p"
    proof (cases "j = l")
      case True
      then show ?thesis using a Suc.prems(2) walk_agree [OF a(4), of pt_child M root] by simp
    next
      case False
      have "?W (Suc l) k' \<noteq> None" using walk_None_mono [of GET_INDEX pt_child M root "Suc l" k' j] a False by auto
      then obtain q1 where q1: "?W (Suc l) k' = Some q1" by blast
      then have c: "pt_child (M (p + 8 * GET_INDEX l k')) = Some q1"
        using Suc.prems(2) walk_agree [OF a(4), of pt_child M root] by simp
      have r: "agree GET_INDEX (Suc l) k' k'" by (simp add: agree_def)
      have "Suc l + d = 3" using Suc.prems(1) by simp
      from Suc.IH [OF this q1] have "a \<in> below d M q1" using r a(1,3,5) a(2) False by (simp only: mem_Collect_eq) (metis Suc_leI le_neq_implies_less)
      then have "a \<in> (case pt_child (M (p + 8 * of_nat (unat (GET_INDEX l k')))) of None \<Rightarrow> {} | Some q \<Rightarrow> below d M q)" using c by simp
      then show ?thesis using get_index_bound [of l k'] by (simp only: below.simps) blast
    qed
  qed
qed

lemma below_root: "below 3 M root = reach GET_INDEX pt_child 3 M root"
  using below_walk [of 0 3 M root 0 root] by (auto simp: reach_def agree_def)

text \<open>The parts below different entries share no page, and none of them holds the table page itself.\<close>

lemma below_apart:
  assumes T: "tree_ok 4096 GET_INDEX pt_child 3 m root" and l: "l < 3" and w: "pt_walk m root l k = Some p"
    and i: "i < 512" and q: "pt_child (mem m (p + 8 * of_nat i)) = Some q"
  shows "unat p \<notin> below (2 - l) (mem m) q"
    "j < 512 \<Longrightarrow> i \<noteq> j \<Longrightarrow> pt_child (mem m (p + 8 * of_nat j)) = Some q' \<Longrightarrow> below (2 - l) (mem m) q \<inter> below (2 - l) (mem m) q' = {}"
    "\<exists>k'. pt_walk m root (Suc l) k' = Some q"
proof -
  have sub: "\<exists>k'. agree GET_INDEX l k k' \<and> GET_INDEX l k' = of_nat i \<and> pt_walk m root (Suc l) k' = Some q \<and>
      below (2 - l) (mem m) q = {unat x | x j k2. Suc l \<le> j \<and> j \<le> 3 \<and> agree GET_INDEX (Suc l) k' k2 \<and> pt_walk m root j k2 = Some x}"
    if ii: "i < 512" and qq: "pt_child (mem m (p + 8 * of_nat i)) = Some q" for i q
  proof -
    obtain k' where k': "agree GET_INDEX l k k'" "GET_INDEX l k' = of_nat i" by (rule index_key [of l i k]) (use ii l in auto)
    then have "pt_walk m root (Suc l) k' = Some q" using w walk_agree [OF k'(1)] qq by simp
    then show ?thesis using k' below_walk [of "Suc l" "2 - l" "mem m" root k' q] l by auto
  qed
  obtain k1 where k1: "GET_INDEX l k1 = of_nat i" "pt_walk m root (Suc l) k1 = Some q"
    "below (2 - l) (mem m) q = {unat x | x j k2. Suc l \<le> j \<and> j \<le> 3 \<and> agree GET_INDEX (Suc l) k1 k2 \<and> pt_walk m root j k2 = Some x}"
    using sub [OF i q] by blast
  show "\<exists>k'. pt_walk m root (Suc l) k' = Some q" using k1(2) by blast
  show "unat p \<notin> below (2 - l) (mem m) q"
  proof
    assume "unat p \<in> below (2 - l) (mem m) q"
    then obtain x j k2 where "unat p = unat x" "Suc l \<le> j" "j \<le> 3" "pt_walk m root j k2 = Some x" unfolding k1(3) by blast
    then show False using tree_okD(3) [OF T _ _ w, of j k2] l by (simp add: word_unat_eq_iff [symmetric])
  qed
  assume j: "j < 512" "i \<noteq> j" "pt_child (mem m (p + 8 * of_nat j)) = Some q'"
  obtain k2 where k2: "GET_INDEX l k2 = of_nat j"
    "below (2 - l) (mem m) q' = {unat x | x j k'. Suc l \<le> j \<and> j \<le> 3 \<and> agree GET_INDEX (Suc l) k2 k' \<and> pt_walk m root j k' = Some x}"
    using sub [OF j(1,3)] by blast
  have ne: "(of_nat i :: u64) \<noteq> of_nat j" using i j(1,2) by (simp add: word_unat_eq_iff unat_of_nat)
  show "below (2 - l) (mem m) q \<inter> below (2 - l) (mem m) q' = {}"
  proof (rule ccontr)
    assume "below (2 - l) (mem m) q \<inter> below (2 - l) (mem m) q' \<noteq> {}"
    then obtain x a ka b kb where x: "Suc l \<le> a" "a \<le> 3" "agree GET_INDEX (Suc l) k1 ka" "pt_walk m root a ka = Some x"
      "b \<le> 3" "agree GET_INDEX (Suc l) k2 kb" "pt_walk m root b kb = Some x"
      unfolding k1(3) k2(2) by (auto simp: word_unat_eq_iff [symmetric])
    then have "agree GET_INDEX a ka kb" using tree_okD(3) [OF T] by blast
    then have "GET_INDEX l ka = GET_INDEX l kb" using x(1) by (simp add: agree_def)
    then show False using x(3,6) k1(1) k2(1) ne by (simp add: agree_Suc)
  qed
qed

section \<open>Releasing the whole table\<close>

lemma each_table_frees:
  assumes T: "tree_ok 4096 GET_INDEX pt_child 3 m root" and l: "l < 3" and w: "pt_walk m root l k = Some p"
    and body: "\<And>q k'. pt_walk m root (Suc l) k' = Some q \<Longrightarrow> frees (mem m) (below (2 - l) (mem m) q) (body q)"
  shows "frees (mem m) (below (3 - l) (mem m) p) (\<lambda>s. bindR (each_table body p s) (free_pages p))"
proof -
  let ?A = "\<lambda>i. case pt_child (mem m (p + 8 * of_nat i)) of None \<Rightarrow> {} | Some q \<Rightarrow> below (2 - l) (mem m) q"
  have p: "p \<noteq> 0" using pt.slot_nat(3) [OF tree_okD(1) [OF T] tree_okD(2) [OF T _ w]] l by simp
  have "frees (mem m) (\<Union>i < 512. ?A i) (each_table body p)"
    unfolding each_table_def PTP_ENTRIES_def
  proof (rule frees_loop; intro allI impI)
    fix i :: nat assume i: "i < 512"
    show "frees (mem m) (?A i) (\<lambda>s. bindR (load p (8 * of_nat i) s)
        (\<lambda>pte. if IS_PTE_INVALID pte \<or> \<not> IS_PTE_TABLE pte then Inr s else body (GET_NEXT_PTP pte) s))"
    proof (cases "pt_child (mem m (p + 8 * of_nat i))")
      case None
      then show ?thesis using p by (auto simp: frees_def freed_def load_def pt_child_def split: if_splits)
    next
      case (Some q)
      obtain k' where "pt_walk m root (Suc l) k' = Some q" using below_apart(3) [OF T l w i Some] by blast
      then have "frees (mem m) (below (2 - l) (mem m) q) (body q)" by (rule body)
      then show ?thesis using Some p by (auto simp: frees_def load_def pt_child_def split: if_splits)
    qed
  next
    fix i j :: nat assume ij: "i < 512" "j < 512" "i \<noteq> j"
    show "?A i \<inter> ?A j = {}"
    proof (cases "pt_child (mem m (p + 8 * of_nat i))")
      case (Some q)
      then show ?thesis using below_apart(2) [OF T l w ij(1) Some ij(2,3)] by (auto split: option.splits)
    qed simp
  qed
  moreover have "unat p \<notin> (\<Union>i < 512. ?A i)" using below_apart(1) [OF T l w] by (auto split: option.splits)
  ultimately have "frees (mem m) ((\<Union>i < 512. ?A i) \<union> {unat p}) (\<lambda>s. bindR (each_table body p s) (free_pages p))"
    by (intro frees_seq frees_page) auto
  moreover have "3 - l = Suc (2 - l)" using l by simp
  ultimately show ?thesis by simp
qed

lemma free_page_table_frees:
  assumes T: "tree_ok 4096 GET_INDEX pt_child 3 m pgtbl"
  shows "frees (mem m) (pt_pages m pgtbl) (free_page_table pgtbl)"
proof -
  have p: "pgtbl \<noteq> 0" using pt.slot_nat(3) [OF tree_okD(1) [OF T] tree_okD(2) [OF T, of 0]] by simp
  have l3: "frees (mem m) (below 0 (mem m) q) (free_pages q)" for q using frees_page by simp
  let ?f2 = "\<lambda>q s. bindR (each_table free_pages q s) (free_pages q)"
  have l2: "frees (mem m) (below (3 - 2) (mem m) q) (?f2 q)" if "pt_walk m pgtbl 2 k = Some q" for q k
    by (rule each_table_frees [OF T _ that]) (use l3 in simp_all)
  let ?f1 = "\<lambda>q s. bindR (each_table ?f2 q s) (free_pages q)"
  have l1: "frees (mem m) (below (3 - 1) (mem m) q) (?f1 q)" if w: "pt_walk m pgtbl 1 k = Some q" for q k
  proof (rule each_table_frees [OF T _ w])
    fix q' k' assume "pt_walk m pgtbl (Suc 1) k' = Some q'"
    then have "pt_walk m pgtbl 2 k' = Some q'" by (simp only: Suc_1)
    from l2 [OF this] show "frees (mem m) (below (2 - 1) (mem m) q') (?f2 q')" by simp
  qed simp
  have "frees (mem m) (below (3 - 0) (mem m) pgtbl) (\<lambda>s. bindR (each_table ?f1 pgtbl s) (free_pages pgtbl))"
  proof (rule each_table_frees [OF T, of 0 0])
    fix q k' assume "pt_walk m pgtbl (Suc 0) k' = Some q"
    then have "pt_walk m pgtbl 1 k' = Some q" by (simp only: One_nat_def)
    from l1 [OF this] show "frees (mem m) (below (2 - 0) (mem m) q) (?f1 q)" by (simp only: diff_zero) simp
  qed simp_all
  then show ?thesis using p by (simp add: below_root frees_def free_page_table_def)
qed

text \<open>C12: \<^verbatim>\<open>free_page_table\<close> of a well-formed table releases every page of the table exactly
  once and nothing else: it never fails, the blocks that stay allocated are the others, their
  contents are untouched, and other address spaces translate as before.\<close>

theorem free_page_table_releases:
  assumes "pgtbl_ok pgtbl m"
  shows "\<exists>m'. free_page_table pgtbl m = Inr m' \<and> mm_ok m' \<and> mem m' = mem m \<and>
    live_blocks m' = live_blocks m - (\<lambda>a. (a, 4096)) ` pt_pages m pgtbl"
proof -
  have "(\<lambda>a. (a, 4096)) ` pt_pages m pgtbl \<subseteq> live_blocks m"
    using tree_okD(2) [OF pgtbl_okD(1) [OF assms]] by (auto simp: reach_def)
  then show ?thesis
    using freesD [OF free_page_table_frees [OF pgtbl_okD(1) [OF assms]] pgtbl_okD(2) [OF assms] refl]
    by (auto simp: freed_def)
qed

theorem free_page_table_releases_witness:
  "\<exists>s a b s1 s2. boot_tables s a b \<and> map_range_in_pgtbl a 0x10000 0x80000 0x2000 VMR_READ s = Inr (0, s1) \<and>
     free_page_table a s1 = Inr s2 \<and> (unat a, 4096) \<in> live_blocks s1 - live_blocks s2"
proof -
  obtain s a b where s: "boot_tables s a b" "pgtbl_ok a s" "500 \<le> card (free_pages_of (pool s))" by (rule boot_pgtbl)
  have f: "3 * page_count 0 0x2000 \<le> card (free_pages_of (pool s))" using s(3) small_range(3) by simp
  obtain s1 where s1: "map_range_in_pgtbl a 0x10000 0x80000 0x2000 VMR_READ s = Inr (0, s1)" "pt_changes a s s1"
    by (rule map_range_spec [OF s(2) small_range(1,2) f])
  have ok: "pgtbl_ok a s1" using s1(2) by (simp add: pt_changes_def)
  have "(unat a, 4096) \<in> live_blocks s1" using tree_okD(2) [OF pgtbl_okD(1) [OF ok], of 0] by simp
  moreover have "walk GET_INDEX pt_child (mem s1) a 0 0 = Some a" by simp
  then have "unat a \<in> pt_pages s1 a" unfolding reach_def by blast
  moreover obtain s2 where "free_page_table a s1 = Inr s2" "live_blocks s2 = live_blocks s1 - (\<lambda>a. (a, 4096)) ` pt_pages s1 a"
    using free_page_table_releases [OF ok] by blast
  ultimately show ?thesis using s(1) s1(1) by blast
qed

end
