(* ===== verification/Ticket_Lock.thy ===== *)
theory Ticket_Lock
  imports Chcore_Prelude
begin

text \<open>The ticket lock of \<^verbatim>\<open>kernel/arch/aarch64/sync/ticket.c\<close>. The exclusive
  load/store loops of the assembly are atomic steps, as their comment says: a fetch-and-add of
  \<^verbatim>\<open>lock->next\<close>, then a wait for \<^verbatim>\<open>lock->owner\<close>. The interleavings of the cores are
  a step relation; a queue of the cores that hold or wait for the lock is the abstraction.\<close>

section \<open>Operations\<close>

record lock_impl =
  owner :: u32
  lk_next :: u32

definition lock_init :: "lock_impl \<Rightarrow> lock_impl" where
  "lock_init l = l\<lparr>owner := 0, lk_next := 0\<rparr>"

text \<open>\<^verbatim>\<open>lockval = atomic_fetch_and_add(lock->next, 1)\<close> and the loop condition.\<close>

definition lock_take :: "lock_impl \<Rightarrow> u32 \<times> lock_impl" where
  "lock_take l = (lk_next l, l\<lparr>lk_next := lk_next l + 1\<rparr>)"

definition lock_granted :: "u32 \<Rightarrow> lock_impl \<Rightarrow> bool" where
  "lock_granted lockval l = (lockval = owner l)"

definition try_lock :: "lock_impl \<Rightarrow> int \<times> lock_impl" where
  "try_lock l = (if lk_next l = owner l then (0, l\<lparr>lk_next := lk_next l + 1\<rparr>) else (- 1, l))"

definition unlock :: "lock_impl \<Rightarrow> lock_impl" where
  "unlock l = l\<lparr>owner := owner l + 1\<rparr>"

definition is_locked :: "lock_impl \<Rightarrow> bool" where
  "is_locked l = (owner l \<noteq> lk_next l)"

text \<open>\<^verbatim>\<open>lock\<close> run by one core while no other core moves: it returns only on a free lock.\<close>

definition lock :: "lock_impl \<Rightarrow> lock_impl res" where
  "lock l = (let (lockval, l) = lock_take l in if lock_granted lockval l then Inr l else Inl Diverge)"

definition kernel_lock_init :: "lock_impl \<Rightarrow> lock_impl" where
  "kernel_lock_init l = lock_init l"

definition lock_kernel :: "lock_impl \<Rightarrow> lock_impl res" where
  "lock_kernel l = lock l"

definition unlock_kernel :: "lock_impl \<Rightarrow> lock_impl res" where
  "unlock_kernel l = BUG_ON (\<not> is_locked l) (Inr (unlock l))"

section \<open>Interleavings\<close>

datatype cpu_pc = Out | Spin u32 | In

record lock_sys =
  lk :: lock_impl
  pc :: "nat \<Rightarrow> cpu_pc"

definition PLAT_CPU_NUM :: nat where "PLAT_CPU_NUM = 4"

inductive lock_step :: "lock_sys \<Rightarrow> lock_sys \<Rightarrow> bool" where
  take: "\<lbrakk>c < PLAT_CPU_NUM; pc s c = Out; lock_take (lk s) = (v, l)\<rbrakk>
    \<Longrightarrow> lock_step s (s\<lparr>lk := l, pc := (pc s)(c := Spin v)\<rparr>)"
| enter: "\<lbrakk>c < PLAT_CPU_NUM; pc s c = Spin v; lock_granted v (lk s)\<rbrakk>
    \<Longrightarrow> lock_step s (s\<lparr>pc := (pc s)(c := In)\<rparr>)"
| try_ok: "\<lbrakk>c < PLAT_CPU_NUM; pc s c = Out; try_lock (lk s) = (0, l)\<rbrakk>
    \<Longrightarrow> lock_step s (s\<lparr>lk := l, pc := (pc s)(c := In)\<rparr>)"
| try_fail: "\<lbrakk>c < PLAT_CPU_NUM; pc s c = Out; try_lock (lk s) = (- 1, l)\<rbrakk> \<Longrightarrow> lock_step s (s\<lparr>lk := l\<rparr>)"
| leave: "\<lbrakk>c < PLAT_CPU_NUM; pc s c = In\<rbrakk>
    \<Longrightarrow> lock_step s (s\<lparr>lk := unlock (lk s), pc := (pc s)(c := Out)\<rparr>)"

definition lock_start :: "lock_impl \<Rightarrow> lock_sys" where
  "lock_start l = \<lparr>lk = kernel_lock_init l, pc = (\<lambda>_. Out)\<rparr>"

text \<open>The queue of cores: the \<open>i\<close>-th holds ticket \<^verbatim>\<open>owner + i\<close>; only the first may be
  inside.\<close>

definition queued :: "lock_sys \<Rightarrow> nat list \<Rightarrow> bool" where
  "queued s q \<longleftrightarrow> distinct q \<and> set q \<subseteq> {..<PLAT_CPU_NUM} \<and>
     lk_next (lk s) = owner (lk s) + of_nat (length q) \<and>
     (\<forall>c. c \<notin> set q \<longrightarrow> pc s c = Out) \<and>
     (\<forall>i < length q. pc s (q ! i) = Spin (owner (lk s) + of_nat i) \<or> (i = 0 \<and> pc s (q ! i) = In))"

lemma queued_short: "queued s q \<Longrightarrow> length q \<le> 4"
  using card_mono [of "{..<PLAT_CPU_NUM}" "set q"]
  by (simp add: queued_def distinct_card PLAT_CPU_NUM_def)

lemma tickets_differ: "i < 5 \<Longrightarrow> j < 5 \<Longrightarrow> (of_nat i :: u32) = of_nat j \<Longrightarrow> i = j"
  by (simp add: word_of_nat_eq_iff take_bit_eq_mod)

lemma queuedD:
  assumes "queued s q"
  shows "distinct q" "set q \<subseteq> {..<PLAT_CPU_NUM}" "lk_next (lk s) = owner (lk s) + of_nat (length q)"
    "c \<notin> set q \<Longrightarrow> pc s c = Out"
    "i < length q \<Longrightarrow> pc s (q ! i) = Spin (owner (lk s) + of_nat i) \<or> (i = 0 \<and> pc s (q ! i) = In)"
  using assms by (simp_all add: queued_def)

lemma queued_out: "queued s q \<Longrightarrow> pc s c = Out \<longleftrightarrow> c \<notin> set q"
  by (metis queuedD(4,5) cpu_pc.distinct(1,3) in_set_conv_nth)

lemma queued_head:
  assumes q: "queued s q" and c: "pc s c = In \<or> pc s c = Spin (owner (lk s))"
  shows "\<exists>q'. q = c # q'"
proof -
  have "c \<in> set q" using queued_out [OF q, of c] c by auto
  then obtain i where i: "i < length q" "q ! i = c" by (metis in_set_conv_nth)
  have "i = 0"
  proof (rule ccontr)
    assume "i \<noteq> 0"
    then have "Spin (owner (lk s) + of_nat i) = Spin (owner (lk s))" using queuedD(5) [OF q i(1)] i(2) c by auto
    then have "(of_nat i :: u32) = of_nat 0" by simp
    then show False using tickets_differ [of i 0] queued_short [OF q] i(1) \<open>i \<noteq> 0\<close> by simp
  qed
  then show ?thesis using i by (cases q) auto
qed

lemma queued_take:
  assumes q: "queued s q" and c: "c < PLAT_CPU_NUM" "pc s c = Out"
  shows "queued (s\<lparr>lk := snd (lock_take (lk s)), pc := (pc s)(c := Spin (fst (lock_take (lk s))))\<rparr>) (q @ [c])"
proof -
  have "c \<notin> set q" using queued_out [OF q] c(2) by simp
  then show ?thesis
    using queuedD(1-4) [OF q] queuedD(5) [OF q] c(1)
    by (auto simp: queued_def lock_take_def nth_append less_Suc_eq nth_mem)
qed

lemma queued_enter:
  assumes q: "queued s q" and c: "pc s c = Spin v" "lock_granted v (lk s)"
  shows "queued (s\<lparr>pc := (pc s)(c := In)\<rparr>) q"
proof -
  obtain q' where q': "q = c # q'" using queued_head [OF q] c by (auto simp: lock_granted_def)
  have "((pc s)(c := In)) (q ! i) = Spin (owner (lk s) + of_nat i) \<or> (i = 0 \<and> ((pc s)(c := In)) (q ! i) = In)"
    if i: "i < length q" for i
  proof (cases i)
    case 0
    then show ?thesis using q' by simp
  next
    case (Suc j)
    then have "q ! i \<noteq> c" using queuedD(1) [OF q] i q' by (auto simp: nth_mem)
    then show ?thesis using queuedD(5) [OF q i] Suc by simp
  qed
  moreover have "((pc s)(c := In)) d = Out" if "d \<notin> set q" for d
    using that queuedD(4) [OF q] q' by auto
  ultimately show ?thesis using queuedD(1-3) [OF q] by (simp add: queued_def)
qed

lemma queued_try:
  assumes q: "queued s q" and c: "c < PLAT_CPU_NUM" "try_lock (lk s) = (0, l)"
  shows "q = [] \<and> queued (s\<lparr>lk := l, pc := (pc s)(c := In)\<rparr>) [c]"
proof -
  have "lk_next (lk s) = owner (lk s)" and l: "l = (lk s)\<lparr>lk_next := lk_next (lk s) + 1\<rparr>"
    using c(2) by (auto simp: try_lock_def split: if_splits)
  then have "(of_nat (length q) :: u32) = of_nat 0" using queuedD(3) [OF q] by simp
  then have "q = []" using tickets_differ [of "length q" 0] queued_short [OF q] by simp
  then show ?thesis using q c(1) l by (auto simp: queued_def)
qed

lemma queued_leave:
  assumes q: "queued s q" and c: "pc s c = In"
  shows "q = c # tl q \<and> queued (s\<lparr>lk := unlock (lk s), pc := (pc s)(c := Out)\<rparr>) (tl q)"
proof -
  obtain q' where q': "q = c # q'" using queued_head [OF q] c by blast
  have "pc s (q' ! i) = Spin (owner (lk s) + 1 + of_nat i) \<and> q' ! i \<noteq> c" if "i < length q'" for i
    using queuedD(5) [OF q, of "Suc i"] queuedD(1) [OF q] that by (auto simp: q' add.assoc nth_mem)
  then show ?thesis using queuedD(1-4) [OF q] by (auto simp: queued_def unlock_def q')
qed

text \<open>Every step of the cores is a step of the queue: join at the end, leave from the front, or
  no change.\<close>

lemma queued_step:
  assumes q: "queued s q" and step: "lock_step s t"
  shows "\<exists>q'. queued t q' \<and> (q' = q \<or> (\<exists>c. q' = q @ [c]) \<or> (\<exists>c. q = c # q' \<and> pc s c = In))"
  using step
proof (cases rule: lock_step.cases)
  case (take c v l)
  with queued_take [OF q take(2,3)] show ?thesis by auto
next
  case (enter c v)
  with queued_enter [OF q enter(3,4)] show ?thesis by auto
next
  case (try_ok c l)
  with queued_try [OF q try_ok(2,4)] show ?thesis by auto
next
  case (try_fail c l)
  then have "t = s" by (auto simp: try_lock_def split: if_splits)
  with q show ?thesis by auto
next
  case (leave c)
  with queued_leave [OF q leave(3)] show ?thesis by auto
qed

lemma queued_reachable:
  assumes "lock_step\<^sup>*\<^sup>* (lock_start l) s"
  shows "\<exists>q. queued s q"
  using assms
proof (induction rule: rtranclp_induct)
  case base
  have "queued (lock_start l) []" by (simp add: queued_def lock_start_def kernel_lock_init_def lock_init_def)
  then show ?case ..
next
  case (step s t)
  then show ?case using queued_step by blast
qed





end
