(* ===== verification/Radix.thy ===== *)
theory Radix
  imports Kmalloc Ticket_Lock
begin

text \<open>The radix tree of \<^verbatim>\<open>kernel/lib/radix.c\<close>, in kernel memory: a node is 16 words
  (children or values, the union of the source), and the tree's header holds the root at offset 0,
  the lock at offset 8 and the deleter at offset 16. NULL is 0. The error pointer of
  \<^verbatim>\<open>new_radix_node\<close> is \<open>None\<close>.\<close>

definition RADIX_NODE_BITS :: nat where "RADIX_NODE_BITS = 4"
definition RADIX_NODE_SIZE :: nat where "RADIX_NODE_SIZE = 16"
definition RADIX_LEVELS :: nat where "RADIX_LEVELS = 16"
definition SIZEOF_RADIX :: u64 where "SIZEOF_RADIX = 24"
definition SIZEOF_RADIX_NODE :: u64 where "SIZEOF_RADIX_NODE = 128"

section \<open>Locks in memory\<close>

definition lock_of_word :: "u64 \<Rightarrow> lock_impl" where
  "lock_of_word w = \<lparr>owner = ucast w, lk_next = ucast (drop_bit 32 w)\<rparr>"

definition word_of_lock :: "lock_impl \<Rightarrow> u64" where
  "word_of_lock l = push_bit 32 (ucast (lk_next l)) OR ucast (owner l)"

definition lock_field :: "u64 \<Rightarrow> u64 \<Rightarrow> mm_state \<Rightarrow> mm_state res" where
  "lock_field base off m =
     bindR (load base off m) (\<lambda>w. bindR (lock (lock_of_word w)) (\<lambda>l. store base off (word_of_lock l) m))"

definition unlock_field :: "u64 \<Rightarrow> u64 \<Rightarrow> mm_state \<Rightarrow> mm_state res" where
  "unlock_field base off m =
     bindR (load base off m) (\<lambda>w. store base off (word_of_lock (unlock (lock_of_word w))) m)"

definition init_lock_field :: "u64 \<Rightarrow> u64 \<Rightarrow> mm_state \<Rightarrow> mm_state res" where
  "init_lock_field base off m =
     bindR (load base off m) (\<lambda>w. store base off (word_of_lock (lock_init (lock_of_word w))) m)"

section \<open>Operations\<close>

definition new_radix :: "mm_state \<Rightarrow> (u64 \<times> mm_state) res" where
  "new_radix m = bindR (kzalloc SIZEOF_RADIX m) (\<lambda>(r, m). BUG_ON (r = 0) (Inr (r, m)))"

definition init_radix :: "u64 \<Rightarrow> mm_state \<Rightarrow> mm_state res" where
  "init_radix radix m =
     bindR (kzalloc SIZEOF_RADIX_NODE m) (\<lambda>(n, m).
     bindR (store radix 0 n m) (\<lambda>m.
     bindR (load radix 0 m) (\<lambda>root. BUG_ON (root = 0)
       (bindR (store radix 16 0 m) (\<lambda>m. init_lock_field radix 8 m)))))"

definition init_radix_w_deleter :: "u64 \<Rightarrow> u64 \<Rightarrow> mm_state \<Rightarrow> mm_state res" where
  "init_radix_w_deleter radix value_deleter m =
     bindR (init_radix radix m) (\<lambda>m. store radix 16 value_deleter m)"

definition new_radix_node :: "mm_state \<Rightarrow> (u64 option \<times> mm_state) res" where
  "new_radix_node m =
     bindR (kzalloc SIZEOF_RADIX_NODE m) (\<lambda>(n, m). Inr (if n = 0 then None else Some n, m))"

text \<open>\<^verbatim>\<open>index[i]\<close>: the \<open>i\<close>-th group of four bits of the key.\<close>

definition radix_index :: "u64 \<Rightarrow> nat \<Rightarrow> u64" where
  "radix_index key i = drop_bit (RADIX_NODE_BITS * i) key AND (of_nat RADIX_NODE_SIZE - 1)"

text \<open>The loop over the intermediate levels, from level \<open>i\<close> down to 1.\<close>

primrec add_levels :: "nat \<Rightarrow> u64 \<Rightarrow> u64 \<Rightarrow> mm_state \<Rightarrow> (u64 option \<times> mm_state) res" where
  "add_levels 0 node key m = Inr (Some node, m)"
| "add_levels (Suc i) node key m =
     (let k = radix_index key (Suc i) in
      bindR (load node (8 * k) m) (\<lambda>child.
        if child = 0 then
          bindR (new_radix_node m) (\<lambda>(new, m).
            case new of
              None \<Rightarrow> Inr (None, m)
            | Some n \<Rightarrow>
              bindR (store node (8 * k) n m) (\<lambda>m.
              bindR (load node (8 * k) m) (\<lambda>child. add_levels i child key m)))
        else add_levels i child key m))"

definition radix_add :: "u64 \<Rightarrow> u64 \<Rightarrow> u64 \<Rightarrow> mm_state \<Rightarrow> (int \<times> mm_state) res" where
  "radix_add radix key value m =
     bindR (lock_field radix 8 m) (\<lambda>m.
     bindR (load radix 0 m) (\<lambda>root.
     bindR (if root = 0 then
              bindR (new_radix_node m) (\<lambda>(new, m).
                case new of
                  None \<Rightarrow> Inr (False, m)
                | Some n \<Rightarrow> bindR (store radix 0 n m) (\<lambda>m. Inr (True, m)))
            else Inr (True, m)) (\<lambda>(ok, m).
       if \<not> ok then bindR (unlock_field radix 8 m) (\<lambda>m. Inr (- ENOMEM, m))
       else
         bindR (load radix 0 m) (\<lambda>root.
         bindR (add_levels (RADIX_LEVELS - 1) root key m) (\<lambda>(leaf, m).
           case leaf of
             None \<Rightarrow> bindR (unlock_field radix 8 m) (\<lambda>m. Inr (- ENOMEM, m))
           | Some node \<Rightarrow>
             let k = radix_index key 0 in
             bindR (load node (8 * k) m) (\<lambda>old.
               BUG_ON (old \<noteq> 0 \<and> value \<noteq> 0)
                 (bindR (store node (8 * k) value m) (\<lambda>m.
                  bindR (unlock_field radix 8 m) (\<lambda>m. Inr (0, m))))))))))"

primrec get_levels :: "nat \<Rightarrow> u64 \<Rightarrow> u64 \<Rightarrow> mm_state \<Rightarrow> u64 option res" where
  "get_levels 0 node key m = Inr (Some node)"
| "get_levels (Suc i) node key m =
     bindR (load node (8 * radix_index key (Suc i)) m) (\<lambda>child.
       if child = 0 then Inr None else get_levels i child key m)"

definition radix_get :: "u64 \<Rightarrow> u64 \<Rightarrow> mm_state \<Rightarrow> (u64 \<times> mm_state) res" where
  "radix_get radix key m =
     bindR (lock_field radix 8 m) (\<lambda>m.
     bindR (load radix 0 m) (\<lambda>root.
     bindR (if root = 0 then Inr None else get_levels (RADIX_LEVELS - 1) root key m) (\<lambda>leaf.
     bindR (case leaf of None \<Rightarrow> Inr 0 | Some node \<Rightarrow> load node (8 * radix_index key 0) m) (\<lambda>ret.
     bindR (unlock_field radix 8 m) (\<lambda>m. Inr (ret, m))))))"

definition radix_del :: "u64 \<Rightarrow> u64 \<Rightarrow> mm_state \<Rightarrow> (int \<times> mm_state) res" where
  "radix_del radix key m = radix_add radix key 0 m"

text \<open>\<^verbatim>\<open>radix_free_node\<close>, by the number of levels below the node. The function the
  deleter points to is an argument: \<open>None\<close> when the pointer is NULL.\<close>

primrec radix_free_node ::
  "(u64 \<Rightarrow> mm_state \<Rightarrow> mm_state res) option \<Rightarrow> nat \<Rightarrow> u64 \<Rightarrow> mm_state \<Rightarrow> mm_state res" where
  "radix_free_node value_deleter 0 node m =
     bindR (case value_deleter of
              None \<Rightarrow> Inr m
            | Some del \<Rightarrow> for_upto RADIX_NODE_SIZE (\<lambda>i m.
                bindR (load node (8 * of_nat i) m) (\<lambda>v. if v \<noteq> 0 then del v m else Inr m)) m)
       (\<lambda>m. kfree node m)"
| "radix_free_node value_deleter (Suc d) node m =
     bindR (for_upto RADIX_NODE_SIZE (\<lambda>i m.
              bindR (load node (8 * of_nat i) m) (\<lambda>c.
                if c \<noteq> 0 then radix_free_node value_deleter d c m else Inr m)) m)
       (\<lambda>m. kfree node m)"

text \<open>\<^verbatim>\<open>radix_free\<close>: the early return leaves the lock taken. The parameter \<open>code\<close>
  gives the function at a code address.\<close>

definition radix_free ::
  "(u64 \<Rightarrow> u64 \<Rightarrow> mm_state \<Rightarrow> mm_state res) \<Rightarrow> u64 \<Rightarrow> mm_state \<Rightarrow> (int \<times> mm_state) res" where
  "radix_free code radix m =
     bindR (lock_field radix 8 m) (\<lambda>m.
     bindR (load radix 0 m) (\<lambda>root.
       if root = 0 then Inr (- EINVAL, m)
       else
         bindR (load radix 16 m) (\<lambda>del.
         bindR (radix_free_node (if del = 0 then None else Some (code del)) (RADIX_LEVELS - 1) root m) (\<lambda>m.
         bindR (unlock_field radix 8 m) (\<lambda>m.
         bindR (kfree radix m) (\<lambda>m. Inr (0, m)))))))"

end
