(* ===== verification/Radix_Correct.thy ===== *)
theory Radix_Correct
  imports Node_Tree Radix
begin

text \<open>The radix tree is a map from keys to values: \<^verbatim>\<open>radix_get\<close> reads it,
  \<^verbatim>\<open>radix_add\<close> updates it at one key, and neither touches memory of anybody else.\<close>

unbundle bit_operations_syntax

section \<open>The tree\<close>

definition rx_idx :: "nat \<Rightarrow> u64 \<Rightarrow> u64" where
  "rx_idx l key = radix_index key (15 - l)"

definition rx_child :: "u64 \<Rightarrow> u64 option" where
  "rx_child e = (if e = 0 then None else Some e)"

lemma rx_child_simps: "rx_child 0 = None" "e \<noteq> 0 \<Longrightarrow> rx_child e = Some e"
  by (simp_all add: rx_child_def)

lemma radix_index_take: "radix_index key i = take_bit 4 (drop_bit (4 * i) key)"
  by (simp add: radix_index_def RADIX_NODE_BITS_def RADIX_NODE_SIZE_def take_bit_eq_mask mask_eq_exp_minus_1)

interpretation rx: node_tree 128 rx_idx rx_child 15
proof
  fix l key
  have "unat (rx_idx l key) < 16" by (simp add: rx_idx_def radix_index_take take_bit_eq_mod unat_mod)
  then show "8 * unat (rx_idx l key) + 8 \<le> 128" by simp
next
  show "rx_child 0 = None" by (simp add: rx_child_def)
qed

text \<open>The sixteen indices determine the key.\<close>

lemma agree_key: "agree rx_idx 16 k k' \<longleftrightarrow> k = k'"
proof
  assume a: "agree rx_idx 16 k k'"
  show "k = k'"
  proof (rule bit_eqI)
    fix n assume "possible_bit TYPE(u64) n"
    then have n: "n < 64" by simp
    have e: "take_bit 4 (drop_bit (4 * (n div 4)) k) = take_bit 4 (drop_bit (4 * (n div 4)) k')"
      using a n by (auto simp: agree_def rx_idx_def radix_index_take dest: spec [of _ "15 - n div 4"])
    have "bit (take_bit 4 (drop_bit (4 * (n div 4)) x)) (n mod 4) = bit x n" for x :: u64
      by (simp add: bit_take_bit_iff bit_drop_bit_eq)
    then show "bit k n = bit k' n" using e by metis
  qed
qed (simp add: agree_def)

abbreviation rx_walk :: "mm_state \<Rightarrow> u64 \<Rightarrow> nat \<Rightarrow> u64 \<Rightarrow> u64 option" where
  "rx_walk m \<equiv> walk rx_idx rx_child (mem m)"

abbreviation rx_nodes :: "mm_state \<Rightarrow> u64 \<Rightarrow> nat set" where
  "rx_nodes m \<equiv> reach rx_idx rx_child 15 (mem m)"

abbreviation rx_leaf :: "mm_state \<Rightarrow> u64 \<Rightarrow> u64 \<Rightarrow> u64" where
  "rx_leaf m \<equiv> leaf_entry rx_idx rx_child 15 (mem m)"

abbreviation rx_tree :: "mm_state \<Rightarrow> u64 \<Rightarrow> bool" where
  "rx_tree m \<equiv> tree_ok 128 rx_idx rx_child 15 m"

section \<open>A new node\<close>

lemma order_128: "slab_order_of 128 = Inr 7" and order_24: "slab_order_of 24 = Inr 5"
proof -
  obtain k where "size_to_order 128 = Inr k" "least_order (unat (128 :: u64)) k"
    by (rule size_to_order_spec [of 128]) simp_all
  moreover have "least_order 128 7" by (simp add: least_order_def)
  ultimately show "slab_order_of 128 = Inr 7"
    using least_order_unique [of 128 k 7] by (simp add: slab_order_of_def SLAB_MIN_ORDER_def)
  obtain k where "size_to_order 24 = Inr k" "least_order (unat (24 :: u64)) k"
    by (rule size_to_order_spec [of 24]) simp_all
  moreover have "least_order 24 5" by (simp add: least_order_def)
  ultimately show "slab_order_of 24 = Inr 5"
    using least_order_unique [of 24 k 5] by (simp add: slab_order_of_def SLAB_MIN_ORDER_def)
qed

lemma kzalloc_slot:
  assumes ok: "mm_ok m" and slots: "has_slots (Suc n) ord m" and sz: "sz \<le> 2048" "slab_order_of sz = Inr ord"
  obtains a m' where "kzalloc sz m = Inr (a, m')" "a \<noteq> 0" "mm_ok m'" "has_slots n ord m'"
    "(unat a, 2 ^ ord) \<notin> live_blocks m" "live_blocks m' = insert (unat a, 2 ^ ord) (live_blocks m)"
    "\<forall>x. unat x \<in> block_bytes (unat a, unat sz) \<longrightarrow> mem m' x = 0"
    "\<forall>c x. c \<in> live_blocks m \<longrightarrow> unat x \<in> block_bytes c \<longrightarrow> mem m' x = mem m x"
    "\<forall>o2 k. o2 \<noteq> ord \<longrightarrow> has_slots k o2 m \<longrightarrow> has_slots k o2 m'"
proof -
  obtain a m1 where k: "kmalloc sz m = Inr (a, m1)" "a \<noteq> 0" "has_slots n ord m1"
    "\<forall>o2 k. o2 \<noteq> ord \<longrightarrow> has_slots k o2 m \<longrightarrow> has_slots k o2 m1" by (rule kmalloc_slot [OF slots sz])
  have bs: "block_size sz = Inr (2 ^ ord)" and le: "unat sz \<le> 2 ^ ord"
    using sz slab_order_of_spec [OF sz(1)] by (auto simp: block_size_def)
  have s: "mm_ok m1" "(unat a, 2 ^ ord) \<notin> live_blocks m" "live_blocks m1 = insert (unat a, 2 ^ ord) (live_blocks m)"
    "\<forall>c \<in> live_blocks m. \<forall>x. unat x \<in> block_bytes c \<longrightarrow> mem m1 x = mem m x"
    using kmalloc_step [OF ok k(1)] k(2) bs by auto
  define M where "M = (\<lambda>x. if unat a \<le> unat x \<and> unat x < unat a + unat sz then 0 else mem m1 x)"
  have w: "\<forall>x. (\<forall>c \<in> live_blocks m1. unat x \<notin> block_bytes c) \<longrightarrow> M x = mem m1 x"
    using s(3) le by (auto simp: M_def block_bytes_def)
  have sl: "has_slots i j (m1\<lparr>mem := M\<rparr>)" if "has_slots i j m1" for i j using that w by (rule has_slots_write)
  have fr: "mem (m1\<lparr>mem := M\<rparr>) x = mem m x" if c: "c \<in> live_blocks m" and x: "unat x \<in> block_bytes c" for c x
  proof -
    have "block_bytes c \<inter> block_bytes (unat a, 2 ^ ord) = {}"
      by (rule live_blocks_disjoint [OF s(1)]) (use s(2,3) c in auto)
    then have "unat x \<notin> block_bytes (unat a, 2 ^ ord)" using x by blast
    then show ?thesis using s(4) c x le by (auto simp: M_def block_bytes_def)
  qed
  show thesis
  proof (rule that [of a "m1\<lparr>mem := M\<rparr>"])
    show "kzalloc sz m = Inr (a, m1\<lparr>mem := M\<rparr>)" using k(1,2) by (simp add: kzalloc_def zero_words_def M_def)
  qed (use k(2-4) s(2,3) sl fr mm_ok_write [OF s(1) w] in \<open>auto simp: M_def block_bytes_def\<close>)
qed

lemma new_node:
  assumes ok: "mm_ok m" and slots: "has_slots (Suc n) 7 m"
  obtains a m' where "new_radix_node m = Inr (Some a, m')" "a \<noteq> 0" "mm_ok m'" "has_slots n 7 m'"
    "(unat a, 128) \<notin> live_blocks m" "live_blocks m' = insert (unat a, 128) (live_blocks m)"
    "\<forall>x. unat x \<in> block_bytes (unat a, 128) \<longrightarrow> mem m' x = 0"
    "\<forall>c x. c \<in> live_blocks m \<longrightarrow> unat x \<in> block_bytes c \<longrightarrow> mem m' x = mem m x"
  by (rule kzalloc_slot [OF ok slots _ order_128])
    (simp_all add: new_radix_node_def SIZEOF_RADIX_NODE_def that)

section \<open>Walking down\<close>

lemma get_levels_spec:
  assumes T: "rx_tree m root"
  shows "rx_walk m root l key = Some node \<Longrightarrow> l + i = 15 \<Longrightarrow> get_levels i node key m = Inr (rx_walk m root 15 key)"
proof (induction i arbitrary: l node)
  case (Suc i)
  have n: "node \<noteq> 0" using rx.slot_nat(3) [OF tree_okD(1) [OF T] tree_okD(2) [OF T _ Suc.prems(1)]] Suc.prems(2) by simp
  let ?e = "mem m (node + 8 * radix_index key (Suc i))"
  have "rx_idx l key = radix_index key (Suc i)" using Suc.prems(2) by (simp add: rx_idx_def flip: Suc.prems(2))
  then have s: "rx_walk m root (Suc l) key = rx_child ?e" using Suc.prems(1) by simp
  show ?case
  proof (cases "?e = 0")
    case True
    then have "rx_walk m root (Suc l) key = None" using s by (simp add: rx_child_simps)
    then have "rx_walk m root 15 key = None" by (rule walk_None_mono) (use Suc.prems(2) in simp)
    then show ?thesis using n True by (simp add: load_def)
  next
    case False
    then have "get_levels i ?e key m = Inr (rx_walk m root 15 key)"
      using Suc.IH [of "Suc l" ?e] s Suc.prems(2) by (simp add: rx_child_simps)
    then show ?thesis using n False by (simp add: load_def)
  qed
qed simp

text \<open>What linking further nodes leaves unchanged.\<close>

definition rx_grows :: "u64 \<Rightarrow> mm_state \<Rightarrow> mm_state \<Rightarrow> bool" where
  "rx_grows root m m' \<longleftrightarrow> rx_tree m' root \<and> (\<forall>key. rx_leaf m' root key = rx_leaf m root key) \<and>
     keeps_outside (rx_nodes m root) m m' \<and> (\<forall>a \<in> rx_nodes m' root. a \<in> rx_nodes m root \<or> (\<forall>c \<in> live_blocks m. fst c \<noteq> a))"

lemma rx_grows_refl: "rx_tree m root \<Longrightarrow> rx_grows root m m"
  by (simp add: rx_grows_def keeps_outside_refl)

lemma rx_grows_trans: "rx_grows root m m1 \<Longrightarrow> rx_grows root m1 m2 \<Longrightarrow> rx_grows root m m2"
proof -
  assume a: "rx_grows root m m1" and b: "rx_grows root m1 m2"
  have live: "live_blocks m \<subseteq> live_blocks m1" using a by (simp add: rx_grows_def keeps_outside_def)
  have "keeps_outside (rx_nodes m root) m m2"
    by (rule keeps_outside_trans [of "rx_nodes m root" m m1 "rx_nodes m1 root"]) (use a b in \<open>auto simp: rx_grows_def\<close>)
  moreover have "x \<in> rx_nodes m root \<or> (\<forall>c \<in> live_blocks m. fst c \<noteq> x)" if "x \<in> rx_nodes m2 root" for x
    using that a b live unfolding rx_grows_def by blast
  ultimately show ?thesis using a b by (simp add: rx_grows_def)
qed

lemma link_radix_node:
  assumes T: "rx_tree m root" and l: "l < 15" and w: "rx_walk m root l key = Some node"
    and none: "mem m (node + 8 * rx_idx l key) = 0" and slots: "has_slots (Suc n) 7 m"
  obtains a m1 m' where "new_radix_node m = Inr (Some a, m1)" "store node (8 * rx_idx l key) a m1 = Inr m'"
    "load node (8 * rx_idx l key) m' = Inr a" "rx_walk m' root (Suc l) key = Some a" "rx_grows root m m'" "has_slots n 7 m'"
proof -
  note mok = tree_okD(1) [OF T]
  have nl: "(unat node, 128) \<in> live_blocks m" by (rule tree_okD(2) [OF T _ w]) (use l in simp)
  obtain a m1 where a: "new_radix_node m = Inr (Some a, m1)" "a \<noteq> 0" "mm_ok m1" "has_slots n 7 m1"
    "(unat a, 128) \<notin> live_blocks m" "live_blocks m1 = insert (unat a, 128) (live_blocks m)"
    "\<forall>x. unat x \<in> block_bytes (unat a, 128) \<longrightarrow> mem m1 x = 0"
    "\<forall>c x. c \<in> live_blocks m \<longrightarrow> unat x \<in> block_bytes c \<longrightarrow> mem m1 x = mem m x" by (rule new_node [OF mok slots])
  let ?e = "node + 8 * rx_idx l key"
  let ?m = "m1\<lparr>mem := (mem m1)(?e := a)\<rparr>"
  have nz: "node \<noteq> 0" and en: "unat ?e \<in> block_bytes (unat node, 128)"
    using rx.slot_nat(2,3) [OF mok nl] by blast+
  have w1: "\<forall>x. (\<forall>c \<in> live_blocks m1. unat x \<notin> block_bytes c) \<longrightarrow> ((mem m1)(?e := a)) x = mem m1 x"
    using a(6) nl en by auto
  note W = mm_ok_write [OF a(3) w1]
  have sl: "has_slots n 7 ?m" using a(4) w1 by (rule has_slots_write)
  have "block_bytes (unat node, 128) \<inter> block_bytes (unat a, 128) = {}"
    by (rule live_blocks_disjoint [OF a(3)]) (use a(5,6) nl in auto)
  then have "unat ?e \<notin> block_bytes (unat a, 128)" using en by blast
  have in_a: "unat (a + 8 * rx_idx j k) \<in> block_bytes (unat a, 128)" for j k
    by (rule rx.slot_nat(2) [OF a(3)]) (use a(6) in simp)
  have zero: "\<forall>j k. mem ?m (a + 8 * rx_idx j k) = 0"
  proof (intro allI)
    fix j k
    have "a + 8 * rx_idx j k \<noteq> ?e" using in_a [of j k] \<open>unat ?e \<notin> block_bytes (unat a, 128)\<close> by auto
    then show "mem ?m (a + 8 * rx_idx j k) = 0" using a(7) in_a [of j k] by simp
  qed
  have frame: "\<forall>c x. c \<in> live_blocks m \<longrightarrow> unat x \<in> block_bytes c \<longrightarrow> x \<noteq> ?e \<longrightarrow> mem ?m x = mem m x" using a(8) by simp
  have chn: "rx_child (mem m ?e) = None" using none by (simp add: rx_child_simps)
  have lk: "rx_child (mem ?m ?e) = Some a" using a(2) by (simp add: rx_child_simps)
  note L = rx.link_node [OF T l w chn W(1) a(5) trans [OF W(2) a(6)] lk zero frame]
  note fresh = fresh_address [OF mok a(3,5,6)]
  have "rx_grows root m ?m"
    unfolding rx_grows_def using L(1,3,4,5) fresh by blast
  then show thesis
  proof (rule_tac that [of a m1 ?m])
    show "store node (8 * rx_idx l key) a m1 = Inr ?m" "load node (8 * rx_idx l key) ?m = Inr a"
      using nz by (simp_all add: store_def load_def)
  qed (use a(1) L(2) sl in auto)
qed

lemma add_levels_spec:
  assumes "rx_tree m root" "rx_walk m root l key = Some node" "l + i = 15" "has_slots (n + i) 7 m"
  shows "\<exists>leaf m'. add_levels i node key m = Inr (Some leaf, m') \<and> rx_grows root m m' \<and>
    rx_walk m' root 15 key = Some leaf \<and> has_slots n 7 m'"
  using assms
proof (induction i arbitrary: l node m)
  case 0
  then show ?case by (auto intro: rx_grows_refl)
next
  case (Suc i)
  have l: "l < 15" using Suc.prems(3) by simp
  have idx: "rx_idx l key = radix_index key (Suc i)" using Suc.prems(3) by (simp add: rx_idx_def flip: Suc.prems(3))
  have nz: "node \<noteq> 0"
    using rx.slot_nat(3) [OF tree_okD(1) [OF Suc.prems(1)] tree_okD(2) [OF Suc.prems(1) _ Suc.prems(2)]] l by simp
  let ?e = "mem m (node + 8 * radix_index key (Suc i))"
  show ?case
  proof (cases "?e = 0")
    case True
    have slots: "has_slots (Suc (n + i)) 7 m" using Suc.prems(4) by simp
    obtain a m1 m2 where a: "new_radix_node m = Inr (Some a, m1)" "store node (8 * rx_idx l key) a m1 = Inr m2"
      "load node (8 * rx_idx l key) m2 = Inr a" "rx_walk m2 root (Suc l) key = Some a" "rx_grows root m m2" "has_slots (n + i) 7 m2"
      by (rule link_radix_node [OF Suc.prems(1) l Suc.prems(2) _ slots]) (use True idx in simp)
    have "rx_tree m2 root" using a(5) by (simp add: rx_grows_def)
    from Suc.IH [OF this a(4) _ a(6)] obtain leaf m' where r: "add_levels i a key m2 = Inr (Some leaf, m')"
      "rx_grows root m2 m'" "rx_walk m' root 15 key = Some leaf" "has_slots n 7 m'" using Suc.prems(3) by auto
    then show ?thesis using nz True a(1-3) rx_grows_trans [OF a(5) r(2)] by (simp add: load_def idx Let_def)
  next
    case False
    have "rx_walk m root (Suc l) key = Some ?e" using Suc.prems(2) False by (simp add: idx rx_child_simps)
    moreover have "has_slots (n + i) 7 m" using Suc.prems(4) by (auto simp: has_slots_def)
    ultimately obtain leaf m' where "add_levels i ?e key m = Inr (Some leaf, m')"
      "rx_grows root m m'" "rx_walk m' root 15 key = Some leaf" "has_slots n 7 m'"
      using Suc.IH [OF Suc.prems(1), of "Suc l" ?e] Suc.prems(3) by auto
    then show ?thesis using nz False by (simp add: load_def Let_def)
  qed
qed

section \<open>The header\<close>

definition radix_tree :: "u64 \<Rightarrow> mm_state \<Rightarrow> bool" where
  "radix_tree radix m \<longleftrightarrow> (unat radix, 32) \<in> live_blocks m \<and> rx_tree m (mem m radix) \<and> unat radix \<notin> rx_nodes m (mem m radix)"

definition radix_ok :: "u64 \<Rightarrow> mm_state \<Rightarrow> bool" where
  "radix_ok radix m \<longleftrightarrow> radix_tree radix m \<and> \<not> is_locked (lock_of_word (mem m (radix + 8)))"

text \<open>The abstract state: the value of every key, 0 for none.\<close>

definition radix_map :: "u64 \<Rightarrow> mm_state \<Rightarrow> u64 \<Rightarrow> u64" where
  "radix_map radix m = rx_leaf m (mem m radix)"

lemma lock_word: "lock_of_word (word_of_lock l) = l"
proof -
  have "ucast (push_bit 32 (ucast (lk_next l) :: u64) OR ucast (owner l)) = owner l"
    by (rule bit_eqI) (auto simp: bit_simps)
  moreover have "ucast (drop_bit 32 (push_bit 32 (ucast (lk_next l) :: u64) OR ucast (owner l))) = lk_next l"
    by (rule bit_eqI) (auto simp: bit_simps dest: bit_imp_le_length)
  ultimately show ?thesis by (simp add: lock_of_word_def word_of_lock_def)
qed

text \<open>Writing the lock word changes nothing else.\<close>

lemma header_write:
  fixes v :: u64
  assumes R: "radix_tree radix m"
  defines "m' \<equiv> m\<lparr>mem := (mem m)(radix + 8 := v)\<rparr>"
  shows "radix_tree radix m'" "radix_map radix m' = radix_map radix m" "live_blocks m' = live_blocks m"
    "mem m' radix = mem m radix" "mem m' (radix + 8) = v" "has_slots n ord m \<Longrightarrow> has_slots n ord m'"
    "keeps_outside {unat radix} m m'"
proof -
  have h: "(unat radix, 32) \<in> live_blocks m" and T: "rx_tree m (mem m radix)" and nr: "unat radix \<notin> rx_nodes m (mem m radix)"
    using R by (simp_all add: radix_tree_def)
  note mok = tree_okD(1) [OF T]
  have "unat (radix + 8) = unat radix + 8" using unat_plus_small [of radix 8] live_block_fits(2) [OF mok h] by simp
  then have b: "unat (radix + 8) \<in> block_bytes (unat radix, 32)" by (simp add: block_bytes_def)
  have w: "\<forall>x. (\<forall>c \<in> live_blocks m. unat x \<notin> block_bytes c) \<longrightarrow> ((mem m)(radix + 8 := v)) x = mem m x"
    using h b by auto
  note W = mm_ok_write [OF mok w, folded m'_def]
  show live: "live_blocks m' = live_blocks m" by (rule W(2))
  show "has_slots n ord m'" if "has_slots n ord m" unfolding m'_def using that w by (rule has_slots_write)
  have "radix \<noteq> radix + 8" by simp
  then show r: "mem m' radix = mem m radix" by (simp add: m'_def)
  show "mem m' (radix + 8) = v" by (simp add: m'_def)
  show k: "keeps_outside {unat radix} m m'"
    unfolding keeps_outside_def
  proof (intro conjI ballI impI allI)
    fix c and x :: u64 assume c: "c \<in> live_blocks m" "fst c \<notin> {unat radix}" and x: "unat x \<in> block_bytes c"
    have "block_bytes c \<inter> block_bytes (unat radix, 32) = {}"
      by (rule live_blocks_disjoint [OF mok c(1) h]) (use c(2) in auto)
    then have "x \<noteq> radix + 8" using x b by blast
    then show "mem m' x = mem m x" by (simp add: m'_def)
  qed (simp add: live)
  have dis: "rx_nodes m (mem m radix) \<inter> {unat radix} = {}" using nr by simp
  note O = rx.other_tree [OF T W(1) k dis]
  show "radix_tree radix m'" using O(1,3) nr h live r by (simp add: radix_tree_def)
  show "radix_map radix m' = radix_map radix m" using O(2) r by (auto simp: radix_map_def)
qed

lemma radix_nonzero: "radix_tree radix m \<Longrightarrow> radix \<noteq> 0"
  using live_block_fits(1) [of m 0 32] by (auto simp: radix_tree_def tree_ok_def)

lemma lock_field_free:
  assumes "radix_ok radix m"
  obtains v where "lock_field radix 8 m = Inr (m\<lparr>mem := (mem m)(radix + 8 := v)\<rparr>)"
    "lk_next (lock_of_word v) = owner (lock_of_word v) + 1"
proof -
  let ?l = "lock_of_word (mem m (radix + 8))"
  have free: "lk_next ?l = owner ?l" and T: "radix_tree radix m" using assms by (simp_all add: radix_ok_def is_locked_def)
  have "radix \<noteq> 0" by (rule radix_nonzero [OF T])
  then show thesis
    using free by (intro that [of "word_of_lock (?l\<lparr>lk_next := lk_next ?l + 1\<rparr>)"])
      (simp_all add: lock_field_def load_def store_def lock_def lock_take_def lock_granted_def lock_word)
qed

lemma unlock_field_taken:
  assumes T: "radix_tree radix m" and "lk_next (lock_of_word (mem m (radix + 8))) = owner (lock_of_word (mem m (radix + 8))) + 1"
  obtains m' where "unlock_field radix 8 m = Inr m'" "radix_ok radix m'" "radix_map radix m' = radix_map radix m"
    "keeps_outside {unat radix} m m'" "has_slots n ord m \<longrightarrow> has_slots n ord m'" "mem m' radix = mem m radix"
proof -
  let ?l = "lock_of_word (mem m (radix + 8))"
  note H = header_write [OF T, where v = "word_of_lock (unlock ?l)"]
  have "\<not> is_locked (unlock ?l)" using assms(2) by (simp add: is_locked_def unlock_def)
  then have "radix_ok radix (m\<lparr>mem := (mem m)(radix + 8 := word_of_lock (unlock ?l))\<rparr>)"
    using H(1) by (simp add: radix_ok_def lock_word)
  then show thesis
    by (rule_tac that [of "m\<lparr>mem := (mem m)(radix + 8 := word_of_lock (unlock ?l))\<rparr>"]) (use H radix_nonzero [OF T] in \<open>auto simp: unlock_field_def load_def store_def\<close>)
qed

section \<open>The two operations\<close>

lemma radix_get_spec:
  assumes ok: "radix_ok radix m"
  obtains m' where "radix_get radix key m = Inr (radix_map radix m key, m')" "radix_ok radix m'"
    "radix_map radix m' = radix_map radix m" "keeps_outside {unat radix} m m'" "has_slots n ord m \<longrightarrow> has_slots n ord m'"
proof -
  have T: "radix_tree radix m" using ok by (simp add: radix_ok_def)
  obtain v where v: "lock_field radix 8 m = Inr (m\<lparr>mem := (mem m)(radix + 8 := v)\<rparr>)"
    "lk_next (lock_of_word v) = owner (lock_of_word v) + 1" by (rule lock_field_free [OF ok])
  define m1 where "m1 = m\<lparr>mem := (mem m)(radix + 8 := v)\<rparr>"
  note H = header_write [OF T, where v = v, folded m1_def]
  let ?root = "mem m1 radix"
  have T1: "rx_tree m1 ?root" using H(1) by (simp add: radix_tree_def)
  have root: "?root \<noteq> 0" using rx.slot_nat(3) [OF tree_okD(1) [OF T1] tree_okD(2) [OF T1, of 0]] by simp
  have g: "get_levels 15 ?root key m1 = Inr (rx_walk m1 ?root 15 key)" by (rule get_levels_spec [OF T1, of 0]) simp_all
  have leaf: "(case rx_walk m1 ?root 15 key of None \<Rightarrow> Inr 0 | Some node \<Rightarrow> load node (8 * radix_index key 0) m1) =
      Inr (radix_map radix m key)"
  proof (cases "rx_walk m1 ?root 15 key")
    case None
    then show ?thesis unfolding H(2) [symmetric] by (simp add: radix_map_def leaf_entry_def)
  next
    case (Some node)
    have "node \<noteq> 0" using rx.slot_nat(3) [OF tree_okD(1) [OF T1] tree_okD(2) [OF T1 _ Some]] by simp
    then show ?thesis unfolding H(2) [symmetric] using Some by (simp add: radix_map_def leaf_entry_def load_def rx_idx_def)
  qed
  obtain m' where u: "unlock_field radix 8 m1 = Inr m'" "radix_ok radix m'" "radix_map radix m' = radix_map radix m1"
    "keeps_outside {unat radix} m1 m'" "has_slots n ord m1 \<longrightarrow> has_slots n ord m'"
    by (rule unlock_field_taken [OF H(1)]) (use H(5) v(2) in auto)
  have "radix_get radix key m = Inr (radix_map radix m key, m')"
    using v(1) root g leaf u(1) radix_nonzero [OF T] by (simp add: radix_get_def m1_def [symmetric] load_def RADIX_LEVELS_def split: option.splits)
  moreover have "keeps_outside {unat radix} m m'" by (rule keeps_outside_trans [OF H(7) u(4)]) auto
  ultimately show thesis using u(2,3,5) H(2,6) by (intro that) auto
qed

lemma radix_get_value: "radix_ok radix m \<Longrightarrow> \<exists>m'. radix_get radix k m = Inr (radix_map radix m k, m')"
  by (erule radix_get_spec [of radix m k]) blast

text \<open>Storing a value in the leaf of a key.\<close>

lemma store_leaf:
  assumes T: "radix_tree radix m" and w: "rx_walk m (mem m radix) 15 key = Some leaf"
  obtains m' where "load leaf (8 * radix_index key 0) m = Inr (radix_map radix m key)"
    "store leaf (8 * radix_index key 0) v m = Inr m'" "radix_tree radix m'" "radix_map radix m' = (radix_map radix m)(key := v)"
    "mem m' radix = mem m radix" "mem m' (radix + 8) = mem m (radix + 8)" "keeps_outside (rx_nodes m (mem m radix)) m m'"
    "has_slots n ord m \<longrightarrow> has_slots n ord m'"
proof -
  have h: "(unat radix, 32) \<in> live_blocks m" and t: "rx_tree m (mem m radix)" and nr: "unat radix \<notin> rx_nodes m (mem m radix)"
    using T by (simp_all add: radix_tree_def)
  note mok = tree_okD(1) [OF t]
  have ll: "(unat leaf, 128) \<in> live_blocks m" by (rule tree_okD(2) [OF t _ w]) simp
  let ?e = "leaf + 8 * rx_idx 15 key"
  have lz: "leaf \<noteq> 0" and le: "unat ?e \<in> block_bytes (unat leaf, 128)" using rx.slot_nat(2,3) [OF mok ll] by blast+
  define m' where "m' = m\<lparr>mem := (mem m)(?e := v)\<rparr>"
  note L = rx.leaf_write [OF t w, where v = v, folded m'_def]
  have idx: "radix_index key 0 = rx_idx 15 key" by (simp add: rx_idx_def)
  have fr: "mem m' x = mem m x" if "unat x \<in> block_bytes (unat radix, 32)" for x
    using L(5) h nr that unfolding keeps_outside_def by auto
  have "unat (radix + 8) = unat radix + 8" using unat_plus_small [of radix 8] live_block_fits(2) [OF mok h] by simp
  then have r: "mem m' radix = mem m radix" "mem m' (radix + 8) = mem m (radix + 8)" by (auto intro!: fr simp: block_bytes_def)
  have "agree rx_idx (Suc 15) key k \<longleftrightarrow> k = key" for k using agree_key [of key k] by auto
  then have "radix_map radix m' = (radix_map radix m)(key := v)" using L(2) r(1) by (auto simp: radix_map_def fun_eq_iff)
  moreover have "\<forall>x. (\<forall>c \<in> live_blocks m. unat x \<notin> block_bytes c) \<longrightarrow> ((mem m)(?e := v)) x = mem m x" using ll le by auto
  then have "has_slots n ord m \<longrightarrow> has_slots n ord m'" unfolding m'_def using has_slots_write by blast
  ultimately show thesis
    using L(1,3,4,5) r h nr w lz
    by (intro that [of m']) (simp_all add: load_def store_def idx radix_tree_def radix_map_def leaf_entry_def m'_def)
qed

lemma radix_add_spec:
  assumes ok: "radix_ok radix m" and slots: "has_slots (n + 15) 7 m" and fresh: "radix_map radix m key = 0 \<or> v = 0"
  obtains m' where "radix_add radix key v m = Inr (0, m')" "radix_ok radix m'" "radix_map radix m' = (radix_map radix m)(key := v)"
    "keeps_outside (insert (unat radix) (rx_nodes m (mem m radix))) m m'" "has_slots n 7 m'"
proof -
  have T: "radix_tree radix m" using ok by (simp add: radix_ok_def)
  obtain w where w: "lock_field radix 8 m = Inr (m\<lparr>mem := (mem m)(radix + 8 := w)\<rparr>)"
    "lk_next (lock_of_word w) = owner (lock_of_word w) + 1" by (rule lock_field_free [OF ok])
  define m1 where "m1 = m\<lparr>mem := (mem m)(radix + 8 := w)\<rparr>"
  note H = header_write [OF T, where v = w, folded m1_def]
  let ?root = "mem m1 radix"
  have T1: "rx_tree m1 ?root" and h1: "(unat radix, 32) \<in> live_blocks m1" and nr: "unat radix \<notin> rx_nodes m1 ?root"
    using H(1) by (simp_all add: radix_tree_def)
  have root: "?root \<noteq> 0" using rx.slot_nat(3) [OF tree_okD(1) [OF T1] tree_okD(2) [OF T1, of 0]] by simp
  obtain leaf m2 where a: "add_levels 15 ?root key m1 = Inr (Some leaf, m2)" "rx_grows ?root m1 m2"
    "rx_walk m2 ?root 15 key = Some leaf" "has_slots n 7 m2"
    using add_levels_spec [OF T1, of 0 key ?root 15 n] H(6) [OF slots] by auto
  have fr: "mem m2 x = mem m1 x" if "unat x \<in> block_bytes (unat radix, 32)" for x
    using a(2) h1 nr that unfolding rx_grows_def keeps_outside_def by auto
  have "unat (radix + 8) = unat radix + 8" using unat_plus_small [of radix 8] live_block_fits(2) [OF tree_okD(1) [OF T1] h1] by simp
  then have r2: "mem m2 radix = ?root" "mem m2 (radix + 8) = w" using H(5) fr by (auto simp: block_bytes_def)
  have map2: "radix_map radix m2 = radix_map radix m" using a(2) r2(1) H(2) by (auto simp: radix_map_def rx_grows_def fun_eq_iff)
  have "unat radix \<notin> rx_nodes m2 ?root" using a(2) nr h1 by (fastforce simp: rx_grows_def)
  then have T2: "radix_tree radix m2" using a(2) h1 r2(1) by (auto simp: radix_tree_def rx_grows_def keeps_outside_def)
  obtain m3 where s: "load leaf (8 * radix_index key 0) m2 = Inr (radix_map radix m2 key)"
    "store leaf (8 * radix_index key 0) v m2 = Inr m3" "radix_tree radix m3" "radix_map radix m3 = (radix_map radix m2)(key := v)"
    "mem m3 radix = mem m2 radix" "mem m3 (radix + 8) = mem m2 (radix + 8)" "keeps_outside (rx_nodes m2 (mem m2 radix)) m2 m3"
    "has_slots n 7 m2 \<longrightarrow> has_slots n 7 m3" by (rule store_leaf [OF T2]) (use a(3) r2(1) in simp)
  obtain m4 where u: "unlock_field radix 8 m3 = Inr m4" "radix_ok radix m4" "radix_map radix m4 = radix_map radix m3"
    "keeps_outside {unat radix} m3 m4" "has_slots n 7 m3 \<longrightarrow> has_slots n 7 m4"
    by (rule unlock_field_taken [OF s(3)]) (use s(6) r2(2) w(2) in auto)
  have run: "radix_add radix key v m = Inr (0, m4)"
    using w(1) root a(1) s(1,2) u(1) radix_nonzero [OF T] fresh map2
    by (auto simp: radix_add_def m1_def [symmetric] load_def [of radix] RADIX_LEVELS_def Let_def BUG_ON_def)
  have n1: "rx_nodes m1 ?root = rx_nodes m (mem m radix)"
    using rx.other_tree(3) [OF _ tree_okD(1) [OF T1] H(7)] T H(4) by (simp add: radix_tree_def)
  have k2: "keeps_outside (insert (unat radix) (rx_nodes m (mem m radix))) m m2"
    by (rule keeps_outside_trans [OF H(7), of "rx_nodes m1 ?root"]) (use a(2) n1 in \<open>auto simp: rx_grows_def\<close>)
  have live: "live_blocks m = live_blocks m1" by (simp add: H(3))
  have "keeps_outside (insert (unat radix) (rx_nodes m (mem m radix))) m m3"
    by (rule keeps_outside_trans [OF k2 s(7)]) (use a(2) n1 live r2(1) in \<open>fastforce simp: rx_grows_def\<close>)+
  then have "keeps_outside (insert (unat radix) (rx_nodes m (mem m radix))) m m4"
    by (rule keeps_outside_trans [OF _ u(4)]) auto
  with run show thesis using u(2,3,5) s(4,8) a(4) map2 by (intro that) auto
qed

section \<open>A new tree\<close>

lemma header_offsets:
  fixes r :: u64
  assumes "unat r + 32 < 2 ^ 64"
  shows "unat (r + 8) = unat r + 8" "unat (r + 16) = unat r + 16" "r + 8 \<noteq> r" "r + 16 \<noteq> r" "r + 16 \<noteq> r + 8"
  using unat_plus_small [of r 8] unat_plus_small [of r 16] assms by (auto simp: word_unat_eq_iff)

lemma init_radix_spec:
  assumes ok: "mm_ok m" and r: "(unat r, 32) \<in> live_blocks m" and slots: "has_slots (Suc n) 7 m"
  obtains m' where "init_radix r m = Inr m'" "radix_ok r m'" "radix_map r m' = (\<lambda>_. 0)" "has_slots n 7 m'"
    "keeps_outside {unat r} m m'"
proof -
  obtain a m1 where a: "kzalloc 128 m = Inr (a, m1)" "a \<noteq> 0" "mm_ok m1" "has_slots n 7 m1"
    "(unat a, 2 ^ 7) \<notin> live_blocks m" "live_blocks m1 = insert (unat a, 2 ^ 7) (live_blocks m)"
    "\<forall>x. unat x \<in> block_bytes (unat a, unat (128 :: u64)) \<longrightarrow> mem m1 x = 0"
    "\<forall>c x. c \<in> live_blocks m \<longrightarrow> unat x \<in> block_bytes c \<longrightarrow> mem m1 x = mem m x"
    by (rule kzalloc_slot [OF ok slots _ order_128]) simp
  note off = header_offsets [OF live_block_fits(2) [OF ok r]]
  have rz: "r \<noteq> 0" using live_block_fits(1) [OF ok r] by auto
  define w where "w = word_of_lock (lock_init (lock_of_word (mem m1 (r + 8))))"
  define M where "M = (mem m1)(r := a, r + 16 := 0, r + 8 := w)"
  have run: "init_radix r m = Inr (m1\<lparr>mem := M\<rparr>)"
    using a(1,2) rz off by (simp add: init_radix_def SIZEOF_RADIX_NODE_def store_def load_def BUG_ON_def init_lock_field_def M_def w_def)
  have inr: "unat x \<in> block_bytes (unat r, 32)" if "M x \<noteq> mem m1 x" for x
    using that off by (auto simp: M_def block_bytes_def split: if_splits)
  have rl: "(unat r, 32) \<in> live_blocks m1" using a(6) r by simp
  have w1: "\<forall>x. (\<forall>c \<in> live_blocks m1. unat x \<notin> block_bytes c) \<longrightarrow> M x = mem m1 x" using inr rl by blast
  note W = mm_ok_write [OF a(3) w1]
  have sl: "has_slots n 7 (m1\<lparr>mem := M\<rparr>)" using a(4) w1 by (rule has_slots_write)
  have al: "(unat a, 128) \<in> live_blocks (m1\<lparr>mem := M\<rparr>)" using W(2) a(6) by simp
  have dis: "block_bytes (unat r, 32) \<inter> block_bytes (unat a, 128) = {}"
    by (rule live_blocks_disjoint [OF a(3) rl]) (use a(5,6) r in auto)
  have zero: "mem (m1\<lparr>mem := M\<rparr>) (a + 8 * rx_idx j k) = 0" for j k
  proof -
    have x: "unat (a + 8 * rx_idx j k) \<in> block_bytes (unat a, 128)" by (rule rx.slot_nat(2) [OF W(1) al])
    then have "M (a + 8 * rx_idx j k) = mem m1 (a + 8 * rx_idx j k)" using inr dis by blast
    then show ?thesis using a(7) x by simp
  qed
  note T = rx.fresh_root [OF W(1) al zero]
  have root: "M r = a" "M (r + 8) = w" using off by (simp_all add: M_def)
  have "unat r \<noteq> unat a" using fresh_address [OF ok a(3,5,6) r] by simp
  then have ok': "radix_ok r (m1\<lparr>mem := M\<rparr>)"
    using T(1,4) root W(2) rl by (simp add: radix_ok_def radix_tree_def w_def lock_word lock_init_def is_locked_def)
  have map: "radix_map r (m1\<lparr>mem := M\<rparr>) = (\<lambda>_. 0)" using T(3) root by (simp add: radix_map_def fun_eq_iff)
  have "keeps_outside {unat r} m (m1\<lparr>mem := M\<rparr>)"
    unfolding keeps_outside_def
  proof (intro conjI ballI impI allI)
    fix c and x :: u64 assume c: "c \<in> live_blocks m" "fst c \<notin> {unat r}" and x: "unat x \<in> block_bytes c"
    have "block_bytes c \<inter> block_bytes (unat r, 32) = {}" by (rule live_blocks_disjoint [OF ok c(1) r]) (use c(2) in auto)
    then have "M x = mem m1 x" using inr x by blast
    then show "mem (m1\<lparr>mem := M\<rparr>) x = mem m x" using a(8) c(1) x by simp
  qed (use W(2) a(6) in auto)
  then show thesis using run ok' map sl by (intro that)
qed

section \<open>Properties of the radix tree\<close>

text \<open>C8: a radix tree is a map. On a well-formed tree whose lock is free, with room for the nodes of
  one path, \<^verbatim>\<open>radix_add\<close> of a new key (or the removal of a key) returns 0, and afterwards
  \<^verbatim>\<open>radix_get\<close> returns the new value for that key and for every other key what it returned
  before.\<close>

theorem radix_add_get:
  assumes "radix_ok radix m" "has_slots 15 7 m" "radix_map radix m key = 0 \<or> v = 0"
  shows "\<exists>m'. radix_add radix key v m = Inr (0, m') \<and> radix_ok radix m' \<and>
    (\<forall>k. \<exists>x m1 m2. radix_get radix k m = Inr (x, m1) \<and> radix_get radix k m' = Inr (if k = key then v else x, m2))"
proof -
  obtain m' where m': "radix_add radix key v m = Inr (0, m')" "radix_ok radix m'" "radix_map radix m' = (radix_map radix m)(key := v)"
    using radix_add_spec [OF assms(1) _ assms(3), of 0] assms(2) by auto
  have "\<exists>x m1 m2. radix_get radix k m = Inr (x, m1) \<and> radix_get radix k m' = Inr (if k = key then v else x, m2)" for k
    using radix_get_value [OF assms(1), of k] radix_get_value [OF m'(2), of k] unfolding m'(3) fun_upd_apply by blast
  with m' show ?thesis by blast
qed

lemma boot_radix:
  obtains m r m1 m2 where "mm_init 0x200000 0 (\<lambda>_. 0) = Inr m" "new_radix m = Inr (r, m1)" "init_radix r m1 = Inr m2"
    "radix_ok r m2" "radix_map r m2 = (\<lambda>_. 0)" "has_slots 900 7 m2"
proof -
  obtain m where m: "mm_init 0x200000 0 (\<lambda>_. 0) = Inr m" "mm_ok m" "\<forall>ord. slab_order ord \<longrightarrow> has_slots 1000 ord m"
    by (rule mm_boot [of "0x200000" "\<lambda>_. 0"]) simp
  have "has_slots 1000 5 m" "has_slots 1000 7 m" using m(3) by simp_all
  then have s: "has_slots (Suc 999) 5 m" "has_slots (Suc 900) 7 m" by (auto simp: has_slots_def)
  obtain r m1 where r: "kzalloc 24 m = Inr (r, m1)" "r \<noteq> 0" "mm_ok m1"
    "live_blocks m1 = insert (unat r, 2 ^ 5) (live_blocks m)"
    "\<forall>o2 k. o2 \<noteq> 5 \<longrightarrow> has_slots k o2 m \<longrightarrow> has_slots k o2 m1"
    by (rule kzalloc_slot [OF m(2) s(1) _ order_24]) simp
  have s1: "has_slots (Suc 900) 7 m1" and rl: "(unat r, 32) \<in> live_blocks m1" using r(4,5) s(2) by simp_all
  have "new_radix m = Inr (r, m1)" using r(1,2) by (simp add: new_radix_def SIZEOF_RADIX_def BUG_ON_def)
  moreover obtain m2 where "init_radix r m1 = Inr m2" "radix_ok r m2" "radix_map r m2 = (\<lambda>_. 0)" "has_slots 900 7 m2"
    by (rule init_radix_spec [OF r(3) rl s1])
  ultimately show thesis using that m(1) by blast
qed

theorem radix_add_get_witness:
  "\<exists>m r m1 m2 m3 m4. mm_init 0x200000 0 (\<lambda>_. 0) = Inr m \<and> new_radix m = Inr (r, m1) \<and> init_radix r m1 = Inr m2 \<and>
     radix_add r 0x123456789 77 m2 = Inr (0, m3) \<and> radix_get r 0x123456789 m3 = Inr (77, m4)"
proof -
  obtain m r m1 m2 where b: "mm_init 0x200000 0 (\<lambda>_. 0) = Inr m" "new_radix m = Inr (r, m1)" "init_radix r m1 = Inr m2"
    "radix_ok r m2" "radix_map r m2 = (\<lambda>_. 0)" "has_slots 900 7 m2" by (rule boot_radix)
  have s: "has_slots 15 7 m2" using b(6) by (auto simp: has_slots_def)
  have "radix_map r m2 0x123456789 = 0 \<or> (77 :: u64) = 0" using b(5) by simp
  from radix_add_get [OF b(4) s this] obtain m3 where m3: "radix_add r 0x123456789 77 m2 = Inr (0, m3)"
    "\<forall>k. \<exists>x m1 m2a. radix_get r k m2 = Inr (x, m1) \<and> radix_get r k m3 = Inr (if k = 0x123456789 then 77 else x, m2a)" by blast
  have "\<exists>m4. radix_get r 0x123456789 m3 = Inr (77, m4)" using m3(2) [rule_format, of "0x123456789"] by auto
  with b(1-3) m3(1) show ?thesis by blast
qed

text \<open>C32: \<^verbatim>\<open>init_radix\<close> makes an empty tree of a fresh header: the call succeeds whenever a node
  can be allocated, the tree is well-formed with a free lock, no key has a value, and no block but the
  header is written.\<close>

theorem init_radix_empty:
  assumes "mm_ok m" "(unat r, 32) \<in> live_blocks m" "has_slots 1 7 m"
  shows "\<exists>m'. init_radix r m = Inr m' \<and> radix_ok r m' \<and> keeps_outside {unat r} m m' \<and>
    (\<forall>k. \<exists>m''. radix_get r k m' = Inr (0, m''))"
proof -
  have s: "has_slots (Suc 0) 7 m" using assms(3) by simp
  obtain m' where m': "init_radix r m = Inr m'" "radix_ok r m'" "radix_map r m' = (\<lambda>_. 0)" "keeps_outside {unat r} m m'"
    by (rule init_radix_spec [OF assms(1,2) s])
  have "\<exists>m''. radix_get r k m' = Inr (0, m'')" for k using radix_get_value [OF m'(2), of k] m'(3) by simp
  with m' show ?thesis by blast
qed

theorem init_radix_empty_witness:
  "\<exists>m r m1 m2 m3. mm_init 0x200000 0 (\<lambda>_. 0) = Inr m \<and> new_radix m = Inr (r, m1) \<and> init_radix r m1 = Inr m2 \<and>
     radix_ok r m2 \<and> radix_get r 5 m2 = Inr (0, m3)"
proof -
  obtain m where m: "mm_init 0x200000 0 (\<lambda>_. 0) = Inr m" "mm_ok m" "\<forall>ord. slab_order ord \<longrightarrow> has_slots 1000 ord m"
    by (rule mm_boot [of "0x200000" "\<lambda>_. 0"]) simp
  have "has_slots 1000 5 m" "has_slots 1000 7 m" using m(3) by simp_all
  then have s: "has_slots (Suc 999) 5 m" "has_slots 1 7 m" by (auto simp: has_slots_def)
  obtain r m1 where r: "kzalloc 24 m = Inr (r, m1)" "r \<noteq> 0" "mm_ok m1" "live_blocks m1 = insert (unat r, 2 ^ 5) (live_blocks m)"
    "\<forall>o2 k. o2 \<noteq> 5 \<longrightarrow> has_slots k o2 m \<longrightarrow> has_slots k o2 m1" by (rule kzalloc_slot [OF m(2) s(1) _ order_24]) simp
  have "(unat r, 32) \<in> live_blocks m1" "has_slots 1 7 m1" using r(4,5) s(2) by simp_all
  from init_radix_empty [OF r(3) this] obtain m2 where m2: "init_radix r m1 = Inr m2" "radix_ok r m2"
    "\<forall>k. \<exists>m''. radix_get r k m2 = Inr (0, m'')" by blast
  have "new_radix m = Inr (r, m1)" using r(1,2) by (simp add: new_radix_def SIZEOF_RADIX_def BUG_ON_def)
  with m(1) m2 show ?thesis by blast
qed

end
