(* ===== verification/Op_Monad.thy ===== *)
theory Op_Monad
  imports Chcore_Prelude
begin

text \<open>State transformers that may fault: the shape of every operation above memory allocation, in the
  kernel and in the servers. The state is a parameter; its heaps are partial maps keyed by address.\<close>

section \<open>Operations on a state\<close>

type_synonym ('s, 'a) sop = "'s \<Rightarrow> ('a \<times> 's) res"

definition ret :: "'a \<Rightarrow> ('s, 'a) sop" where
  "ret x s = Inr (x, s)"

definition bindS :: "('s, 'a) sop \<Rightarrow> ('a \<Rightarrow> ('s, 'b) sop) \<Rightarrow> ('s, 'b) sop" where
  "bindS m f s = bindR (m s) (\<lambda>(x, s). f x s)"

definition fault :: "fault \<Rightarrow> ('s, 'a) sop" where
  "fault e s = Inl e"

definition gets :: "('s \<Rightarrow> 'a) \<Rightarrow> ('s, 'a) sop" where
  "gets f s = Inr (f s, s)"

definition modify :: "('s \<Rightarrow> 's) \<Rightarrow> ('s, unit) sop" where
  "modify f s = Inr ((), f s)"

definition thenS :: "('s, 'a) sop \<Rightarrow> ('s, 'b) sop \<Rightarrow> ('s, 'b) sop" where
  "thenS m n = bindS m (\<lambda>_. n)"

definition bug_on :: "bool \<Rightarrow> ('s, unit) sop" where
  "bug_on c = (if c then fault Bug else ret ())"

text \<open>Read and update an entry of a heap.\<close>

definition readS :: "('s \<Rightarrow> u64 \<Rightarrow> 'a option) \<Rightarrow> u64 \<Rightarrow> ('s, 'a) sop" where
  "readS heap p s = (case heap s p of None \<Rightarrow> Inl BadPtr | Some x \<Rightarrow> Inr (x, s))"

lemma ret_simp [simp, outcome_simps]: "ret x s = Inr (x, s)"
  by (simp add: ret_def)

lemma bindS_simp [outcome_simps]: "bindS m f s = bindR (m s) (\<lambda>(x, s). f x s)"
  by (simp add: bindS_def)

lemma thenS_simp [outcome_simps]: "thenS m n s = bindR (m s) (\<lambda>(x, s). n s)"
  by (simp add: thenS_def bindS_def)

lemma fault_simp [simp, outcome_simps]: "fault e s = Inl e"
  by (simp add: fault_def)

lemma gets_simp [simp, outcome_simps]: "gets f s = Inr (f s, s)"
  by (simp add: gets_def)

lemma modify_simp [simp, outcome_simps]: "modify f s = Inr ((), f s)"
  by (simp add: modify_def)

lemma bug_on_simp [simp, outcome_simps]: "bug_on c s = (if c then Inl Bug else Inr ((), s))"
  by (simp add: bug_on_def)

lemma readS_Some [simp, outcome_simps]: "heap s p = Some x \<Longrightarrow> readS heap p s = Inr (x, s)"
  by (simp add: readS_def)

lemma readS_None [simp, outcome_simps]: "heap s p = None \<Longrightarrow> readS heap p s = Inl BadPtr"
  by (simp add: readS_def)

lemma readS_eq_Inr [outcome_simps]: "readS heap p s = Inr (x, t) \<longleftrightarrow> heap s p = Some x \<and> t = s"
  by (auto simp: readS_def split: option.splits)

text \<open>A loop over the elements of a list.\<close>

fun each :: "'x list \<Rightarrow> ('x \<Rightarrow> ('s, unit) sop) \<Rightarrow> ('s, unit) sop" where
  "each [] body = ret ()"
| "each (x # xs) body = thenS (body x) (each xs body)"

text \<open>An outcome as an operation that leaves the state alone.\<close>

definition liftR :: "'a res \<Rightarrow> ('s, 'a) sop" where
  "liftR r s = bindR r (\<lambda>x. Inr (x, s))"

lemma liftR_Inr [simp, outcome_simps]: "liftR (Inr x) s = Inr (x, s)"
  by (simp add: liftR_def)

lemma liftR_Inl [simp, outcome_simps]: "liftR (Inl e) s = Inl e"
  by (simp add: liftR_def)

text \<open>The conversion of a 64-bit argument to \<^verbatim>\<open>int\<close>, and back.\<close>

definition to_int :: "u64 \<Rightarrow> int" where
  "to_int x = sint (ucast x :: u32)"

end
