(* ===== verification/Kernel_State.thy ===== *)
theory Kernel_State
  imports Kmalloc Ticket_Lock Op_Monad
begin

text \<open>The state of the kernel above memory allocation. Every struct of the source that is allocated
  with \<^verbatim>\<open>kmalloc\<close> lives in a heap of its type, keyed by the address the allocator returned;
  reading an address that holds no such struct is a fault. A kernel object is a header
  (\<^verbatim>\<open>struct object\<close>, 40 bytes) followed by its payload, so \<^verbatim>\<open>object->opaque\<close> and
  \<^verbatim>\<open>container_of\<close> add and subtract 40. Intrusive lists are the sequences of the addresses they
  link. Operations are state transformers that may fault.\<close>

section \<open>Objects and capabilities\<close>

datatype object_type =
  TYPE_CAP_GROUP | TYPE_THREAD | TYPE_CONNECTION | TYPE_PMO | TYPE_VMSPACE | TYPE_SEMAPHORE

record object =
  obj_type :: object_type
  obj_size :: u64
  copies_head :: "u64 list"
  refcount :: u64

record object_slot =
  slot_id :: int
  slot_cap_group :: u64
  isvalid :: bool
  slot_rights :: u64
  slot_object :: u64

record slot_table =
  slots_size :: nat
  slots :: "u64 list"
  full_slots_bmp :: "u64 list"
  slots_bmp :: "u64 list"
  slots_ptr :: u64
  full_slots_bmp_ptr :: u64
  slots_bmp_ptr :: u64

record cap_group =
  slot_table :: slot_table
  thread_list :: "u64 list"
  thread_cnt :: int
  pid :: u64
  cap_group_name :: "8 word list"

section \<open>Memory objects\<close>

datatype pmo_type = PMO_ANONYM | PMO_DATA | PMO_SHM | PMO_DEVICE | PMO_DATA_NOCACHE | PMO_FORBID | PMO_OTHER u64

record pmobject =
  pmo_radix :: u64
  pmo_start :: paddr
  pmo_size :: u64
  pmo_type :: pmo_type

record vmregion =
  vmr_start :: vaddr
  vmr_size :: u64
  vmr_perm :: u64
  vmr_pmo :: u64

record vmspace =
  vmr_list :: "u64 list"
  pgtbl :: vaddr
  pcid :: u64
  heap_vmr :: u64
  user_current_heap :: vaddr
  user_current_mmap_addr :: vaddr

section \<open>Threads\<close>

datatype thread_state = TS_INIT | TS_READY | TS_INTER | TS_RUNNING | TS_EXIT | TS_WAITING
datatype thread_exit_state = TE_RUNNING | TE_EXITING | TE_EXITED
datatype thread_type = TYPE_IDLE | TYPE_KERNEL | TYPE_USER | TYPE_SHADOW | TYPE_TESTS

record thread_ctx =
  ec_reg :: "nat \<Rightarrow> u64"
  ctx_sc :: u64
  ctx_type :: thread_type
  ctx_state :: thread_state
  ctx_prio :: u32
  ctx_affinity :: int
  ctx_cpuid :: int
  thread_exit_state :: thread_exit_state

text \<open>\<^verbatim>\<open>prev_thread\<close> is a pointer, with \<open>- 1\<close> for \<^verbatim>\<open>THREAD_ITSELF\<close>.\<close>

record thread =
  thread_ctx_ptr :: u64
  prev_thread :: u64
  thread_vmspace :: u64
  thread_cap_group :: u64
  general_ipc_config :: u64
  active_conn :: u64

record queue_meta =
  queue :: "u64 list"
  queue_len :: u32

record semaphore =
  sem_count :: u32
  waiting_threads_count :: u32
  waiting_threads :: "u64 list"

section \<open>Inter-process communication\<close>

record ipc_vm_config =
  stack_base_addr :: u64
  stack_size :: u64
  buf_base_addr :: u64
  buf_size :: u64

record server_ipc_config =
  cfg_callback :: u64
  max_client :: u64
  conn_bmp :: "u64 list"
  conn_bmp_ptr :: u64
  vm_config :: ipc_vm_config

record ipc_connection =
  conn_source :: u64
  conn_target :: u64
  server_conn_cap :: u64
  server_stack_top :: u64
  client_user_addr :: u64
  server_user_addr :: u64
  conn_ipc_msg :: u64

section \<open>Devices\<close>

record ipi_data =
  ipi_start :: "16 word"
  ipi_finish :: "16 word"
  ipi_vector :: u32
  ipi_args :: "u64 list"

text \<open>The registers and the per-core variables of the devices the kernel drives: the generic timer
  (\<^verbatim>\<open>cntpct_el0\<close>, \<^verbatim>\<open>cntfrq_el0\<close>, \<^verbatim>\<open>cntp_tval_el0\<close>, \<^verbatim>\<open>cntp_ctl_el0\<close>), the
  interrupt sources and mailboxes of the cores, the serial line, the boot status of the cores, the
  fault address register, and the big kernel lock.\<close>

record hardware =
  big_kernel_lock :: lock_impl
  cntpct :: u64
  cntfrq :: u64
  cntp_tval_el0 :: "nat \<Rightarrow> u64"
  cntp_ctl_el0 :: "nat \<Rightarrow> u64"
  cntp_tval :: u64
  tick_per_us :: u64
  cntp_init :: u64
  next_expire :: "nat \<Rightarrow> u64"
  global_ipi_data :: "nat \<Rightarrow> ipi_data"
  core_mbox :: "nat \<Rightarrow> u32"
  core_irq_source :: "nat \<Rightarrow> u32"
  uart_out :: "8 word list"
  uart_in :: "u32 list"
  cpu_running :: "nat \<Rightarrow> bool"
  far_el1 :: u64

section \<open>The kernel\<close>

text \<open>\<open>umem\<close> are the words of user memory as the current address space shows them, \<open>cpu\<close>
  is the core that executes (\<^verbatim>\<open>smp_get_cpu_id\<close>), \<open>tlb\<close> the cached translations as pairs of an
  address space identifier and a virtual frame number, \<open>junk\<close> what a field that was never written
  holds after its struct came from \<^verbatim>\<open>kmalloc\<close>.\<close>

record kernel =
  mm :: mm_state
  objects :: "u64 \<Rightarrow> object option"
  object_slots :: "u64 \<Rightarrow> object_slot option"
  cap_groups :: "u64 \<Rightarrow> cap_group option"
  pmos :: "u64 \<Rightarrow> pmobject option"
  vmregions :: "u64 \<Rightarrow> vmregion option"
  vmspaces :: "u64 \<Rightarrow> vmspace option"
  threads :: "u64 \<Rightarrow> thread option"
  thread_ctxs :: "u64 \<Rightarrow> thread_ctx option"
  budgets :: "u64 \<Rightarrow> u32 option"
  semaphores :: "u64 \<Rightarrow> semaphore option"
  ipc_configs :: "u64 \<Rightarrow> server_ipc_config option"
  connections :: "u64 \<Rightarrow> ipc_connection option"
  ready_queues :: "nat \<Rightarrow> queue_meta"
  current_threads :: "nat \<Rightarrow> u64"
  idle_threads :: "nat \<Rightarrow> u64"
  cpu :: nat
  umem :: "u64 \<Rightarrow> u64"
  tlb :: "(u64 \<times> u64) set"
  ttbr0 :: u64
  junk :: "u64 \<Rightarrow> u64"
  root_cap_group :: u64
  hw :: hardware

text \<open>A system call returns to its caller, or leaves the kernel by \<^verbatim>\<open>eret_to_thread\<close> with the
  address of the context it restores.\<close>

datatype 'a ctl = Ret 'a | Eret u64

type_synonym 'a kop = "(kernel, 'a) sop"

text \<open>Running an operation on kernel memory.\<close>

definition liftM :: "(mm_state \<Rightarrow> ('a \<times> mm_state) res) \<Rightarrow> 'a kop" where
  "liftM f k = bindR (f (mm k)) (\<lambda>(x, m). Inr (x, k\<lparr>mm := m\<rparr>))"

definition liftU :: "(mm_state \<Rightarrow> mm_state res) \<Rightarrow> unit kop" where
  "liftU f k = bindR (f (mm k)) (\<lambda>m. Inr ((), k\<lparr>mm := m\<rparr>))"

section \<open>User memory\<close>

text \<open>\<^verbatim>\<open>kernel/arch/aarch64/mm/uaccess.c\<close>: only the start of the user buffer is checked. A
  copy of \<open>n\<close> words; an address of kernel space reaches kernel memory.\<close>

definition read_word :: "u64 \<Rightarrow> kernel \<Rightarrow> u64" where
  "read_word a k = (if is_user_addr a then umem k a else mem (mm k) a)"

definition write_word :: "u64 \<Rightarrow> u64 \<Rightarrow> kernel \<Rightarrow> kernel" where
  "write_word a v k =
     (if is_user_addr a then k\<lparr>umem := (umem k)(a := v)\<rparr>
      else k\<lparr>mm := (mm k)\<lparr>mem := (mem (mm k))(a := v)\<rparr>\<rparr>)"

definition copy_from_user :: "u64 \<Rightarrow> nat \<Rightarrow> u64 list kop" where
  "copy_from_user user_buf n =
     thenS (bug_on (user_buf \<ge> KBASE))
       (gets (\<lambda>k. map (\<lambda>i. read_word (user_buf + 8 * of_nat i) k) [0..<n]))"

fun write_words :: "u64 \<Rightarrow> u64 list \<Rightarrow> kernel \<Rightarrow> kernel" where
  "write_words a [] k = k"
| "write_words a (v # vs) k = write_words (a + 8) vs (write_word a v k)"

definition copy_to_user :: "u64 \<Rightarrow> u64 list \<Rightarrow> unit kop" where
  "copy_to_user user_buf vs =
     thenS (bug_on (user_buf \<ge> KBASE)) (modify (write_words user_buf vs))"

text \<open>Copies of bytes and of 32-bit integers, which are parts of words.\<close>

definition read_byte :: "u64 \<Rightarrow> kernel \<Rightarrow> 8 word" where
  "read_byte a k = ucast (drop_bit (8 * unat (a AND 7)) (read_word (a AND NOT 7) k))"

definition read_bytes :: "u64 \<Rightarrow> nat \<Rightarrow> kernel \<Rightarrow> 8 word list" where
  "read_bytes a n k = map (\<lambda>i. read_byte (a + of_nat i) k) [0..<n]"

definition copy_bytes_from_user :: "u64 \<Rightarrow> nat \<Rightarrow> 8 word list kop" where
  "copy_bytes_from_user user_buf n =
     thenS (bug_on (user_buf \<ge> KBASE)) (gets (read_bytes user_buf n))"

definition write_byte :: "u64 \<Rightarrow> 8 word \<Rightarrow> kernel \<Rightarrow> kernel" where
  "write_byte a v k =
     (let pos = 8 * unat (a AND 7); w = read_word (a AND NOT 7) k in
      write_word (a AND NOT 7) ((w AND NOT (push_bit pos (mask 8))) OR push_bit pos (ucast v)) k)"

fun write_bytes :: "u64 \<Rightarrow> 8 word list \<Rightarrow> kernel \<Rightarrow> kernel" where
  "write_bytes a [] k = k"
| "write_bytes a (v # vs) k = write_bytes (a + 1) vs (write_byte a v k)"

definition copy_bytes_to_user :: "u64 \<Rightarrow> 8 word list \<Rightarrow> unit kop" where
  "copy_bytes_to_user user_buf vs =
     thenS (bug_on (user_buf \<ge> KBASE)) (modify (write_bytes user_buf vs))"

definition read_int :: "u64 \<Rightarrow> kernel \<Rightarrow> int" where
  "read_int a k = sint (ucast (drop_bit (8 * unat (a AND 4)) (read_word (a AND NOT 7) k)) :: u32)"

definition write_int :: "u64 \<Rightarrow> int \<Rightarrow> kernel \<Rightarrow> kernel" where
  "write_int a v k =
     (let pos = 8 * unat (a AND 4); w = read_word (a AND NOT 7) k in
      write_word (a AND NOT 7)
        ((w AND NOT (push_bit pos (mask 32))) OR push_bit pos (ucast (word_of_int v :: u32))) k)"

definition copy_ints_from_user :: "u64 \<Rightarrow> nat \<Rightarrow> int list kop" where
  "copy_ints_from_user user_buf n =
     thenS (bug_on (user_buf \<ge> KBASE)) (gets (\<lambda>k. map (\<lambda>i. read_int (user_buf + 4 * of_nat i) k) [0..<n]))"

fun write_ints :: "u64 \<Rightarrow> int list \<Rightarrow> kernel \<Rightarrow> kernel" where
  "write_ints a [] k = k"
| "write_ints a (v # vs) k = write_ints (a + 4) vs (write_int a v k)"

definition copy_ints_to_user :: "u64 \<Rightarrow> int list \<Rightarrow> unit kop" where
  "copy_ints_to_user user_buf vs =
     thenS (bug_on (user_buf \<ge> KBASE)) (modify (write_ints user_buf vs))"

section \<open>The current thread\<close>

definition current_thread :: "u64 kop" where
  "current_thread = gets (\<lambda>k. current_threads k (cpu k))"

definition current_cap_group :: "u64 kop" where
  "current_cap_group = bindS current_thread (\<lambda>t. bindS (readS threads t) (\<lambda>th. ret (thread_cap_group th)))"

definition current_vmspace :: "u64 kop" where
  "current_vmspace = bindS current_thread (\<lambda>t. bindS (readS threads t) (\<lambda>th. ret (thread_vmspace th)))"

definition ctx_of :: "u64 \<Rightarrow> thread_ctx kop" where
  "ctx_of t = bindS (readS threads t) (\<lambda>th. readS thread_ctxs (thread_ctx_ptr th))"

definition upd_thread :: "u64 \<Rightarrow> (thread \<Rightarrow> thread) \<Rightarrow> unit kop" where
  "upd_thread t f = bindS (readS threads t) (\<lambda>th. modify (\<lambda>k. k\<lparr>threads := (threads k)(t \<mapsto> f th)\<rparr>))"

definition upd_ctx :: "u64 \<Rightarrow> (thread_ctx \<Rightarrow> thread_ctx) \<Rightarrow> unit kop" where
  "upd_ctx t f = bindS (readS threads t) (\<lambda>th. bindS (readS thread_ctxs (thread_ctx_ptr th)) (\<lambda>c.
     modify (\<lambda>k. k\<lparr>thread_ctxs := (thread_ctxs k)(thread_ctx_ptr th \<mapsto> f c)\<rparr>)))"

end
