(* ===== verification/Slot_Table.thy ===== *)
theory Slot_Table
  imports Kernel_State Bitops
begin

text \<open>The capability table of a process: the slot-table half of \<^verbatim>\<open>kernel/object/cap_group.c\<close> and
  the inline functions of \<^verbatim>\<open>kernel/include/object/cap_group.h\<close>. The three arrays of
  \<^verbatim>\<open>struct slot_table\<close> are lists; their addresses are kept for \<^verbatim>\<open>kfree\<close>.\<close>

definition BASE_OBJECT_NUM :: nat where "BASE_OBJECT_NUM = 64"

definition upd_cap_group :: "u64 \<Rightarrow> (cap_group \<Rightarrow> cap_group) \<Rightarrow> unit kop" where
  "upd_cap_group g f = bindS (readS cap_groups g) (\<lambda>c. modify (\<lambda>k. k\<lparr>cap_groups := (cap_groups k)(g \<mapsto> f c)\<rparr>))"

definition upd_table :: "u64 \<Rightarrow> (slot_table \<Rightarrow> slot_table) \<Rightarrow> unit kop" where
  "upd_table g f = upd_cap_group g (\<lambda>c. c\<lparr>slot_table := f (slot_table c)\<rparr>)"

definition is_valid_slot_id :: "slot_table \<Rightarrow> int \<Rightarrow> bool res" where
  "is_valid_slot_id t i =
     (if i < 0 \<or> i \<ge> int (slots_size t) then Inr False
      else bindR (bmp_get_bit (nat i) (slots_bmp t)) (\<lambda>b.
        if b = 0 then Inr False
        else if nat i < length (slots t) then BUG_ON (slots t ! nat i = 0) (Inr True)
        else Inl OutOfRange))"

text \<open>\<^verbatim>\<open>slot_table_init\<close>: the table as it is written, and the return value; the arrays that were
  allocated are freed again when a later allocation fails.\<close>

definition slot_table_init :: "nat \<Rightarrow> (int \<times> slot_table) kop" where
  "slot_table_init size0 =
     (let sz = DIV_ROUND_UP size0 BASE_OBJECT_NUM * BASE_OBJECT_NUM;
          t = \<lparr>slots_size = sz, slots = [], full_slots_bmp = [], slots_bmp = [], slots_ptr = 0,
               full_slots_bmp_ptr = 0, slots_bmp_ptr = 0\<rparr> in
      bindS (liftM (kzalloc (of_nat (sz * 8)))) (\<lambda>p1.
        if p1 = 0 then ret (- ENOMEM, t)
        else
          let t = t\<lparr>slots := replicate sz 0, slots_ptr := p1\<rparr> in
          bindS (liftM (kzalloc (of_nat (BITS_TO_LONGS sz * 8)))) (\<lambda>p2.
            if p2 = 0 then thenS (liftU (kfree p1)) (ret (- ENOMEM, t))
            else
              let t = t\<lparr>slots_bmp := replicate (BITS_TO_LONGS sz) 0, slots_bmp_ptr := p2\<rparr> in
              bindS (liftM (kzalloc (of_nat (BITS_TO_LONGS (BITS_TO_LONGS sz) * 8)))) (\<lambda>p3.
                if p3 = 0 then
                  thenS (liftU (kfree p2)) (thenS (liftU (kfree p1)) (ret (- ENOMEM, t)))
                else
                  ret (0, t\<lparr>full_slots_bmp := replicate (BITS_TO_LONGS (BITS_TO_LONGS sz)) 0,
                            full_slots_bmp_ptr := p3\<rparr>)))))"

text \<open>\<^verbatim>\<open>memcpy\<close> of the first elements of an array.\<close>

definition copy_prefix :: "nat \<Rightarrow> 'a list \<Rightarrow> 'a list \<Rightarrow> 'a list" where
  "copy_prefix n src dst = take n src @ drop n dst"

definition expand_slot_table :: "u64 \<Rightarrow> int kop" where
  "expand_slot_table g =
     bindS (readS cap_groups g) (\<lambda>c.
     let t = slot_table c; old_size = slots_size t; new_size = old_size + BASE_OBJECT_NUM in
     bindS (slot_table_init new_size) (\<lambda>(r, n).
       if r < 0 then ret r
       else
         thenS (liftU (kfree (slots_ptr t)))
         (thenS (liftU (kfree (slots_bmp_ptr t)))
         (thenS (liftU (kfree (full_slots_bmp_ptr t)))
         (thenS (upd_table g (\<lambda>_. n\<lparr>slots_size := new_size,
              slots := copy_prefix old_size (slots t) (slots n),
              slots_bmp := copy_prefix (BITS_TO_LONGS old_size) (slots_bmp t) (slots_bmp n),
              full_slots_bmp :=
                copy_prefix (BITS_TO_LONGS (BITS_TO_LONGS old_size)) (full_slots_bmp t) (full_slots_bmp n)\<rparr>))
           (ret 0))))))"

text \<open>The two searches of the loop body of \<^verbatim>\<open>alloc_slot_id\<close>: the index of a free slot, or
  \<open>None\<close> for \<^verbatim>\<open>goto expand\<close>.\<close>

definition find_free_slot :: "slot_table \<Rightarrow> nat option res" where
  "find_free_slot t =
     (let bmp_size = slots_size t; full_bmp_size = BITS_TO_LONGS bmp_size in
      bindR (find_next_zero_bit (full_slots_bmp t) full_bmp_size 0) (\<lambda>empty_idx.
        if empty_idx \<ge> full_bmp_size then Inr None
        else
          bindR (find_next_zero_bit (slots_bmp t) bmp_size (empty_idx * BITS_PER_LONG)) (\<lambda>empty_idx.
            Inr (if empty_idx \<ge> bmp_size then None else Some empty_idx))))"

definition claim_slot :: "nat \<Rightarrow> slot_table \<Rightarrow> slot_table res" where
  "claim_slot i t =
     bindR (bmp_set_bit i (slots_bmp t)) (\<lambda>bmp.
       if bmp ! (i div BITS_PER_LONG) = NOT 0 then
         bindR (bmp_set_bit (i div BITS_PER_LONG) (full_slots_bmp t)) (\<lambda>full.
           Inr (t\<lparr>slots_bmp := bmp, full_slots_bmp := full\<rparr>))
       else Inr (t\<lparr>slots_bmp := bmp\<rparr>))"

primrec alloc_slot_loop :: "nat \<Rightarrow> u64 \<Rightarrow> int kop" where
  "alloc_slot_loop 0 g = fault Diverge"
| "alloc_slot_loop (Suc fuel) g =
     bindS (readS cap_groups g) (\<lambda>c.
     bindS (liftR (find_free_slot (slot_table c))) (\<lambda>found.
       case found of
         Some i \<Rightarrow>
           bindS (liftR (claim_slot i (slot_table c))) (\<lambda>t.
           thenS (upd_table g (\<lambda>_. t)) (ret (int i)))
       | None \<Rightarrow>
           bindS (expand_slot_table g) (\<lambda>r. if r < 0 then ret r else alloc_slot_loop fuel g)))"

definition alloc_slot_id :: "u64 \<Rightarrow> int kop" where
  "alloc_slot_id g = alloc_slot_loop 2 g"

text \<open>The inline functions of the header; a negative index is out of range.\<close>

definition clear_slot :: "nat \<Rightarrow> slot_table \<Rightarrow> slot_table res" where
  "clear_slot i t =
     bindR (bmp_clear_bit i (slots_bmp t)) (\<lambda>bmp.
     bindR (bmp_clear_bit (i div BITS_PER_LONG) (full_slots_bmp t)) (\<lambda>full.
       if i < length (slots t)
       then Inr (t\<lparr>slots_bmp := bmp, full_slots_bmp := full, slots := (slots t)[i := 0]\<rparr>)
       else Inl OutOfRange))"

definition free_slot_id :: "u64 \<Rightarrow> int \<Rightarrow> unit kop" where
  "free_slot_id g i =
     (if i < 0 then fault OutOfRange
      else bindS (readS cap_groups g) (\<lambda>c.
           bindS (liftR (clear_slot (nat i) (slot_table c))) (\<lambda>t. upd_table g (\<lambda>_. t))))"

definition get_slot :: "u64 \<Rightarrow> int \<Rightarrow> u64 kop" where
  "get_slot g i =
     bindS (readS cap_groups g) (\<lambda>c.
       if i < 0 \<or> i \<ge> int (slots_size (slot_table c)) then ret 0
       else if nat i < length (slots (slot_table c)) then ret (slots (slot_table c) ! nat i)
       else fault OutOfRange)"

definition put_slot :: "nat \<Rightarrow> u64 \<Rightarrow> slot_table \<Rightarrow> slot_table res" where
  "put_slot i s t =
     bindR (bmp_get_bit i (slots_bmp t)) (\<lambda>b. BUG_ON (b = 0)
       (if i < length (slots t) then Inr (t\<lparr>slots := (slots t)[i := s]\<rparr>) else Inl OutOfRange))"

definition install_slot :: "u64 \<Rightarrow> int \<Rightarrow> u64 \<Rightarrow> unit kop" where
  "install_slot g i s =
     (if i < 0 then fault OutOfRange
      else bindS (readS cap_groups g) (\<lambda>c.
           bindS (liftR (put_slot (nat i) s (slot_table c))) (\<lambda>t. upd_table g (\<lambda>_. t))))"

end
