(* ===== verification/Slot_Table_Correct.thy ===== *)
theory Slot_Table_Correct
  imports Slot_Table Alloc_Spec
begin

text \<open>Correctness of the capability table: the two-level bitmap always agrees with the table
  (\<open>table_ok\<close>), the search returns the first free slot, claiming and clearing change exactly one
  slot, and growing keeps what was there. The table is an allocator of slot numbers.\<close>

section \<open>The invariant\<close>

definition used_slot :: "slot_table \<Rightarrow> nat \<Rightarrow> bool" where
  "used_slot t i = bmp_bit (slots_bmp t) i"

definition table_ok :: "slot_table \<Rightarrow> bool" where
  "table_ok t \<longleftrightarrow>
     0 < slots_size t \<and> slots_size t mod 64 = 0 \<and> length (slots t) = slots_size t \<and>
     64 * length (slots_bmp t) = slots_size t \<and>
     length (full_slots_bmp t) = BITS_TO_LONGS (length (slots_bmp t)) \<and>
     (\<forall>c < 64 * length (full_slots_bmp t).
        bmp_bit (full_slots_bmp t) c \<longleftrightarrow> c < length (slots_bmp t) \<and> slots_bmp t ! c = NOT 0) \<and>
     (\<forall>i < slots_size t. slots t ! i \<noteq> 0 \<longrightarrow> used_slot t i)"

lemma longs_64 [simp]: "BITS_TO_LONGS (64 * n) = n"
  by (simp add: BITS_TO_LONGS_def DIV_ROUND_UP_def BITS_PER_LONG_def)

lemma longs_bound: "n \<le> 64 * BITS_TO_LONGS n"
  by (simp add: BITS_TO_LONGS_def DIV_ROUND_UP_def BITS_PER_LONG_def)

lemma full_word_iff: "(w :: u64) = - 1 \<longleftrightarrow> (\<forall>b<64. bit w b)"
  by (auto simp: bit_eq_iff bit_simps)

lemma used_word: "c < length (slots_bmp t) \<Longrightarrow> slots_bmp t ! c = - 1 \<longleftrightarrow> (\<forall>b<64. used_slot t (64 * c + b))"
  by (simp add: full_word_iff used_slot_def bmp_bit_split)

lemma table_okD:
  assumes "table_ok t"
  shows "0 < slots_size t" "length (slots t) = slots_size t" "slots_size t = 64 * length (slots_bmp t)"
    "length (full_slots_bmp t) = BITS_TO_LONGS (length (slots_bmp t))"
    "\<And>c. c < length (slots_bmp t) \<Longrightarrow> bmp_bit (full_slots_bmp t) c \<longleftrightarrow> (\<forall>b<64. used_slot t (64 * c + b))"
    "\<And>i. i < slots_size t \<Longrightarrow> slots t ! i \<noteq> 0 \<Longrightarrow> used_slot t i"
    "\<And>c. c < 64 * length (full_slots_bmp t) \<Longrightarrow> bmp_bit (full_slots_bmp t) c \<longleftrightarrow>
       c < length (slots_bmp t) \<and> slots_bmp t ! c = NOT 0"
proof -
  have full: "\<forall>c < 64 * length (full_slots_bmp t). bmp_bit (full_slots_bmp t) c \<longleftrightarrow>
      c < length (slots_bmp t) \<and> slots_bmp t ! c = NOT 0"
    and len: "length (full_slots_bmp t) = BITS_TO_LONGS (length (slots_bmp t))"
    using assms by (auto simp: table_ok_def)
  show "bmp_bit (full_slots_bmp t) c \<longleftrightarrow> (\<forall>b<64. used_slot t (64 * c + b))"
    if "c < length (slots_bmp t)" for c
    using that full longs_bound [of "length (slots_bmp t)"] by (simp add: used_word len)
qed (use assms in \<open>auto simp: table_ok_def\<close>)

section \<open>Searching, claiming, clearing\<close>

lemma find_free_slot_spec:
  assumes ok: "table_ok t"
  shows "\<exists>r. find_free_slot t = Inr r \<and>
    (case r of
       Some i \<Rightarrow> i < slots_size t \<and> \<not> used_slot t i \<and> (\<forall>j<i. used_slot t j)
     | None \<Rightarrow> \<forall>j < slots_size t. used_slot t j)"
proof -
  note D = table_okD [OF ok]
  let ?n = "length (slots_bmp t)"
  have n: "0 < ?n" "slots_size t = 64 * ?n" using D(1,3) by auto
  have below: "used_slot t j" if "\<And>c. c < C \<Longrightarrow> c < ?n \<Longrightarrow> bmp_bit (full_slots_bmp t) c" "j < 64 * C" "j < 64 * ?n" for j C
  proof -
    have "j div 64 < C" "j div 64 < ?n" using that(2,3) by (simp_all add: less_mult_imp_div_less mult.commute)
    then have "bmp_bit (full_slots_bmp t) (j div 64)" using that(1) by blast
    then have "\<forall>b<64. used_slot t (64 * (j div 64) + b)" using D(5) [OF \<open>j div 64 < ?n\<close>] by simp
    from this [rule_format, of "j mod 64"] show ?thesis by simp
  qed
  obtain c where c: "find_next_zero_bit (full_slots_bmp t) ?n 0 = Inr c" "first_bit (full_slots_bmp t) ?n 0 True c"
    using find_next_zero_bit_spec [of ?n "full_slots_bmp t" 0] n longs_bound [of ?n] D(4) by auto
  show ?thesis
  proof (cases "c \<ge> ?n")
    case True
    then have "bmp_bit (full_slots_bmp t) d" if "d < ?n" for d using c(2) that by (simp add: first_bit_def)
    then have "\<forall>j < slots_size t. used_slot t j" using below [of ?n] n by simp
    then show ?thesis using c(1) True n by (simp add: find_free_slot_def Let_def)
  next
    case False
    then have notfull: "\<not> bmp_bit (full_slots_bmp t) c" and lower: "\<And>d. d < c \<Longrightarrow> bmp_bit (full_slots_bmp t) d"
      using c(2) by (auto simp: first_bit_def)
    obtain b where b: "b < 64" "\<not> used_slot t (64 * c + b)" using D(5) [of c] False notfull by auto
    obtain i where i: "find_next_zero_bit (slots_bmp t) (64 * ?n) (c * 64) = Inr i"
      "first_bit (slots_bmp t) (64 * ?n) (c * 64) True i"
      using find_next_zero_bit_spec [of "64 * ?n" "slots_bmp t" "c * 64"] n by auto
    have "i < 64 * ?n"
    proof (rule ccontr)
      assume "\<not> i < 64 * ?n"
      then have "64 * c + b < i" using b False by linarith
      then show False using i(2) b(2) by (simp add: first_bit_def used_slot_def mult.commute)
    qed
    moreover from this i(2) have "\<not> used_slot t i" and upper: "\<And>j. 64 * c \<le> j \<Longrightarrow> j < i \<Longrightarrow> used_slot t j"
      by (auto simp: first_bit_def used_slot_def mult.commute)
    moreover have "used_slot t j" if "j < i" for j
    proof (cases "j < 64 * c")
      case True
      then show ?thesis by (intro below [of c]) (use lower False in auto)
    qed (use upper that in simp)
    ultimately show ?thesis
      using c(1) i(1) False n by (auto simp: find_free_slot_def Let_def BITS_PER_LONG_def not_le)
  qed
qed

lemma claim_slot_spec:
  assumes ok: "table_ok t" and i: "i < slots_size t"
  shows "\<exists>t'. claim_slot i t = Inr t' \<and> table_ok t' \<and> slots_size t' = slots_size t \<and> slots t' = slots t \<and>
    (\<forall>j < slots_size t. used_slot t' j \<longleftrightarrow> j = i \<or> used_slot t j)"
proof -
  note D = table_okD [OF ok]
  have i64: "i < 64 * length (slots_bmp t)" "i div 64 < length (slots_bmp t)"
    using i D(3) by (auto simp: less_mult_imp_div_less mult.commute)
  obtain bmp where bmp: "bmp_set_bit i (slots_bmp t) = Inr bmp" using bmp_set_bit_defined i64 by blast
  have bl: "length bmp = length (slots_bmp t)" by (rule bmp_set_bit_length [OF bmp])
  have iff: "bmp_bit bmp j \<longleftrightarrow> j = i \<or> used_slot t j" if "j < slots_size t" for j
    using bmp_set_bit_iff [OF bmp, of j] that D(3)
    by (simp add: used_slot_def less_mult_imp_div_less mult.commute)
  have same: "bmp ! c = slots_bmp t ! c" if "c \<noteq> i div 64" for c
    using bmp that by (auto simp: bmp_set_bit_def BITS_PER_LONG_def Let_def split: if_splits)
  have grow: "bmp ! (i div 64) = NOT 0" if "slots_bmp t ! (i div 64) = NOT 0"
    using bmp that i64 by (auto simp: bmp_set_bit_def BITS_PER_LONG_def Let_def)
  obtain full where full: "bmp_set_bit (i div 64) (full_slots_bmp t) = Inr full"
    using bmp_set_bit_defined i64 longs_bound [of "length (slots_bmp t)"] D(4)
    by (metis order_less_le_trans)
  have fl: "length full = length (full_slots_bmp t)" by (rule bmp_set_bit_length [OF full])
  have fiff: "bmp_bit full c \<longleftrightarrow> c = i div 64 \<or> bmp_bit (full_slots_bmp t) c"
    if "c < 64 * length (full_slots_bmp t)" for c
    using bmp_set_bit_iff [OF full, of c] that by (simp add: less_mult_imp_div_less mult.commute)
  have ok': "table_ok (t\<lparr>slots_bmp := bmp, full_slots_bmp := f\<rparr>)"
    if "length f = length (full_slots_bmp t)" and
      "\<And>c. c < 64 * length (full_slots_bmp t) \<Longrightarrow> bmp_bit f c \<longleftrightarrow> c < length bmp \<and> bmp ! c = NOT 0" for f
    using ok that bl iff by (simp add: table_ok_def) (simp add: used_slot_def)
  show ?thesis
  proof (cases "bmp ! (i div 64) = NOT 0")
    case True
    have "table_ok (t\<lparr>slots_bmp := bmp, full_slots_bmp := full\<rparr>)"
      by (rule ok') (use fl fiff D(7) same True i64 bl in \<open>metis\<close>)+
    then show ?thesis using True bmp full iff by (simp add: claim_slot_def BITS_PER_LONG_def used_slot_def)
  next
    case False
    have "table_ok (t\<lparr>slots_bmp := bmp, full_slots_bmp := full_slots_bmp t\<rparr>)"
      by (rule ok') (use D(7) same False grow bl in \<open>metis\<close>)+
    moreover have "t\<lparr>slots_bmp := bmp, full_slots_bmp := full_slots_bmp t\<rparr> = t\<lparr>slots_bmp := bmp\<rparr>" by simp
    ultimately show ?thesis using False bmp iff by (simp add: claim_slot_def BITS_PER_LONG_def used_slot_def)
  qed
qed

lemma clear_slot_spec:
  assumes ok: "table_ok t" and i: "i < slots_size t"
  shows "\<exists>t'. clear_slot i t = Inr t' \<and> table_ok t' \<and> slots_size t' = slots_size t \<and>
    slots t' = (slots t)[i := 0] \<and> (\<forall>j < slots_size t. used_slot t' j \<longleftrightarrow> j \<noteq> i \<and> used_slot t j)"
proof -
  note D = table_okD [OF ok]
  have i64: "i < 64 * length (slots_bmp t)" "i div 64 < length (slots_bmp t)"
    using i D(3) by (auto simp: less_mult_imp_div_less mult.commute)
  obtain bmp where bmp: "bmp_clear_bit i (slots_bmp t) = Inr bmp" using bmp_clear_bit_defined i64 by blast
  have bl: "length bmp = length (slots_bmp t)" by (rule bmp_clear_bit_length [OF bmp])
  have iff: "bmp_bit bmp j \<longleftrightarrow> j \<noteq> i \<and> used_slot t j" if "j < slots_size t" for j
    using bmp_clear_bit_iff [OF bmp, of j] that D(3)
    by (simp add: used_slot_def less_mult_imp_div_less mult.commute)
  have same: "bmp ! c = slots_bmp t ! c" if "c \<noteq> i div 64" for c
    using bmp that by (auto simp: bmp_clear_bit_def BITS_PER_LONG_def Let_def split: if_splits)
  have "\<not> bit (bmp ! (i div 64)) (i mod 64)" using iff [OF i] by (simp add: bmp_bit_def)
  then have "\<not> (\<forall>b<64. bit (bmp ! (i div 64)) b)" by (meson mod_less_divisor zero_less_numeral)
  then have hole: "bmp ! (i div 64) \<noteq> NOT 0" by (simp add: full_word_iff)
  obtain full where full: "bmp_clear_bit (i div 64) (full_slots_bmp t) = Inr full"
    using bmp_clear_bit_defined i64 longs_bound [of "length (slots_bmp t)"] D(4)
    by (metis order_less_le_trans)
  have fl: "length full = length (full_slots_bmp t)" by (rule bmp_clear_bit_length [OF full])
  have fiff: "bmp_bit full c \<longleftrightarrow> c < length bmp \<and> bmp ! c = NOT 0"
    if "c < 64 * length (full_slots_bmp t)" for c
  proof -
    have "bmp_bit full c \<longleftrightarrow> c \<noteq> i div 64 \<and> bmp_bit (full_slots_bmp t) c"
      using bmp_clear_bit_iff [OF full, of c] that by (simp add: less_mult_imp_div_less mult.commute)
    then show ?thesis using D(7) [OF that] same [of c] hole bl by metis
  qed
  have "\<forall>j < slots_size t. (slots t)[i := 0] ! j \<noteq> 0 \<longrightarrow> bmp_bit bmp j"
    using D(2,6) i iff by (simp add: nth_list_update)
  then have "table_ok (t\<lparr>slots_bmp := bmp, full_slots_bmp := full, slots := (slots t)[i := 0]\<rparr>)"
    using ok fl fiff bl by (simp add: table_ok_def used_slot_def)
  then show ?thesis
    using bmp full iff i D(2) by (simp add: clear_slot_def BITS_PER_LONG_def used_slot_def)
qed

lemma put_slot_spec:
  assumes ok: "table_ok t" and i: "i < slots_size t" and u: "used_slot t i"
  shows "put_slot i s t = Inr (t\<lparr>slots := (slots t)[i := s]\<rparr>) \<and> table_ok (t\<lparr>slots := (slots t)[i := s]\<rparr>)"
proof -
  note D = table_okD [OF ok]
  have "bmp_get_bit i (slots_bmp t) = Inr 1"
    using bmp_get_bit_eq [of i "slots_bmp t"] i D(3) u by (simp add: used_slot_def)
  moreover have "table_ok (t\<lparr>slots := (slots t)[i := s]\<rparr>)"
    using ok u i by (simp add: table_ok_def nth_list_update used_slot_def)
  ultimately show ?thesis using i D(2) by (simp add: put_slot_def)
qed

section \<open>Slot numbers as blocks of an allocator\<close>

text \<open>The body of \<^verbatim>\<open>alloc_slot_id\<close> without growth.\<close>

definition claim_free :: "unit \<Rightarrow> slot_table \<Rightarrow> (nat option \<times> slot_table) res" where
  "claim_free u t =
     bindR (find_free_slot t) (\<lambda>r.
       case r of
         None \<Rightarrow> Inr (None, t)
       | Some i \<Rightarrow> bindR (claim_slot i t) (\<lambda>t. Inr (Some i, t)))"

definition live_slots :: "slot_table \<Rightarrow> nat set" where
  "live_slots t = {i. i < slots_size t \<and> used_slot t i}"

lemma claim_free_spec:
  assumes "table_ok t"
  shows "\<exists>r t'. claim_free () t = Inr (r, t') \<and> table_ok t' \<and> slots_size t' = slots_size t \<and> slots t' = slots t \<and>
    (case r of
       None \<Rightarrow> t' = t \<and> live_slots t = {..<slots_size t}
     | Some i \<Rightarrow> i < slots_size t \<and> i \<notin> live_slots t \<and> live_slots t' = insert i (live_slots t))"
proof -
  obtain r where r: "find_free_slot t = Inr r"
    "case r of Some i \<Rightarrow> i < slots_size t \<and> \<not> used_slot t i \<and> (\<forall>j<i. used_slot t j)
     | None \<Rightarrow> \<forall>j < slots_size t. used_slot t j"
    using find_free_slot_spec [OF assms] by blast
  show ?thesis
  proof (cases r)
    case None
    then show ?thesis using r assms by (auto simp: claim_free_def live_slots_def)
  next
    case (Some i)
    with r(2) have i: "i < slots_size t" "\<not> used_slot t i" by auto
    obtain t' where t': "claim_slot i t = Inr t'" "table_ok t'" "slots_size t' = slots_size t" "slots t' = slots t"
      "\<forall>j < slots_size t. used_slot t' j \<longleftrightarrow> j = i \<or> used_slot t j"
      using claim_slot_spec [OF assms i(1)] by blast
    then have "live_slots t' = insert i (live_slots t)" using i by (auto simp: live_slots_def)
    with Some r(1) t' i show ?thesis by (simp add: claim_free_def live_slots_def)
  qed
qed

interpretation sl: total_allocator table_ok live_slots "\<lambda>i. {i}" claim_free clear_slot
proof (unfold_locales)
  fix s r c s' assume ok: "table_ok s" and g: "claim_free r s = Inr (Some c, s')"
  then show "table_ok s' \<and> c \<notin> live_slots s \<and> live_slots s' = insert c (live_slots s)"
    using claim_free_spec [OF ok] by auto
next
  fix s r s' assume ok: "table_ok s" and g: "claim_free r s = Inr (None, s')"
  then show "table_ok s' \<and> live_slots s' = live_slots s" using claim_free_spec [OF ok] by auto
next
  fix s c assume ok: "table_ok s" and c: "c \<in> live_slots s"
  then obtain t where "clear_slot c s = Inr t" "table_ok t" "slots_size t = slots_size s"
    "\<forall>j < slots_size s. used_slot t j \<longleftrightarrow> j \<noteq> c \<and> used_slot s j"
    using clear_slot_spec [OF ok, of c] by (auto simp: live_slots_def)
  then show "\<exists>s'. clear_slot c s = Inr s' \<and> table_ok s' \<and> live_slots s' = live_slots s - {c}"
    by (auto simp: live_slots_def)
next
  fix s r assume "table_ok s"
  then show "\<exists>x s'. claim_free r s = Inr (x, s')" using claim_free_spec [of s] by auto
qed auto

end
