(* ===== verification/Slot_Alloc.thy ===== *)
theory Slot_Alloc
  imports Slot_Table_Correct
begin

text \<open>\<^verbatim>\<open>alloc_slot_id\<close> on the kernel state: it returns a slot that was not in use, growing the
  table when it is full, and it never needs a second growth.\<close>

section \<open>Growing\<close>

lemma slot_table_init_spec:
  assumes "slot_table_init sz k = Inr ((r, n), k')"
  defines "S \<equiv> DIV_ROUND_UP sz BASE_OBJECT_NUM * BASE_OBJECT_NUM"
  shows "\<exists>m. k' = k\<lparr>mm := m\<rparr> \<and> (r = - ENOMEM \<or> r = 0 \<and> slots_size n = S \<and> slots n = replicate S 0 \<and>
    slots_bmp n = replicate (BITS_TO_LONGS S) 0 \<and> full_slots_bmp n = replicate (BITS_TO_LONGS (BITS_TO_LONGS S)) 0)"
  using assms(1)
  by (auto simp: slot_table_init_def Let_def outcome_simps liftM_def liftU_def S_def split: if_splits)

definition grown :: "slot_table \<Rightarrow> slot_table \<Rightarrow> bool" where
  "grown t t' \<longleftrightarrow> slots_size t' = slots_size t + 64 \<and> slots t' = slots t @ replicate 64 0 \<and>
     slots_bmp t' = slots_bmp t @ [0] \<and>
     full_slots_bmp t' = full_slots_bmp t @
       replicate (BITS_TO_LONGS (Suc (length (slots_bmp t))) - length (full_slots_bmp t)) 0"

lemma longs_mono: "BITS_TO_LONGS n \<le> BITS_TO_LONGS (Suc n)"
  by (simp add: BITS_TO_LONGS_def DIV_ROUND_UP_def BITS_PER_LONG_def div_le_mono)

lemma copy_replicate: "length xs = n \<Longrightarrow> n \<le> m \<Longrightarrow> copy_prefix n xs (replicate m v) = xs @ replicate (m - n) v"
  by (simp add: copy_prefix_def drop_replicate)

lemma expand_slot_table_spec:
  assumes g: "cap_groups k g = Some c" and ok: "table_ok (slot_table c)" and e: "expand_slot_table g k = Inr (r, k')"
  shows "r < 0 \<and> (\<exists>m. k' = k\<lparr>mm := m\<rparr>) \<or>
    r = 0 \<and> (\<exists>m t. grown (slot_table c) t \<and> k' = k\<lparr>mm := m, cap_groups := (cap_groups k)(g \<mapsto> c\<lparr>slot_table := t\<rparr>)\<rparr>)"
proof -
  note D = table_okD [OF ok]
  let ?t = "slot_table c" and ?S = "slots_size (slot_table c) + 64"
  obtain n' where n': "slots_size ?t = 64 * n'" "length (slots_bmp ?t) = n'" using D(3) by auto
  have S: "DIV_ROUND_UP ?S BASE_OBJECT_NUM * BASE_OBJECT_NUM = ?S" "BITS_TO_LONGS ?S = Suc n'" "BITS_TO_LONGS (slots_size ?t) = n'"
    using longs_64 [of "Suc n'"] by (simp_all add: n' DIV_ROUND_UP_def BASE_OBJECT_NUM_def add.commute)
  obtain r0 n k1 where i: "slot_table_init ?S k = Inr ((r0, n), k1)"
    using e g by (auto simp: expand_slot_table_def Let_def outcome_simps BASE_OBJECT_NUM_def)
  obtain m where m: "k1 = k\<lparr>mm := m\<rparr>" and n: "r0 = - ENOMEM \<or> r0 = 0 \<and> slots_size n = ?S \<and> slots n = replicate ?S 0 \<and>
      slots_bmp n = replicate (Suc n') 0 \<and> full_slots_bmp n = replicate (BITS_TO_LONGS (Suc n')) 0"
    using slot_table_init_spec [OF i] unfolding S(1,2) by auto
  show ?thesis
  proof (cases "r0 = - ENOMEM")
    case True
    then show ?thesis using e g i m by (auto simp: expand_slot_table_def Let_def outcome_simps BASE_OBJECT_NUM_def ENOMEM_def)
  next
    case False
    with n have n: "r0 = 0" "slots_size n = ?S" "slots n = replicate ?S 0" "slots_bmp n = replicate (Suc n') 0"
      "full_slots_bmp n = replicate (BITS_TO_LONGS (Suc n')) 0" by auto
    have len: "length (full_slots_bmp ?t) = BITS_TO_LONGS n'" using D(4) n'(2) by simp
    define t where "t = n\<lparr>slots_size := ?S, slots := copy_prefix (slots_size ?t) (slots ?t) (slots n),
      slots_bmp := copy_prefix n' (slots_bmp ?t) (slots_bmp n),
      full_slots_bmp := copy_prefix (BITS_TO_LONGS n') (full_slots_bmp ?t) (full_slots_bmp n)\<rparr>"
    have "grown ?t t"
      using D(2) n' len n longs_mono [of n'] by (simp add: grown_def t_def copy_replicate del: replicate_Suc replicate.simps) simp
    moreover have "r = 0 \<and> (\<exists>m. k' = k\<lparr>mm := m, cap_groups := (cap_groups k)(g \<mapsto> c\<lparr>slot_table := t\<rparr>)\<rparr>)"
      using e g i m n(1) S(3)
      by (auto simp: expand_slot_table_def Let_def outcome_simps BASE_OBJECT_NUM_def liftU_def upd_table_def upd_cap_group_def t_def)
    ultimately show ?thesis by blast
  qed
qed

lemma grown_ok:
  assumes ok: "table_ok t" and gr: "grown t t'"
  shows "table_ok t'" "live_slots t' = live_slots t" "\<not> used_slot t' (slots_size t)"
proof -
  note D = table_okD [OF ok]
  let ?n = "length (slots_bmp t)"
  have G: "slots_size t' = slots_size t + 64" "slots t' = slots t @ replicate 64 0" "slots_bmp t' = slots_bmp t @ [0]"
    "full_slots_bmp t' = full_slots_bmp t @ replicate (BITS_TO_LONGS (Suc ?n) - length (full_slots_bmp t)) 0"
    using gr by (simp_all add: grown_def)
  have used: "used_slot t' i \<longleftrightarrow> i < slots_size t \<and> used_slot t i" if "i < slots_size t'" for i
  proof (cases "i < slots_size t")
    case True
    then have "i div 64 < ?n" using D(3) by (simp add: less_mult_imp_div_less mult.commute)
    then show ?thesis using True by (simp add: used_slot_def bmp_bit_def G(3) nth_append)
  next
    case False
    then have "i div 64 = ?n" using that D(3) G(1) by (intro div_nat_eqI) auto
    then show ?thesis using False by (simp add: used_slot_def bmp_bit_def G(3))
  qed
  show "\<not> used_slot t' (slots_size t)" using used [of "slots_size t"] G(1) by simp
  show "live_slots t' = live_slots t" using used G(1) by (auto simp: live_slots_def)
  have full: "bmp_bit (full_slots_bmp t') c \<longleftrightarrow> c < length (slots_bmp t') \<and> slots_bmp t' ! c = NOT 0"
    if c: "c < 64 * length (full_slots_bmp t')" for c
  proof (cases "c < 64 * length (full_slots_bmp t)")
    case True
    then have "bmp_bit (full_slots_bmp t') c = bmp_bit (full_slots_bmp t) c"
      by (simp add: bmp_bit_def G(4) nth_append less_mult_imp_div_less mult.commute)
    then show ?thesis using D(7) [OF True] by (auto simp: G(3) nth_append less_Suc_eq)
  next
    case False
    then have b: "length (full_slots_bmp t) \<le> c div 64" "?n \<le> c"
      using longs_bound [of ?n] D(4) by (simp_all add: less_eq_div_iff_mult_less_eq mult.commute)
    moreover have "c div 64 < length (full_slots_bmp t')" using c by (simp add: less_mult_imp_div_less mult.commute)
    ultimately have "\<not> bmp_bit (full_slots_bmp t') c" by (simp add: bmp_bit_def G(4) nth_append)
    then show ?thesis using b(2) by (auto simp: G(3) nth_append less_Suc_eq)
  qed
  have "slots_size t' mod 64 = 0" using D(3) G(1) by simp
  moreover have "length (full_slots_bmp t') = BITS_TO_LONGS (length (slots_bmp t'))"
    using D(4) longs_mono [of ?n] by (simp add: G(3,4))
  moreover have "used_slot t' i" if "i < slots_size t'" "slots t' ! i \<noteq> 0" for i
    using used [OF that(1)] that D(2) D(6) [of i] by (auto simp: G(1,2) nth_append split: if_splits)
  ultimately show "table_ok t'"
    unfolding table_ok_def using D(1,2,3) G(1-3) full by simp
qed

section \<open>Allocating\<close>

lemma loop_hit:
  assumes "cap_groups k g = Some c" "table_ok (slot_table c)" "live_slots (slot_table c) \<noteq> {..<slots_size (slot_table c)}"
  shows "\<exists>i t. alloc_slot_loop (Suc n) g k = Inr (int i, k\<lparr>cap_groups := (cap_groups k)(g \<mapsto> c\<lparr>slot_table := t\<rparr>)\<rparr>) \<and>
    claim_free () (slot_table c) = Inr (Some i, t)"
proof -
  obtain r t where r: "claim_free () (slot_table c) = Inr (r, t)" "r \<noteq> None"
    using claim_free_spec [OF assms(2)] assms(3) by (auto split: option.splits)
  then obtain i where i: "find_free_slot (slot_table c) = Inr (Some i)" "claim_slot i (slot_table c) = Inr t" "r = Some i"
    by (auto simp: claim_free_def outcome_simps split: option.splits)
  then show ?thesis using r(1) assms(1) by (simp add: outcome_simps upd_table_def upd_cap_group_def)
qed

lemma loop_full:
  assumes "cap_groups k g = Some c" "table_ok (slot_table c)" "live_slots (slot_table c) = {..<slots_size (slot_table c)}"
  shows "alloc_slot_loop (Suc n) g k = bindS (expand_slot_table g) (\<lambda>r. if r < 0 then ret r else alloc_slot_loop n g) k"
proof -
  have "find_free_slot (slot_table c) = Inr None"
  proof -
    obtain r where r: "find_free_slot (slot_table c) = Inr r" "case r of
       Some i \<Rightarrow> i < slots_size (slot_table c) \<and> \<not> used_slot (slot_table c) i \<and> (\<forall>j<i. used_slot (slot_table c) j)
     | None \<Rightarrow> \<forall>j < slots_size (slot_table c). used_slot (slot_table c) j" using find_free_slot_spec [OF assms(2)] by blast
    have "used_slot (slot_table c) i" if "i < slots_size (slot_table c)" for i
      using assms(3) that by (auto simp: live_slots_def)
    then show ?thesis using r by (cases r) auto
  qed
  then show ?thesis using assms(1) by (simp add: outcome_simps)
qed

lemmas id_hit = loop_hit [of _ _ _ 1, unfolded Suc_1, folded alloc_slot_id_def]

lemmas id_full = loop_full [of _ _ _ 1, unfolded Suc_1, folded alloc_slot_id_def, unfolded One_nat_def]

declare alloc_slot_loop.simps(2) [simp del]

text \<open>A second growth is never needed: more turns of the loop change nothing.\<close>

lemma alloc_fuel:
  assumes g: "cap_groups k g = Some c" and ok: "table_ok (slot_table c)"
  shows "alloc_slot_loop (Suc (Suc n)) g k = alloc_slot_id g k"
proof (cases "live_slots (slot_table c) = {..<slots_size (slot_table c)}")
  case False
  obtain i t where c: "claim_free () (slot_table c) = Inr (Some i, t)"
    and r: "alloc_slot_loop (Suc (Suc n)) g k = Inr (int i, k\<lparr>cap_groups := (cap_groups k)(g \<mapsto> c\<lparr>slot_table := t\<rparr>)\<rparr>)"
    using loop_hit [OF g ok False, of "Suc n"] by blast
  then show ?thesis using id_hit [OF g ok False] by auto
next
  case True
  have "(if r < 0 then ret r else alloc_slot_loop (Suc n) g) k' = (if r < 0 then ret r else alloc_slot_loop (Suc 0) g) k'"
    if "expand_slot_table g k = Inr (r, k')" for r k'
    using expand_slot_table_spec [OF g ok that]
  proof (elim disjE conjE exE)
    fix m t assume r: "r = 0" and gr: "grown (slot_table c) t"
      and k': "k' = k\<lparr>mm := m, cap_groups := (cap_groups k)(g \<mapsto> c\<lparr>slot_table := t\<rparr>)\<rparr>"
    note G = grown_ok [OF ok gr]
    have "slots_size (slot_table c) < slots_size t" using gr by (simp add: grown_def)
    then have f: "live_slots t \<noteq> {..<slots_size t}" using G(3) by (auto simp: live_slots_def)
    have g': "cap_groups k' g = Some (c\<lparr>slot_table := t\<rparr>)" by (simp add: k')
    have "table_ok (slot_table (c\<lparr>slot_table := t\<rparr>))" "live_slots (slot_table (c\<lparr>slot_table := t\<rparr>)) \<noteq> {..<slots_size (slot_table (c\<lparr>slot_table := t\<rparr>))}"
      using G(1) f by simp_all
    note h = loop_hit [OF g' this]
    show ?thesis using h [of n] h [of 0] r by auto
  qed simp
  then have "bindS (expand_slot_table g) (\<lambda>r. if r < 0 then ret r else alloc_slot_loop (Suc n) g) k =
      bindS (expand_slot_table g) (\<lambda>r. if r < 0 then ret r else alloc_slot_loop (Suc 0) g) k"
    by (cases "expand_slot_table g k") (auto simp: bindS_def)
  then show ?thesis using id_full [OF g ok True] loop_full [OF g ok True, of "Suc n"] by simp
qed


definition empty_table :: "nat \<Rightarrow> slot_table" where
  "empty_table n = \<lparr>slots_size = 64 * n, slots = replicate (64 * n) 0, full_slots_bmp = replicate (BITS_TO_LONGS n) 0,
     slots_bmp = replicate n 0, slots_ptr = 0, full_slots_bmp_ptr = 0, slots_bmp_ptr = 0\<rparr>"

lemma empty_table_ok: "0 < n \<Longrightarrow> table_ok (empty_table n)" "i < 64 * n \<Longrightarrow> \<not> used_slot (empty_table n) i"
  by (auto simp: table_ok_def empty_table_def used_slot_def bmp_bit_def less_mult_imp_div_less mult.commute)

lemma empty_table_simps: "slots_size (empty_table n) = 64 * n" "live_slots (empty_table n) = {}"
  using empty_table_ok(2) [of _ n] by (auto simp: live_slots_def empty_table_def)

definition sample_group :: cap_group where
  "sample_group = \<lparr>slot_table = empty_table 1, thread_list = [], thread_cnt = 0, pid = 1, cap_group_name = []\<rparr>"




end
