(* ===== verification/Vmregion.thy ===== *)
theory Vmregion
  imports Kernel_State Page_Table
begin

text \<open>Virtual memory regions: \<^verbatim>\<open>kernel/mm/vmregion.c\<close>, the translation caches of
  \<^verbatim>\<open>kernel/arch/aarch64/mm/tlb.c\<close> and the address-space switch of
  \<^verbatim>\<open>kernel/arch/aarch64/mm/vmspace.c\<close>. \<^verbatim>\<open>vmspace->vmr_list\<close> is the sequence of the
  regions' addresses, first element first.\<close>

section \<open>Translation caches\<close>

definition get_tlbi_va_arg :: "vaddr \<Rightarrow> u64 \<Rightarrow> u64" where
  "get_tlbi_va_arg addr asid = drop_bit 12 addr OR push_bit 48 asid"

text \<open>\<^verbatim>\<open>tlbi aside1is\<close> and \<^verbatim>\<open>tlbi vae1is\<close> drop cached translations; the operand of the
  latter holds the address space identifier in bits 63 to 48 and the frame number in bits 43 to
  0.\<close>

definition tlbi_aside1is :: "u64 \<Rightarrow> unit kop" where
  "tlbi_aside1is arg = modify (\<lambda>k. k\<lparr>tlb := {e \<in> tlb k. fst e \<noteq> drop_bit 48 arg}\<rparr>)"

definition tlbi_vae1is :: "u64 \<Rightarrow> unit kop" where
  "tlbi_vae1is arg = modify (\<lambda>k. k\<lparr>tlb := {e \<in> tlb k. e \<noteq> (drop_bit 48 arg, take_bit 44 arg)}\<rparr>)"

definition flush_tlb_by_asid :: "u64 \<Rightarrow> unit kop" where
  "flush_tlb_by_asid asid = tlbi_aside1is (push_bit 48 asid)"

primrec flush_tlb_addr_asid :: "nat \<Rightarrow> u64 \<Rightarrow> unit kop" where
  "flush_tlb_addr_asid 0 addr_arg = ret ()"
| "flush_tlb_addr_asid (Suc n) addr_arg = thenS (tlbi_vae1is addr_arg) (flush_tlb_addr_asid n (addr_arg + 1))"

definition TLB_SHOOTDOWN_THRESHOLD :: u64 where "TLB_SHOOTDOWN_THRESHOLD = 2"

definition do_flush_tlb_opt :: "vaddr \<Rightarrow> u64 \<Rightarrow> u64 \<Rightarrow> unit kop" where
  "do_flush_tlb_opt start_va page_cnt asid =
     (if page_cnt > TLB_SHOOTDOWN_THRESHOLD then flush_tlb_by_asid asid
      else flush_tlb_addr_asid (unat page_cnt) (get_tlbi_va_arg start_va asid))"

definition flush_tlbs :: "u64 \<Rightarrow> vaddr \<Rightarrow> u64 \<Rightarrow> unit kop" where
  "flush_tlbs vs start_va len =
     (if len = 0 then ret ()
      else
        bindS (readS vmspaces vs) (\<lambda>v.
          do_flush_tlb_opt (ROUND_DOWN start_va PAGE_SIZE) (ROUND_UP len PAGE_SIZE div PAGE_SIZE) (pcid v)))"

definition flush_tlb_of_vmspace :: "u64 \<Rightarrow> unit kop" where
  "flush_tlb_of_vmspace vs = bindS (readS vmspaces vs) (\<lambda>v. flush_tlb_by_asid (pcid v))"

definition flush_tlb_all :: "unit kop" where
  "flush_tlb_all = modify (\<lambda>k. k\<lparr>tlb := {}\<rparr>)"

definition switch_vmspace_to :: "u64 \<Rightarrow> unit kop" where
  "switch_vmspace_to vs =
     bindS (readS vmspaces vs) (\<lambda>v.
       modify (\<lambda>k. k\<lparr>ttbr0 := virt_to_phys (pgtbl v) OR push_bit 48 (pcid v)\<rparr>))"

section \<open>Regions of an address space\<close>

definition SIZEOF_VMREGION :: u64 where "SIZEOF_VMREGION = 48"
definition SIZEOF_VMSPACE :: u64 where "SIZEOF_VMSPACE = 56"

definition upd_vmspace :: "u64 \<Rightarrow> (vmspace \<Rightarrow> vmspace) \<Rightarrow> unit kop" where
  "upd_vmspace vs f = bindS (readS vmspaces vs) (\<lambda>v. modify (\<lambda>k. k\<lparr>vmspaces := (vmspaces k)(vs \<mapsto> f v)\<rparr>))"

definition upd_vmregion :: "u64 \<Rightarrow> (vmregion \<Rightarrow> vmregion) \<Rightarrow> unit kop" where
  "upd_vmregion r f = bindS (readS vmregions r) (\<lambda>v. modify (\<lambda>k. k\<lparr>vmregions := (vmregions k)(r \<mapsto> f v)\<rparr>))"

text \<open>\<^verbatim>\<open>alloc_vmregion\<close> and the assignments to the fields that follow it in every caller.\<close>

definition alloc_vmregion :: "u64 kop" where
  "alloc_vmregion = liftM (kmalloc SIZEOF_VMREGION)"

definition init_vmregion :: "u64 \<Rightarrow> vmregion \<Rightarrow> unit kop" where
  "init_vmregion r v = modify (\<lambda>k. k\<lparr>vmregions := (vmregions k)(r \<mapsto> v)\<rparr>)"

definition free_vmregion :: "u64 \<Rightarrow> unit kop" where
  "free_vmregion r = thenS (liftU (kfree r)) (modify (\<lambda>k. k\<lparr>vmregions := (vmregions k)(r := None)\<rparr>))"

text \<open>The loops over \<^verbatim>\<open>vmr_list\<close> that return at the first region with a property.\<close>

fun find_vmr :: "(vmregion \<Rightarrow> bool) \<Rightarrow> u64 list \<Rightarrow> u64 option kop" where
  "find_vmr P [] = ret None"
| "find_vmr P (r # rs) = bindS (readS vmregions r) (\<lambda>v. if P v then ret (Some r) else find_vmr P rs)"

text \<open>\<^verbatim>\<open>!((new_start >= end) || (new_end <= start))\<close> with \<^verbatim>\<open>new_end\<close> the last byte of the
  new region and \<^verbatim>\<open>end\<close> one past the last byte of the other.\<close>

definition vmr_clash :: "vmregion \<Rightarrow> vmregion \<Rightarrow> bool" where
  "vmr_clash new v =
     (let new_start = vmr_start new; new_end = new_start + vmr_size new - 1;
          start = vmr_start v; vend = start + vmr_size v in
      \<not> (new_start \<ge> vend \<or> new_end \<le> start))"

definition check_vmr_intersect :: "u64 \<Rightarrow> u64 \<Rightarrow> bool kop" where
  "check_vmr_intersect vs r =
     bindS (readS vmregions r) (\<lambda>new.
       if vmr_size new = 0 then ret False
       else
         bindS (readS vmspaces vs) (\<lambda>v.
         bindS (find_vmr (vmr_clash new) (vmr_list v)) (\<lambda>c. ret (c \<noteq> None))))"

definition add_vmr_to_vmspace :: "u64 \<Rightarrow> u64 \<Rightarrow> int kop" where
  "add_vmr_to_vmspace vs r =
     bindS (check_vmr_intersect vs r) (\<lambda>clash.
     thenS (bug_on clash)
     (thenS (upd_vmspace vs (\<lambda>v. v\<lparr>vmr_list := r # vmr_list v\<rparr>)) (ret 0)))"

definition del_vmr_from_vmspace :: "u64 \<Rightarrow> u64 \<Rightarrow> unit kop" where
  "del_vmr_from_vmspace vs r =
     bindS (readS vmspaces vs) (\<lambda>v.
     thenS (if r \<in> set (vmr_list v) then upd_vmspace vs (\<lambda>v. v\<lparr>vmr_list := remove1 r (vmr_list v)\<rparr>) else ret ())
       (free_vmregion r))"

definition fill_page_table :: "u64 \<Rightarrow> u64 \<Rightarrow> int kop" where
  "fill_page_table vs r =
     bindS (readS vmregions r) (\<lambda>vmr.
     bindS (readS pmos (vmr_pmo vmr)) (\<lambda>pmo.
     bindS (readS vmspaces vs) (\<lambda>v.
       liftM (map_range_in_pgtbl (pgtbl v) (vmr_start vmr) (pmo_start pmo) (pmo_size pmo) (vmr_perm vmr)))))"

definition find_vmr_for_va :: "u64 \<Rightarrow> vaddr \<Rightarrow> u64 option kop" where
  "find_vmr_for_va vs addr =
     bindS (readS vmspaces vs) (\<lambda>v.
       find_vmr (\<lambda>vmr. addr \<ge> vmr_start vmr \<and> addr < vmr_start vmr + vmr_size vmr) (vmr_list v))"

text \<open>\<^verbatim>\<open>unmap_vmrs\<close>, with fuel for its recursion. After \<^verbatim>\<open>del_vmr_from_vmspace\<close> the source
  reads \<^verbatim>\<open>vmr->size\<close> of the region it has just freed: in the model that is a fault.\<close>

primrec unmap_vmrs :: "nat \<Rightarrow> u64 \<Rightarrow> vaddr \<Rightarrow> u64 \<Rightarrow> int kop" where
  "unmap_vmrs 0 vs va len = fault Diverge"
| "unmap_vmrs (Suc fuel) vs va len =
     (if len = 0 then ret 0
      else
        bindS (find_vmr_for_va vs va) (\<lambda>found.
          case found of
            None \<Rightarrow> ret 0
          | Some r \<Rightarrow>
            bindS (readS vmregions r) (\<lambda>vmr.
            bindS (readS vmspaces vs) (\<lambda>v.
              if vmr_size vmr > len then
                if va \<noteq> vmr_start vmr then ret 0
                else
                  bindS (readS pmos (vmr_pmo vmr)) (\<lambda>pmo.
                  thenS (bug_on (pmo_type pmo \<noteq> PMO_ANONYM))
                  (thenS (upd_vmregion r (\<lambda>x. x\<lparr>vmr_size := vmr_size x - len, vmr_start := vmr_start x + len\<rparr>))
                  (thenS (liftM (unmap_range_in_pgtbl (pgtbl v) va len))
                  (thenS (flush_tlbs vs va len) (ret 0)))))
              else
                thenS (del_vmr_from_vmspace vs r)
                (thenS (liftM (unmap_range_in_pgtbl (pgtbl v) va len))
                (thenS (flush_tlbs vs va len)
                (bindS (readS vmregions r) (\<lambda>freed.
                   unmap_vmrs fuel vs (va + vmr_size freed) (len - vmr_size freed)))))))))"

definition vmspace_map_range :: "u64 \<Rightarrow> vaddr \<Rightarrow> u64 \<Rightarrow> u64 \<Rightarrow> u64 \<Rightarrow> int kop" where
  "vmspace_map_range vs va len flags p =
     bindS (readS pmos p) (\<lambda>pmo.
     thenS (bug_on (case pmo_type pmo of PMO_OTHER _ \<Rightarrow> True | _ \<Rightarrow> False))
     (let va = ROUND_DOWN va PAGE_SIZE;
          len = (if len < PAGE_SIZE then PAGE_SIZE else len) in
      bindS alloc_vmregion (\<lambda>r.
        if r = 0 then ret (- ENOMEM)
        else
          let perm = (if pmo_type pmo = PMO_DEVICE then flags OR VMR_DEVICE
                      else if pmo_type pmo = PMO_DATA_NOCACHE then flags OR VMR_NOCACHE else flags) in
          thenS (init_vmregion r \<lparr>vmr_start = va, vmr_size = len, vmr_perm = perm, vmr_pmo = p\<rparr>)
          (bindS (add_vmr_to_vmspace vs r) (\<lambda>ret1.
             if ret1 < 0 then thenS (free_vmregion r) (ret ret1)
             else
               thenS (if pmo_type pmo = PMO_DATA \<or> pmo_type pmo = PMO_DATA_NOCACHE \<or> pmo_type pmo = PMO_DEVICE
                      then thenS (fill_page_table vs r) (ret ()) else ret ())
                 (ret 0))))))"

text \<open>\<^verbatim>\<open>vmspace_unmap_range\<close> reads \<^verbatim>\<open>vmr->pmo\<close> after it freed the region.\<close>

definition vmspace_unmap_range :: "u64 \<Rightarrow> vaddr \<Rightarrow> u64 \<Rightarrow> int kop" where
  "vmspace_unmap_range vs va len =
     bindS (find_vmr_for_va vs va) (\<lambda>found.
       case found of
         None \<Rightarrow> ret (- 1)
       | Some r \<Rightarrow>
         bindS (readS vmregions r) (\<lambda>vmr.
         thenS (bug_on ((va \<noteq> vmr_start vmr \<or> len \<noteq> vmr_size vmr) \<and> len \<noteq> 0))
         (thenS (del_vmr_from_vmspace vs r)
         (bindS (readS vmregions r) (\<lambda>freed.
            if vmr_pmo freed = 0 then ret 0
            else if len \<noteq> 0 then
              bindS (readS vmspaces vs) (\<lambda>v.
              thenS (liftM (unmap_range_in_pgtbl (pgtbl v) va len))
              (thenS (flush_tlbs vs va len) (ret 0)))
            else ret 0)))))"

definition unmap_pmo_in_vmspace :: "u64 \<Rightarrow> u64 \<Rightarrow> int kop" where
  "unmap_pmo_in_vmspace vs p =
     bindS (readS vmspaces vs) (\<lambda>v.
     bindS (find_vmr (\<lambda>vmr. vmr_pmo vmr = p) (vmr_list v)) (\<lambda>found.
       case found of
         None \<Rightarrow> ret (- ENOENT)
       | Some r \<Rightarrow>
         bindS (readS vmregions r) (\<lambda>vmr.
         thenS (del_vmr_from_vmspace vs r)
         (thenS (liftM (unmap_range_in_pgtbl (pgtbl v) (vmr_start vmr) (vmr_size vmr)))
         (thenS (flush_tlbs vs (vmr_start vmr) (vmr_size vmr)) (ret 0))))))"

definition HEAP_START :: vaddr where "HEAP_START = 0x600000000000"
definition MMAP_START :: vaddr where "MMAP_START = 0x700000000000"

definition init_heap_vmr :: "u64 \<Rightarrow> vaddr \<Rightarrow> u64 \<Rightarrow> u64 kop" where
  "init_heap_vmr vs va p =
     bindS alloc_vmregion (\<lambda>r.
       if r = 0 then ret 0
       else
         thenS (init_vmregion r \<lparr>vmr_start = va, vmr_size = 0, vmr_perm = VMR_READ OR VMR_WRITE, vmr_pmo = p\<rparr>)
         (bindS (add_vmr_to_vmspace vs r) (\<lambda>ret1.
            if ret1 < 0 then thenS (free_vmregion r) (ret 0) else ret r)))"

definition vmspace_mmap_with_pmo :: "u64 \<Rightarrow> u64 \<Rightarrow> u64 \<Rightarrow> u64 \<Rightarrow> u64 kop" where
  "vmspace_mmap_with_pmo vs p len perm =
     bindS alloc_vmregion (\<lambda>r.
       if r = 0 then ret (- 1)
       else
         bindS (readS vmspaces vs) (\<lambda>v.
         let start = user_current_mmap_addr v in
         thenS (bug_on (len mod PAGE_SIZE \<noteq> 0))
         (thenS (upd_vmspace vs (\<lambda>v. v\<lparr>user_current_mmap_addr := user_current_mmap_addr v + len\<rparr>))
         (bindS (readS pmos p) (\<lambda>pmo.
          thenS (bug_on (pmo_type pmo \<noteq> PMO_ANONYM \<and> pmo_type pmo \<noteq> PMO_SHM))
          (thenS (init_vmregion r \<lparr>vmr_start = start, vmr_size = len, vmr_perm = perm, vmr_pmo = p\<rparr>)
          (bindS (add_vmr_to_vmspace vs r) (\<lambda>ret1.
             if ret1 < 0 then thenS (free_vmregion r) (ret (- 1)) else ret start))))))))"

definition vmspace_munmap_with_addr :: "u64 \<Rightarrow> vaddr \<Rightarrow> u64 \<Rightarrow> int kop" where
  "vmspace_munmap_with_addr vs va len =
     bindS (readS vmspaces vs) (\<lambda>v. unmap_vmrs (length (vmr_list v) + 2) vs va len)"

definition vmspace_unmap_shm_vmr :: "u64 \<Rightarrow> vaddr \<Rightarrow> int kop" where
  "vmspace_unmap_shm_vmr vs va =
     bindS (find_vmr_for_va vs va) (\<lambda>found.
       case found of
         None \<Rightarrow> ret (- EINVAL)
       | Some r \<Rightarrow>
         bindS (readS vmregions r) (\<lambda>vmr.
         bindS (readS pmos (vmr_pmo vmr)) (\<lambda>pmo.
         thenS (bug_on (pmo_type pmo \<noteq> PMO_SHM))
         (thenS (bug_on (va \<noteq> vmr_start vmr))
         (bindS (readS vmspaces vs) (\<lambda>v.
          thenS (liftM (unmap_range_in_pgtbl (pgtbl v) (vmr_start vmr) (vmr_size vmr)))
          (thenS (del_vmr_from_vmspace vs r)
          (thenS (flush_tlbs vs (vmr_start vmr) (vmr_size vmr)) (ret 0)))))))))"

definition vmspace_init :: "u64 \<Rightarrow> int kop" where
  "vmspace_init vs =
     thenS (upd_vmspace vs (\<lambda>v. v\<lparr>vmr_list := []\<rparr>))
     (bindS (liftM (get_pages 0)) (\<lambda>p.
      thenS (upd_vmspace vs (\<lambda>v. v\<lparr>pgtbl := p\<rparr>))
      (thenS (bug_on (p = 0))
      (thenS (modify (\<lambda>k. k\<lparr>mm := zero_words p PAGE_SIZE (mm k)\<rparr>))
      (thenS (upd_vmspace vs (\<lambda>v. v\<lparr>user_current_heap := HEAP_START, user_current_mmap_addr := MMAP_START\<rparr>))
        (ret 0))))))"

text \<open>\<^verbatim>\<open>vmspace_deinit\<close> frees every region (the list itself goes with the address space) and
  the page table.\<close>

definition vmspace_deinit :: "u64 \<Rightarrow> unit kop" where
  "vmspace_deinit vs =
     bindS (readS vmspaces vs) (\<lambda>v.
     thenS (each (vmr_list v) free_vmregion) (liftU (free_page_table (pgtbl v))))"

definition create_idle_vmspace :: "u64 kop" where
  "create_idle_vmspace =
     bindS (liftM (kzalloc SIZEOF_VMSPACE)) (\<lambda>vs.
     thenS (if vs = 0 then ret () else
              modify (\<lambda>k. k\<lparr>vmspaces := (vmspaces k)(vs \<mapsto>
                \<lparr>vmr_list = [], pgtbl = 0, pcid = 0, heap_vmr = 0, user_current_heap = 0,
                 user_current_mmap_addr = 0\<rparr>)\<rparr>)) (ret vs))"

end
