(* ===== verification/Context.thy ===== *)
theory Context
  imports Kernel_State
begin

text \<open>Thread contexts: \<^verbatim>\<open>kernel/sched/context.c\<close> and \<^verbatim>\<open>kernel/arch/aarch64/sched/\<close>. The
  context lies at the top of the thread's kernel stack, which is one page.\<close>

definition DEFAULT_KERNEL_STACK_SZ :: u64 where "DEFAULT_KERNEL_STACK_SZ = 0x1000"
definition SIZEOF_THREAD_CTX :: u64 where "SIZEOF_THREAD_CTX = 320"
definition SIZEOF_SCHED_CONT :: u64 where "SIZEOF_SCHED_CONT = 64"
definition DEFAULT_BUDGET :: u32 where "DEFAULT_BUDGET = 10"
definition MAX_PRIO :: u32 where "MAX_PRIO = 255"
definition MIN_PRIO :: u32 where "MIN_PRIO = 0"
definition NO_AFF :: int where "NO_AFF = - 1"

definition X0 :: nat where "X0 = 0"
definition X1 :: nat where "X1 = 1"
definition SP_EL0 :: nat where "SP_EL0 = 31"
definition ELR_EL1 :: nat where "ELR_EL1 = 32"
definition SPSR_EL1 :: nat where "SPSR_EL1 = 33"
definition SPSR_EL1_EL0t :: u64 where "SPSR_EL1_EL0t = 0"
definition SPSR_EL1_KERNEL :: u64 where "SPSR_EL1_KERNEL = 5"
definition SPSR_EL1_IRQ :: u64 where "SPSR_EL1_IRQ = 0x80"

definition zero_ctx :: thread_ctx where
  "zero_ctx = \<lparr>ec_reg = (\<lambda>_. 0), ctx_sc = 0, ctx_type = TYPE_IDLE, ctx_state = TS_INIT, ctx_prio = 0,
     ctx_affinity = 0, ctx_cpuid = 0, thread_exit_state = TE_RUNNING\<rparr>"

definition create_thread_ctx :: "thread_type \<Rightarrow> u64 kop" where
  "create_thread_ctx type =
     bindS (liftM (kzalloc DEFAULT_KERNEL_STACK_SZ)) (\<lambda>kernel_stack.
       if kernel_stack = 0 then ret 0
       else
         let ctx = kernel_stack + DEFAULT_KERNEL_STACK_SZ - SIZEOF_THREAD_CTX in
         if type = TYPE_SHADOW then
           thenS (modify (\<lambda>k. k\<lparr>thread_ctxs := (thread_ctxs k)(ctx \<mapsto> zero_ctx)\<rparr>)) (ret ctx)
         else
           bindS (liftM (kzalloc SIZEOF_SCHED_CONT)) (\<lambda>sc.
             if sc = 0 then thenS (liftU (kfree kernel_stack)) (ret 0)
             else
               thenS (modify (\<lambda>k. k\<lparr>thread_ctxs := (thread_ctxs k)(ctx \<mapsto> zero_ctx\<lparr>ctx_sc := sc\<rparr>),
                                    budgets := (budgets k)(sc \<mapsto> 0)\<rparr>)) (ret ctx)))"

definition destroy_thread_ctx :: "u64 \<Rightarrow> unit kop" where
  "destroy_thread_ctx t =
     bindS (readS threads t) (\<lambda>th.
     thenS (bug_on (thread_ctx_ptr th = 0))
     (bindS (readS thread_ctxs (thread_ctx_ptr th)) (\<lambda>ctx.
      thenS (if ctx_type ctx \<noteq> TYPE_SHADOW then
               thenS (bug_on (ctx_sc ctx = 0))
               (thenS (liftU (kfree (ctx_sc ctx)))
                  (modify (\<lambda>k. k\<lparr>budgets := (budgets k)(ctx_sc ctx := None)\<rparr>)))
             else ret ())
      (thenS (liftU (kfree (thread_ctx_ptr th - DEFAULT_KERNEL_STACK_SZ + SIZEOF_THREAD_CTX)))
         (modify (\<lambda>k. k\<lparr>thread_ctxs := (thread_ctxs k)(thread_ctx_ptr th := None)\<rparr>))))))"

definition set_reg :: "u64 \<Rightarrow> nat \<Rightarrow> u64 \<Rightarrow> unit kop" where
  "set_reg t r v = upd_ctx t (\<lambda>c. c\<lparr>ec_reg := (ec_reg c)(r := v)\<rparr>)"

definition set_budget :: "u64 \<Rightarrow> u32 \<Rightarrow> unit kop" where
  "set_budget sc b = bindS (readS budgets sc) (\<lambda>_. modify (\<lambda>k. k\<lparr>budgets := (budgets k)(sc \<mapsto> b)\<rparr>))"

definition init_thread_ctx :: "u64 \<Rightarrow> u64 \<Rightarrow> u64 \<Rightarrow> u32 \<Rightarrow> thread_type \<Rightarrow> int \<Rightarrow> unit kop" where
  "init_thread_ctx t stack func prio type aff =
     thenS (set_reg t SP_EL0 stack)
     (thenS (set_reg t ELR_EL1 func)
     (thenS (set_reg t SPSR_EL1 SPSR_EL1_EL0t)
     (thenS (upd_ctx t (\<lambda>c. c\<lparr>ctx_prio := prio, ctx_state := TS_INIT, ctx_type := type, ctx_affinity := aff\<rparr>))
     (bindS (ctx_of t) (\<lambda>c.
      thenS (if ctx_sc c \<noteq> 0 then set_budget (ctx_sc c) DEFAULT_BUDGET else ret ())
        (upd_ctx t (\<lambda>c. c\<lparr>thread_exit_state := TE_RUNNING\<rparr>)))))))"

definition arch_get_thread_stack :: "u64 \<Rightarrow> u64 kop" where
  "arch_get_thread_stack t = bindS (ctx_of t) (\<lambda>c. ret (ec_reg c SP_EL0))"

definition arch_set_thread_stack :: "u64 \<Rightarrow> u64 \<Rightarrow> unit kop" where
  "arch_set_thread_stack t stack = set_reg t SP_EL0 stack"

definition arch_set_thread_return :: "u64 \<Rightarrow> u64 \<Rightarrow> unit kop" where
  "arch_set_thread_return t r = set_reg t X0 r"

definition arch_set_thread_next_ip :: "u64 \<Rightarrow> u64 \<Rightarrow> unit kop" where
  "arch_set_thread_next_ip t ip = set_reg t ELR_EL1 ip"

definition arch_get_thread_next_ip :: "u64 \<Rightarrow> u64 kop" where
  "arch_get_thread_next_ip t = bindS (ctx_of t) (\<lambda>c. ret (ec_reg c ELR_EL1))"

definition arch_set_thread_arg0 :: "u64 \<Rightarrow> u64 \<Rightarrow> unit kop" where
  "arch_set_thread_arg0 t arg = set_reg t X0 arg"

definition arch_set_thread_arg1 :: "u64 \<Rightarrow> u64 \<Rightarrow> unit kop" where
  "arch_set_thread_arg1 t p = set_reg t X1 p"

definition arch_set_thread_info_page :: "u64 \<Rightarrow> u64 \<Rightarrow> unit kop" where
  "arch_set_thread_info_page t a = set_reg t X0 a"

definition arch_mask_interrupts_for_thread :: "u64 \<Rightarrow> unit kop" where
  "arch_mask_interrupts_for_thread t = set_reg t SPSR_EL1 (0x200 OR 0x100 OR SPSR_EL1_IRQ OR 0x40)"

definition arch_enable_interrupt :: "u64 \<Rightarrow> unit kop" where
  "arch_enable_interrupt t =
     upd_ctx t (\<lambda>c. c\<lparr>ec_reg := (ec_reg c)(SPSR_EL1 := ec_reg c SPSR_EL1 AND NOT SPSR_EL1_IRQ)\<rparr>)"

definition arch_disable_interrupt :: "u64 \<Rightarrow> unit kop" where
  "arch_disable_interrupt t =
     upd_ctx t (\<lambda>c. c\<lparr>ec_reg := (ec_reg c)(SPSR_EL1 := ec_reg c SPSR_EL1 OR SPSR_EL1_IRQ)\<rparr>)"

definition arch_idle_ctx_init :: "thread_ctx \<Rightarrow> u64 \<Rightarrow> thread_ctx" where
  "arch_idle_ctx_init ctx func =
     ctx\<lparr>ec_reg := (\<lambda>_. 0)(SPSR_EL1 := SPSR_EL1_KERNEL, ELR_EL1 := func)\<rparr>"

end
