(* ===== verification/Sched.thy ===== *)
theory Sched
  imports Vmregion Context
begin

text \<open>The scheduler: \<^verbatim>\<open>kernel/sched/policy_rr.c\<close> and \<^verbatim>\<open>kernel/sched/sched.c\<close>. A ready queue
  is the sequence of the threads it links, with the counter the source keeps beside it.
  \<^verbatim>\<open>smp_get_cpu_id()\<close> is the component \<open>cpu\<close> of the state. The only policy is round robin, so
  \<^verbatim>\<open>sched\<close>, \<^verbatim>\<open>sched_enqueue\<close> and \<^verbatim>\<open>sched_dequeue\<close> are its functions.\<close>

definition THREAD_ITSELF :: u64 where "THREAD_ITSELF = - 1"

section \<open>Switching\<close>

definition sched_is_running :: "u64 \<Rightarrow> int kop" where
  "sched_is_running target =
     thenS (bug_on (target = 0))
     (bindS (readS threads target) (\<lambda>th.
      thenS (bug_on (thread_ctx_ptr th = 0))
      (bindS (ctx_of target) (\<lambda>c. ret (if ctx_state c = TS_RUNNING then 1 else 0)))))"

definition switch_to_thread :: "u64 \<Rightarrow> int kop" where
  "switch_to_thread target =
     thenS (bug_on (target = 0))
     (bindS (readS threads target) (\<lambda>th.
      thenS (bug_on (thread_ctx_ptr th = 0))
      (bindS (ctx_of target) (\<lambda>c.
       thenS (bug_on (ctx_state c = TS_READY))
       (thenS (bug_on (thread_exit_state c = TE_EXITED))
       (bindS current_thread (\<lambda>cur.
          if target = cur then
            thenS (upd_ctx target (\<lambda>c. c\<lparr>ctx_state := TS_RUNNING\<rparr>))
            (thenS (upd_thread target (\<lambda>th. th\<lparr>prev_thread := THREAD_ITSELF\<rparr>)) (ret 0))
          else
            bindS (gets cpu) (\<lambda>me.
            thenS (upd_ctx target (\<lambda>c. c\<lparr>ctx_cpuid := int me, ctx_state := TS_RUNNING\<rparr>))
            (thenS (upd_thread target (\<lambda>th. th\<lparr>prev_thread := cur\<rparr>))
            (thenS (modify (\<lambda>k. k\<lparr>current_threads := (current_threads k)(me := target)\<rparr>)) (ret 0)))))))))))"

text \<open>\<^verbatim>\<open>switch_context\<close>; \<^verbatim>\<open>arch_switch_context\<close> is empty on this architecture.\<close>

definition switch_thread_vmspace_to :: "u64 \<Rightarrow> unit kop" where
  "switch_thread_vmspace_to t = bindS (readS threads t) (\<lambda>th. switch_vmspace_to (thread_vmspace th))"

definition switch_context :: "u64 kop" where
  "switch_context =
     bindS current_thread (\<lambda>t.
     thenS (bug_on (t = 0))
     (bindS (readS threads t) (\<lambda>th.
      thenS (bug_on (thread_ctx_ptr th = 0))
      (if prev_thread th = THREAD_ITSELF then ret (thread_ctx_ptr th)
       else
         bindS (ctx_of t) (\<lambda>c.
         thenS (if ctx_type c \<noteq> TYPE_TESTS
                then thenS (bug_on (thread_vmspace th = 0)) (switch_thread_vmspace_to t) else ret ())
           (ret (thread_ctx_ptr th)))))))"

text \<open>\<^verbatim>\<open>eret_to_thread(switch_context())\<close>.\<close>

definition eret_switch :: "'a ctl kop" where
  "eret_switch = bindS switch_context (\<lambda>c. ret (Eret c))"

section \<open>Round robin\<close>

definition rr_sched_enqueue :: "u64 \<Rightarrow> int kop" where
  "rr_sched_enqueue t =
     (if t = 0 then ret (- EINVAL)
      else
        bindS (readS threads t) (\<lambda>th.
          if thread_ctx_ptr th = 0 then ret (- EINVAL)
          else
            bindS (ctx_of t) (\<lambda>c.
              if ctx_state c = TS_READY then ret (- EINVAL)
              else if ctx_type c = TYPE_IDLE then ret 0
              else if ctx_affinity c \<ge> int PLAT_CPU_NUM then ret (- EINVAL)
              else
                bindS (gets cpu) (\<lambda>me.
                let cpuid = (if ctx_affinity c = NO_AFF then int me else ctx_affinity c) in
                thenS (upd_ctx t (\<lambda>c. c\<lparr>ctx_state := TS_READY, ctx_cpuid := cpuid\<rparr>))
                (if cpuid < 0 \<or> cpuid \<ge> int PLAT_CPU_NUM then fault OutOfRange
                 else
                   thenS (modify (\<lambda>k. k\<lparr>ready_queues := (ready_queues k)(nat cpuid :=
                            (ready_queues k (nat cpuid))\<lparr>queue := queue (ready_queues k (nat cpuid)) @ [t],
                              queue_len := queue_len (ready_queues k (nat cpuid)) + 1\<rparr>)\<rparr>))
                     (ret 0))))))"

text \<open>\<^verbatim>\<open>list_del\<close> takes the thread out of the queue it is in, whichever core that belongs to;
  the counter that changes is the one of the executing core.\<close>

definition unlink_ready :: "u64 \<Rightarrow> (nat \<Rightarrow> queue_meta) \<Rightarrow> nat \<Rightarrow> queue_meta" where
  "unlink_ready t qs c = (qs c)\<lparr>queue := remove1 t (queue (qs c))\<rparr>"

definition rr_sched_dequeue :: "u64 \<Rightarrow> int kop" where
  "rr_sched_dequeue t =
     (if t = 0 then ret (- EINVAL)
      else
        bindS (readS threads t) (\<lambda>th.
          if thread_ctx_ptr th = 0 then ret (- EINVAL)
          else
            bindS (ctx_of t) (\<lambda>c.
              if ctx_type c = TYPE_IDLE then ret (- EINVAL)
              else if ctx_state c \<noteq> TS_READY then ret (- EINVAL)
              else if ctx_affinity c \<ge> int PLAT_CPU_NUM then ret (- EINVAL)
              else
                bindS (gets cpu) (\<lambda>me.
                thenS (modify (\<lambda>k. k\<lparr>ready_queues := unlink_ready t (ready_queues k)\<rparr>))
                (thenS (upd_ctx t (\<lambda>c. c\<lparr>ctx_state := TS_INTER, ctx_cpuid := int me\<rparr>))
                (thenS (modify (\<lambda>k. k\<lparr>ready_queues := (ready_queues k)(me :=
                          (ready_queues k me)\<lparr>queue_len := queue_len (ready_queues k me) - 1\<rparr>)\<rparr>))
                   (ret 0)))))))"

text \<open>A counter that is not zero above an empty list would make the head itself the next thread.\<close>

definition rr_sched_choose_thread :: "u64 kop" where
  "rr_sched_choose_thread =
     bindS (gets cpu) (\<lambda>me.
     bindS (gets (\<lambda>k. ready_queues k me)) (\<lambda>q.
       if queue_len q = 0 then gets (\<lambda>k. idle_threads k me)
       else
         (case queue q of
            [] \<Rightarrow> fault BadPtr
          | t # _ \<Rightarrow> bindS (rr_sched_dequeue t) (\<lambda>r. thenS (bug_on (r \<noteq> 0)) (ret t)))))"

definition rr_sched_refill_budget :: "u64 \<Rightarrow> u32 \<Rightarrow> unit kop" where
  "rr_sched_refill_budget target budget = bindS (ctx_of target) (\<lambda>c. set_budget (ctx_sc c) budget)"

text \<open>\<^verbatim>\<open>rr_sched\<close>: in the branch of an exiting thread the source compares with
  \<^verbatim>\<open>==\<close> where it means to assign, so the branch changes nothing.\<close>

definition rr_choose_and_switch :: "int kop" where
  "rr_choose_and_switch = bindS rr_sched_choose_thread (\<lambda>t. thenS (switch_to_thread t) (ret 0))"

definition rr_sched :: "int kop" where
  "rr_sched =
     bindS current_thread (\<lambda>cur.
       if cur = 0 then rr_choose_and_switch
       else
         bindS (readS threads cur) (\<lambda>th.
           if thread_ctx_ptr th = 0 then rr_choose_and_switch
           else
             bindS (ctx_of cur) (\<lambda>c.
               if thread_exit_state c = TE_EXITING then rr_choose_and_switch
               else if ctx_state c \<noteq> TS_WAITING then
                 bindS (readS budgets (ctx_sc c)) (\<lambda>budget.
                 bindS (gets cpu) (\<lambda>me.
                   if budget \<noteq> 0 \<and> (ctx_affinity c = int me \<or> ctx_affinity c = - 1)
                   then switch_to_thread cur
                   else
                     bindS (rr_sched_enqueue cur) (\<lambda>r.
                     thenS (bug_on (r \<noteq> 0))
                     (thenS (rr_sched_refill_budget cur DEFAULT_BUDGET) rr_choose_and_switch))))
               else rr_choose_and_switch)))"

abbreviation sched :: "int kop" where "sched \<equiv> rr_sched"
abbreviation sched_enqueue :: "u64 \<Rightarrow> int kop" where "sched_enqueue \<equiv> rr_sched_enqueue"

section \<open>Initialisation\<close>

text \<open>The address of \<^verbatim>\<open>idle_thread_routine\<close> (assembly) is an argument. The idle threads are global
  structs, so they exist before.\<close>

definition init_idle_thread :: "u64 \<Rightarrow> u64 \<Rightarrow> u64 \<Rightarrow> nat \<Rightarrow> unit kop" where
  "init_idle_thread routine idle_cap_group idle_vmspace i =
     bindS (gets (\<lambda>k. idle_threads k i)) (\<lambda>t.
     bindS (create_thread_ctx TYPE_IDLE) (\<lambda>ctx.
     thenS (upd_thread t (\<lambda>th. th\<lparr>thread_ctx_ptr := ctx\<rparr>))
     (thenS (bug_on (ctx = 0))
     (thenS (init_thread_ctx t 0 0 MIN_PRIO TYPE_IDLE (int i))
     (thenS (upd_ctx t (\<lambda>c. arch_idle_ctx_init c routine))
     (thenS (upd_thread t (\<lambda>th. th\<lparr>thread_cap_group := idle_cap_group, thread_vmspace := idle_vmspace\<rparr>))
        (bindS (readS cap_groups idle_cap_group) (\<lambda>c.
           modify (\<lambda>k. k\<lparr>cap_groups := (cap_groups k)(idle_cap_group \<mapsto>
             c\<lparr>thread_list := t # thread_list c\<rparr>)\<rparr>)))))))))"

definition IDLE_NAME :: "8 word list" where
  "IDLE_NAME = [75, 78, 76, 45, 73, 68, 76, 69, 45, 82, 82]"

definition rr_sched_init :: "u64 \<Rightarrow> int kop" where
  "rr_sched_init routine =
     thenS (modify (\<lambda>k. k\<lparr>current_threads := (\<lambda>i. if i < PLAT_CPU_NUM then 0 else current_threads k i),
                        ready_queues := (\<lambda>i. if i < PLAT_CPU_NUM then \<lparr>queue = [], queue_len = 0\<rparr>
                                             else ready_queues k i)\<rparr>))
     (bindS (liftM (kzalloc 128)) (\<lambda>g.
      thenS (if g = 0 then fault BadPtr else ret ())
      (thenS (modify (\<lambda>k. k\<lparr>cap_groups := (cap_groups k)(g \<mapsto>
                \<lparr>slot_table = \<lparr>slots_size = 0, slots = [], full_slots_bmp = [], slots_bmp = [],
                   slots_ptr = 0, full_slots_bmp_ptr = 0, slots_bmp_ptr = 0\<rparr>,
                 thread_list = [], thread_cnt = 0, pid = 0,
                 cap_group_name = IDLE_NAME @ replicate (64 - length IDLE_NAME) 0\<rparr>)\<rparr>))
      (bindS create_idle_vmspace (\<lambda>vs.
       thenS (each [0..<PLAT_CPU_NUM] (init_idle_thread routine g vs)) (ret 0))))))"

definition sched_init :: "u64 \<Rightarrow> int kop" where
  "sched_init routine = thenS (rr_sched_init routine) (ret 0)"

section \<open>Timer and system calls\<close>

definition sched_handle_timer_irq :: "unit kop" where
  "sched_handle_timer_irq =
     bindS current_thread (\<lambda>cur.
       if cur = 0 then ret ()
       else
         bindS (ctx_of cur) (\<lambda>c.
           if ctx_sc c = 0 then ret ()
           else bindS (readS budgets (ctx_sc c)) (\<lambda>b.
                  if b \<noteq> 0 then set_budget (ctx_sc c) (b - 1) else ret ())))"

definition sched_to_thread :: "u64 \<Rightarrow> 'a ctl kop" where
  "sched_to_thread target =
     bindS (ctx_of target) (\<lambda>c.
     thenS (bug_on (ctx_state c \<noteq> TS_WAITING \<and> ctx_state c \<noteq> TS_INTER))
     (bindS current_thread (\<lambda>cur.
      thenS (bug_on (target = cur))
      (bindS (ctx_of cur) (\<lambda>cc.
       thenS (if ctx_state cc \<noteq> TS_WAITING
              then bindS (sched_enqueue cur) (\<lambda>r. bug_on (r \<noteq> 0)) else ret ())
       (thenS (switch_to_thread target) eret_switch))))))"

definition sys_yield :: "unit ctl kop" where
  "sys_yield =
     bindS current_thread (\<lambda>cur.
     bindS (ctx_of cur) (\<lambda>c.
     thenS (set_budget (ctx_sc c) 0) (thenS sched eret_switch)))"

section \<open>Listing\<close>

text \<open>\<^verbatim>\<open>rr_top\<close>: the lines it prints, as what they are about.\<close>

datatype top_line = Queue_Line nat u32 | Current_Line u64 | Ready_Line u64 | Group_Line u64 | Member_Line u64

definition MAX_CAP_GROUP_BUF :: nat where "MAX_CAP_GROUP_BUF = 256"

definition print_thread :: "u64 \<Rightarrow> unit kop" where
  "print_thread t =
     bindS (ctx_of t) (\<lambda>c.
     thenS (if ctx_sc c \<noteq> 0 then bindS (readS budgets (ctx_sc c)) (\<lambda>_. ret ()) else ret ())
     (bindS (arch_get_thread_next_ip t) (\<lambda>_.
      bindS (readS threads t) (\<lambda>th.
      bindS (readS cap_groups (thread_cap_group th)) (\<lambda>_. ret ())))))"

text \<open>Remember the group of a thread unless it is known or the buffer is full.\<close>

definition note_group :: "u64 \<Rightarrow> u64 list \<Rightarrow> u64 list kop" where
  "note_group t groups =
     bindS (readS threads t) (\<lambda>th.
       ret (if thread_cap_group th \<notin> set groups \<and> length groups < MAX_CAP_GROUP_BUF
            then groups @ [thread_cap_group th] else groups))"

fun top_threads :: "(u64 \<Rightarrow> top_line) \<Rightarrow> u64 list \<Rightarrow> u64 list \<Rightarrow> (u64 list \<times> top_line list) kop" where
  "top_threads line [] groups = ret (groups, [])"
| "top_threads line (t # ts) groups =
     bindS (note_group t groups) (\<lambda>groups.
     thenS (print_thread t)
     (bindS (top_threads line ts groups) (\<lambda>(groups, out). ret (groups, line t # out))))"

fun top_cpus :: "nat list \<Rightarrow> u64 list \<Rightarrow> (u64 list \<times> top_line list) kop" where
  "top_cpus [] groups = ret (groups, [])"
| "top_cpus (c # cs) groups =
     bindS (gets (\<lambda>k. (ready_queues k c, current_threads k c))) (\<lambda>(q, t).
     bindS (top_threads Current_Line (if t = 0 then [] else [t]) groups) (\<lambda>(groups, out1).
     bindS (top_threads Ready_Line (queue q) groups) (\<lambda>(groups, out2).
     bindS (top_cpus cs groups) (\<lambda>(groups, out3).
       ret (groups, Queue_Line c (queue_len q) # out1 @ out2 @ out3)))))"

fun top_groups :: "u64 list \<Rightarrow> top_line list kop" where
  "top_groups [] = ret []"
| "top_groups (g # gs) =
     bindS (readS cap_groups g) (\<lambda>c.
     thenS (each (thread_list c) print_thread)
     (bindS (top_groups gs) (\<lambda>out. ret (Group_Line g # map Member_Line (thread_list c) @ out))))"

definition rr_top :: "top_line list kop" where
  "rr_top =
     bindS (top_cpus [0..<PLAT_CPU_NUM] []) (\<lambda>(groups, out1).
     bindS (top_groups groups) (\<lambda>out2. ret (out1 @ out2)))"

definition sys_top :: "top_line list kop" where
  "sys_top = rr_top"

end
