(* ===== verification/Sched_Correct.thy ===== *)
theory Sched_Correct
  imports Sched
begin

text \<open>The round robin scheduler. The interface \<^verbatim>\<open>struct sched_ops\<close> of the source is a locale
  that says what a policy promises to its clients: a thread that is enqueued goes to the end of one
  ready queue, and the thread that is chosen is the first of the queue of the executing core. The
  policy of \<^verbatim>\<open>policy_rr.c\<close> is an instance.\<close>

section \<open>Contexts and the invariant\<close>

definition ctx :: "kernel \<Rightarrow> u64 \<Rightarrow> thread_ctx option" where
  "ctx k t = (case threads k t of None \<Rightarrow> None
     | Some th \<Rightarrow> if thread_ctx_ptr th = 0 then None else thread_ctxs k (thread_ctx_ptr th))"

abbreviation ready :: "nat \<Rightarrow> kernel \<Rightarrow> u64 list" where
  "ready c k \<equiv> queue (ready_queues k c)"

definition queued_ctx :: "nat \<Rightarrow> thread_ctx \<Rightarrow> bool" where
  "queued_ctx c x \<longleftrightarrow> ctx_state x = TS_READY \<and> ctx_cpuid x = int c \<and> ctx_type x \<noteq> TYPE_IDLE \<and>
     - 1 \<le> ctx_affinity x \<and> ctx_affinity x < 4 \<and> thread_exit_state x \<noteq> TE_EXITED"

definition own_ctxs :: "kernel \<Rightarrow> bool" where
  "own_ctxs k \<longleftrightarrow> (\<forall>t t' th th'. threads k t = Some th \<longrightarrow> threads k t' = Some th' \<longrightarrow>
     thread_ctx_ptr th = thread_ctx_ptr th' \<longrightarrow> thread_ctx_ptr th \<noteq> 0 \<longrightarrow> t = t')"

definition sched_ok :: "kernel \<Rightarrow> bool" where
  "sched_ok k \<longleftrightarrow> cpu k < 4 \<and> own_ctxs k \<and>
     (\<forall>c < 4. distinct (ready c k) \<and> queue_len (ready_queues k c) = of_nat (length (ready c k)) \<and> length (ready c k) < 2 ^ 32 \<and>
        (\<forall>t \<in> set (ready c k). t \<noteq> 0 \<and> (\<exists>x. ctx k t = Some x \<and> queued_ctx c x))) \<and>
     (\<forall>c < 4. idle_threads k c \<noteq> 0 \<and> (\<exists>x. ctx k (idle_threads k c) = Some x \<and> ctx_type x = TYPE_IDLE \<and>
        ctx_state x \<noteq> TS_READY \<and> thread_exit_state x \<noteq> TE_EXITED))"

lemma sched_okD:
  assumes "sched_ok k"
  shows "cpu k < 4" "own_ctxs k" "c < 4 \<Longrightarrow> distinct (ready c k)"
    "c < 4 \<Longrightarrow> queue_len (ready_queues k c) = of_nat (length (ready c k))" "c < 4 \<Longrightarrow> length (ready c k) < 2 ^ 32"
    "c < 4 \<Longrightarrow> t \<in> set (ready c k) \<Longrightarrow> t \<noteq> 0" "c < 4 \<Longrightarrow> t \<in> set (ready c k) \<Longrightarrow> \<exists>x. ctx k t = Some x \<and> queued_ctx c x"
    "c < 4 \<Longrightarrow> idle_threads k c \<noteq> 0"
    "c < 4 \<Longrightarrow> \<exists>x. ctx k (idle_threads k c) = Some x \<and> ctx_type x = TYPE_IDLE \<and> ctx_state x \<noteq> TS_READY \<and> thread_exit_state x \<noteq> TE_EXITED"
  using assms unfolding sched_ok_def by blast+

text \<open>Reading and writing the context of a thread.\<close>

lemma ctxE:
  assumes "ctx k t = Some x"
  obtains th where "threads k t = Some th" "thread_ctx_ptr th \<noteq> 0" "thread_ctxs k (thread_ctx_ptr th) = Some x"
  using assms by (auto simp: ctx_def split: option.splits if_splits)

definition set_ctx :: "u64 \<Rightarrow> thread_ctx \<Rightarrow> kernel \<Rightarrow> kernel" where
  "set_ctx t x k = (case threads k t of None \<Rightarrow> k
     | Some th \<Rightarrow> k\<lparr>thread_ctxs := (thread_ctxs k)(thread_ctx_ptr th \<mapsto> x)\<rparr>)"

lemma ctx_of_eq: "ctx k t = Some x \<Longrightarrow> ctx_of t k = Inr (x, k)"
  by (erule ctxE) (simp add: ctx_of_def outcome_simps)

lemma upd_ctx_eq: "ctx k t = Some x \<Longrightarrow> upd_ctx t f k = Inr ((), set_ctx t (f x) k)"
  by (erule ctxE) (simp add: upd_ctx_def outcome_simps set_ctx_def)

lemma set_ctx_frame [simp]:
  "threads (set_ctx t x k) = threads k" "ready_queues (set_ctx t x k) = ready_queues k" "cpu (set_ctx t x k) = cpu k"
  "idle_threads (set_ctx t x k) = idle_threads k" "current_threads (set_ctx t x k) = current_threads k"
  "budgets (set_ctx t x k) = budgets k" "semaphores (set_ctx t x k) = semaphores k"
  by (simp_all add: set_ctx_def split: option.splits)

lemma ctx_frame [simp]:
  "ctx (k\<lparr>ready_queues := q\<rparr>) t = ctx k t" "ctx (k\<lparr>current_threads := ct\<rparr>) t = ctx k t" "ctx (k\<lparr>budgets := b\<rparr>) t = ctx k t"
  "ctx (k\<lparr>semaphores := s\<rparr>) t = ctx k t"
  by (simp_all add: ctx_def split: option.splits)

lemma ctx_set_ctx:
  assumes own: "own_ctxs k" and t: "ctx k t = Some y"
  shows "ctx (set_ctx t x k) t' = (if t' = t then Some x else ctx k t')"
proof -
  obtain th where th: "threads k t = Some th" "thread_ctx_ptr th \<noteq> 0" "thread_ctxs k (thread_ctx_ptr th) = Some y"
    by (rule ctxE [OF t])
  show ?thesis
  proof (cases "threads k t'")
    case (Some th')
    then have "thread_ctx_ptr th' = thread_ctx_ptr th \<longleftrightarrow> t' = t" if "thread_ctx_ptr th' \<noteq> 0"
      using own th(1) that unfolding own_ctxs_def by (metis option.inject)
    then show ?thesis using th Some by (auto simp: ctx_def set_ctx_def)
  qed (use th in \<open>auto simp: ctx_def set_ctx_def\<close>)
qed

lemma own_ctxs_frame [simp]:
  "own_ctxs (set_ctx t x k) = own_ctxs k" "own_ctxs (k\<lparr>ready_queues := q\<rparr>) = own_ctxs k"
  "own_ctxs (k\<lparr>current_threads := ct\<rparr>) = own_ctxs k" "own_ctxs (k\<lparr>budgets := b\<rparr>) = own_ctxs k"
  "own_ctxs (k\<lparr>semaphores := s\<rparr>) = own_ctxs k"
  by (simp_all add: own_ctxs_def)

section \<open>The policy as an interface\<close>

definition schedulable :: "u64 \<Rightarrow> kernel \<Rightarrow> bool" where
  "schedulable t k \<longleftrightarrow> t \<noteq> 0 \<and> (\<exists>x. ctx k t = Some x \<and> ctx_state x \<noteq> TS_READY \<and> ctx_type x \<noteq> TYPE_IDLE \<and>
     - 1 \<le> ctx_affinity x \<and> ctx_affinity x < 4 \<and> thread_exit_state x \<noteq> TE_EXITED) \<and>
     (\<forall>c < 4. length (ready c k) < 2 ^ 32 - 1)"

text \<open>The core a thread is queued on.\<close>

definition home :: "u64 \<Rightarrow> kernel \<Rightarrow> nat" where
  "home t k = (case ctx k t of None \<Rightarrow> cpu k | Some x \<Rightarrow> if ctx_affinity x = NO_AFF then cpu k else nat (ctx_affinity x))"

text \<open>Choosing \<open>n\<close> times.\<close>

primrec picks :: "u64 kop \<Rightarrow> nat \<Rightarrow> u64 list kop" where
  "picks pick 0 = ret []"
| "picks pick (Suc n) = bindS pick (\<lambda>t. bindS (picks pick n) (\<lambda>ts. ret (t # ts)))"

locale sched_policy =
  fixes inv :: "kernel \<Rightarrow> bool" and can_run :: "u64 \<Rightarrow> kernel \<Rightarrow> bool" and core_of :: "u64 \<Rightarrow> kernel \<Rightarrow> nat"
    and enqueue :: "u64 \<Rightarrow> int kop" and pick :: "u64 kop"
  assumes enqueue_law: "inv k \<Longrightarrow> can_run t k \<Longrightarrow> \<exists>k'. enqueue t k = Inr (0, k') \<and> inv k' \<and> cpu k' = cpu k \<and>
      (\<forall>c < PLAT_CPU_NUM. ready c k' = (if c = core_of t k then ready c k @ [t] else ready c k))"
    and pick_first: "inv k \<Longrightarrow> ready (cpu k) k = t # ts \<Longrightarrow> \<exists>k'. pick k = Inr (t, k') \<and> inv k' \<and> cpu k' = cpu k \<and>
      (\<forall>c < PLAT_CPU_NUM. ready c k' = (if c = cpu k then ts else ready c k))"
    and core: "inv k \<Longrightarrow> cpu k < PLAT_CPU_NUM"
    and pick_idle: "inv k \<Longrightarrow> ready (cpu k) k = [] \<Longrightarrow> pick k = Inr (idle_threads k (cpu k), k)"
begin

lemma fifo:
  "inv k \<Longrightarrow> ready (cpu k) k = ts @ us \<Longrightarrow> \<exists>k'. picks pick (length ts) k = Inr (ts, k') \<and> inv k' \<and> ready (cpu k) k' = us"
proof (induction ts arbitrary: k)
  case (Cons t ts)
  obtain k1 where k1: "pick k = Inr (t, k1)" "inv k1" "cpu k1 = cpu k" "ready (cpu k) k1 = ts @ us"
    using pick_first [OF Cons.prems(1), of t "ts @ us"] core [OF Cons.prems(1)] Cons.prems(2) by auto
  then show ?case using Cons.IH [of k1] by (auto simp: outcome_simps)
qed auto

text \<open>A thread that is enqueued on the executing core is chosen after those that were waiting there.\<close>

lemma served:
  assumes "inv k" "can_run t k" "core_of t k = cpu k"
  shows "\<exists>k1 k2. enqueue t k = Inr (0, k1) \<and> picks pick (Suc (length (ready (cpu k) k))) k1 = Inr (ready (cpu k) k @ [t], k2) \<and>
    inv k2 \<and> ready (cpu k) k2 = []"
proof -
  obtain k1 where k1: "enqueue t k = Inr (0, k1)" "inv k1" "cpu k1 = cpu k" "ready (cpu k) k1 = ready (cpu k) k @ [t]"
    using enqueue_law [OF assms(1,2)] core [OF assms(1)] assms(3) by auto
  then show ?thesis using fifo [of k1 "ready (cpu k) k @ [t]" "[]"] by auto
qed

end

section \<open>Round robin keeps its promises\<close>

lemma enqueue_eq:
  assumes s: "sched_ok k" and t: "schedulable t k"
  obtains x where "ctx k t = Some x" "home t k < 4"
    "rr_sched_enqueue t k = Inr (0, (set_ctx t (x\<lparr>ctx_state := TS_READY, ctx_cpuid := int (home t k)\<rparr>) k)
       \<lparr>ready_queues := (ready_queues k)(home t k := (ready_queues k (home t k))
          \<lparr>queue := ready (home t k) k @ [t], queue_len := queue_len (ready_queues k (home t k)) + 1\<rparr>)\<rparr>)"
proof -
  obtain x where x: "t \<noteq> 0" "ctx k t = Some x" "ctx_state x \<noteq> TS_READY" "ctx_type x \<noteq> TYPE_IDLE" "- 1 \<le> ctx_affinity x" "ctx_affinity x < 4"
    using t by (auto simp: schedulable_def)
  have h: "(if ctx_affinity x = NO_AFF then int (cpu k) else ctx_affinity x) = int (home t k)" "home t k < 4"
    using x(2,5,6) sched_okD(1) [OF s] by (auto simp: home_def NO_AFF_def)
  obtain th where th: "threads k t = Some th" "thread_ctx_ptr th \<noteq> 0" by (rule ctxE [OF x(2)])
  show thesis
    by (rule that [OF x(2) h(2)])
      (use x th h(2) in \<open>simp add: rr_sched_enqueue_def bindS_simp thenS_simp ctx_of_eq [OF x(2)] upd_ctx_eq [OF x(2)] Let_def PLAT_CPU_NUM_def h(1)\<close>)
qed

lemma queue_len_Suc: "length xs < 2 ^ 32 - 1 \<Longrightarrow> (of_nat (length xs) :: u32) + 1 = of_nat (length (xs @ [t]))"
  by simp

lemma enqueue_ok:
  assumes s: "sched_ok k" and t: "schedulable t k"
  shows "\<exists>k'. rr_sched_enqueue t k = Inr (0, k') \<and> sched_ok k' \<and> cpu k' = cpu k \<and>
      (\<forall>c. ready c k' = (if c = home t k then ready c k @ [t] else ready c k))"
proof -
  obtain x where x: "ctx k t = Some x" "home t k < 4" and e: "rr_sched_enqueue t k = Inr (0, (set_ctx t (x\<lparr>ctx_state := TS_READY, ctx_cpuid := int (home t k)\<rparr>) k)
       \<lparr>ready_queues := (ready_queues k)(home t k := (ready_queues k (home t k))
          \<lparr>queue := ready (home t k) k @ [t], queue_len := queue_len (ready_queues k (home t k)) + 1\<rparr>)\<rparr>)"
    by (rule enqueue_eq [OF s t])
  let ?x = "x\<lparr>ctx_state := TS_READY, ctx_cpuid := int (home t k)\<rparr>"
  let ?k = "(set_ctx t ?x k)\<lparr>ready_queues := (ready_queues k)(home t k := (ready_queues k (home t k))
          \<lparr>queue := ready (home t k) k @ [t], queue_len := queue_len (ready_queues k (home t k)) + 1\<rparr>)\<rparr>"
  have tx: "t \<noteq> 0" "ctx_state x \<noteq> TS_READY" "ctx_type x \<noteq> TYPE_IDLE" "- 1 \<le> ctx_affinity x" "ctx_affinity x < 4"
    "thread_exit_state x \<noteq> TE_EXITED" "\<forall>c < 4. length (ready c k) < 2 ^ 32 - 1" using t x(1) by (auto simp: schedulable_def)
  have new: "t \<notin> set (ready c k)" if "c < 4" for c
    using sched_okD(7) [OF s that, of t] x(1) tx(2) by (auto simp: queued_ctx_def)
  have C: "ctx ?k t' = (if t' = t then Some ?x else ctx k t')" for t' using ctx_set_ctx [OF sched_okD(2) [OF s] x(1)] by simp
  have "sched_ok ?k"
    unfolding sched_ok_def
  proof (intro conjI allI impI ballI)
    fix c assume c: "c < (4 :: nat)"
    show "distinct (ready c ?k)" using sched_okD(3) [OF s c] new [OF c] by auto
    show "queue_len (ready_queues ?k c) = of_nat (length (ready c ?k))" using sched_okD(4) [OF s c] by auto
    show "length (ready c ?k) < 2 ^ 32" using sched_okD(5) [OF s c] tx(7) c by auto
    show "idle_threads ?k c \<noteq> 0" using sched_okD(8) [OF s c] by simp
    have "idle_threads k c \<noteq> t" using sched_okD(9) [OF s c] x(1) tx(3) by auto
    then show "\<exists>x. ctx ?k (idle_threads ?k c) = Some x \<and> ctx_type x = TYPE_IDLE \<and> ctx_state x \<noteq> TS_READY \<and> thread_exit_state x \<noteq> TE_EXITED"
      using sched_okD(9) [OF s c] C by simp
    fix t' assume t': "t' \<in> set (ready c ?k)"
    show "t' \<noteq> 0" using t' sched_okD(6) [OF s c, of t'] tx(1) by (auto split: if_splits)
    show "\<exists>x. ctx ?k t' = Some x \<and> queued_ctx c x"
    proof (cases "t' = t")
      case True
      then have "c = home t k" using t' new [OF c] by (auto split: if_splits)
      then show ?thesis unfolding C using True tx by (simp add: queued_ctx_def)
    next
      case False
      then show ?thesis unfolding C using t' sched_okD(7) [OF s c, of t'] by (auto split: if_splits)
    qed
  qed (use sched_okD(1,2) [OF s] in simp_all)
  then show ?thesis using e by auto
qed

lemma other_queue: "sched_ok k \<Longrightarrow> c < 4 \<Longrightarrow> c' < 4 \<Longrightarrow> t \<in> set (ready c k) \<Longrightarrow> t \<in> set (ready c' k) \<Longrightarrow> c = c'"
  using sched_okD(7) [of k c t] sched_okD(7) [of k c' t] by (auto simp: queued_ctx_def)

text \<open>Taking the first thread out of the queue of the executing core.\<close>

lemma dequeue_first:
  assumes s: "sched_ok k" and q: "ready (cpu k) k = t # ts"
  obtains x k' where "ctx k t = Some x" "rr_sched_dequeue t k = Inr (0, k')" "sched_ok k'" "cpu k' = cpu k" "threads k' = threads k"
    "\<forall>c < 4. ready c k' = (if c = cpu k then ts else ready c k)"
    "\<forall>t'. ctx k' t' = (if t' = t then Some (x\<lparr>ctx_state := TS_INTER, ctx_cpuid := int (cpu k)\<rparr>) else ctx k t')"
    "current_threads k' = current_threads k" "idle_threads k' = idle_threads k" "budgets k' = budgets k" "semaphores k' = semaphores k"
proof -
  note me = sched_okD(1) [OF s]
  have tq: "t \<in> set (ready (cpu k) k)" using q by simp
  obtain x where x: "ctx k t = Some x" "queued_ctx (cpu k) x" using sched_okD(7) [OF s me tq] by blast
  obtain th where th: "threads k t = Some th" "thread_ctx_ptr th \<noteq> 0" by (rule ctxE [OF x(1)])
  let ?x = "x\<lparr>ctx_state := TS_INTER, ctx_cpuid := int (cpu k)\<rparr>"
  define qs where "qs = (unlink_ready t (ready_queues k))(cpu k := (unlink_ready t (ready_queues k) (cpu k))
      \<lparr>queue_len := queue_len (ready_queues k (cpu k)) - 1\<rparr>)"
  define k' where "k' = (set_ctx t ?x k)\<lparr>ready_queues := qs\<rparr>"
  have x1: "ctx (k\<lparr>ready_queues := q'\<rparr>) t = Some x" for q' using x(1) by simp
  have comm: "set_ctx t y (k\<lparr>ready_queues := q'\<rparr>) = (set_ctx t y k)\<lparr>ready_queues := q'\<rparr>" for y q'
    by (simp add: set_ctx_def split: option.splits)
  have run: "rr_sched_dequeue t k = Inr (0, k')"
    using sched_okD(6) [OF s me tq] th x(2)
    by (simp add: rr_sched_dequeue_def bindS_simp thenS_simp ctx_of_eq [OF x(1)] upd_ctx_eq [OF x1] comm queued_ctx_def
        PLAT_CPU_NUM_def k'_def qs_def unlink_ready_def)
  have R: "ready c k' = (if c = cpu k then ts else ready c k)" if c: "c < 4" for c
  proof (cases "c = cpu k")
    case False
    then have "t \<notin> set (ready c k)" using other_queue [OF s me c tq] by blast
    then show ?thesis using False by (simp add: k'_def qs_def unlink_ready_def remove1_idem)
  qed (simp add: k'_def qs_def unlink_ready_def q)
  have C: "ctx k' t' = (if t' = t then Some ?x else ctx k t')" for t'
    unfolding k'_def using ctx_set_ctx [OF sched_okD(2) [OF s] x(1)] by simp
  have "sched_ok k'"
    unfolding sched_ok_def
  proof (intro conjI allI impI ballI)
    fix c assume c: "c < (4 :: nat)"
    have d: "distinct (t # ts)" using sched_okD(3) [OF s me] q by simp
    show "distinct (ready c k')" unfolding R [OF c] using sched_okD(3) [OF s c] d by auto
    show "length (ready c k') < 2 ^ 32" unfolding R [OF c] using sched_okD(5) [OF s c] q by auto
    have "queue_len (ready_queues k' c) = (if c = cpu k then queue_len (ready_queues k c) - 1 else queue_len (ready_queues k c))"
      by (simp add: k'_def qs_def unlink_ready_def)
    then show "queue_len (ready_queues k' c) = of_nat (length (ready c k'))"
      unfolding R [OF c] using sched_okD(4) [OF s c] q by auto
    show "idle_threads k' c \<noteq> 0" using sched_okD(8) [OF s c] by (simp add: k'_def)
    have "idle_threads k c \<noteq> t" using sched_okD(9) [OF s c] x by (auto simp: queued_ctx_def)
    then show "\<exists>x. ctx k' (idle_threads k' c) = Some x \<and> ctx_type x = TYPE_IDLE \<and> ctx_state x \<noteq> TS_READY \<and> thread_exit_state x \<noteq> TE_EXITED"
      using sched_okD(9) [OF s c] unfolding C by (simp add: k'_def)
    fix t' assume in': "t' \<in> set (ready c k')"
    have t': "t' \<in> set (ready c k) \<and> t' \<noteq> t"
    proof (cases "c = cpu k")
      case True
      then have "t' \<in> set ts" using in' R [OF c] by simp
      then show ?thesis using True q d by auto
    next
      case False
      then have "t' \<in> set (ready c k)" using in' R [OF c] by simp
      then show ?thesis using other_queue [OF s me c tq] False by metis
    qed
    show "t' \<noteq> 0" by (rule sched_okD(6) [OF s c conjunct1 [OF t']])
    show "\<exists>x. ctx k' t' = Some x \<and> queued_ctx c x" unfolding C using sched_okD(7) [OF s c conjunct1 [OF t']] t' by simp
  qed (use sched_okD(1,2) [OF s] in \<open>simp_all add: k'_def\<close>)
  then show thesis using that [OF x(1) run] R C by (simp add: k'_def)
qed

lemma queue_len_zero: "sched_ok k \<Longrightarrow> c < 4 \<Longrightarrow> queue_len (ready_queues k c) = 0 \<longleftrightarrow> ready c k = []"
  using sched_okD(4,5) [of k c] by (auto simp: word_unat_eq_iff unat_of_nat)

lemma choose_eq:
  assumes "sched_ok k"
  shows "rr_sched_choose_thread k = (case ready (cpu k) k of [] \<Rightarrow> Inr (idle_threads k (cpu k), k)
    | t # ts \<Rightarrow> bindR (rr_sched_dequeue t k) (\<lambda>(r, k). if r \<noteq> 0 then Inl Bug else Inr (t, k)))"
  using queue_len_zero [OF assms sched_okD(1) [OF assms]]
  by (cases "ready (cpu k) k") (auto simp: rr_sched_choose_thread_def bindS_simp thenS_simp bindR_def split: sum.splits)

interpretation rr: sched_policy sched_ok schedulable home rr_sched_enqueue rr_sched_choose_thread
proof
  fix k t assume "sched_ok k" "schedulable t k"
  then show "\<exists>k'. rr_sched_enqueue t k = Inr (0, k') \<and> sched_ok k' \<and> cpu k' = cpu k \<and>
      (\<forall>c < PLAT_CPU_NUM. ready c k' = (if c = home t k then ready c k @ [t] else ready c k))"
    using enqueue_ok by blast
next
  fix k t ts assume s: "sched_ok k" and q: "ready (cpu k) k = t # ts"
  obtain x k' where "rr_sched_dequeue t k = Inr (0, k')" "sched_ok k'" "cpu k' = cpu k"
    "\<forall>c < 4. ready c k' = (if c = cpu k then ts else ready c k)" by (rule dequeue_first [OF s q])
  then show "\<exists>k'. rr_sched_choose_thread k = Inr (t, k') \<and> sched_ok k' \<and> cpu k' = cpu k \<and>
      (\<forall>c < PLAT_CPU_NUM. ready c k' = (if c = cpu k then ts else ready c k))"
    using choose_eq [OF s] q by (simp add: PLAT_CPU_NUM_def)
next
  fix k assume "sched_ok k"
  then show "cpu k < PLAT_CPU_NUM" using sched_okD(1) by (simp add: PLAT_CPU_NUM_def)
next
  fix k assume "sched_ok k" "ready (cpu k) k = []"
  then show "rr_sched_choose_thread k = Inr (idle_threads k (cpu k), k)" using choose_eq by simp
qed

section \<open>Switching\<close>

lemma sched_ok_cong:
  assumes "sched_ok k" "ready_queues k' = ready_queues k" "idle_threads k' = idle_threads k" "cpu k' = cpu k" "own_ctxs k'"
    "\<forall>t. ctx k' t = ctx k t"
  shows "sched_ok k'"
  using assms unfolding sched_ok_def by simp

lemma sched_ok_set_ctx:
  assumes s: "sched_ok k" and x: "ctx k t = Some x" "ctx_state x \<noteq> TS_READY" and y: "ctx_type y = ctx_type x" "ctx_state y \<noteq> TS_READY"
    "thread_exit_state y \<noteq> TE_EXITED"
  shows "sched_ok (set_ctx t y k)"
proof -
  have C: "ctx (set_ctx t y k) t' = (if t' = t then Some y else ctx k t')" for t' by (rule ctx_set_ctx [OF sched_okD(2) [OF s] x(1)])
  have notin: "t \<notin> set (ready c k)" if "c < 4" for c using sched_okD(7) [OF s that, of t] x by (auto simp: queued_ctx_def)
  have idle: "\<exists>x. (if idle_threads k c = t then Some y else ctx k (idle_threads k c)) = Some x \<and> ctx_type x = TYPE_IDLE \<and>
      ctx_state x \<noteq> TS_READY \<and> thread_exit_state x \<noteq> TE_EXITED" if "c < 4" for c
    using sched_okD(9) [OF s that] x(1) y by auto
  have q: "\<exists>x. (if t' = t then Some y else ctx k t') = Some x \<and> queued_ctx c x" if "c < 4" "t' \<in> set (ready c k)" for c t'
    using sched_okD(7) [OF s that] notin [OF that(1)] that(2) by auto
  show ?thesis
    unfolding sched_ok_def
  proof (intro conjI allI impI ballI)
    fix c assume c: "c < (4 :: nat)"
    show "\<exists>x. ctx (set_ctx t y k) (idle_threads (set_ctx t y k) c) = Some x \<and> ctx_type x = TYPE_IDLE \<and>
      ctx_state x \<noteq> TS_READY \<and> thread_exit_state x \<noteq> TE_EXITED" unfolding C set_ctx_frame by (rule idle [OF c])
    fix t' assume "t' \<in> set (ready c (set_ctx t y k))"
    then have t': "t' \<in> set (ready c k)" by simp
    show "\<exists>x. ctx (set_ctx t y k) t' = Some x \<and> queued_ctx c x" unfolding C by (rule q [OF c t'])
    show "t' \<noteq> 0" by (rule sched_okD(6) [OF s c t'])
  qed (use sched_okD(1-5,8) [OF s] in simp_all)
qed

lemma upd_thread_prev:
  fixes p :: u64
  assumes "threads k t = Some th"
  defines "k' \<equiv> k\<lparr>threads := (threads k)(t \<mapsto> th\<lparr>prev_thread := p\<rparr>)\<rparr>"
  shows "upd_thread t (\<lambda>th. th\<lparr>prev_thread := p\<rparr>) k = Inr ((), k')" "ctx k' t' = ctx k t'" "own_ctxs k \<Longrightarrow> own_ctxs k'"
proof -
  show "upd_thread t (\<lambda>th. th\<lparr>prev_thread := p\<rparr>) k = Inr ((), k')" using assms by (simp add: upd_thread_def bindS_simp)
  show "ctx k' t' = ctx k t'" using assms by (simp add: ctx_def split: option.splits)
  have "\<exists>th2. threads k a = Some th2 \<and> thread_ctx_ptr th2 = thread_ctx_ptr th1" if "threads k' a = Some th1" for a th1
    using that assms by (auto split: if_splits)
  then show "own_ctxs k'" if "own_ctxs k" using that unfolding own_ctxs_def by metis
qed

lemma switch_ok:
  assumes s: "sched_ok k" and t: "t \<noteq> 0" "ctx k t = Some x" "ctx_state x \<noteq> TS_READY" "thread_exit_state x \<noteq> TE_EXITED"
  obtains k' y where "switch_to_thread t k = Inr (0, k')" "sched_ok k'" "cpu k' = cpu k" "ready_queues k' = ready_queues k"
    "current_threads k' (cpu k) = t" "ctx k' t = Some y" "ctx_state y = TS_RUNNING"
    "\<forall>t'. t' \<noteq> t \<longrightarrow> ctx k' t' = ctx k t'" "thread_exit_state y = thread_exit_state x"
proof -
  obtain th where th: "threads k t = Some th" "thread_ctx_ptr th \<noteq> 0" by (rule ctxE [OF t(2)])
  define y where "y = (if t = current_threads k (cpu k) then x\<lparr>ctx_state := TS_RUNNING\<rparr>
    else x\<lparr>ctx_cpuid := int (cpu k), ctx_state := TS_RUNNING\<rparr>)"
  define p where "p = (if t = current_threads k (cpu k) then THREAD_ITSELF else current_threads k (cpu k))"
  define k1 where "k1 = set_ctx t y k"
  have s1: "sched_ok k1" unfolding k1_def by (rule sched_ok_set_ctx [OF s t(2,3)]) (use t(4) in \<open>simp_all add: y_def\<close>)
  have th1: "threads k1 t = Some th" using th by (simp add: k1_def)
  define k2 where "k2 = k1\<lparr>threads := (threads k1)(t \<mapsto> th\<lparr>prev_thread := p\<rparr>)\<rparr>"
  note U = upd_thread_prev [OF th1, where p = p, folded k2_def]
  have own1: "own_ctxs k1" by (rule sched_okD(2) [OF s1])
  have s2: "sched_ok k2" by (rule sched_ok_cong [OF s1]) (use U(2,3) own1 in \<open>simp_all add: k2_def\<close>)
  define k3 where "k3 = k2\<lparr>current_threads := (current_threads k2)(cpu k := t)\<rparr>"
  have s3: "sched_ok k3" by (rule sched_ok_cong [OF s2]) (use sched_okD(2) [OF s2] in \<open>simp_all add: k3_def\<close>)
  have cur: "current_threads k2 = current_threads k" by (simp add: k2_def k1_def)
  have same: "k3 = k2" if "t = current_threads k (cpu k)" using that cur by (simp add: k3_def)
  have run: "switch_to_thread t k = Inr (0, k3)"
  proof (cases "t = current_threads k (cpu k)")
    case True
    have "upd_ctx t (\<lambda>c. c\<lparr>ctx_state := TS_RUNNING\<rparr>) k = Inr ((), k1)" using upd_ctx_eq [OF t(2)] True by (simp add: k1_def y_def)
    moreover have "p = THREAD_ITSELF" "current_threads k (cpu k) = t" using True by (simp_all add: p_def)
    ultimately show ?thesis
      using t th U(1) same [OF True]
      by (simp add: switch_to_thread_def bindS_simp thenS_simp ctx_of_eq [OF t(2)] current_thread_def)
  next
    case False
    have "upd_ctx t (\<lambda>c. c\<lparr>ctx_cpuid := int (cpu k), ctx_state := TS_RUNNING\<rparr>) k = Inr ((), k1)"
      using upd_ctx_eq [OF t(2)] False by (simp add: k1_def y_def)
    then show ?thesis
      using t th False U(1)
      by (simp add: switch_to_thread_def bindS_simp thenS_simp ctx_of_eq [OF t(2)] current_thread_def p_def k3_def)
  qed
  have C: "ctx k3 t' = (if t' = t then Some y else ctx k t')" for t'
    using U(2) ctx_set_ctx [OF sched_okD(2) [OF s] t(2), of y] by (simp add: k3_def k1_def)
  have "ctx_state y = TS_RUNNING" "thread_exit_state y = thread_exit_state x" by (simp_all add: y_def)
  moreover have "cpu k3 = cpu k" "ready_queues k3 = ready_queues k" "current_threads k3 (cpu k) = t"
    by (simp_all add: k3_def k2_def k1_def)
  ultimately show thesis using that [OF run s3] C by auto
qed

lemma choose_and_switch_ok:
  assumes s: "sched_ok k"
  obtains k' y where "rr_choose_and_switch k = Inr (0, k')" "sched_ok k'" "cpu k' = cpu k"
    "current_threads k' (cpu k) = (case ready (cpu k) k of [] \<Rightarrow> idle_threads k (cpu k) | t # _ \<Rightarrow> t)"
    "ctx k' (current_threads k' (cpu k)) = Some y" "ctx_state y = TS_RUNNING"
    "\<forall>t'. t' \<noteq> current_threads k' (cpu k) \<longrightarrow> ctx k' t' = ctx k t'"
    "\<forall>c < 4. ready c k' = (if c = cpu k then tl (ready c k) else ready c k)"
proof (cases "ready (cpu k) k")
  case Nil
  note me = sched_okD(1) [OF s]
  obtain x where x: "ctx k (idle_threads k (cpu k)) = Some x" "ctx_state x \<noteq> TS_READY" "thread_exit_state x \<noteq> TE_EXITED"
    using sched_okD(9) [OF s me] by blast
  obtain k' y where w: "switch_to_thread (idle_threads k (cpu k)) k = Inr (0, k')" "sched_ok k'" "cpu k' = cpu k"
    "ready_queues k' = ready_queues k" "current_threads k' (cpu k) = idle_threads k (cpu k)"
    "ctx k' (idle_threads k (cpu k)) = Some y" "ctx_state y = TS_RUNNING"
    "\<forall>t'. t' \<noteq> idle_threads k (cpu k) \<longrightarrow> ctx k' t' = ctx k t'" by (rule switch_ok [OF s sched_okD(8) [OF s me] x])
  show thesis
    by (rule that [of k' y]) (use w Nil choose_eq [OF s] in \<open>simp_all add: rr_choose_and_switch_def bindS_simp thenS_simp\<close>)
next
  case (Cons t ts)
  note me = sched_okD(1) [OF s]
  obtain x k1 where d: "ctx k t = Some x" "rr_sched_dequeue t k = Inr (0, k1)" "sched_ok k1" "cpu k1 = cpu k"
    "\<forall>c < 4. ready c k1 = (if c = cpu k then ts else ready c k)"
    "\<forall>t'. ctx k1 t' = (if t' = t then Some (x\<lparr>ctx_state := TS_INTER, ctx_cpuid := int (cpu k)\<rparr>) else ctx k t')"
    by (rule dequeue_first [OF s Cons])
  have tq: "t \<in> set (ready (cpu k) k)" using Cons by simp
  have q: "queued_ctx (cpu k) x" using sched_okD(7) [OF s me tq] d(1) by auto
  have x1: "ctx k1 t = Some (x\<lparr>ctx_state := TS_INTER, ctx_cpuid := int (cpu k)\<rparr>)" using d(6) by simp
  obtain k' y where w: "switch_to_thread t k1 = Inr (0, k')" "sched_ok k'" "cpu k' = cpu k1"
    "ready_queues k' = ready_queues k1" "current_threads k' (cpu k1) = t" "ctx k' t = Some y" "ctx_state y = TS_RUNNING"
    "\<forall>t'. t' \<noteq> t \<longrightarrow> ctx k' t' = ctx k1 t'"
    by (rule switch_ok [OF d(3) sched_okD(6) [OF s me tq] x1]) (use q in \<open>simp_all add: queued_ctx_def\<close>)
  show thesis
    by (rule that [of k' y]) (use w d Cons choose_eq [OF s] in \<open>simp_all add: rr_choose_and_switch_def bindS_simp thenS_simp\<close>)
qed

lemma enqueue_keeps:
  assumes s: "sched_ok k" and t: "schedulable t k" and x: "ctx k t = Some x"
  obtains k' y where "rr_sched_enqueue t k = Inr (0, k')" "sched_ok k'" "cpu k' = cpu k" "budgets k' = budgets k"
    "ctx k' t = Some y" "ctx_sc y = ctx_sc x" "thread_exit_state y = thread_exit_state x"
proof -
  obtain x' where x': "ctx k t = Some x'" and e: "rr_sched_enqueue t k = Inr (0, (set_ctx t (x'\<lparr>ctx_state := TS_READY, ctx_cpuid := int (home t k)\<rparr>) k)
       \<lparr>ready_queues := (ready_queues k)(home t k := (ready_queues k (home t k))
          \<lparr>queue := ready (home t k) k @ [t], queue_len := queue_len (ready_queues k (home t k)) + 1\<rparr>)\<rparr>)"
    by (rule enqueue_eq [OF s t])
  obtain k' where k': "rr_sched_enqueue t k = Inr (0, k')" "sched_ok k'" "cpu k' = cpu k" using enqueue_ok [OF s t] by blast
  show thesis
    by (rule that [OF k', of "x\<lparr>ctx_state := TS_READY, ctx_cpuid := int (home t k)\<rparr>"]) (use e k'(1) x x' in \<open>auto simp: ctx_set_ctx [OF sched_okD(2) [OF s] x']\<close>)
qed

lemma refill_ok:
  assumes s: "sched_ok k" and x: "ctx k t = Some x" "budgets k (ctx_sc x) = Some b"
  shows "\<exists>k'. rr_sched_refill_budget t v k = Inr ((), k') \<and> sched_ok k' \<and> cpu k' = cpu k"
proof -
  let ?k = "k\<lparr>budgets := (budgets k)(ctx_sc x \<mapsto> v)\<rparr>"
  have "rr_sched_refill_budget t v k = Inr ((), ?k)"
    using x by (simp add: rr_sched_refill_budget_def bindS_simp ctx_of_eq [OF x(1)] set_budget_def)
  moreover have "sched_ok ?k" by (rule sched_ok_cong [OF s]) (use sched_okD(2) [OF s] in simp_all)
  ultimately show ?thesis by simp
qed

text \<open>What the scheduler may assume of the thread that runs.\<close>

definition current_ok :: "kernel \<Rightarrow> bool" where
  "current_ok k \<longleftrightarrow> (let t = current_threads k (cpu k) in t = 0 \<or>
     (\<exists>x. ctx k t = Some x \<and> ctx_state x \<noteq> TS_READY \<and> thread_exit_state x \<noteq> TE_EXITED \<and> - 1 \<le> ctx_affinity x \<and>
        ctx_affinity x < 4 \<and> budgets k (ctx_sc x) \<noteq> None \<and> (\<forall>c < 4. length (ready c k) < 2 ^ 32 - 1)))"

definition runs :: "kernel \<Rightarrow> kernel \<Rightarrow> bool" where
  "runs k k' \<longleftrightarrow> sched_ok k' \<and> cpu k' = cpu k \<and> (\<exists>y. ctx k' (current_threads k' (cpu k)) = Some y \<and> ctx_state y = TS_RUNNING)"

lemma choose_runs: "sched_ok k \<Longrightarrow> \<exists>k'. rr_choose_and_switch k = Inr (0, k') \<and> runs k k'"
  by (erule choose_and_switch_ok) (auto simp: runs_def)

lemma enqueue_current:
  assumes s: "sched_ok k" and x: "ctx k t = Some x" "t \<noteq> 0" "ctx_state x \<noteq> TS_READY" "thread_exit_state x \<noteq> TE_EXITED"
    "- 1 \<le> ctx_affinity x" "ctx_affinity x < 4" "budgets k (ctx_sc x) \<noteq> None" "\<forall>c < 4. length (ready c k) < 2 ^ 32 - 1"
  shows "\<exists>k'. rr_sched_enqueue t k = Inr (0, k') \<and> sched_ok k' \<and> cpu k' = cpu k \<and>
    (\<exists>y b. ctx k' t = Some y \<and> budgets k' (ctx_sc y) = Some b)"
proof (cases "ctx_type x = TYPE_IDLE")
  case True
  obtain th where th: "threads k t = Some th" "thread_ctx_ptr th \<noteq> 0" by (rule ctxE [OF x(1)])
  have "rr_sched_enqueue t k = Inr (0, k)"
    using x th True by (simp add: rr_sched_enqueue_def bindS_simp ctx_of_eq [OF x(1)])
  then show ?thesis using s x(1,7) by auto
next
  case False
  then have "schedulable t k" using x by (auto simp: schedulable_def)
  then show ?thesis by (rule enqueue_keeps [OF s _ x(1)]) (use x(7) in auto)
qed

text \<open>C7: \<^verbatim>\<open>rr_sched\<close> never stops the kernel and always leaves a thread running. Whatever the
  current thread is doing (no thread, exiting, waiting, budget left, budget used up), the queues stay
  consistent: their counters are their lengths, no thread is in two queues, and every queued thread is
  ready, on its core.\<close>

theorem rr_sched_progress:
  assumes "sched_ok k" "current_ok k"
  shows "\<exists>k'. rr_sched k = Inr (0, k') \<and> sched_ok k' \<and> cpu k' = cpu k \<and>
    (\<exists>y. ctx k' (current_threads k' (cpu k)) = Some y \<and> ctx_state y = TS_RUNNING)"
proof -
  let ?t = "current_threads k (cpu k)"
  have "\<exists>k'. rr_sched k = Inr (0, k') \<and> runs k k'"
  proof (cases "?t = 0")
    case True
    then show ?thesis using choose_runs [OF assms(1)] by (simp add: rr_sched_def current_thread_def bindS_simp)
  next
    case False
    then obtain x where x: "ctx k ?t = Some x" "ctx_state x \<noteq> TS_READY" "thread_exit_state x \<noteq> TE_EXITED" "- 1 \<le> ctx_affinity x"
        "ctx_affinity x < 4" "budgets k (ctx_sc x) \<noteq> None" "\<forall>c < 4. length (ready c k) < 2 ^ 32 - 1"
      using assms(2) by (auto simp: current_ok_def Let_def)
    obtain b where b: "budgets k (ctx_sc x) = Some b" using x(6) by blast
    obtain th where th: "threads k ?t = Some th" "thread_ctx_ptr th \<noteq> 0" by (rule ctxE [OF x(1)])
    have eq: "rr_sched k = (if thread_exit_state x = TE_EXITING \<or> ctx_state x = TS_WAITING then rr_choose_and_switch k
      else if b \<noteq> 0 \<and> (ctx_affinity x = int (cpu k) \<or> ctx_affinity x = - 1) then switch_to_thread ?t k
      else bindS (rr_sched_enqueue ?t) (\<lambda>r. thenS (bug_on (r \<noteq> 0))
        (thenS (rr_sched_refill_budget ?t DEFAULT_BUDGET) rr_choose_and_switch)) k)"
      using False th b by (simp add: rr_sched_def current_thread_def bindS_simp ctx_of_eq [OF x(1)])
    obtain k1 y1 where k1: "switch_to_thread ?t k = Inr (0, k1)" "sched_ok k1" "cpu k1 = cpu k" "current_threads k1 (cpu k) = ?t"
      "ctx k1 ?t = Some y1" "ctx_state y1 = TS_RUNNING" by (rule switch_ok [OF assms(1) False x(1,2,3)])
    obtain k2 y2 b2 where k2: "rr_sched_enqueue ?t k = Inr (0, k2)" "sched_ok k2" "cpu k2 = cpu k" "ctx k2 ?t = Some y2"
      "budgets k2 (ctx_sc y2) = Some b2" using enqueue_current [OF assms(1) x(1) False x(2-7)] by blast
    obtain k3 where k3: "rr_sched_refill_budget ?t DEFAULT_BUDGET k2 = Inr ((), k3)" "sched_ok k3" "cpu k3 = cpu k2"
      using refill_ok [OF k2(2,4,5)] by blast
    have c3: "\<exists>k'. rr_choose_and_switch k3 = Inr (0, k') \<and> runs k k'" using choose_runs [OF k3(2)] k3(3) k2(3) by (simp add: runs_def)
    show ?thesis
      unfolding eq using choose_runs [OF assms(1)] k1 k2(1) k3(1) c3 by (auto simp: runs_def bindS_simp thenS_simp)
  qed
  then show ?thesis by (simp add: runs_def)
qed

text \<open>A kernel with one user thread that runs on core 0 and has used up its budget, and idle threads
  on all cores; the other components are arbitrary.\<close>

definition sample_ctx :: "thread_type \<Rightarrow> thread_state \<Rightarrow> thread_exit_state \<Rightarrow> thread_ctx" where
  "sample_ctx ty st ex = \<lparr>ec_reg = \<lambda>_. 0, ctx_sc = 0x900, ctx_type = ty, ctx_state = st, ctx_prio = 1, ctx_affinity = - 1,
     ctx_cpuid = 0, thread_exit_state = ex\<rparr>"

definition sample_kernel :: "thread_state \<Rightarrow> thread_exit_state \<Rightarrow> kernel \<Rightarrow> kernel" where
  "sample_kernel st ex k = k\<lparr>cpu := 0,
     threads := \<lambda>t. Some \<lparr>thread_ctx_ptr = t + 8, prev_thread = 0, thread_vmspace = 0, thread_cap_group = 0,
       general_ipc_config = 0, active_conn = 0\<rparr>,
     thread_ctxs := \<lambda>p. Some (if p = 0x508 then sample_ctx TYPE_USER st ex else sample_ctx TYPE_IDLE TS_INIT TE_RUNNING),
     budgets := \<lambda>_. Some 0, ready_queues := \<lambda>_. \<lparr>queue = [], queue_len = 0\<rparr>, idle_threads := \<lambda>_. 0x100,
     current_threads := \<lambda>_. 0x500\<rparr>"

lemma sample_kernel_ctx:
  "ctx (sample_kernel st ex k) t = (if t = - 8 then None else
     Some (if t = 0x500 then sample_ctx TYPE_USER st ex else sample_ctx TYPE_IDLE TS_INIT TE_RUNNING))"
proof -
  have "t + 8 = 0 \<longleftrightarrow> t = - 8" by (metis add_eq_0_iff2)
  moreover have "t + 8 = 0x508 \<longleftrightarrow> t = 0x500" using add_right_cancel [of t 8 "0x500"] by simp
  ultimately show ?thesis by (simp add: ctx_def sample_kernel_def)
qed

lemma sample_kernel_ok: "st \<noteq> TS_READY \<Longrightarrow> sched_ok (sample_kernel st ex k)"
  "st \<noteq> TS_READY \<Longrightarrow> ex \<noteq> TE_EXITED \<Longrightarrow> current_ok (sample_kernel st ex k)"
  "st \<noteq> TS_READY \<Longrightarrow> ex \<noteq> TE_EXITED \<Longrightarrow> schedulable 0x500 (sample_kernel st ex k)"
proof -
  have own: "own_ctxs (sample_kernel st ex k)" by (simp add: own_ctxs_def sample_kernel_def)
  have q: "ready_queues (sample_kernel st ex k) c = \<lparr>queue = [], queue_len = 0\<rparr>" "idle_threads (sample_kernel st ex k) c = 0x100"
    "cpu (sample_kernel st ex k) = 0" "current_threads (sample_kernel st ex k) c = 0x500" "budgets (sample_kernel st ex k) p = Some 0" for c p
    by (simp_all add: sample_kernel_def)
  assume st: "st \<noteq> TS_READY"
  show "sched_ok (sample_kernel st ex k)" using own st by (simp add: sched_ok_def q sample_kernel_ctx sample_ctx_def)
  assume "ex \<noteq> TE_EXITED"
  then show "current_ok (sample_kernel st ex k)" "schedulable 0x500 (sample_kernel st ex k)"
    using st by (simp_all add: current_ok_def schedulable_def q sample_kernel_ctx sample_ctx_def)
qed

theorem rr_sched_progress_witness:
  "\<forall>k. \<exists>k'. rr_sched (sample_kernel TS_RUNNING TE_RUNNING k) = Inr (0, k') \<and> sched_ok k'"
  using rr_sched_progress [OF sample_kernel_ok(1,2), of TS_RUNNING TE_RUNNING] by blast

text \<open>C15: round robin is first in, first out, and no thread starves. A thread that is enqueued on the
  executing core goes behind the threads waiting there; choosing one thread more often than there were
  waiting threads returns exactly these, in their order, and then the new one.\<close>

theorem rr_sched_fifo:
  assumes "sched_ok k" "schedulable t k" "home t k = cpu k"
  shows "\<exists>k1 k2. rr_sched_enqueue t k = Inr (0, k1) \<and>
    picks rr_sched_choose_thread (Suc (length (ready (cpu k) k))) k1 = Inr (ready (cpu k) k @ [t], k2) \<and> sched_ok k2"
  using rr.served [OF assms] by blast

theorem rr_sched_fifo_witness:
  "\<forall>k. \<exists>k1 k2. rr_sched_enqueue 0x500 (sample_kernel TS_RUNNING TE_RUNNING k) = Inr (0, k1) \<and>
     picks rr_sched_choose_thread 1 k1 = Inr ([0x500], k2)"
proof
  fix k
  have "home 0x500 (sample_kernel TS_RUNNING TE_RUNNING k) = cpu (sample_kernel TS_RUNNING TE_RUNNING k)"
    "ready (cpu (sample_kernel TS_RUNNING TE_RUNNING k)) (sample_kernel TS_RUNNING TE_RUNNING k) = []"
    by (simp_all add: home_def sample_kernel_ctx sample_ctx_def NO_AFF_def, simp_all add: sample_kernel_def)
  then show "\<exists>k1 k2. rr_sched_enqueue 0x500 (sample_kernel TS_RUNNING TE_RUNNING k) = Inr (0, k1) \<and>
     picks rr_sched_choose_thread 1 k1 = Inr ([0x500], k2)"
    using rr_sched_fifo [OF sample_kernel_ok(1,3), of TS_RUNNING TE_RUNNING k] by auto
qed

text \<open>C35: an exiting thread is never marked as exited. \<^verbatim>\<open>rr_sched\<close> compares where it means to
  assign, so after it has switched away from a thread that is exiting, the context of that thread is
  exactly as before: its exit state is still \<^verbatim>\<open>TE_EXITING\<close>.\<close>

theorem rr_sched_exiting_stays:
  assumes "sched_ok k" "current_threads k (cpu k) = t" "t \<noteq> 0" "ctx k t = Some x" "thread_exit_state x = TE_EXITING"
    "ctx_state x \<noteq> TS_READY" "t \<noteq> idle_threads k (cpu k)"
  shows "\<exists>k'. rr_sched k = Inr (0, k') \<and> current_threads k' (cpu k) \<noteq> t \<and> ctx k' t = Some x"
proof -
  obtain th where th: "threads k t = Some th" "thread_ctx_ptr th \<noteq> 0" by (rule ctxE [OF assms(4)])
  have eq: "rr_sched k = rr_choose_and_switch k"
    using assms(2,3,5) th by (simp add: rr_sched_def current_thread_def bindS_simp ctx_of_eq [OF assms(4)])
  have "t \<notin> set (ready (cpu k) k)"
    using sched_okD(7) [OF assms(1) sched_okD(1) [OF assms(1)], of t] assms(4,6) by (auto simp: queued_ctx_def)
  then have "(case ready (cpu k) k of [] \<Rightarrow> idle_threads k (cpu k) | u # _ \<Rightarrow> u) \<noteq> t"
    using assms(7) by (auto split: list.splits)
  then show ?thesis unfolding eq by (rule_tac choose_and_switch_ok [OF assms(1)]) (use assms(4) in auto)
qed

theorem rr_sched_exiting_stays_witness:
  "\<forall>k. \<exists>k' y. rr_sched (sample_kernel TS_RUNNING TE_EXITING k) = Inr (0, k') \<and> ctx k' 0x500 = Some y \<and> thread_exit_state y = TE_EXITING"
proof
  fix k
  let ?k = "sample_kernel TS_RUNNING TE_EXITING k"
  have "current_threads ?k (cpu ?k) = 0x500" "ctx ?k 0x500 = Some (sample_ctx TYPE_USER TS_RUNNING TE_EXITING)"
    "0x500 \<noteq> idle_threads ?k (cpu ?k)" by (simp_all add: sample_kernel_ctx, simp_all add: sample_kernel_def)
  then show "\<exists>k' y. rr_sched ?k = Inr (0, k') \<and> ctx k' 0x500 = Some y \<and> thread_exit_state y = TE_EXITING"
    using rr_sched_exiting_stays [OF sample_kernel_ok(1), of TS_RUNNING TE_EXITING k "0x500"] by (auto simp: sample_ctx_def)
qed

end
