(* ===== verification/Pmo.thy ===== *)
theory Pmo
  imports Vmregion Radix
begin

text \<open>Physical memory objects: the part of \<^verbatim>\<open>kernel/object/memory.c\<close> that creates, fills and
  destroys them.\<close>

definition SIZEOF_PMO :: u64 where "SIZEOF_PMO = 32"

definition pmo_type_of :: "u64 \<Rightarrow> pmo_type" where
  "pmo_type_of t = (if t = 0 then PMO_ANONYM else if t = 1 then PMO_DATA else if t = 3 then PMO_SHM
     else if t = 5 then PMO_DEVICE else if t = 6 then PMO_DATA_NOCACHE
     else if t = 10 then PMO_FORBID else PMO_OTHER t)"

definition put_pmo :: "u64 \<Rightarrow> pmobject \<Rightarrow> unit kop" where
  "put_pmo p pmo = modify (\<lambda>k. k\<lparr>pmos := (pmos k)(p \<mapsto> pmo)\<rparr>)"

definition upd_pmo :: "u64 \<Rightarrow> (pmobject \<Rightarrow> pmobject) \<Rightarrow> unit kop" where
  "upd_pmo p f = bindS (readS pmos p) (\<lambda>pmo. put_pmo p (f pmo))"

text \<open>\<^verbatim>\<open>pmo_init\<close>: the result of \<^verbatim>\<open>kmalloc\<close> is used without a test for NULL.\<close>

definition pmo_init :: "u64 \<Rightarrow> pmo_type \<Rightarrow> u64 \<Rightarrow> paddr \<Rightarrow> int kop" where
  "pmo_init p type len paddr =
     (let len = ROUND_UP len PAGE_SIZE in
      thenS (put_pmo p \<lparr>pmo_radix = 0, pmo_start = 0, pmo_size = len, pmo_type = type\<rparr>)
      (case type of
         PMO_DATA \<Rightarrow> bindS (liftM (kmalloc len)) (\<lambda>a.
           thenS (upd_pmo p (\<lambda>x. x\<lparr>pmo_start := virt_to_phys a\<rparr>)) (ret 0))
       | PMO_DATA_NOCACHE \<Rightarrow> bindS (liftM (kmalloc len)) (\<lambda>a.
           thenS (upd_pmo p (\<lambda>x. x\<lparr>pmo_start := virt_to_phys a\<rparr>)) (ret 0))
       | PMO_ANONYM \<Rightarrow> bindS (liftM new_radix) (\<lambda>r.
           thenS (upd_pmo p (\<lambda>x. x\<lparr>pmo_radix := r\<rparr>)) (thenS (liftU (init_radix r)) (ret 0)))
       | PMO_SHM \<Rightarrow> bindS (liftM new_radix) (\<lambda>r.
           thenS (upd_pmo p (\<lambda>x. x\<lparr>pmo_radix := r\<rparr>)) (thenS (liftU (init_radix r)) (ret 0)))
       | PMO_DEVICE \<Rightarrow> thenS (upd_pmo p (\<lambda>x. x\<lparr>pmo_start := paddr\<rparr>)) (ret 0)
       | PMO_FORBID \<Rightarrow> ret 0
       | PMO_OTHER _ \<Rightarrow> fault Bug))"

definition commit_page_to_pmo :: "u64 \<Rightarrow> u64 \<Rightarrow> paddr \<Rightarrow> unit kop" where
  "commit_page_to_pmo p index pa =
     bindS (readS pmos p) (\<lambda>pmo.
     thenS (bug_on (pmo_type pmo \<noteq> PMO_ANONYM \<and> pmo_type pmo \<noteq> PMO_SHM))
     (bindS (liftM (radix_add (pmo_radix pmo) index pa)) (\<lambda>r. bug_on (r \<noteq> 0))))"

definition get_page_from_pmo :: "u64 \<Rightarrow> u64 \<Rightarrow> paddr kop" where
  "get_page_from_pmo p index =
     bindS (readS pmos p) (\<lambda>pmo. liftM (radix_get (pmo_radix pmo) index))"

definition free_pmo_page :: "u64 \<Rightarrow> mm_state \<Rightarrow> mm_state res" where
  "free_pmo_page addr m = kfree (phys_to_virt addr) m"

text \<open>The code address of \<^verbatim>\<open>__free_pmo_page\<close>: some pointer that is not NULL.\<close>

definition FREE_PMO_PAGE :: u64 where "FREE_PMO_PAGE = 1"

definition pmo_deinit :: "u64 \<Rightarrow> unit kop" where
  "pmo_deinit p =
     bindS (readS pmos p) (\<lambda>pmo.
       case pmo_type pmo of
         PMO_DATA \<Rightarrow> liftU (kfree (phys_to_virt (pmo_start pmo)))
       | PMO_DATA_NOCACHE \<Rightarrow> liftU (kfree (phys_to_virt (pmo_start pmo)))
       | PMO_ANONYM \<Rightarrow> thenS (bug_on (pmo_radix pmo = 0))
           (thenS (liftU (store (pmo_radix pmo) 16 FREE_PMO_PAGE))
           (thenS (liftM (radix_free (\<lambda>_. free_pmo_page) (pmo_radix pmo))) (ret ())))
       | PMO_SHM \<Rightarrow> thenS (bug_on (pmo_radix pmo = 0))
           (thenS (liftU (store (pmo_radix pmo) 16 FREE_PMO_PAGE))
           (thenS (liftM (radix_free (\<lambda>_. free_pmo_page) (pmo_radix pmo))) (ret ())))
       | PMO_DEVICE \<Rightarrow> ret ()
       | PMO_FORBID \<Rightarrow> ret ()
       | PMO_OTHER _ \<Rightarrow> fault Bug)"

section \<open>Page faults\<close>

text \<open>\<^verbatim>\<open>handle_trans_fault\<close> of \<^verbatim>\<open>kernel/mm/pgfault_handler.c\<close>. The cache maintenance of
  an executable region has no effect on this state beyond its \<^verbatim>\<open>BUG_ON\<close>.\<close>

definition handle_trans_fault :: "u64 \<Rightarrow> vaddr \<Rightarrow> int kop" where
  "handle_trans_fault vs fault_addr =
     bindS (find_vmr_for_va vs fault_addr) (\<lambda>found.
       case found of
         None \<Rightarrow> ret (- ENOMAPPING)
       | Some r \<Rightarrow>
         bindS (readS vmregions r) (\<lambda>vmr.
         bindS (readS pmos (vmr_pmo vmr)) (\<lambda>pmo.
           if pmo_type pmo = PMO_ANONYM \<or> pmo_type pmo = PMO_SHM then
             let page_addr = ROUND_DOWN fault_addr PAGE_SIZE;
                 offset = page_addr - vmr_start vmr;
                 index = offset div PAGE_SIZE in
             thenS (bug_on (offset \<ge> pmo_size pmo))
             (bindS (get_page_from_pmo (vmr_pmo vmr) index) (\<lambda>pa.
              thenS (if pa = 0 then
                       bindS (liftM (get_pages 0)) (\<lambda>va.
                       thenS (bug_on (va = 0))
                       (thenS (modify (\<lambda>k. k\<lparr>mm := zero_words va PAGE_SIZE (mm k)\<rparr>))
                       (thenS (commit_page_to_pmo (vmr_pmo vmr) index (virt_to_phys va))
                       (bindS (readS vmspaces vs) (\<lambda>v.
                          liftM (map_range_in_pgtbl (pgtbl v) page_addr (virt_to_phys va) PAGE_SIZE (vmr_perm vmr)))))))
                     else
                       bindS (readS vmspaces vs) (\<lambda>v.
                         liftM (map_range_in_pgtbl (pgtbl v) page_addr pa PAGE_SIZE (vmr_perm vmr))))
              (if vmr_perm vmr AND VMR_EXEC \<noteq> 0 then
                 bindS current_vmspace (\<lambda>cvs. thenS (bug_on (cvs \<noteq> vs)) (ret 0))
               else ret 0)))
           else fault Bug)))"

text \<open>\<^verbatim>\<open>do_page_fault\<close> of \<^verbatim>\<open>kernel/arch/aarch64/irq/pgfault.c\<close>, by the fault status code of
  the syndrome register; the fault address register is an argument.\<close>

definition GET_ESR_EL1_FSC :: "u64 \<Rightarrow> u64" where "GET_ESR_EL1_FSC esr = take_bit 6 esr"

definition DFSC_TRANS_FAULT :: "u64 \<Rightarrow> bool" where
  "DFSC_TRANS_FAULT fsc = (fsc = 4 \<or> fsc = 5 \<or> fsc = 6 \<or> fsc = 7)"

definition do_page_fault :: "u64 \<Rightarrow> vaddr \<Rightarrow> unit kop" where
  "do_page_fault esr fault_addr =
     (if DFSC_TRANS_FAULT (GET_ESR_EL1_FSC esr) then
        bindS current_vmspace (\<lambda>vs.
        bindS (handle_trans_fault vs fault_addr) (\<lambda>r. bug_on (r \<noteq> 0)))
      else fault Bug)"

end
