(* ===== verification/Capability.thy ===== *)
theory Capability
  imports Slot_Table Context Pmo
begin

text \<open>Kernel objects and capabilities: \<^verbatim>\<open>kernel/object/capability.c\<close> and the rest of
  \<^verbatim>\<open>kernel/object/cap_group.c\<close>, with \<^verbatim>\<open>thread_deinit\<close> of \<^verbatim>\<open>kernel/object/thread.c\<close>.
  An object is known by the address of its header; \<^verbatim>\<open>opaque\<close> is 40 bytes further.\<close>

section \<open>Objects\<close>

definition SIZEOF_OBJECT :: u64 where "SIZEOF_OBJECT = 40"
definition SIZEOF_OBJECT_SLOT :: u64 where "SIZEOF_OBJECT_SLOT = 56"
definition SIZEOF_CAP_GROUP :: u64 where "SIZEOF_CAP_GROUP = 128"
definition SIZEOF_THREAD :: u64 where "SIZEOF_THREAD = 96"
definition CAP_GROUP_OBJ_ID :: int where "CAP_GROUP_OBJ_ID = 0"
definition VMSPACE_OBJ_ID :: int where "VMSPACE_OBJ_ID = 1"
definition MAX_GROUP_NAME_LEN :: nat where "MAX_GROUP_NAME_LEN = 63"
definition ROOT_PID :: u64 where "ROOT_PID = 1"
definition ROOT_PCID :: u64 where "ROOT_PCID = 1"

definition opaque_of :: "u64 \<Rightarrow> u64" where "opaque_of ob = ob + SIZEOF_OBJECT"
definition object_of :: "u64 \<Rightarrow> u64" where "object_of p = p - SIZEOF_OBJECT"

definition upd_object :: "u64 \<Rightarrow> (object \<Rightarrow> object) \<Rightarrow> unit kop" where
  "upd_object ob f = bindS (readS objects ob) (\<lambda>x. modify (\<lambda>k. k\<lparr>objects := (objects k)(ob \<mapsto> f x)\<rparr>))"

text \<open>The payload that \<^verbatim>\<open>kzalloc\<close> leaves: every field zero.\<close>

definition zero_slot_table :: slot_table where
  "zero_slot_table = \<lparr>slots_size = 0, slots = [], full_slots_bmp = [], slots_bmp = [], slots_ptr = 0,
     full_slots_bmp_ptr = 0, slots_bmp_ptr = 0\<rparr>"

definition zero_payload :: "object_type \<Rightarrow> u64 \<Rightarrow> kernel \<Rightarrow> kernel" where
  "zero_payload type p k =
     (case type of
        TYPE_CAP_GROUP \<Rightarrow> k\<lparr>cap_groups := (cap_groups k)(p \<mapsto>
          \<lparr>slot_table = zero_slot_table, thread_list = [], thread_cnt = 0, pid = 0,
           cap_group_name = replicate (MAX_GROUP_NAME_LEN + 1) 0\<rparr>)\<rparr>
      | TYPE_THREAD \<Rightarrow> k\<lparr>threads := (threads k)(p \<mapsto>
          \<lparr>thread_ctx_ptr = 0, prev_thread = 0, thread_vmspace = 0, thread_cap_group = 0,
           general_ipc_config = 0, active_conn = 0\<rparr>)\<rparr>
      | TYPE_CONNECTION \<Rightarrow> k\<lparr>connections := (connections k)(p \<mapsto>
          \<lparr>conn_source = 0, conn_target = 0, server_conn_cap = 0, server_stack_top = 0,
           client_user_addr = 0, server_user_addr = 0, conn_ipc_msg = 0\<rparr>)\<rparr>
      | TYPE_PMO \<Rightarrow> k\<lparr>pmos := (pmos k)(p \<mapsto>
          \<lparr>pmo_radix = 0, pmo_start = 0, pmo_size = 0, pmo_type = PMO_ANONYM\<rparr>)\<rparr>
      | TYPE_VMSPACE \<Rightarrow> k\<lparr>vmspaces := (vmspaces k)(p \<mapsto>
          \<lparr>vmr_list = [], pgtbl = 0, pcid = 0, heap_vmr = 0, user_current_heap = 0,
           user_current_mmap_addr = 0\<rparr>)\<rparr>
      | TYPE_SEMAPHORE \<Rightarrow> k\<lparr>semaphores := (semaphores k)(p \<mapsto>
          \<lparr>sem_count = 0, waiting_threads_count = 0, waiting_threads = []\<rparr>)\<rparr>)"

text \<open>After \<^verbatim>\<open>kfree\<close> neither the header nor the payload may be read.\<close>

definition drop_payload :: "object_type \<Rightarrow> u64 \<Rightarrow> kernel \<Rightarrow> kernel" where
  "drop_payload type p k =
     (case type of
        TYPE_CAP_GROUP \<Rightarrow> k\<lparr>cap_groups := (cap_groups k)(p := None)\<rparr>
      | TYPE_THREAD \<Rightarrow> k\<lparr>threads := (threads k)(p := None)\<rparr>
      | TYPE_CONNECTION \<Rightarrow> k\<lparr>connections := (connections k)(p := None)\<rparr>
      | TYPE_PMO \<Rightarrow> k\<lparr>pmos := (pmos k)(p := None)\<rparr>
      | TYPE_VMSPACE \<Rightarrow> k\<lparr>vmspaces := (vmspaces k)(p := None)\<rparr>
      | TYPE_SEMAPHORE \<Rightarrow> k\<lparr>semaphores := (semaphores k)(p := None)\<rparr>)"

definition kfree_object :: "u64 \<Rightarrow> unit kop" where
  "kfree_object ob =
     bindS (readS objects ob) (\<lambda>x.
     thenS (liftU (kfree ob))
       (modify (\<lambda>k. drop_payload (obj_type x) (opaque_of ob) (k\<lparr>objects := (objects k)(ob := None)\<rparr>))))"

definition obj_alloc :: "object_type \<Rightarrow> u64 \<Rightarrow> u64 kop" where
  "obj_alloc type sz =
     bindS (liftM (kzalloc (SIZEOF_OBJECT + sz))) (\<lambda>ob.
       if ob = 0 then ret 0
       else
         thenS (modify (\<lambda>k. zero_payload type (opaque_of ob) (k\<lparr>objects := (objects k)(ob \<mapsto>
                  \<lparr>obj_type = type, obj_size = sz, copies_head = [], refcount = 0\<rparr>)\<rparr>)))
           (ret (opaque_of ob)))"

definition obj_free :: "u64 \<Rightarrow> unit kop" where
  "obj_free p =
     (if p = 0 then ret ()
      else bindS (readS objects (object_of p)) (\<lambda>x.
           thenS (bug_on (refcount x \<noteq> 0)) (kfree_object (object_of p))))"

section \<open>Destruction\<close>

text \<open>\<^verbatim>\<open>thread_deinit\<close>; \<^verbatim>\<open>list_del(&thread->node)\<close> takes the thread out of the list of its
  process.\<close>

definition thread_deinit :: "u64 \<Rightarrow> unit kop" where
  "thread_deinit t =
     bindS (ctx_of t) (\<lambda>ctx.
     thenS (bug_on (thread_exit_state ctx \<noteq> TE_EXITED))
     (bindS (readS threads t) (\<lambda>th.
      thenS (upd_cap_group (thread_cap_group th) (\<lambda>c. c\<lparr>thread_list := remove1 t (thread_list c)\<rparr>))
      (thenS (if general_ipc_config th \<noteq> 0 then
                thenS (liftU (kfree (general_ipc_config th)))
                  (modify (\<lambda>k. k\<lparr>ipc_configs := (ipc_configs k)(general_ipc_config th := None)\<rparr>))
              else ret ())
        (destroy_thread_ctx t)))))"

definition connection_deinit :: "u64 \<Rightarrow> unit kop" where
  "connection_deinit conn = ret ()"

definition cap_group_deinit :: "u64 \<Rightarrow> unit kop" where
  "cap_group_deinit g =
     bindS (readS cap_groups g) (\<lambda>c.
     thenS (liftU (kfree (slots_ptr (slot_table c))))
     (thenS (liftU (kfree (slots_bmp_ptr (slot_table c))))
        (liftU (kfree (full_slots_bmp_ptr (slot_table c))))))"

definition obj_deinit_tbl :: "object_type \<Rightarrow> (u64 \<Rightarrow> unit kop) option" where
  "obj_deinit_tbl type =
     (case type of
        TYPE_CAP_GROUP \<Rightarrow> Some cap_group_deinit
      | TYPE_THREAD \<Rightarrow> Some thread_deinit
      | TYPE_CONNECTION \<Rightarrow> Some connection_deinit
      | TYPE_PMO \<Rightarrow> Some pmo_deinit
      | TYPE_VMSPACE \<Rightarrow> Some vmspace_deinit
      | TYPE_SEMAPHORE \<Rightarrow> None)"

text \<open>\<^verbatim>\<open>__free_object\<close>.\<close>

definition free_object :: "u64 \<Rightarrow> unit kop" where
  "free_object ob =
     bindS (readS objects ob) (\<lambda>x.
     thenS (case obj_deinit_tbl (obj_type x) of None \<Rightarrow> ret () | Some f \<Rightarrow> f (opaque_of ob))
     (bindS (readS objects ob) (\<lambda>x.
      thenS (bug_on (copies_head x \<noteq> [])) (kfree_object ob))))"

text \<open>Decrement the counter of an object and free it at zero: the common end of
  \<^verbatim>\<open>__cap_free\<close> and \<^verbatim>\<open>obj_put\<close>.\<close>

definition put_ref :: "u64 \<Rightarrow> unit kop" where
  "put_ref ob =
     bindS (readS objects ob) (\<lambda>x.
     thenS (upd_object ob (\<lambda>x. x\<lparr>refcount := refcount x - 1\<rparr>))
       (if refcount x = 1 then free_object ob else ret ()))"

definition obj_put :: "u64 \<Rightarrow> unit kop" where
  "obj_put p = put_ref (object_of p)"

section \<open>Capabilities\<close>

definition cap_alloc :: "u64 \<Rightarrow> u64 \<Rightarrow> u64 \<Rightarrow> int kop" where
  "cap_alloc g p rights =
     (let ob = object_of p in
      bindS (alloc_slot_id g) (\<lambda>i.
        if i < 0 then ret (- ENOMEM)
        else
          bindS (liftM (kmalloc SIZEOF_OBJECT_SLOT)) (\<lambda>s.
            if s = 0 then thenS (free_slot_id g i) (ret (- ENOMEM))
            else
              thenS (modify (\<lambda>k. k\<lparr>object_slots := (object_slots k)(s \<mapsto>
                  \<lparr>slot_id = i, slot_cap_group = g, isvalid = True, slot_rights = rights, slot_object = ob\<rparr>)\<rparr>))
              (thenS (upd_object ob (\<lambda>x. x\<lparr>copies_head := s # copies_head x\<rparr>))
              (bindS (readS objects ob) (\<lambda>x.
               thenS (bug_on (refcount x \<noteq> 0))
               (thenS (upd_object ob (\<lambda>x. x\<lparr>refcount := 1\<rparr>))
               (thenS (install_slot g i s) (ret i)))))))))"

definition kfree_slot :: "u64 \<Rightarrow> unit kop" where
  "kfree_slot s = thenS (liftU (kfree s)) (modify (\<lambda>k. k\<lparr>object_slots := (object_slots k)(s := None)\<rparr>))"

text \<open>\<^verbatim>\<open>__cap_free\<close>.\<close>

definition do_cap_free :: "u64 \<Rightarrow> int \<Rightarrow> int kop" where
  "do_cap_free g i =
     bindS (get_slot g i) (\<lambda>s.
       if s = 0 then ret (- ECAPBILITY)
       else
         bindS (readS object_slots s) (\<lambda>sl.
           if \<not> isvalid sl then ret (- ECAPBILITY)
           else
             thenS (free_slot_id g i)
             (thenS (upd_object (slot_object sl) (\<lambda>x. x\<lparr>copies_head := remove1 s (copies_head x)\<rparr>))
             (thenS (kfree_slot s)
             (thenS (put_ref (slot_object sl)) (ret 0))))))"

definition cap_free :: "u64 \<Rightarrow> int \<Rightarrow> int kop" where
  "cap_free g i = do_cap_free g i"

text \<open>\<^verbatim>\<open>list_add(&dest_slot->copies, &src_slot->copies)\<close>: right behind the source.\<close>

primrec insert_after :: "'a \<Rightarrow> 'a \<Rightarrow> 'a list \<Rightarrow> 'a list" where
  "insert_after x y [] = []"
| "insert_after x y (z # zs) = (if z = x then z # y # zs else z # insert_after x y zs)"

definition cap_copy :: "u64 \<Rightarrow> u64 \<Rightarrow> int \<Rightarrow> int kop" where
  "cap_copy src_group dest_group i =
     bindS (get_slot src_group i) (\<lambda>src.
       if src = 0 then ret (- ECAPBILITY)
       else
         bindS (readS object_slots src) (\<lambda>sl.
           if \<not> isvalid sl then ret (- ECAPBILITY)
           else
             bindS (alloc_slot_id dest_group) (\<lambda>d.
               if d = - 1 then ret (- ENOMEM)
               else
                 bindS (liftM (kmalloc SIZEOF_OBJECT_SLOT)) (\<lambda>dest.
                   if dest = 0 then thenS (free_slot_id dest_group d) (ret (- ENOMEM))
                   else
                     bindS (get_slot src_group i) (\<lambda>src.
                     bindS (readS object_slots src) (\<lambda>sl.
                     thenS (upd_object (slot_object sl) (\<lambda>x. x\<lparr>refcount := refcount x + 1\<rparr>))
                     (thenS (modify (\<lambda>k. k\<lparr>object_slots := (object_slots k)(dest \<mapsto>
                         \<lparr>slot_id = d, slot_cap_group = dest_group, isvalid = True,
                          slot_rights = junk k (dest + 24), slot_object = slot_object sl\<rparr>)\<rparr>))
                     (thenS (upd_object (slot_object sl)
                               (\<lambda>x. x\<lparr>copies_head := insert_after src dest (copies_head x)\<rparr>))
                     (thenS (install_slot dest_group d dest) (ret d))))))))))"

definition cap_move :: "u64 \<Rightarrow> u64 \<Rightarrow> int \<Rightarrow> int kop" where
  "cap_move src_group dest_group i =
     bindS (cap_copy src_group dest_group i) (\<lambda>r.
       if r < 0 then ret r
       else bindS (cap_free src_group i) (\<lambda>r. thenS (bug_on (r \<noteq> 0)) (ret r)))"

definition get_opaque :: "u64 \<Rightarrow> int \<Rightarrow> bool \<Rightarrow> object_type \<Rightarrow> u64 kop" where
  "get_opaque g i type_valid type =
     bindS (readS cap_groups g) (\<lambda>c.
     bindS (liftR (is_valid_slot_id (slot_table c) i)) (\<lambda>ok.
       if \<not> ok then ret 0
       else
         bindS (get_slot g i) (\<lambda>s.
         bindS (readS object_slots s) (\<lambda>sl.
         thenS (bug_on (\<not> isvalid sl))
         (thenS (bug_on (slot_object sl = 0))
         (bindS (readS objects (slot_object sl)) (\<lambda>x.
            if \<not> type_valid \<or> obj_type x = type then
              thenS (upd_object (slot_object sl) (\<lambda>x. x\<lparr>refcount := refcount x + 1\<rparr>))
                (ret (opaque_of (slot_object sl)))
            else ret 0)))))))"

definition obj_get :: "u64 \<Rightarrow> int \<Rightarrow> object_type \<Rightarrow> u64 kop" where
  "obj_get g i type = get_opaque g i True type"

definition cap_free_all :: "u64 \<Rightarrow> int \<Rightarrow> int kop" where
  "cap_free_all g i =
     bindS (get_opaque g i False TYPE_CAP_GROUP) (\<lambda>p.
       if p = 0 then ret (- ECAPBILITY)
       else
         bindS (readS objects (object_of p)) (\<lambda>x.
         thenS (each (copies_head x) (\<lambda>s.
                  bindS (readS object_slots s) (\<lambda>sl.
                  bindS (do_cap_free (slot_cap_group sl) (slot_id sl)) (\<lambda>r. bug_on (r \<noteq> 0)))))
         (thenS (obj_put p) (ret 0))))"

section \<open>System calls on capabilities\<close>

definition sys_cap_copy_to :: "u64 \<Rightarrow> u64 \<Rightarrow> int kop" where
  "sys_cap_copy_to dest_cap_group_cap src_slot_id =
     bindS current_cap_group (\<lambda>cur.
     bindS (obj_get cur (to_int dest_cap_group_cap) TYPE_CAP_GROUP) (\<lambda>dest.
       if dest = 0 then ret (- ECAPBILITY)
       else bindS (cap_copy cur dest (to_int src_slot_id)) (\<lambda>r. thenS (obj_put dest) (ret r))))"

definition sys_cap_copy_from :: "u64 \<Rightarrow> u64 \<Rightarrow> int kop" where
  "sys_cap_copy_from src_cap_group_cap src_slot_id =
     bindS current_cap_group (\<lambda>cur.
     bindS (obj_get cur (to_int src_cap_group_cap) TYPE_CAP_GROUP) (\<lambda>src.
       if src = 0 then ret (- ECAPBILITY)
       else bindS (cap_copy src cur (to_int src_slot_id)) (\<lambda>r. thenS (obj_put src) (ret r))))"

definition sys_cap_move :: "u64 \<Rightarrow> u64 \<Rightarrow> int kop" where
  "sys_cap_move dest_cap_group_cap src_slot_id =
     bindS current_cap_group (\<lambda>cur.
     bindS (obj_get cur (to_int dest_cap_group_cap) TYPE_CAP_GROUP) (\<lambda>dest.
       if dest = 0 then ret (- ECAPBILITY)
       else bindS (cap_move cur dest (to_int src_slot_id)) (\<lambda>r. thenS (obj_put dest) (ret r))))"

text \<open>The loop of \<^verbatim>\<open>sys_transfer_caps\<close>: the results in order; writing through a NULL
  \<^verbatim>\<open>dst_caps\<close> faults.\<close>

fun transfer_loop :: "u64 \<Rightarrow> u64 \<Rightarrow> u64 \<Rightarrow> int list \<Rightarrow> int list kop" where
  "transfer_loop cur dest dst_caps [] = ret []"
| "transfer_loop cur dest dst_caps (c # cs) =
     bindS (cap_copy cur dest c) (\<lambda>r.
       if dst_caps = 0 then fault BadPtr
       else bindS (transfer_loop cur dest dst_caps cs) (\<lambda>rs. ret (r # rs)))"

definition sys_transfer_caps :: "u64 \<Rightarrow> u64 \<Rightarrow> int \<Rightarrow> u64 \<Rightarrow> int kop" where
  "sys_transfer_caps dest_group_cap src_caps_buf nr_caps dst_caps_buf =
     bindS current_cap_group (\<lambda>cur.
     bindS (obj_get cur (to_int dest_group_cap) TYPE_CAP_GROUP) (\<lambda>dest.
       if dest = 0 then ret (- ECAPBILITY)
       else
         let sz = 4 * word_of_int nr_caps :: u64; n = unat sz div 4 in
         bindS (liftM (kmalloc sz)) (\<lambda>src_caps.
         bindS (liftM (kmalloc sz)) (\<lambda>dst_caps.
         bindS (copy_ints_from_user src_caps_buf n) (\<lambda>caps.
         thenS (if src_caps = 0 \<and> sz \<noteq> 0 then fault BadPtr else ret ())
         (bindS (transfer_loop cur dest dst_caps (take (nat nr_caps) caps)) (\<lambda>rs.
          thenS (copy_ints_to_user dst_caps_buf rs)
          (thenS (liftU (kfree src_caps))
          (thenS (liftU (kfree dst_caps))
          (thenS (obj_put dest) (ret 0)))))))))))"

text \<open>\<^verbatim>\<open>sys_get_all_caps\<close>: what it prints is left out; the accesses of its loop remain.\<close>

definition sys_get_all_caps :: "u64 \<Rightarrow> int kop" where
  "sys_get_all_caps cap_group_cap =
     bindS current_cap_group (\<lambda>cur.
     bindS (obj_get cur (to_int cap_group_cap) TYPE_CAP_GROUP) (\<lambda>g.
       if g = 0 then ret (- ECAPBILITY)
       else
         bindS (readS cap_groups g) (\<lambda>c.
         thenS (each [0..<slots_size (slot_table c)] (\<lambda>i.
                  bindS (get_slot g (int i)) (\<lambda>s.
                    if s = 0 then ret ()
                    else bindS (readS object_slots s) (\<lambda>sl.
                         thenS (bug_on (\<not> isvalid sl))
                         (bindS (readS objects (slot_object sl)) (\<lambda>_. ret ()))))))
         (thenS (obj_put g) (ret 0)))))"

section \<open>Processes\<close>

text \<open>\<^verbatim>\<open>cap_group_init\<close> ignores what \<^verbatim>\<open>slot_table_init\<close> returns.\<close>

definition cap_group_init :: "u64 \<Rightarrow> nat \<Rightarrow> u64 \<Rightarrow> int kop" where
  "cap_group_init g sz process =
     bindS (slot_table_init sz) (\<lambda>(r, t).
     thenS (upd_table g (\<lambda>_. t))
     (thenS (upd_cap_group g (\<lambda>c. c\<lparr>thread_list := [], thread_cnt := 0, pid := process\<rparr>)) (ret 0)))"

definition set_name :: "u64 \<Rightarrow> 8 word list \<Rightarrow> unit kop" where
  "set_name g bytes =
     upd_cap_group g (\<lambda>c. c\<lparr>cap_group_name := copy_prefix (length bytes) bytes (cap_group_name c)\<rparr>)"

definition sys_create_cap_group :: "u64 \<Rightarrow> u64 \<Rightarrow> u64 \<Rightarrow> u64 \<Rightarrow> int kop" where
  "sys_create_cap_group process name name_len asid =
     bindS current_cap_group (\<lambda>cur.
     bindS (readS cap_groups cur) (\<lambda>cg.
       if pid cg \<noteq> ROOT_PID then ret (- EPERM)
       else
         bindS (obj_alloc TYPE_CAP_GROUP SIZEOF_CAP_GROUP) (\<lambda>new.
           if new = 0 then ret (- ENOMEM)
           else
             thenS (cap_group_init new 2 process)
             (bindS (cap_alloc cur new 0) (\<lambda>cap.
                if cap < 0 then thenS (obj_free new) (ret cap)
                else
                  bindS (cap_copy cur new cap) (\<lambda>c0.
                    if c0 \<noteq> CAP_GROUP_OBJ_ID then thenS (cap_free cur cap) (ret (- 1))
                    else
                      bindS (obj_alloc TYPE_VMSPACE SIZEOF_VMSPACE) (\<lambda>vs.
                        if vs = 0 then thenS (cap_free cur cap) (ret (- ENOMEM))
                        else
                          thenS (upd_vmspace vs (\<lambda>v. v\<lparr>pcid := asid\<rparr>))
                          (thenS (vmspace_init vs)
                          (bindS (cap_alloc new vs 0) (\<lambda>r.
                             if r < 0 then thenS (obj_free vs) (thenS (cap_free cur cap) (ret r))
                             else if r \<noteq> VMSPACE_OBJ_ID then fault Bug
                             else
                               thenS (set_name new (replicate MAX_GROUP_NAME_LEN 0))
                               (bindS (copy_bytes_from_user name (min (unat name_len) MAX_GROUP_NAME_LEN)) (\<lambda>bytes.
                                thenS (set_name new bytes) (ret cap)))))))))))))"

definition create_root_cap_group :: "8 word list \<Rightarrow> nat \<Rightarrow> u64 kop" where
  "create_root_cap_group name name_len =
     bindS (obj_alloc TYPE_CAP_GROUP SIZEOF_CAP_GROUP) (\<lambda>g.
     thenS (bug_on (g = 0))
     (thenS (cap_group_init g 2 ROOT_PID)
     (bindS (cap_alloc g g 0) (\<lambda>i.
      thenS (bug_on (i \<noteq> CAP_GROUP_OBJ_ID))
      (bindS (obj_alloc TYPE_VMSPACE SIZEOF_VMSPACE) (\<lambda>vs.
       thenS (bug_on (vs = 0))
       (thenS (upd_vmspace vs (\<lambda>v. v\<lparr>pcid := ROOT_PCID\<rparr>))
       (thenS (vmspace_init vs)
       (bindS (cap_alloc g vs 0) (\<lambda>i.
        thenS (bug_on (i \<noteq> VMSPACE_OBJ_ID))
        (thenS (set_name g (replicate MAX_GROUP_NAME_LEN 0))
        (let n = min name_len MAX_GROUP_NAME_LEN in
         if length name < n then fault OutOfRange
         else
           thenS (set_name g (take n name))
           (thenS (modify (\<lambda>k. k\<lparr>root_cap_group := g\<rparr>)) (ret g))))))))))))))"

end
