(* ===== verification/Semaphore_Ops.thy ===== *)
theory Semaphore_Ops
  imports Capability Sched
begin

text \<open>Semaphores: \<^verbatim>\<open>kernel/semaphore/semaphore.c\<close>. A wait that blocks leaves the kernel through
  \<^verbatim>\<open>eret_to_thread\<close>.\<close>

definition SIZEOF_SEMAPHORE :: u64 where "SIZEOF_SEMAPHORE = 24"

definition upd_sem :: "u64 \<Rightarrow> (semaphore \<Rightarrow> semaphore) \<Rightarrow> unit kop" where
  "upd_sem s f = bindS (readS semaphores s) (\<lambda>x. modify (\<lambda>k. k\<lparr>semaphores := (semaphores k)(s \<mapsto> f x)\<rparr>))"

definition init_sem :: "u64 \<Rightarrow> unit kop" where
  "init_sem s = upd_sem s (\<lambda>x. x\<lparr>sem_count := 0, waiting_threads_count := 0, waiting_threads := []\<rparr>)"

definition wait_sem :: "u64 \<Rightarrow> bool \<Rightarrow> int ctl kop" where
  "wait_sem s is_block =
     bindS (readS semaphores s) (\<lambda>x.
       if sem_count x > 0 then
         thenS (upd_sem s (\<lambda>x. x\<lparr>sem_count := sem_count x - 1\<rparr>)) (ret (Ret 0))
       else if \<not> is_block then ret (Ret (- EAGAIN))
       else
         bindS current_thread (\<lambda>cur.
         thenS (upd_ctx cur (\<lambda>c. c\<lparr>ctx_state := TS_WAITING\<rparr>))
         (thenS (upd_sem s (\<lambda>x. x\<lparr>waiting_threads := waiting_threads x @ [cur],
                                waiting_threads_count := waiting_threads_count x + 1\<rparr>))
         (thenS (set_reg cur X0 0)
         (thenS (obj_put s)
         (thenS sched eret_switch))))))"

text \<open>\<^verbatim>\<open>signal_sem\<close> ignores what \<^verbatim>\<open>sched_enqueue\<close> returns. A counter above an empty list would
  make the head of the list the thread to wake.\<close>

definition signal_sem :: "u64 \<Rightarrow> int kop" where
  "signal_sem s =
     bindS (readS semaphores s) (\<lambda>x.
       if waiting_threads_count x = 0 then
         thenS (upd_sem s (\<lambda>x. x\<lparr>sem_count := sem_count x + 1\<rparr>)) (ret 0)
       else
         (case waiting_threads x of
            [] \<Rightarrow> fault BadPtr
          | t # ts \<Rightarrow>
            thenS (upd_sem s (\<lambda>x. x\<lparr>waiting_threads_count := waiting_threads_count x - 1,
                                   waiting_threads := ts\<rparr>))
            (thenS (sched_enqueue t) (ret 0))))"

definition sys_create_sem :: "int kop" where
  "sys_create_sem =
     bindS (obj_alloc TYPE_SEMAPHORE SIZEOF_SEMAPHORE) (\<lambda>s.
       if s = 0 then ret (- ENOMEM)
       else
         thenS (init_sem s)
         (bindS current_cap_group (\<lambda>cur.
          bindS (cap_alloc cur s 0) (\<lambda>cap.
            if cap < 0 then thenS (obj_free s) (ret cap) else ret cap))))"

text \<open>A 32-bit capability number becomes the \<^verbatim>\<open>int\<close> with the same bits.\<close>

definition sys_wait_sem :: "u32 \<Rightarrow> bool \<Rightarrow> int ctl kop" where
  "sys_wait_sem sem_cap is_block =
     bindS current_cap_group (\<lambda>cur.
     bindS (obj_get cur (sint sem_cap) TYPE_SEMAPHORE) (\<lambda>s.
       if s = 0 then ret (Ret (- ECAPBILITY))
       else
         bindS (wait_sem s is_block) (\<lambda>r.
           case r of
             Eret c \<Rightarrow> ret (Eret c)
           | Ret x \<Rightarrow> thenS (obj_put s) (ret (Ret x)))))"

definition sys_signal_sem :: "u32 \<Rightarrow> int kop" where
  "sys_signal_sem sem_cap =
     bindS current_cap_group (\<lambda>cur.
     bindS (obj_get cur (sint sem_cap) TYPE_SEMAPHORE) (\<lambda>s.
       if s = 0 then ret (- ECAPBILITY)
       else bindS (signal_sem s) (\<lambda>r. thenS (obj_put s) (ret r))))"

end
