(* ===== verification/Semaphore_Correct.thy ===== *)
theory Semaphore_Correct
  imports Sched_Correct Semaphore_Ops
begin

text \<open>Semaphores on top of the scheduler's interface: a signal wakes the thread that has waited
  longest, and a signal that finds no waiter is taken by the next wait.\<close>

definition sem_ok :: "semaphore \<Rightarrow> bool" where
  "sem_ok x \<longleftrightarrow> waiting_threads_count x = of_nat (length (waiting_threads x)) \<and> length (waiting_threads x) < 2 ^ 32"

lemma sem_frame [simp]:
  "schedulable t (k\<lparr>semaphores := s\<rparr>) = schedulable t k" "home t (k\<lparr>semaphores := s\<rparr>) = home t k"
  by (simp_all add: schedulable_def home_def split: option.splits)

lemma sched_ok_sem [simp]:
  assumes "sched_ok k"
  shows "sched_ok (k\<lparr>semaphores := s\<rparr>)"
  by (rule sched_ok_cong [OF assms]) (use sched_okD(2) [OF assms] in simp_all)

lemma enqueue_semaphores:
  assumes "sched_ok k" "schedulable t k"
  shows "\<exists>k'. rr_sched_enqueue t k = Inr (0, k') \<and> sched_ok k' \<and> semaphores k' = semaphores k \<and>
    (\<forall>c < PLAT_CPU_NUM. ready c k' = (if c = home t k then ready c k @ [t] else ready c k))"
proof -
  obtain k' where k': "rr_sched_enqueue t k = Inr (0, k')" "sched_ok k'"
    "\<forall>c < PLAT_CPU_NUM. ready c k' = (if c = home t k then ready c k @ [t] else ready c k)"
    using rr.enqueue_law [OF assms] by blast
  have "semaphores k' = semaphores k" by (rule enqueue_eq [OF assms]) (use k'(1) in auto)
  with k' show ?thesis by blast
qed

lemma no_waiter: "sem_ok x \<Longrightarrow> waiting_threads_count x = 0 \<longleftrightarrow> waiting_threads x = []"
  by (auto simp: sem_ok_def word_unat_eq_iff unat_of_nat)

text \<open>C11: \<^verbatim>\<open>signal_sem\<close> with threads waiting takes the one that has waited longest out of the
  list, moves it to the end of the ready queue of its core and leaves the count alone; with no thread
  waiting it adds one to the count. The counter of waiting threads stays the length of the list, and
  the scheduler's queues stay consistent.\<close>

theorem signal_sem_wakes:
  assumes "sched_ok k" "semaphores k s = Some x" "sem_ok x" "\<forall>t \<in> set (waiting_threads x). schedulable t k"
  shows "\<exists>k' y. signal_sem s k = Inr (0, k') \<and> sched_ok k' \<and> semaphores k' = (semaphores k)(s \<mapsto> y) \<and> sem_ok y \<and>
    (case waiting_threads x of
       [] \<Rightarrow> waiting_threads y = [] \<and> sem_count y = sem_count x + 1 \<and> ready_queues k' = ready_queues k
     | t # ts \<Rightarrow> waiting_threads y = ts \<and> sem_count y = sem_count x \<and>
        (\<forall>c < PLAT_CPU_NUM. ready c k' = (if c = home t k then ready c k @ [t] else ready c k)))"
proof (cases "waiting_threads x")
  case Nil
  then show ?thesis
    using assms no_waiter [OF assms(3)]
    by (intro exI [of _ "k\<lparr>semaphores := (semaphores k)(s \<mapsto> x\<lparr>sem_count := sem_count x + 1\<rparr>)\<rparr>"] exI [of _ "x\<lparr>sem_count := sem_count x + 1\<rparr>"])
      (simp add: signal_sem_def bindS_simp thenS_simp upd_sem_def sem_ok_def)
next
  case (Cons t ts)
  let ?y = "x\<lparr>waiting_threads_count := waiting_threads_count x - 1, waiting_threads := ts\<rparr>"
  let ?k = "k\<lparr>semaphores := (semaphores k)(s \<mapsto> ?y)\<rparr>"
  have t: "schedulable t ?k" using assms(4) Cons by simp
  have "waiting_threads_count x \<noteq> 0" using no_waiter [OF assms(3)] Cons by simp
  moreover obtain k' where "rr_sched_enqueue t ?k = Inr (0, k')" "sched_ok k'" "semaphores k' = semaphores ?k"
    "\<forall>c < PLAT_CPU_NUM. ready c k' = (if c = home t ?k then ready c ?k @ [t] else ready c ?k)"
    using enqueue_semaphores [OF sched_ok_sem [OF assms(1)] t] by blast
  moreover have "sem_ok ?y" using assms(3) Cons by (simp add: sem_ok_def)
  ultimately show ?thesis
    using assms(2) Cons by (intro exI [of _ k'] exI [of _ ?y]) (simp add: signal_sem_def bindS_simp thenS_simp upd_sem_def)
qed

text \<open>C28: a signal is never lost. After \<^verbatim>\<open>signal_sem\<close> on a semaphore nobody waits for, the next
  \<^verbatim>\<open>wait_sem\<close>, blocking or not, returns 0 at once and leaves the kernel as it was before the
  signal, unless the 32-bit count wrapped around. Before the signal, a wait that may not block on a
  count of 0 returns \<^verbatim>\<open>-EAGAIN\<close> and changes nothing.\<close>

theorem signal_then_wait:
  assumes "semaphores k s = Some x" "sem_ok x" "waiting_threads x = []" "sem_count x \<noteq> - 1"
  shows "(\<exists>k'. signal_sem s k = Inr (0, k') \<and> wait_sem s is_block k' = Inr (Ret 0, k)) \<and>
    (sem_count x = 0 \<longrightarrow> wait_sem s False k = Inr (Ret (- EAGAIN), k))"
proof -
  have "sem_count x + 1 \<noteq> 0" using assms(4) by (metis add_eq_0_iff2)
  then have "0 < sem_count x + 1" by (simp add: word_gt_0)
  then show ?thesis
    using assms no_waiter [OF assms(2)]
    by (simp add: signal_sem_def wait_sem_def bindS_simp thenS_simp upd_sem_def fun_upd_idem)
qed

definition sample_sem :: "u64 list \<Rightarrow> semaphore" where
  "sample_sem ts = \<lparr>sem_count = 0, waiting_threads_count = of_nat (length ts), waiting_threads = ts\<rparr>"

theorem signal_sem_wakes_witness:
  "\<forall>k. \<exists>k' y. signal_sem 0x700 ((sample_kernel TS_WAITING TE_RUNNING k)\<lparr>semaphores := [0x700 \<mapsto> sample_sem [0x500]]\<rparr>) = Inr (0, k') \<and>
     semaphores k' 0x700 = Some y \<and> waiting_threads y = [] \<and> ready 0 k' = [0x500]"
proof
  fix k
  let ?k = "(sample_kernel TS_WAITING TE_RUNNING k)\<lparr>semaphores := [0x700 \<mapsto> sample_sem [0x500]]\<rparr>"
  have "home 0x500 ?k = 0" by (simp add: home_def sample_kernel_ctx sample_ctx_def NO_AFF_def) (simp add: sample_kernel_def)
  moreover have "ready 0 ?k = []" by (simp add: sample_kernel_def)
  moreover have "sched_ok ?k" "schedulable 0x500 ?k" "sem_ok (sample_sem [0x500])" "semaphores ?k 0x700 = Some (sample_sem [0x500])"
    using sample_kernel_ok by (simp_all add: sem_ok_def sample_sem_def)
  ultimately show "\<exists>k' y. signal_sem 0x700 ?k = Inr (0, k') \<and> semaphores k' 0x700 = Some y \<and> waiting_threads y = [] \<and> ready 0 k' = [0x500]"
    using signal_sem_wakes [of ?k "0x700" "sample_sem [0x500]"] by (auto simp: sample_sem_def PLAT_CPU_NUM_def)
qed

theorem signal_then_wait_witness:
  "\<forall>k. \<exists>k'. signal_sem 0x700 (k\<lparr>semaphores := [0x700 \<mapsto> sample_sem []]\<rparr>) = Inr (0, k') \<and>
     wait_sem 0x700 True k' = Inr (Ret 0, k\<lparr>semaphores := [0x700 \<mapsto> sample_sem []]\<rparr>)"
  using signal_then_wait [of "_\<lparr>semaphores := [0x700 \<mapsto> sample_sem []]\<rparr>" "0x700" "sample_sem []" True]
  by (auto simp: sem_ok_def sample_sem_def)

end
