(* ===== verification/Memory_Syscalls.thy ===== *)
theory Memory_Syscalls
  imports Capability
begin

text \<open>System calls on memory objects: the rest of \<^verbatim>\<open>kernel/object/memory.c\<close>. Requests that a
  system call copies from a user array are lists of records, packed in 64-bit words.\<close>

section \<open>Creation\<close>

definition sys_create_device_pmo :: "u64 \<Rightarrow> u64 \<Rightarrow> int kop" where
  "sys_create_device_pmo paddr sz =
     thenS (bug_on (sz = 0))
     (bindS (obj_alloc TYPE_PMO SIZEOF_PMO) (\<lambda>p.
        if p = 0 then ret (- ENOMEM)
        else
          thenS (pmo_init p PMO_DEVICE sz paddr)
          (bindS current_cap_group (\<lambda>cur.
           bindS (cap_alloc cur p 0) (\<lambda>cap.
             if cap < 0 then thenS (obj_free p) (ret cap) else ret cap)))))"

text \<open>\<^verbatim>\<open>create_pmo\<close> returns the capability and, through \<^verbatim>\<open>new_pmo\<close>, the object.\<close>

definition create_pmo :: "u64 \<Rightarrow> pmo_type \<Rightarrow> u64 \<Rightarrow> (int \<times> u64 option) kop" where
  "create_pmo sz type g =
     bindS (obj_alloc TYPE_PMO SIZEOF_PMO) (\<lambda>p.
       if p = 0 then ret (- ENOMEM, None)
       else
         bindS (pmo_init p type sz 0) (\<lambda>r.
           if r \<noteq> 0 then thenS (obj_free p) (ret (r, None))
           else
             bindS (cap_alloc g p 0) (\<lambda>cap.
               if cap < 0 then thenS (obj_free p) (ret (cap, None)) else ret (cap, Some p))))"

definition sys_create_pmo :: "u64 \<Rightarrow> u64 \<Rightarrow> int kop" where
  "sys_create_pmo sz type =
     thenS (bug_on (sz = 0))
     (bindS current_cap_group (\<lambda>cur.
      bindS (create_pmo sz (pmo_type_of type) cur) (\<lambda>(cap, _). ret cap)))"

record pmo_request =
  rq_size :: u64
  rq_type :: u64
  rq_ret_cap :: u64

fun unpack_requests :: "u64 list \<Rightarrow> pmo_request list" where
  "unpack_requests (a # b # c # ws) = \<lparr>rq_size = a, rq_type = b, rq_ret_cap = c\<rparr> # unpack_requests ws"
| "unpack_requests _ = []"

definition pack_requests :: "pmo_request list \<Rightarrow> u64 list" where
  "pack_requests rs = concat (map (\<lambda>r. [rq_size r, rq_type r, rq_ret_cap r]) rs)"

definition MAX_CNT :: u64 where "MAX_CNT = 32"

fun create_pmos_loop :: "pmo_request list \<Rightarrow> pmo_request list kop" where
  "create_pmos_loop [] = ret []"
| "create_pmos_loop (r # rs) =
     bindS (sys_create_pmo (rq_size r) (rq_type r)) (\<lambda>cap.
     bindS (create_pmos_loop rs) (\<lambda>rs. ret (r\<lparr>rq_ret_cap := word_of_int cap\<rparr> # rs)))"

definition sys_create_pmos :: "u64 \<Rightarrow> u64 \<Rightarrow> int kop" where
  "sys_create_pmos user_buf cnt =
     (if cnt > MAX_CNT then ret (- EINVAL)
      else
        bindS (liftM (kmalloc (24 * cnt))) (\<lambda>requests.
          if requests = 0 then ret (- EAGAIN)
          else
            bindS (copy_from_user user_buf (3 * unat cnt)) (\<lambda>ws.
            bindS (create_pmos_loop (unpack_requests ws)) (\<lambda>rs.
            thenS (copy_to_user user_buf (pack_requests rs))
            (thenS (liftU (kfree requests)) (ret 0))))))"

section \<open>Reading and writing\<close>

definition WRITE :: u64 where "WRITE = 0"
definition READ :: u64 where "READ = 1"

text \<open>One copy between user memory and the kernel address \<open>kva\<close>.\<close>

definition rw_copy :: "u64 \<Rightarrow> vaddr \<Rightarrow> u64 \<Rightarrow> u64 \<Rightarrow> unit kop" where
  "rw_copy op_type kva user_buf n =
     (if op_type = WRITE then
        bindS (copy_bytes_from_user user_buf (unat n)) (\<lambda>bs. modify (write_bytes kva bs))
      else
        bindS (gets (read_bytes kva (unat n))) (\<lambda>bs. copy_bytes_to_user user_buf bs))"

text \<open>The page of an anonymous object that holds an index, allocated on first use.\<close>

definition rw_page :: "u64 \<Rightarrow> u64 \<Rightarrow> vaddr kop" where
  "rw_page p index =
     bindS (get_page_from_pmo p index) (\<lambda>pa.
       if pa = 0 then
         bindS (liftM (get_pages 0)) (\<lambda>kva.
         thenS (bug_on (kva = 0))
         (thenS (modify (\<lambda>k. k\<lparr>mm := zero_words kva PAGE_SIZE (mm k)\<rparr>))
         (thenS (commit_page_to_pmo p index (virt_to_phys kva)) (ret kva))))
       else ret (phys_to_virt pa))"

text \<open>How much the loop of \<^verbatim>\<open>read_write_pmo\<close> copies in one turn.\<close>

definition rw_chunk :: "u64 \<Rightarrow> u64 \<Rightarrow> u64" where
  "rw_chunk offset sz = min (PAGE_SIZE - (offset - ROUND_DOWN offset PAGE_SIZE)) sz"

lemma offset_in_page: "offset - ROUND_DOWN offset PAGE_SIZE = take_bit 12 offset"
proof -
  have "offset AND NOT (mask 12) = push_bit 12 (drop_bit 12 offset)"
    by (rule bit_eqI) (auto simp: bit_simps)
  moreover have "push_bit 12 (drop_bit 12 offset) + take_bit 12 offset = offset"
    by (rule bits_ident)
  ultimately have "offset - (offset AND NOT (mask 12)) = take_bit 12 offset"
    by (metis add_diff_cancel_left')
  then show ?thesis
    by (simp add: ROUND_DOWN_def PAGE_SIZE_def mask_eq_exp_minus_1)
qed

lemma rw_chunk_pos: "sz \<noteq> 0 \<Longrightarrow> 0 < rw_chunk offset sz"
proof -
  assume "sz \<noteq> 0"
  have "take_bit 12 offset < (0x1000 :: u64)"
    by (simp add: word_less_nat_alt take_bit_eq_mod unat_mod)
  then have "0 < PAGE_SIZE - take_bit 12 offset"
    by (simp add: PAGE_SIZE_def word_less_nat_alt unat_sub word_le_nat_alt)
  then show ?thesis
    using \<open>sz \<noteq> 0\<close> by (simp add: rw_chunk_def offset_in_page min_def word_gt_0)
qed

lemma rw_chunk_le: "rw_chunk offset sz \<le> sz"
  by (simp add: rw_chunk_def)

lemma rw_chunk_shrinks [termination_simp]:
  "sz \<noteq> 0 \<Longrightarrow> unat (sz - rw_chunk offset sz) < unat sz"
  using rw_chunk_pos [of sz offset] rw_chunk_le [of offset sz]
  by (simp add: unat_sub word_less_nat_alt word_le_nat_alt)

text \<open>The loop over the pages of an anonymous object; \<^verbatim>\<open>user_buf\<close> stays where it is.\<close>

function rw_anonym :: "u64 \<Rightarrow> u64 \<Rightarrow> u64 \<Rightarrow> u64 \<Rightarrow> u64 \<Rightarrow> unit kop" where
  "rw_anonym p user_buf op_type offset sz =
     (if sz = 0 then ret ()
      else
        bindS (rw_page p (ROUND_DOWN offset PAGE_SIZE div PAGE_SIZE)) (\<lambda>kva.
        thenS (rw_copy op_type (kva + (offset - ROUND_DOWN offset PAGE_SIZE)) user_buf (rw_chunk offset sz))
          (rw_anonym p user_buf op_type (offset + rw_chunk offset sz) (sz - rw_chunk offset sz))))"
  by pat_completeness auto
termination
  by (relation "measure (\<lambda>(_, _, _, _, sz). unat sz)") (auto simp: rw_chunk_shrinks)

declare rw_anonym.simps [simp del]

definition read_write_pmo :: "u64 \<Rightarrow> u64 \<Rightarrow> u64 \<Rightarrow> u64 \<Rightarrow> u64 \<Rightarrow> int kop" where
  "read_write_pmo pmo_cap offset user_buf sz op_type =
     bindS current_cap_group (\<lambda>cur.
     bindS (obj_get cur (to_int pmo_cap) TYPE_PMO) (\<lambda>p.
       if p = 0 then ret (- ECAPBILITY)
       else
         bindS (readS pmos p) (\<lambda>pmo.
         bindS (if pmo_type pmo \<noteq> PMO_DATA \<and> pmo_type pmo \<noteq> PMO_DATA_NOCACHE \<and> pmo_type pmo \<noteq> PMO_ANONYM
                then ret (- EINVAL)
                else if op_type \<noteq> READ \<and> op_type \<noteq> WRITE then ret (- EINVAL)
                else if offset + sz < offset \<or> offset + sz > pmo_size pmo then ret (- EINVAL)
                else if pmo_type pmo = PMO_DATA \<or> pmo_type pmo = PMO_DATA_NOCACHE then
                  thenS (rw_copy op_type (phys_to_virt (pmo_start pmo) + offset) user_buf sz) (ret 0)
                else thenS (rw_anonym p user_buf op_type offset sz) (ret 0)) (\<lambda>r.
         thenS (obj_put p) (ret r)))))"

definition sys_write_pmo :: "u64 \<Rightarrow> u64 \<Rightarrow> u64 \<Rightarrow> u64 \<Rightarrow> int kop" where
  "sys_write_pmo pmo_cap offset user_ptr len = read_write_pmo pmo_cap offset user_ptr len WRITE"

definition sys_read_pmo :: "u64 \<Rightarrow> u64 \<Rightarrow> u64 \<Rightarrow> u64 \<Rightarrow> int kop" where
  "sys_read_pmo pmo_cap offset user_ptr len = read_write_pmo pmo_cap offset user_ptr len READ"

section \<open>Addresses\<close>

definition sys_get_pmo_paddr :: "u64 \<Rightarrow> u64 \<Rightarrow> int kop" where
  "sys_get_pmo_paddr pmo_cap user_buf =
     bindS current_cap_group (\<lambda>cur.
     bindS (obj_get cur (to_int pmo_cap) TYPE_PMO) (\<lambda>p.
       if p = 0 then ret (- ECAPBILITY)
       else
         bindS (readS pmos p) (\<lambda>pmo.
         bindS (if pmo_type pmo \<noteq> PMO_DATA \<and> pmo_type pmo \<noteq> PMO_DATA_NOCACHE then ret (- EINVAL)
                else thenS (copy_to_user user_buf [pmo_start pmo]) (ret 0)) (\<lambda>r.
         thenS (obj_put p) (ret r)))))"

text \<open>Both callers of \<^verbatim>\<open>query_in_pgtbl\<close> pass NULL for \<^verbatim>\<open>entry\<close>. An address that the query
  does not write is what the local variable held.\<close>

definition query_current :: "vaddr \<Rightarrow> (int \<times> paddr) kop" where
  "query_current va =
     bindS current_vmspace (\<lambda>vs.
     bindS (readS vmspaces vs) (\<lambda>v.
     bindS (gets mm) (\<lambda>m.
     bindS (liftR (query_in_pgtbl (pgtbl v) va False m)) (\<lambda>(r, pa, _).
       gets (\<lambda>k. (r, case pa of Some a \<Rightarrow> a | None \<Rightarrow> junk k 0))))))"

definition sys_get_phys_addr :: "u64 \<Rightarrow> u64 \<Rightarrow> int kop" where
  "sys_get_phys_addr va pa_buf =
     bindS (query_current va) (\<lambda>(r, pa).
       if r < 0 then ret r else thenS (copy_to_user pa_buf [pa]) (ret 0))"

definition trans_uva_to_kva :: "u64 \<Rightarrow> (int \<times> u64 option) kop" where
  "trans_uva_to_kva user_va =
     bindS (query_current user_va) (\<lambda>(r, pa).
       if r < 0 then ret (r, None) else ret (0, Some (phys_to_virt pa)))"

section \<open>Mapping\<close>

definition sys_map_pmo :: "u64 \<Rightarrow> u64 \<Rightarrow> u64 \<Rightarrow> u64 \<Rightarrow> u64 \<Rightarrow> int kop" where
  "sys_map_pmo target_cap_group_cap pmo_cap addr perm len =
     bindS current_cap_group (\<lambda>cur.
     bindS (obj_get cur (to_int pmo_cap) TYPE_PMO) (\<lambda>p.
       if p = 0 then ret (- ECAPBILITY)
       else
         bindS (readS pmos p) (\<lambda>pmo.
         let len = (if len = - 1 then pmo_size pmo else len) in
         bindS (obj_get cur (to_int target_cap_group_cap) TYPE_CAP_GROUP) (\<lambda>target.
           if target = 0 then thenS (obj_put p) (ret (- ECAPBILITY))
           else
             bindS (obj_get target VMSPACE_OBJ_ID TYPE_VMSPACE) (\<lambda>vs.
             thenS (bug_on (vs = 0))
             (bindS (vmspace_map_range vs addr len perm p) (\<lambda>r.
              bindS (if r \<noteq> 0 then ret (- EPERM)
                     else if target \<noteq> cur then cap_copy cur target (to_int pmo_cap)
                     else ret 0) (\<lambda>r.
              thenS (obj_put vs)
              (thenS (obj_put target)
              (thenS (obj_put p) (ret r)))))))))))"

definition map_pmo_in_current_cap_group :: "u64 \<Rightarrow> u64 \<Rightarrow> u64 \<Rightarrow> int kop" where
  "map_pmo_in_current_cap_group pmo_cap addr perm =
     bindS current_cap_group (\<lambda>cur.
     bindS (obj_get cur (to_int pmo_cap) TYPE_PMO) (\<lambda>p.
       if p = 0 then ret (- ECAPBILITY)
       else
         bindS (obj_get cur VMSPACE_OBJ_ID TYPE_VMSPACE) (\<lambda>vs.
         thenS (bug_on (vs = 0))
         (bindS (readS pmos p) (\<lambda>pmo.
          bindS (vmspace_map_range vs addr (pmo_size pmo) perm p) (\<lambda>r.
          thenS (obj_put vs)
          (thenS (obj_put p) (ret (if r \<noteq> 0 then - EPERM else r)))))))))"

record pmo_map_request =
  mr_pmo_cap :: u64
  mr_addr :: u64
  mr_perm :: u64
  mr_free_cap :: u64
  mr_ret :: u64

fun unpack_map_requests :: "u64 list \<Rightarrow> pmo_map_request list" where
  "unpack_map_requests (a # b # c # d # e # ws) =
     \<lparr>mr_pmo_cap = a, mr_addr = b, mr_perm = c, mr_free_cap = d, mr_ret = e\<rparr> # unpack_map_requests ws"
| "unpack_map_requests _ = []"

definition pack_map_requests :: "pmo_map_request list \<Rightarrow> u64 list" where
  "pack_map_requests rs =
     concat (map (\<lambda>r. [mr_pmo_cap r, mr_addr r, mr_perm r, mr_free_cap r, mr_ret r]) rs)"

text \<open>The body for a request whose capability the caller gives away.\<close>

definition give_away :: "u64 \<Rightarrow> unit kop" where
  "give_away pmo_cap =
     bindS current_cap_group (\<lambda>cur.
     bindS (obj_get cur (to_int pmo_cap) TYPE_PMO) (\<lambda>p.
     bindS (obj_get cur VMSPACE_OBJ_ID TYPE_VMSPACE) (\<lambda>vs.
     thenS (bug_on (p = 0 \<or> vs = 0))
     (thenS (unmap_pmo_in_vmspace vs p)
     (thenS (cap_free cur (to_int pmo_cap))
     (thenS (obj_put vs) (obj_put p)))))))"

fun map_pmos_loop :: "u64 \<Rightarrow> pmo_map_request list \<Rightarrow> int \<Rightarrow> (int \<times> pmo_map_request list) kop" where
  "map_pmos_loop target [] r0 = ret (r0, [])"
| "map_pmos_loop target (r # rs) r0 =
     bindS (sys_map_pmo target (mr_pmo_cap r) (mr_addr r) (mr_perm r) (- 1)) (\<lambda>map_ret.
     thenS (if map_ret \<ge> 0 \<and> mr_free_cap r = 1 then give_away (mr_pmo_cap r) else ret ())
     (bindS (map_pmos_loop target rs (if map_ret < 0 then - EINVAL else r0)) (\<lambda>(r1, rs).
        ret (r1, r\<lparr>mr_ret := word_of_int map_ret\<rparr> # rs))))"

definition sys_map_pmos :: "u64 \<Rightarrow> u64 \<Rightarrow> u64 \<Rightarrow> int kop" where
  "sys_map_pmos target_cap_group_cap user_buf cnt =
     (if cnt > MAX_CNT then ret (- EINVAL)
      else
        bindS (liftM (kmalloc (40 * cnt))) (\<lambda>requests.
          if requests = 0 then ret (- EAGAIN)
          else
            bindS (copy_from_user user_buf (5 * unat cnt)) (\<lambda>ws.
            bindS (map_pmos_loop target_cap_group_cap (unpack_map_requests ws) 0) (\<lambda>(r, rs).
            thenS (copy_to_user user_buf (pack_map_requests rs))
            (thenS (liftU (kfree requests)) (ret r))))))"

definition sys_unmap_pmo :: "u64 \<Rightarrow> u64 \<Rightarrow> u64 \<Rightarrow> int kop" where
  "sys_unmap_pmo target_cap_group_cap pmo_cap addr =
     bindS current_cap_group (\<lambda>cur.
     bindS (obj_get cur (to_int pmo_cap) TYPE_PMO) (\<lambda>p.
       if p = 0 then ret (- EPERM)
       else
         bindS (obj_get cur (to_int target_cap_group_cap) TYPE_CAP_GROUP) (\<lambda>target.
           if target = 0 then thenS (obj_put p) (ret (- EPERM))
           else
             bindS (obj_get target VMSPACE_OBJ_ID TYPE_VMSPACE) (\<lambda>vs.
               if vs = 0 then thenS (obj_put target) (thenS (obj_put p) (ret (- EPERM)))
               else
                 bindS (readS pmos p) (\<lambda>pmo.
                 bindS (vmspace_unmap_range vs addr (pmo_size pmo)) (\<lambda>r.
                 thenS (obj_put vs)
                 (thenS (obj_put target)
                 (thenS (obj_put p) (ret (if r \<noteq> 0 then - EPERM else r))))))))))"

section \<open>Heap and anonymous mappings\<close>

definition sys_handle_brk :: "u64 \<Rightarrow> u64 kop" where
  "sys_handle_brk addr =
     bindS current_cap_group (\<lambda>cur.
     bindS (obj_get cur VMSPACE_OBJ_ID TYPE_VMSPACE) (\<lambda>vs.
     bindS (readS vmspaces vs) (\<lambda>v.
     bindS (if addr = 0 then
              bindS (create_pmo 0 PMO_ANONYM cur) (\<lambda>(r, pmo).
                case pmo of
                  None \<Rightarrow> fault Bug
                | Some p \<Rightarrow>
                  bindS (init_heap_vmr vs (user_current_heap v) p) (\<lambda>h.
                  thenS (upd_vmspace vs (\<lambda>v. v\<lparr>heap_vmr := h\<rparr>)) (ret (user_current_heap v))))
            else
              bindS (readS vmregions (heap_vmr v)) (\<lambda>vmr.
                let vend = vmr_start vmr + vmr_size vmr in
                if addr \<ge> vend then
                  thenS (upd_vmregion (heap_vmr v) (\<lambda>x. x\<lparr>vmr_size := vmr_size x + (addr - vend)\<rparr>))
                  (thenS (upd_pmo (vmr_pmo vmr) (\<lambda>x. x\<lparr>pmo_size := pmo_size x + (addr - vend)\<rparr>)) (ret addr))
                else fault Bug)) (\<lambda>retval.
     thenS (obj_put vs) (ret retval)))))"

definition PROT_READ :: u32 where "PROT_READ = 1"
definition PROT_WRITE :: u32 where "PROT_WRITE = 2"
definition PROT_EXEC :: u32 where "PROT_EXEC = 4"
definition PROT_CHECK_MASK :: u32 where "PROT_CHECK_MASK = NOT (PROT_READ OR PROT_WRITE OR PROT_EXEC)"
definition MAP_PRIVATE :: u32 where "MAP_PRIVATE = 0x02"
definition MAP_ANONYMOUS :: u32 where "MAP_ANONYMOUS = 0x20"

definition get_vmr_prot :: "u32 \<Rightarrow> u64" where
  "get_vmr_prot prot =
     (if prot AND PROT_READ \<noteq> 0 then VMR_READ else 0)
     OR (if prot AND PROT_WRITE \<noteq> 0 then VMR_WRITE else 0)
     OR (if prot AND PROT_EXEC \<noteq> 0 then VMR_EXEC else 0)"

definition sys_handle_mmap :: "u64 \<Rightarrow> u64 \<Rightarrow> u32 \<Rightarrow> u32 \<Rightarrow> int \<Rightarrow> u64 \<Rightarrow> u64 kop" where
  "sys_handle_mmap addr len prot flags fd offset =
     (if fd \<noteq> - 1 then fault Bug
      else if prot AND PROT_CHECK_MASK \<noteq> 0 then ret (- 1)
      else if flags \<noteq> MAP_ANONYMOUS OR MAP_PRIVATE then ret (- 1)
      else
        let len = (if len mod PAGE_SIZE \<noteq> 0 then ROUND_UP len PAGE_SIZE else len) in
        bindS current_cap_group (\<lambda>cur.
        bindS (create_pmo len PMO_ANONYM cur) (\<lambda>(cap, pmo).
          case pmo of
            None \<Rightarrow> fault Bug
          | Some p \<Rightarrow>
            bindS (obj_get cur VMSPACE_OBJ_ID TYPE_VMSPACE) (\<lambda>vs.
            bindS (vmspace_mmap_with_pmo vs p len (get_vmr_prot prot)) (\<lambda>map_addr.
            thenS (obj_put vs) (ret map_addr))))))"

definition sys_handle_munmap :: "u64 \<Rightarrow> u64 \<Rightarrow> int kop" where
  "sys_handle_munmap addr len =
     (if addr mod PAGE_SIZE \<noteq> 0 \<or> len mod PAGE_SIZE \<noteq> 0 then ret (- EINVAL)
      else
        bindS current_cap_group (\<lambda>cur.
        bindS (obj_get cur VMSPACE_OBJ_ID TYPE_VMSPACE) (\<lambda>vs.
        bindS (vmspace_munmap_with_addr vs addr len) (\<lambda>r.
        thenS (obj_put vs) (ret r)))))"

definition sys_get_free_mem_size :: "u64 kop" where
  "sys_get_free_mem_size = bindS (gets mm) (\<lambda>m. liftR (get_free_mem_size m))"

end
