(* ===== verification/Elf.thy ===== *)
theory Elf
  imports Kmalloc
begin

text \<open>The ELF parser of \<^verbatim>\<open>kernel/lib/elf.c\<close>. The file is the list of bytes behind the pointer
  \<^verbatim>\<open>code\<close>; a read behind its end is a fault. The machine is little endian, so a field is the
  little-endian number of its bytes, and \<^verbatim>\<open>be16_to_cpu\<close> and its companions swap them.\<close>

section \<open>Bytes and byte order\<close>

primrec read_le :: "nat \<Rightarrow> 8 word list \<Rightarrow> nat \<Rightarrow> u64 res" where
  "read_le 0 code off = Inr 0"
| "read_le (Suc n) code off =
     (if off < length code
      then bindR (read_le n code (off + 1)) (\<lambda>w. Inr (ucast (code ! off) + 256 * w))
      else Inl OutOfRange)"

definition be16_to_cpu :: "u64 \<Rightarrow> u64" where
  "be16_to_cpu x = push_bit 8 (x AND 0xff) OR (drop_bit 8 x AND 0xff)"

definition be32_to_cpu :: "u64 \<Rightarrow> u64" where
  "be32_to_cpu x = push_bit 16 (be16_to_cpu x) OR be16_to_cpu (drop_bit 16 x)"

definition be64_to_cpu :: "u64 \<Rightarrow> u64" where
  "be64_to_cpu x = push_bit 32 (be32_to_cpu x) OR be32_to_cpu (drop_bit 32 x)"

text \<open>A field of 2, 4 or 8 bytes in the byte order of the file.\<close>

definition field16 :: "bool \<Rightarrow> 8 word list \<Rightarrow> nat \<Rightarrow> u64 res" where
  "field16 be code off = bindR (read_le 2 code off) (\<lambda>w. Inr (if be then be16_to_cpu w else w))"

definition field32 :: "bool \<Rightarrow> 8 word list \<Rightarrow> nat \<Rightarrow> u64 res" where
  "field32 be code off = bindR (read_le 4 code off) (\<lambda>w. Inr (if be then be32_to_cpu w else w))"

definition field64 :: "bool \<Rightarrow> 8 word list \<Rightarrow> nat \<Rightarrow> u64 res" where
  "field64 be code off = bindR (read_le 8 code off) (\<lambda>w. Inr (if be then be64_to_cpu w else w))"

section \<open>Headers\<close>

record elf_indent =
  ei_magic :: "8 word list"
  ei_class :: "8 word"
  ei_data :: "8 word"
  ei_rest :: "8 word list"

record elf_header =
  e_indent :: elf_indent
  e_type :: u64
  e_machine :: u64
  e_version :: u64
  e_entry :: u64
  e_phoff :: u64
  e_shoff :: u64
  e_flags :: u64
  e_ehsize :: u64
  e_phentsize :: u64
  e_phnum :: u64
  e_shentsize :: u64
  e_shnum :: u64
  e_shstrndx :: u64

record elf_program_header =
  p_type :: u64
  p_flags :: u64
  p_offset :: u64
  p_vaddr :: u64
  p_paddr :: u64
  p_filesz :: u64
  p_memsz :: u64
  p_align :: u64

record elf_section_header =
  sh_name :: u64
  sh_type :: u64
  sh_flags :: u64
  sh_addr :: u64
  sh_offset :: u64
  sh_size :: u64
  sh_link :: u64
  sh_info :: u64
  sh_addralign :: u64
  sh_entsize :: u64

definition is_elf_magic :: "elf_indent \<Rightarrow> bool" where
  "is_elf_magic i = (ei_magic i = [0x7F, 0x45, 0x4C, 0x46])"

text \<open>The byte order and the width that \<^verbatim>\<open>ei_data\<close> and \<^verbatim>\<open>ei_class\<close> select: big endian or not,
  64 bits or not; \<open>None\<close> is the \<^verbatim>\<open>-EINVAL\<close> of the source.\<close>

definition elf_layout :: "elf_indent \<Rightarrow> (bool \<times> bool) option" where
  "elf_layout i =
     (if ei_data i = 1 \<or> ei_data i = 2 then
        if ei_class i = 1 then Some (ei_data i = 2, False)
        else if ei_class i = 2 then Some (ei_data i = 2, True)
        else None
      else None)"

definition read_indent :: "8 word list \<Rightarrow> elf_indent res" where
  "read_indent code =
     (if length code < 16 then Inl OutOfRange
      else Inr \<lparr>ei_magic = take 4 code, ei_class = code ! 4, ei_data = code ! 5,
                ei_rest = take 10 (drop 6 code)\<rparr>)"

text \<open>The parsers return an error number or the header. An address-sized field has 4 or 8 bytes.\<close>

definition parse_elf_header :: "8 word list \<Rightarrow> (int + elf_header) res" where
  "parse_elf_header code =
     bindR (read_indent code) (\<lambda>ind.
       if \<not> is_elf_magic ind then Inr (Inl (- EINVAL))
       else
         (case elf_layout ind of
            None \<Rightarrow> Inr (Inl (- EINVAL))
          | Some (be, wide) \<Rightarrow>
            let addr = (if wide then field64 be code else field32 be code);
                at = (\<lambda>o32 o64. if wide then o64 else o32) in
            bindR (field16 be code 16) (\<lambda>type.
            bindR (field16 be code 18) (\<lambda>machine.
            bindR (field32 be code 20) (\<lambda>version.
            bindR (addr 24) (\<lambda>entry.
            bindR (addr (at 28 32)) (\<lambda>phoff.
            bindR (addr (at 32 40)) (\<lambda>shoff.
            bindR (field32 be code (at 36 48)) (\<lambda>flags.
            bindR (field16 be code (at 40 52)) (\<lambda>ehsize.
            bindR (field16 be code (at 42 54)) (\<lambda>phentsize.
            bindR (field16 be code (at 44 56)) (\<lambda>phnum.
            bindR (field16 be code (at 46 58)) (\<lambda>shentsize.
            bindR (field16 be code (at 48 60)) (\<lambda>shnum.
            bindR (field16 be code (at 50 62)) (\<lambda>shstrndx.
              Inr (Inr \<lparr>e_indent = ind, e_type = type, e_machine = machine, e_version = version,
                e_entry = entry, e_phoff = phoff, e_shoff = shoff, e_flags = flags, e_ehsize = ehsize,
                e_phentsize = phentsize, e_phnum = phnum, e_shentsize = shentsize, e_shnum = shnum,
                e_shstrndx = shstrndx\<rparr>))))))))))))))))"

definition parse_elf_program_header :: "8 word list \<Rightarrow> nat \<Rightarrow> elf_header \<Rightarrow> (int + elf_program_header) res" where
  "parse_elf_program_header code off elf =
     (case elf_layout (e_indent elf) of
        None \<Rightarrow> Inr (Inl (- EINVAL))
      | Some (be, wide) \<Rightarrow>
        let addr = (\<lambda>o32 o64. if wide then field64 be code (off + o64) else field32 be code (off + o32)) in
        bindR (field32 be code off) (\<lambda>type.
        bindR (field32 be code (off + (if wide then 4 else 24))) (\<lambda>flags.
        bindR (addr 4 8) (\<lambda>offset.
        bindR (addr 8 16) (\<lambda>va.
        bindR (addr 12 24) (\<lambda>pa.
        bindR (addr 16 32) (\<lambda>filesz.
        bindR (addr 20 40) (\<lambda>memsz.
        bindR (addr 28 48) (\<lambda>align.
          Inr (Inr \<lparr>p_type = type, p_flags = flags, p_offset = offset, p_vaddr = va, p_paddr = pa,
            p_filesz = filesz, p_memsz = memsz, p_align = align\<rparr>))))))))))"

definition parse_elf_section_header :: "8 word list \<Rightarrow> nat \<Rightarrow> elf_header \<Rightarrow> (int + elf_section_header) res" where
  "parse_elf_section_header code off elf =
     (case elf_layout (e_indent elf) of
        None \<Rightarrow> Inr (Inl (- EINVAL))
      | Some (be, wide) \<Rightarrow>
        let addr = (\<lambda>o32 o64. if wide then field64 be code (off + o64) else field32 be code (off + o32)) in
        bindR (field32 be code off) (\<lambda>name.
        bindR (field32 be code (off + 4)) (\<lambda>type.
        bindR (addr 8 8) (\<lambda>flags.
        bindR (addr 12 16) (\<lambda>a.
        bindR (addr 16 24) (\<lambda>offset.
        bindR (addr 20 32) (\<lambda>sz.
        bindR (field32 be code (off + (if wide then 40 else 24))) (\<lambda>link.
        bindR (field32 be code (off + (if wide then 44 else 28))) (\<lambda>info.
        bindR (addr 32 48) (\<lambda>addralign.
        bindR (addr 36 56) (\<lambda>entsize.
          Inr (Inr \<lparr>sh_name = name, sh_type = type, sh_flags = flags, sh_addr = a, sh_offset = offset,
            sh_size = sz, sh_link = link, sh_info = info, sh_addralign = addralign,
            sh_entsize = entsize\<rparr>))))))))))))"

section \<open>Files\<close>

text \<open>The arrays are lists; their addresses are kept for \<^verbatim>\<open>kfree\<close>. The array of program headers
  has \<^verbatim>\<open>e_phentsize * e_phnum\<close> bytes, and a write of an element of 56 bytes behind them is a fault;
  the same holds for the 64 bytes of a section header.\<close>

record elf_file =
  elf_ptr :: u64
  elf_head :: elf_header
  p_headers :: "elf_program_header list"
  s_headers :: "elf_section_header list"
  p_headers_ptr :: u64
  s_headers_ptr :: u64

definition SIZEOF_ELF_FILE :: u64 where "SIZEOF_ELF_FILE = 80"
definition SIZEOF_PHDR :: nat where "SIZEOF_PHDR = 56"
definition SIZEOF_SHDR :: nat where "SIZEOF_SHDR = 64"

text \<open>A loop that parses \<open>n\<close> headers from the \<open>i\<close>-th on; it stops at the first error.\<close>

primrec parse_headers :: "(nat \<Rightarrow> (int + 'h) res) \<Rightarrow> nat \<Rightarrow> nat \<Rightarrow> nat \<Rightarrow> nat \<Rightarrow> (int + 'h list) res" where
  "parse_headers parse elem room 0 i = Inr (Inr [])"
| "parse_headers parse elem room (Suc n) i =
     bindR (parse i) (\<lambda>r.
       case r of
         Inl err \<Rightarrow> Inr (Inl err)
       | Inr h \<Rightarrow>
         if (i + 1) * elem > room then Inl OutOfRange
         else bindR (parse_headers parse elem room n (i + 1)) (\<lambda>rest.
                Inr (case rest of Inl err \<Rightarrow> Inl err | Inr hs \<Rightarrow> Inr (h # hs))))"

definition ph_table_size :: "elf_header \<Rightarrow> u64" where
  "ph_table_size h = e_phentsize h * e_phnum h"

definition sh_table_size :: "elf_header \<Rightarrow> u64" where
  "sh_table_size h = e_shentsize h * e_shnum h"

definition parse_phdrs :: "8 word list \<Rightarrow> elf_header \<Rightarrow> (int + elf_program_header list) res" where
  "parse_phdrs code h =
     parse_headers (\<lambda>i. parse_elf_program_header code (unat (e_phoff h + e_phentsize h * of_nat i)) h)
       SIZEOF_PHDR (unat (ph_table_size h)) (unat (e_phnum h)) 0"

definition parse_shdrs :: "8 word list \<Rightarrow> elf_header \<Rightarrow> (int + elf_section_header list) res" where
  "parse_shdrs code h =
     parse_headers (\<lambda>i. parse_elf_section_header code (unat (e_shoff h + e_shentsize h * of_nat i)) h)
       SIZEOF_SHDR (unat (sh_table_size h)) (unat (e_shnum h)) 0"

definition elf_parse_file :: "8 word list \<Rightarrow> mm_state \<Rightarrow> ((int + elf_file) \<times> mm_state) res" where
  "elf_parse_file code m =
     bindR (kmalloc SIZEOF_ELF_FILE m) (\<lambda>(elf, m).
       if elf = 0 then Inr (Inl (- ENOMEM), m)
       else
         bindR (parse_elf_header code) (\<lambda>r.
           case r of
             Inl err \<Rightarrow> bindR (kfree elf m) (\<lambda>m. Inr (Inl err, m))
           | Inr h \<Rightarrow>
             bindR (kmalloc (ph_table_size h) m) (\<lambda>(ph, m).
               if ph = 0 then bindR (kfree elf m) (\<lambda>m. Inr (Inl (- ENOMEM), m))
               else
                 bindR (kmalloc (sh_table_size h) m) (\<lambda>(sh, m).
                   if sh = 0 then
                     bindR (kfree ph m) (\<lambda>m. bindR (kfree elf m) (\<lambda>m. Inr (Inl (- ENOMEM), m)))
                   else
                     let free_all = (\<lambda>err. bindR (kfree sh m) (\<lambda>m. bindR (kfree ph m) (\<lambda>m.
                           bindR (kfree elf m) (\<lambda>m. Inr (Inl err, m))))) in
                     bindR (parse_phdrs code h) (\<lambda>r.
                       case r of
                         Inl err \<Rightarrow> free_all err
                       | Inr phs \<Rightarrow>
                         bindR (parse_shdrs code h) (\<lambda>r.
                           case r of
                             Inl err \<Rightarrow> free_all err
                           | Inr shs \<Rightarrow>
                             Inr (Inr \<lparr>elf_ptr = elf, elf_head = h, p_headers = phs, s_headers = shs,
                                       p_headers_ptr = ph, s_headers_ptr = sh\<rparr>, m)))))))"

definition elf_free :: "elf_file \<Rightarrow> mm_state \<Rightarrow> mm_state res" where
  "elf_free f m =
     bindR (if s_headers_ptr f \<noteq> 0 then kfree (s_headers_ptr f) m else Inr m) (\<lambda>m.
     bindR (if p_headers_ptr f \<noteq> 0 then kfree (p_headers_ptr f) m else Inr m) (\<lambda>m.
       kfree (elf_ptr f) m))"

end
