(* ===== verification/Thread_Ops.thy ===== *)
theory Thread_Ops
  imports Memory_Syscalls Sched Elf
begin

text \<open>Threads: \<^verbatim>\<open>kernel/object/thread.c\<close> with the environment page of
  \<^verbatim>\<open>kernel/object/set_thread_env.c\<close>. The binary of the first process is a list of bytes, an
  argument of the functions that load it.\<close>

section \<open>Initialisation of a thread\<close>

text \<open>The remainder of C, which has the sign of its first operand.\<close>

definition rem_c :: "int \<Rightarrow> int \<Rightarrow> int" where
  "rem_c a b = (if a < 0 then - ((- a) mod b) else a mod b)"

definition thread_init :: "u64 \<Rightarrow> u64 \<Rightarrow> u64 \<Rightarrow> u64 \<Rightarrow> u32 \<Rightarrow> thread_type \<Rightarrow> int \<Rightarrow> int kop" where
  "thread_init t g stack ip prio type aff =
     bindS (obj_get g CAP_GROUP_OBJ_ID TYPE_CAP_GROUP) (\<lambda>cg.
     thenS (upd_thread t (\<lambda>th. th\<lparr>thread_cap_group := cg\<rparr>))
     (bindS (obj_get g VMSPACE_OBJ_ID TYPE_VMSPACE) (\<lambda>vs.
      thenS (upd_thread t (\<lambda>th. th\<lparr>thread_vmspace := vs\<rparr>))
      (thenS (obj_put cg)
      (thenS (obj_put vs)
      (bindS (create_thread_ctx type) (\<lambda>ctx.
       thenS (upd_thread t (\<lambda>th. th\<lparr>thread_ctx_ptr := ctx\<rparr>))
       (if ctx = 0 then ret (- ENOMEM)
        else
          thenS (init_thread_ctx t stack ip prio type (rem_c aff (int PLAT_CPU_NUM)))
          (thenS (upd_thread t (\<lambda>th. th\<lparr>prev_thread := 0, general_ipc_config := 0\<rparr>))
            (ret 0))))))))))"

section \<open>Loading a binary\<close>

record process_metadata =
  phdr_addr :: u64
  phentsize :: u64
  phnum :: u64
  meta_flags :: u64
  meta_entry :: u64

definition PFLAGS2VMRFLAGS :: "u64 \<Rightarrow> u64" where
  "PFLAGS2VMRFLAGS pf =
     (if pf AND 1 \<noteq> 0 then VMR_EXEC else 0) OR (if pf AND 2 \<noteq> 0 then VMR_WRITE else 0)
     OR (if pf AND 4 \<noteq> 0 then VMR_READ else 0)"

definition PT_LOAD :: u64 where "PT_LOAD = 1"

definition seg_map_sz :: "elf_program_header \<Rightarrow> u64" where
  "seg_map_sz ph = ROUND_UP (p_vaddr ph + p_memsz ph) PAGE_SIZE - ROUND_DOWN (p_vaddr ph) PAGE_SIZE"

text \<open>The loop over the program headers. The variable \<^verbatim>\<open>pmo\<close> of the source keeps its value when
  \<^verbatim>\<open>create_pmo\<close> fails, and the result is not tested.\<close>

fun load_segments :: "u64 \<Rightarrow> u64 \<Rightarrow> 8 word list \<Rightarrow> u64 \<Rightarrow> elf_program_header list \<Rightarrow> unit kop" where
  "load_segments g vs bin pmo [] = ret ()"
| "load_segments g vs bin pmo (ph # phs) =
     (if p_type ph \<noteq> PT_LOAD then load_segments g vs bin pmo phs
      else
        bindS (create_pmo (seg_map_sz ph) PMO_DATA g) (\<lambda>(cap, new).
        let p = (case new of Some p \<Rightarrow> p | None \<Rightarrow> pmo);
            off = unat (p_offset ph); n = unat (p_filesz ph) in
        bindS (readS pmos p) (\<lambda>obj.
        thenS (if off + n > length bin then fault OutOfRange
               else modify (write_bytes
                      (phys_to_virt (pmo_start obj) + (p_vaddr ph - ROUND_DOWN (p_vaddr ph) PAGE_SIZE))
                      (take n (drop off bin))))
        (bindS (vmspace_map_range vs (p_vaddr ph) (seg_map_sz ph) (PFLAGS2VMRFLAGS (p_flags ph)) p) (\<lambda>r.
         thenS (bug_on (r \<noteq> 0)) (load_segments g vs bin p phs))))))"

text \<open>\<^verbatim>\<open>load_binary\<close>: the program counter, and the metadata when it is written. When the array of
  capabilities cannot be allocated the error number is returned as the program counter. The result
  of \<^verbatim>\<open>elf_parse_file\<close> is not tested.\<close>

definition load_binary :: "u64 \<Rightarrow> u64 \<Rightarrow> 8 word list \<Rightarrow> (u64 \<times> process_metadata option) kop" where
  "load_binary g vs bin =
     bindS (liftM (elf_parse_file bin)) (\<lambda>r.
       case r of
         Inl _ \<Rightarrow> fault BadPtr
       | Inr elf \<Rightarrow>
         let h = elf_head elf in
         bindS (liftM (kmalloc (e_phnum h * 4))) (\<lambda>pmo_cap.
           if pmo_cap = 0 then ret (word_of_int (- ENOMEM), None)
           else
             bindS (gets (\<lambda>k. junk k 0)) (\<lambda>pmo.
             thenS (load_segments g vs bin pmo (p_headers elf))
             (case p_headers elf of
                [] \<Rightarrow> fault OutOfRange
              | ph # _ \<Rightarrow>
                ret (e_entry h, Some \<lparr>phdr_addr = p_vaddr ph + e_phoff h, phentsize = e_phentsize h,
                       phnum = e_phnum h, meta_flags = e_flags h, meta_entry = e_entry h\<rparr>)))))"

section \<open>The environment of the first process\<close>

definition ENV_MAGIC :: u64 where "ENV_MAGIC = 0x43484f53"
definition ENV_SIZE :: u64 where "ENV_SIZE = 0x1000"
definition ENV_NO_CAPS :: u64 where "ENV_NO_CAPS = - 1"
definition PLAT :: "8 word list" where "PLAT = [97, 97, 114, 99, 104, 54, 52]"

text \<open>The words that \<^verbatim>\<open>prepare_env\<close> writes from the start of the page: the magic number, the
  arguments, and the auxiliary vector as pairs of a type and a value.\<close>

definition env_words :: "u64 \<Rightarrow> process_metadata \<Rightarrow> u64 list" where
  "env_words top_vaddr meta =
     [ENV_MAGIC, ENV_NO_CAPS, 1, top_vaddr - 64, 0, 0,
      23, 0, 6, 0x1000, 3, phdr_addr meta, 4, phentsize meta, 5, phnum meta, 8, meta_flags meta,
      9, meta_entry meta, 11, 1000, 12, 1000, 13, 1000, 14, 1000, 17, 100, 16, 0,
      15, top_vaddr - 64 * 2, 25, top_vaddr - 64, 0, 0]"

definition prepare_env :: "vaddr \<Rightarrow> u64 \<Rightarrow> process_metadata \<Rightarrow> 8 word list \<Rightarrow> unit kop" where
  "prepare_env env top_vaddr meta name =
     thenS (modify (\<lambda>k. k\<lparr>mm := zero_words env ENV_SIZE (mm k)\<rparr>))
     (thenS (modify (write_bytes (env + ENV_SIZE - 64) name))
     (thenS (modify (write_bytes (env + ENV_SIZE - 2 * 64) PLAT))
        (modify (write_words env (env_words top_vaddr meta)))))"

section \<open>The first thread\<close>

definition add_thread :: "u64 \<Rightarrow> u64 \<Rightarrow> unit kop" where
  "add_thread g t =
     upd_cap_group g (\<lambda>c. c\<lparr>thread_list := t # thread_list c, thread_cnt := thread_cnt c + 1\<rparr>)"

text \<open>The metadata of the caller is an uninitialised local variable until \<^verbatim>\<open>load_binary\<close> writes
  it.\<close>

definition junk_metadata :: "kernel \<Rightarrow> process_metadata" where
  "junk_metadata k = \<lparr>phdr_addr = junk k 8, phentsize = junk k 16, phnum = junk k 24,
     meta_flags = junk k 32, meta_entry = junk k 40\<rparr>"

definition do_create_root_thread ::
  "u64 \<Rightarrow> u64 \<Rightarrow> u64 \<Rightarrow> u32 \<Rightarrow> thread_type \<Rightarrow> int \<Rightarrow> 8 word list \<Rightarrow> 8 word list \<Rightarrow> int kop" where
  "do_create_root_thread g stack_base stk_size prio type aff bin bin_name =
     bindS (obj_get g VMSPACE_OBJ_ID TYPE_VMSPACE) (\<lambda>vs.
     thenS (obj_put vs)
     (bindS (create_pmo stk_size PMO_ANONYM g) (\<lambda>(stack_cap, stack_pmo).
        case stack_pmo of
          None \<Rightarrow> ret stack_cap
        | Some sp \<Rightarrow>
          bindS (vmspace_map_range vs stack_base stk_size (VMR_READ OR VMR_WRITE) sp) (\<lambda>r.
          thenS (bug_on (r \<noteq> 0))
          (bindS (obj_alloc TYPE_THREAD SIZEOF_THREAD) (\<lambda>t.
             if t = 0 then thenS (cap_free g stack_cap) (ret (- ENOMEM))
             else
               bindS (load_binary g vs bin) (\<lambda>(ip, meta).
               let stack = stack_base + stk_size in
               bindS (liftM (get_pages 0)) (\<lambda>kva.
               thenS (bug_on (kva = 0))
               (thenS (commit_page_to_pmo sp (stk_size div PAGE_SIZE - 1) (virt_to_phys kva))
               (bindS (gets (\<lambda>k. case meta of Some m \<Rightarrow> m | None \<Rightarrow> junk_metadata k)) (\<lambda>meta.
                thenS (prepare_env kva stack meta bin_name)
                (bindS (thread_init t g (stack - ENV_SIZE) ip prio type aff) (\<lambda>r.
                 thenS (bug_on (r \<noteq> 0))
                 (thenS (add_thread g t)
                 (bindS (cap_alloc g t 0) (\<lambda>cap.
                    if cap < 0 then thenS (obj_free t) (thenS (cap_free g stack_cap) (ret cap))
                    else ret cap))))))))))))))))"

definition ROOT_THREAD_STACK_BASE :: u64 where "ROOT_THREAD_STACK_BASE = 0x500000000000"
definition ROOT_THREAD_STACK_SIZE :: u64 where "ROOT_THREAD_STACK_SIZE = 0x800000"

definition create_root_thread :: "8 word list \<Rightarrow> 8 word list \<Rightarrow> unit kop" where
  "create_root_thread root_name bin =
     bindS (create_root_cap_group root_name (length root_name)) (\<lambda>g.
     thenS (bug_on (g = 0))
     (bindS (readS objects (object_of g)) (\<lambda>ob.
      thenS (bug_on (obj_type ob \<noteq> TYPE_CAP_GROUP))
      (bindS (gets cpu) (\<lambda>me.
       bindS (do_create_root_thread g ROOT_THREAD_STACK_BASE ROOT_THREAD_STACK_SIZE (MAX_PRIO - 1)
                TYPE_USER (int me) bin root_name) (\<lambda>cap.
       bindS (readS cap_groups g) (\<lambda>c.
       thenS (bug_on (thread_cnt c = 0))
       (thenS (bug_on (cap = 0))
       (bindS (obj_get g cap TYPE_THREAD) (\<lambda>t.
        bindS (sched_enqueue t) (\<lambda>r.
        thenS (bug_on (r \<noteq> 0)) (obj_put t))))))))))))"

section \<open>System calls\<close>

definition create_thread :: "u64 \<Rightarrow> u64 \<Rightarrow> u64 \<Rightarrow> u64 \<Rightarrow> u32 \<Rightarrow> thread_type \<Rightarrow> int kop" where
  "create_thread g stack ip arg prio type =
     (if g = 0 then ret (- ECAPBILITY)
      else
        bindS (obj_alloc TYPE_THREAD SIZEOF_THREAD) (\<lambda>t.
          if t = 0 then thenS (obj_put g) (ret (- ENOMEM))
          else
            bindS (thread_init t g stack ip prio type NO_AFF) (\<lambda>r.
              if r \<noteq> 0 then thenS (obj_free t) (thenS (obj_put g) (ret r))
              else
                thenS (add_thread g t)
                (thenS (arch_set_thread_arg0 t arg)
                (bindS (cap_alloc g t 0) (\<lambda>cap.
                   if cap < 0 then thenS (obj_free t) (thenS (obj_put g) (ret cap))
                   else
                     bindS current_cap_group (\<lambda>cur.
                     bindS (cap_copy g cur cap) (\<lambda>cap.
                     thenS (if type = TYPE_USER then
                              thenS (upd_ctx t (\<lambda>c. c\<lparr>ctx_state := TS_INTER\<rparr>))
                                (bindS (sched_enqueue t) (\<lambda>r. bug_on (r \<noteq> 0)))
                            else if type = TYPE_SHADOW then upd_ctx t (\<lambda>c. c\<lparr>ctx_state := TS_WAITING\<rparr>)
                            else ret ())
                       (ret cap)))))))))"

text \<open>\<^verbatim>\<open>struct thread_args\<close> is five words: the last holds the priority and the type.\<close>

definition sys_create_thread :: "u64 \<Rightarrow> int kop" where
  "sys_create_thread thread_args_p =
     bindS (copy_from_user thread_args_p 5) (\<lambda>args.
     bindS current_cap_group (\<lambda>cur.
     bindS (obj_get cur (to_int (args ! 0)) TYPE_CAP_GROUP) (\<lambda>g.
     let prio = ucast (args ! 4) :: u32; type = ucast (drop_bit 32 (args ! 4)) :: u32 in
     bindS (if type = 0 then create_thread g (args ! 1) (args ! 2) (args ! 3) prio TYPE_USER
            else if type = 1 then create_thread g (args ! 1) (args ! 2) (args ! 3) prio TYPE_SHADOW
            else ret (- EINVAL)) (\<lambda>cap.
     thenS (obj_put g) (ret cap)))))"

definition sys_thread_exit :: "unit ctl kop" where
  "sys_thread_exit =
     bindS current_thread (\<lambda>cur.
     thenS (upd_ctx cur (\<lambda>c. c\<lparr>thread_exit_state := TE_EXITING\<rparr>))
     (thenS sched eret_switch))"

definition sys_set_affinity :: "u64 \<Rightarrow> int \<Rightarrow> int kop" where
  "sys_set_affinity thread_cap aff =
     (if aff \<ge> int PLAT_CPU_NUM then ret (- EINVAL)
      else
        bindS (if thread_cap = - 1 then current_thread
               else bindS current_cap_group (\<lambda>cur. obj_get cur (to_int thread_cap) TYPE_THREAD)) (\<lambda>t.
          if t = 0 then ret (- ECAPBILITY)
          else
            thenS (upd_ctx t (\<lambda>c. c\<lparr>ctx_affinity := aff\<rparr>))
            (thenS (if thread_cap \<noteq> - 1 then obj_put t else ret ()) (ret 0))))"

definition sys_get_affinity :: "u64 \<Rightarrow> int kop" where
  "sys_get_affinity thread_cap =
     bindS (if thread_cap = - 1 then bindS current_thread (\<lambda>t. thenS (bug_on (t = 0)) (ret t))
            else bindS current_cap_group (\<lambda>cur. obj_get cur (to_int thread_cap) TYPE_THREAD)) (\<lambda>t.
       if t = 0 then ret (- ECAPBILITY)
       else
         bindS (ctx_of t) (\<lambda>c.
         thenS (if thread_cap \<noteq> - 1 then obj_put t else ret ()) (ret (ctx_affinity c))))"

end
