(* ===== verification/Ipc.thy ===== *)
theory Ipc
  imports Thread_Ops
begin

text \<open>Inter-process communication by thread migration: \<^verbatim>\<open>kernel/ipc/connection.c\<close>. The thread
  that serves a connection is a \<^verbatim>\<open>struct thread\<close> of its own, not a kernel object.\<close>

section \<open>Connections\<close>

definition SIZEOF_IPC_CONFIG :: u64 where "SIZEOF_IPC_CONFIG = 56"
definition SIZEOF_CONNECTION :: u64 where "SIZEOF_CONNECTION = 80"
definition IPC_MAX_CONN_PER_SERVER :: u64 where "IPC_MAX_CONN_PER_SERVER = 32"
definition MAX_CAP_TRANSFER :: u64 where "MAX_CAP_TRANSFER = 8"

definition IS_ALIGNED :: "u64 \<Rightarrow> u64 \<Rightarrow> bool" where
  "IS_ALIGNED x a = (x AND (a - 1) = 0)"

definition upd_conn :: "u64 \<Rightarrow> (ipc_connection \<Rightarrow> ipc_connection) \<Rightarrow> unit kop" where
  "upd_conn c f = bindS (readS connections c) (\<lambda>x. modify (\<lambda>k. k\<lparr>connections := (connections k)(c \<mapsto> f x)\<rparr>))"

definition put_ipc_config :: "u64 \<Rightarrow> server_ipc_config \<Rightarrow> unit kop" where
  "put_ipc_config p x = modify (\<lambda>k. k\<lparr>ipc_configs := (ipc_configs k)(p \<mapsto> x)\<rparr>)"

text \<open>The new thread; the fields \<^verbatim>\<open>prev_thread\<close> and \<^verbatim>\<open>active_conn\<close> are not written.\<close>

definition put_server_thread :: "u64 \<Rightarrow> u64 \<Rightarrow> u64 \<Rightarrow> u64 \<Rightarrow> u64 \<Rightarrow> unit kop" where
  "put_server_thread new ctx vs g cfg =
     modify (\<lambda>k. k\<lparr>threads := (threads k)(new \<mapsto>
       \<lparr>thread_ctx_ptr = ctx, prev_thread = junk k (new + 56), thread_vmspace = vs,
        thread_cap_group = g, general_ipc_config = cfg, active_conn = junk k (new + 88)\<rparr>)\<rparr>)"

definition create_server_thread :: "u64 \<Rightarrow> u64 kop" where
  "create_server_thread src =
     bindS (liftM (kmalloc SIZEOF_THREAD)) (\<lambda>new.
     thenS (bug_on (new = 0))
     (bindS (readS threads src) (\<lambda>s.
      bindS (obj_get (thread_cap_group s) VMSPACE_OBJ_ID TYPE_VMSPACE) (\<lambda>vs.
      thenS (bug_on (vs = 0))
      (bindS (create_thread_ctx TYPE_SHADOW) (\<lambda>ctx.
         if ctx = 0 then thenS (obj_put vs) (thenS (liftU (kfree new)) (ret 0))
         else
           bindS (ctx_of src) (\<lambda>sc.
           bindS (readS thread_ctxs ctx) (\<lambda>c.
           thenS (modify (\<lambda>k. k\<lparr>thread_ctxs := (thread_ctxs k)(ctx \<mapsto>
                    c\<lparr>ec_reg := ec_reg sc, ctx_prio := MAX_PRIO - 1, ctx_state := TS_INIT,
                      ctx_affinity := NO_AFF, ctx_type := TYPE_SHADOW\<rparr>)\<rparr>))
           (bindS (liftM (kzalloc SIZEOF_IPC_CONFIG)) (\<lambda>cfg.
            thenS (bug_on (cfg = 0))
            (bindS (readS ipc_configs (general_ipc_config s)) (\<lambda>scfg.
             thenS (put_ipc_config cfg \<lparr>cfg_callback = cfg_callback scfg, max_client = 0, conn_bmp = [],
                      conn_bmp_ptr = 0, vm_config = vm_config scfg\<rparr>)
             (thenS (put_server_thread new ctx vs (thread_cap_group s) cfg)
             (thenS (obj_put vs) (ret new)))))))))))))))"

text \<open>\<^verbatim>\<open>create_connection\<close>: the return value and the size of the buffer as the caller's
  \<^verbatim>\<open>client_vm_config\<close> holds it in the end.\<close>

definition create_connection :: "u64 \<Rightarrow> u64 \<Rightarrow> ipc_vm_config \<Rightarrow> (int \<times> u64) kop" where
  "create_connection source target client =
     thenS (bug_on (source = 0))
     (thenS (bug_on (target = 0))
     (bindS (obj_alloc TYPE_CONNECTION SIZEOF_CONNECTION) (\<lambda>conn.
        if conn = 0 then ret (- ENOMEM, buf_size client)
        else
          bindS (create_server_thread target) (\<lambda>server.
          thenS (upd_conn conn (\<lambda>c. c\<lparr>conn_target := server\<rparr>))
          (if server = 0 then ret (- ENOMEM, buf_size client)
           else
             bindS (readS threads target) (\<lambda>tt.
             bindS (readS ipc_configs (general_ipc_config tt)) (\<lambda>cfg.
             bindS (liftR (find_next_zero_bit (conn_bmp cfg) (unat (max_client cfg)) 0)) (\<lambda>conn_idx.
             bindS (liftR (bmp_set_bit conn_idx (conn_bmp cfg))) (\<lambda>bmp.
             thenS (put_ipc_config (general_ipc_config tt) (cfg\<lparr>conn_bmp := bmp\<rparr>))
             (let vmc = vm_config cfg;
                  server_stack_base = stack_base_addr vmc + of_nat conn_idx * stack_size vmc in
              bindS (liftM (kmalloc SIZEOF_PMO)) (\<lambda>stack_pmo.
                if stack_pmo = 0 then thenS (obj_free conn) (ret (- ENOMEM, buf_size client))
                else
                  thenS (pmo_init stack_pmo PMO_DATA (stack_size vmc) 0)
                  (thenS (vmspace_map_range (thread_vmspace tt) server_stack_base (stack_size vmc)
                            (VMR_READ OR VMR_WRITE) stack_pmo)
                  (thenS (upd_conn conn (\<lambda>c. c\<lparr>server_stack_top := server_stack_base + stack_size vmc\<rparr>))
                  (let server_buf_base = buf_base_addr vmc + of_nat conn_idx * buf_size vmc;
                       client_buf_base = buf_base_addr client;
                       sz = min (buf_size vmc) (buf_size client) in
                   bindS (liftM (kmalloc SIZEOF_PMO)) (\<lambda>buf_pmo.
                     if buf_pmo = 0 then
                       thenS (liftU (kfree stack_pmo)) (thenS (obj_free conn) (ret (- ENOMEM, sz)))
                     else
                       thenS (pmo_init buf_pmo PMO_DATA sz 0)
                       (bindS (readS threads source) (\<lambda>st.
                        thenS (vmspace_map_range (thread_vmspace st) client_buf_base sz
                                 (VMR_READ OR VMR_WRITE) buf_pmo)
                        (thenS (vmspace_map_range (thread_vmspace tt) server_buf_base sz
                                 (VMR_READ OR VMR_WRITE) buf_pmo)
                        (thenS (upd_conn conn (\<lambda>c. c\<lparr>client_user_addr := client_buf_base,
                                                     server_user_addr := server_buf_base\<rparr>))
                        (bindS current_cap_group (\<lambda>cur.
                         bindS (cap_alloc cur conn 0) (\<lambda>conn_cap.
                           if conn_cap < 0 then thenS (obj_free conn) (ret (conn_cap, sz))
                           else
                             bindS (cap_copy cur (thread_cap_group tt) conn_cap) (\<lambda>server_cap.
                               if server_cap < 0 then thenS (obj_free conn) (ret (server_cap, sz))
                               else
                                 thenS (upd_conn conn (\<lambda>c. c\<lparr>server_conn_cap := word_of_int server_cap\<rparr>))
                                   (ret (conn_cap, sz)))))))))))))))))))))))))"

section \<open>Migration\<close>

text \<open>The fields of \<^verbatim>\<open>conn\<close> are read again after \<^verbatim>\<open>obj_put\<close>, as in the source.\<close>

definition thread_migrate_to_server :: "u64 \<Rightarrow> u64 \<Rightarrow> 'a ctl kop" where
  "thread_migrate_to_server conn arg =
     bindS (readS connections conn) (\<lambda>c.
     let target = conn_target c in
     bindS (readS threads target) (\<lambda>tt.
     bindS (readS ipc_configs (general_ipc_config tt)) (\<lambda>cfg.
     bindS current_thread (\<lambda>cur.
     thenS (upd_conn conn (\<lambda>c. c\<lparr>conn_source := cur\<rparr>))
     (thenS (upd_ctx cur (\<lambda>c. c\<lparr>ctx_state := TS_WAITING\<rparr>))
     (thenS (upd_thread target (\<lambda>t. t\<lparr>active_conn := conn\<rparr>))
     (thenS (obj_put conn)
     (bindS (readS connections conn) (\<lambda>c.
      thenS (arch_set_thread_stack target (server_stack_top c))
      (thenS (arch_set_thread_next_ip target (cfg_callback cfg))
      (thenS (arch_set_thread_arg0 target arg)
      (bindS current_cap_group (\<lambda>g.
       bindS (readS cap_groups g) (\<lambda>cg.
       thenS (arch_set_thread_arg1 target (pid cg))
       (bindS (ctx_of cur) (\<lambda>cc.
        thenS (upd_ctx target (\<lambda>c. c\<lparr>ctx_sc := ctx_sc cc\<rparr>))
        (thenS (switch_to_thread target) eret_switch)))))))))))))))))"

definition thread_migrate_to_client :: "u64 \<Rightarrow> u64 \<Rightarrow> 'a ctl kop" where
  "thread_migrate_to_client conn ret_value =
     bindS (readS connections conn) (\<lambda>c.
     bindS current_thread (\<lambda>cur.
     thenS (upd_thread cur (\<lambda>t. t\<lparr>active_conn := 0\<rparr>))
     (thenS (arch_set_thread_return (conn_source c) ret_value)
     (thenS (switch_to_thread (conn_source c)) eret_switch))))"

section \<open>Capability transfer\<close>

text \<open>The groups of the two ends of a connection.\<close>

definition conn_groups :: "u64 \<Rightarrow> (u64 \<times> u64) kop" where
  "conn_groups conn =
     bindS (readS connections conn) (\<lambda>c.
     bindS (readS threads (conn_source c)) (\<lambda>s.
     bindS (readS threads (conn_target c)) (\<lambda>t. ret (thread_cap_group s, thread_cap_group t))))"

text \<open>The test \<^verbatim>\<open>dest_cap < 0\<close> on an unsigned variable never holds, so an error number is passed
  on as a capability.\<close>

fun send_loop :: "u64 \<Rightarrow> u64 list \<Rightarrow> u64 list kop" where
  "send_loop conn [] = ret []"
| "send_loop conn (c # cs) =
     bindS (conn_groups conn) (\<lambda>(src, dst).
     bindS (cap_copy src dst (to_int c)) (\<lambda>d.
     bindS (send_loop conn cs) (\<lambda>ds. ret (word_of_int d # ds))))"

text \<open>\<^verbatim>\<open>copy_from_user\<close> and \<^verbatim>\<open>copy_to_user\<close> return 0 whenever they return.\<close>

definition ipc_send_cap :: "u64 \<Rightarrow> int kop" where
  "ipc_send_cap conn =
     bindS (readS connections conn) (\<lambda>c.
     let msg = conn_ipc_msg c in
     bindS (copy_from_user (msg + 8) 1) (\<lambda>ns.
     let n = ns ! 0 in
       if n = 0 then ret 0
       else if n \<ge> MAX_CAP_TRANSFER then ret (- EINVAL)
       else
         bindS (copy_from_user (msg + 24) 1) (\<lambda>offs.
         bindS (liftM (kmalloc (n * 8))) (\<lambda>cap_buf.
           if cap_buf = 0 then ret (- ENOMEM)
           else
             bindS (copy_from_user (msg + offs ! 0) (unat n)) (\<lambda>caps.
             bindS (send_loop conn caps) (\<lambda>ds.
             thenS (copy_to_user (msg + offs ! 0) ds)
             (thenS (liftU (kfree cap_buf)) (ret 0))))))))"

text \<open>\<^verbatim>\<open>server_ipc_msg->cap_slots_offset\<close> is read from user memory in every turn, twice.\<close>

fun send_back_loop :: "u64 \<Rightarrow> u64 \<Rightarrow> nat list \<Rightarrow> unit kop" where
  "send_back_loop conn msg [] = ret ()"
| "send_back_loop conn msg (i # is) =
     bindS (gets (read_word (msg + 24))) (\<lambda>off.
     bindS (copy_from_user (msg + off + 8 * of_nat i) 1) (\<lambda>caps.
     bindS current_cap_group (\<lambda>cur.
     bindS (readS connections conn) (\<lambda>c.
     bindS (readS threads (conn_source c)) (\<lambda>s.
     bindS (cap_copy cur (thread_cap_group s) (to_int (caps ! 0))) (\<lambda>d.
     bindS (gets (read_word (msg + 24))) (\<lambda>off.
     thenS (copy_to_user (msg + off + 8 * of_nat i) [word_of_int d])
       (send_back_loop conn msg is))))))))"

definition ipc_send_cap_to_client :: "u64 \<Rightarrow> u64 \<Rightarrow> unit kop" where
  "ipc_send_cap_to_client conn cap_num =
     (if cap_num = 0 then ret ()
      else
        bindS (readS connections conn) (\<lambda>c.
          send_back_loop conn (conn_ipc_msg c - client_user_addr c + server_user_addr c)
            [0..<unat cap_num]))"

section \<open>System calls\<close>

definition vm_config_of :: "u64 list \<Rightarrow> ipc_vm_config" where
  "vm_config_of ws = \<lparr>stack_base_addr = ws ! 0, stack_size = ws ! 1, buf_base_addr = ws ! 2, buf_size = ws ! 3\<rparr>"

definition buffer_ok :: "ipc_vm_config \<Rightarrow> bool" where
  "buffer_ok v = (is_user_addr_range (buf_base_addr v) (buf_size v)
     \<and> IS_ALIGNED (buf_base_addr v) PAGE_SIZE \<and> IS_ALIGNED (buf_size v) PAGE_SIZE)"

definition stack_ok :: "ipc_vm_config \<Rightarrow> bool" where
  "stack_ok v = (is_user_addr_range (stack_base_addr v) (stack_size v)
     \<and> IS_ALIGNED (stack_base_addr v) PAGE_SIZE \<and> IS_ALIGNED (stack_size v) PAGE_SIZE)"

definition sys_register_server :: "u64 \<Rightarrow> u64 \<Rightarrow> u64 \<Rightarrow> int kop" where
  "sys_register_server callback max_cl vm_config_ptr =
     bindS current_thread (\<lambda>server.
     thenS (bug_on (server = 0))
     (bindS (liftM (kmalloc SIZEOF_IPC_CONFIG)) (\<lambda>cfg.
        if cfg = 0 then ret (- ENOMEM)
        else if max_cl > IPC_MAX_CONN_PER_SERVER then thenS (liftU (kfree cfg)) (ret (- EINVAL))
        else
          let longs = BITS_TO_LONGS (unat max_cl) in
          bindS (liftM (kzalloc (of_nat (longs * 8)))) (\<lambda>bmp.
            if bmp = 0 then thenS (liftU (kfree cfg)) (ret (- ENOMEM))
            else
              bindS (copy_from_user vm_config_ptr 4) (\<lambda>ws.
                if \<not> stack_ok (vm_config_of ws) \<or> \<not> buffer_ok (vm_config_of ws) then
                  thenS (liftU (kfree bmp)) (thenS (liftU (kfree cfg)) (ret (- EINVAL)))
                else
                  thenS (put_ipc_config cfg \<lparr>cfg_callback = callback, max_client = max_cl,
                           conn_bmp = replicate longs 0, conn_bmp_ptr = bmp, vm_config = vm_config_of ws\<rparr>)
                  (thenS (upd_thread server (\<lambda>t. t\<lparr>general_ipc_config := cfg\<rparr>)) (ret 0)))))))"

definition sys_register_client :: "u32 \<Rightarrow> u64 \<Rightarrow> int kop" where
  "sys_register_client server_cap vm_config_ptr =
     bindS current_thread (\<lambda>client.
     bindS (copy_from_user vm_config_ptr 4) (\<lambda>ws.
     let vmc = vm_config_of ws in
       if \<not> buffer_ok vmc then ret (- EINVAL)
       else
         bindS current_cap_group (\<lambda>cur.
         bindS (obj_get cur (sint server_cap) TYPE_THREAD) (\<lambda>server.
           if server = 0 then ret (- ECAPBILITY)
           else
             bindS (readS threads server) (\<lambda>st.
               if general_ipc_config st = 0 then ret (- EIPCRETRY)
               else
                 bindS (create_connection client server vmc) (\<lambda>(conn_cap, sz).
                   if conn_cap < 0 then thenS (obj_put server) (ret conn_cap)
                   else
                     bindS (obj_get cur conn_cap TYPE_CONNECTION) (\<lambda>conn.
                     thenS (if buf_size vmc \<noteq> sz then
                              copy_to_user vm_config_ptr
                                [stack_base_addr vmc, stack_size vmc, buf_base_addr vmc, sz]
                            else ret ())
                     (thenS (obj_put conn)
                     (thenS (obj_put server) (ret conn_cap))))))))))"

definition sys_ipc_return :: "u64 \<Rightarrow> u64 \<Rightarrow> unit ctl kop" where
  "sys_ipc_return retval cap_num =
     bindS current_thread (\<lambda>cur.
     bindS (readS threads cur) (\<lambda>t.
       if active_conn t = 0 then ret (Ret ())
       else
         let conn = active_conn t in
         thenS (if cap_num \<noteq> 0 then ipc_send_cap_to_client conn cap_num else ret ())
         (bindS (readS connections conn) (\<lambda>c.
          thenS (upd_ctx (conn_source c) (\<lambda>x. x\<lparr>ctx_state := TS_INTER\<rparr>))
          (bindS (ctx_of (conn_source c)) (\<lambda>x.
           thenS (set_budget (ctx_sc x) DEFAULT_BUDGET)
             (thread_migrate_to_client conn retval)))))))"

definition sys_ipc_call :: "u32 \<Rightarrow> u64 \<Rightarrow> u64 \<Rightarrow> int ctl kop" where
  "sys_ipc_call conn_cap ipc_msg cap_num =
     bindS current_cap_group (\<lambda>cur.
     bindS (obj_get cur (sint conn_cap) TYPE_CONNECTION) (\<lambda>conn.
       if conn = 0 then ret (Ret (- ECAPBILITY))
       else
         thenS (upd_conn conn (\<lambda>c. c\<lparr>conn_ipc_msg := ipc_msg\<rparr>))
         (thenS (if cap_num > 0 then thenS (ipc_send_cap conn) (ret ()) else ret ())
         (if ipc_msg = 0 then thread_migrate_to_server conn 0
          else
            bindS (readS connections conn) (\<lambda>c.
              thread_migrate_to_server conn (ipc_msg - (client_user_addr c - server_user_addr c)))))))"

end
