(* ===== verification/Irq.thy ===== *)
theory Irq
  imports Ipc Semaphore_Ops
begin

text \<open>Interrupts and the entry of the kernel: the timer (\<^verbatim>\<open>kernel/irq/timer.c\<close>,
  \<^verbatim>\<open>plat/raspi3/irq/timer.c\<close>), inter-processor interrupts (\<^verbatim>\<open>kernel/irq/ipi.c\<close>,
  \<^verbatim>\<open>plat/raspi3/irq/irq.c\<close>), the serial line, the dispatch of exceptions
  (\<^verbatim>\<open>arch/aarch64/irq/irq_entry.c\<close> and \<^verbatim>\<open>irq_entry.S\<close>), the table of system calls
  (\<^verbatim>\<open>kernel/syscall/syscall.c\<close>), and the start of the cores.\<close>

definition upd_hw :: "(hardware \<Rightarrow> hardware) \<Rightarrow> unit kop" where
  "upd_hw f = modify (\<lambda>k. k\<lparr>hw := f (hw k)\<rparr>)"

section \<open>Timer\<close>

definition TICK_MS :: u64 where "TICK_MS = 10"
definition NS_IN_S :: u64 where "NS_IN_S = 1000000000"
definition NS_IN_US :: u64 where "NS_IN_US = 1000"

definition plat_timer_init :: "unit kop" where
  "plat_timer_init =
     bindS (gets cpu) (\<lambda>me.
     thenS (if me = 0 then
              upd_hw (\<lambda>h. h\<lparr>cntp_init := cntpct h, cntp_tval := cntfrq h * TICK_MS div 1000,
                            tick_per_us := cntfrq h div 1000 div 1000\<rparr>)
            else ret ())
       (upd_hw (\<lambda>h. h\<lparr>cntp_tval_el0 := (cntp_tval_el0 h)(me := cntp_tval h),
                      cntp_ctl_el0 := (cntp_ctl_el0 h)(me := 1)\<rparr>)))"

definition timer_init :: "unit kop" where
  "timer_init = plat_timer_init"

definition plat_set_next_timer :: "u64 \<Rightarrow> unit kop" where
  "plat_set_next_timer tick_delta =
     bindS (gets cpu) (\<lambda>me. upd_hw (\<lambda>h. h\<lparr>cntp_tval_el0 := (cntp_tval_el0 h)(me := tick_delta)\<rparr>))"

definition plat_handle_timer_irq :: "u64 \<Rightarrow> unit kop" where
  "plat_handle_timer_irq tick_delta =
     bindS (gets cpu) (\<lambda>me. upd_hw (\<lambda>h. h\<lparr>cntp_tval_el0 := (cntp_tval_el0 h)(me := tick_delta)\<rparr>))"

definition plat_disable_timer :: "unit kop" where
  "plat_disable_timer =
     bindS (gets cpu) (\<lambda>me. upd_hw (\<lambda>h. h\<lparr>cntp_ctl_el0 := (cntp_ctl_el0 h)(me := 0)\<rparr>))"

definition plat_enable_timer :: "unit kop" where
  "plat_enable_timer =
     bindS (gets cpu) (\<lambda>me.
       upd_hw (\<lambda>h. h\<lparr>cntp_tval_el0 := (cntp_tval_el0 h)(me := cntp_tval h),
                     cntp_ctl_el0 := (cntp_ctl_el0 h)(me := 1)\<rparr>))"

definition plat_get_mono_time :: "u64 kop" where
  "plat_get_mono_time = gets (\<lambda>k. (cntpct (hw k) - cntp_init (hw k)) * NS_IN_US div tick_per_us (hw k))"

definition plat_get_current_tick :: "u64 kop" where
  "plat_get_current_tick = gets (\<lambda>k. cntpct (hw k))"

definition get_next_tick_delta :: "u64 kop" where
  "get_next_tick_delta = gets (\<lambda>k. TICK_MS * 1000 * tick_per_us (hw k))"

definition handle_timer_irq :: "unit kop" where
  "handle_timer_irq =
     bindS plat_get_current_tick (\<lambda>current_tick.
     bindS get_next_tick_delta (\<lambda>tick_delta.
     bindS (gets cpu) (\<lambda>me.
     thenS (upd_hw (\<lambda>h. h\<lparr>next_expire := (next_expire h)(me := current_tick + tick_delta)\<rparr>))
     (thenS (plat_handle_timer_irq tick_delta) sched_handle_timer_irq))))"

definition sys_clock_gettime :: "u64 \<Rightarrow> int kop" where
  "sys_clock_gettime ts =
     (if ts = 0 then ret (- 1)
      else
        thenS (copy_from_user ts 2)
        (bindS plat_get_mono_time (\<lambda>mono_ns.
         thenS (copy_to_user ts [mono_ns div NS_IN_S, mono_ns mod NS_IN_S]) (ret 0))))"

section \<open>Inter-processor interrupts\<close>

definition IPI_DATA_ARG_NUM :: nat where "IPI_DATA_ARG_NUM = 7"

definition upd_ipi :: "u32 \<Rightarrow> (ipi_data \<Rightarrow> ipi_data) \<Rightarrow> unit kop" where
  "upd_ipi target f =
     (if unat target < PLAT_CPU_NUM then
        upd_hw (\<lambda>h. h\<lparr>global_ipi_data := (global_ipi_data h)(unat target := f (global_ipi_data h (unat target)))\<rparr>)
      else fault OutOfRange)"

definition init_ipi_data :: "unit kop" where
  "init_ipi_data = each [0..<PLAT_CPU_NUM] (\<lambda>i. upd_ipi (of_nat i) (\<lambda>d. d\<lparr>ipi_start := 0, ipi_finish := 0\<rparr>))"

definition set_ipi_tx_arg :: "u32 \<Rightarrow> u32 \<Rightarrow> u64 \<Rightarrow> unit kop" where
  "set_ipi_tx_arg target_cpu arg_index val =
     (if unat arg_index < IPI_DATA_ARG_NUM
      then upd_ipi target_cpu (\<lambda>d. d\<lparr>ipi_args := (ipi_args d)[unat arg_index := val]\<rparr>)
      else fault OutOfRange)"

definition plat_send_ipi :: "u32 \<Rightarrow> u32 \<Rightarrow> unit kop" where
  "plat_send_ipi c ipi =
     thenS (bug_on (unat c \<ge> PLAT_CPU_NUM))
     (thenS (bug_on (ipi \<ge> 32))
        (upd_hw (\<lambda>h. h\<lparr>core_mbox := (core_mbox h)(unat c := core_mbox h (unat c) OR push_bit (unat ipi) 1)\<rparr>)))"

definition arch_send_ipi :: "u32 \<Rightarrow> u32 \<Rightarrow> unit kop" where
  "arch_send_ipi c ipi = plat_send_ipi c ipi"

definition start_ipi_tx :: "u32 \<Rightarrow> u32 \<Rightarrow> unit kop" where
  "start_ipi_tx target_cpu vector =
     thenS (upd_ipi target_cpu (\<lambda>d. d\<lparr>ipi_vector := vector, ipi_start := 1\<rparr>))
       (arch_send_ipi target_cpu vector)"

text \<open>One turn of the polling loop of \<^verbatim>\<open>wait_finish_ipi_tx\<close>: whether the loop is left.
  \<^verbatim>\<open>handle_ipi_request_to_local_cpu\<close> does nothing on this architecture.\<close>

definition wait_finish_turn :: "u32 \<Rightarrow> bool kop" where
  "wait_finish_turn target_cpu =
     (if unat target_cpu < PLAT_CPU_NUM then
        bindS (gets (\<lambda>k. (cpu k, global_ipi_data (hw k)))) (\<lambda>(me, ipis).
          if ipi_finish (ipis (unat target_cpu)) = 1 then
            thenS (upd_ipi target_cpu (\<lambda>d. d\<lparr>ipi_start := 0, ipi_finish := 0\<rparr>)) (ret True)
          else
            thenS (if ipi_start (ipis me) = 1 then upd_ipi (of_nat me) (\<lambda>d. d\<lparr>ipi_start := 0\<rparr>) else ret ())
              (ret False))
      else fault OutOfRange)"

definition get_ipi_tx_arg :: "u32 \<Rightarrow> u32 \<Rightarrow> u64 kop" where
  "get_ipi_tx_arg target_cpu arg_index =
     (if unat target_cpu < PLAT_CPU_NUM \<and> unat arg_index < IPI_DATA_ARG_NUM
      then gets (\<lambda>k. ipi_args (global_ipi_data (hw k) (unat target_cpu)) ! unat arg_index)
      else fault OutOfRange)"

definition mark_finish_ipi_tx :: "u32 \<Rightarrow> unit kop" where
  "mark_finish_ipi_tx target_cpu = upd_ipi target_cpu (\<lambda>d. d\<lparr>ipi_finish := 1\<rparr>)"

definition handle_ipi :: "nat \<Rightarrow> int kop" where
  "handle_ipi ipi = ret (- 1)"

definition ctzl :: "u64 \<Rightarrow> nat" where
  "ctzl x = (if x = 0 then 64 else length (takeWhile (\<lambda>i. \<not> bit x i) [0..<64]))"

text \<open>\<^verbatim>\<open>1 << ctzl(0)\<close> is a shift by 64, which is undefined.\<close>

definition plat_handle_ipi :: "unit kop" where
  "plat_handle_ipi =
     bindS (gets cpu) (\<lambda>me.
     bindS (gets (\<lambda>k. core_mbox (hw k) me)) (\<lambda>mbox.
     let ipi = ctzl (ucast mbox) in
     if ipi \<ge> 32 then fault OutOfRange
     else
       thenS (upd_hw (\<lambda>h. h\<lparr>core_mbox := (core_mbox h)(me := core_mbox h me AND NOT (push_bit ipi 1))\<rparr>))
       (thenS (handle_ipi ipi) (ret ()))))"

definition INT_SRC_TIMER1 :: u32 where "INT_SRC_TIMER1 = 0x002"
definition INT_SRC_MBOX0 :: u32 where "INT_SRC_MBOX0 = 0x010"

definition plat_handle_irq :: "unit kop" where
  "plat_handle_irq =
     bindS (gets cpu) (\<lambda>me.
     bindS (gets (\<lambda>k. core_irq_source (hw k) me)) (\<lambda>irq_src.
       if irq_src AND INT_SRC_MBOX0 \<noteq> 0 then plat_handle_ipi
       else if irq_src = 0 then fault OutOfRange
       else if push_bit (ctzl (ucast irq_src)) 1 = INT_SRC_TIMER1 then handle_timer_irq
       else ret ()))"

section \<open>Serial line\<close>

text \<open>A receiver that finds no character polls for ever.\<close>

definition uart_send :: "u32 \<Rightarrow> unit kop" where
  "uart_send c = upd_hw (\<lambda>h. h\<lparr>uart_out := uart_out h @ [ucast c]\<rparr>)"

definition uart_recv :: "u32 kop" where
  "uart_recv =
     bindS (gets (\<lambda>k. uart_in (hw k))) (\<lambda>cs.
       case cs of
         [] \<Rightarrow> fault Diverge
       | c # rest \<Rightarrow> thenS (upd_hw (\<lambda>h. h\<lparr>uart_in := rest\<rparr>)) (ret (c AND 0xFF)))"

definition nb_uart_recv :: "u32 kop" where
  "nb_uart_recv =
     bindS (gets (\<lambda>k. uart_in (hw k))) (\<lambda>cs.
       case cs of
         [] \<Rightarrow> ret (- 1)
       | c # rest \<Rightarrow> thenS (upd_hw (\<lambda>h. h\<lparr>uart_in := rest\<rparr>)) (ret (c AND 0xFF)))"

section \<open>Exceptions\<close>

definition SYNC_EL0_64 :: int where "SYNC_EL0_64 = 8"
definition GET_ESR_EL1_EC :: "u64 \<Rightarrow> u64" where "GET_ESR_EL1_EC esr = take_bit 6 (drop_bit 26 esr)"
definition ESR_EL1_EC_WFI_WFE :: u64 where "ESR_EL1_EC_WFI_WFE = 1"
definition ESR_EL1_EC_SVC_64 :: u64 where "ESR_EL1_EC_SVC_64 = 0x15"
definition ESR_EL1_EC_IABT_LEL :: u64 where "ESR_EL1_EC_IABT_LEL = 0x20"
definition ESR_EL1_EC_DABT_LEL :: u64 where "ESR_EL1_EC_DABT_LEL = 0x24"
definition ESR_EL1_EC_DABT_CEL :: u64 where "ESR_EL1_EC_DABT_CEL = 0x25"

definition take_kernel_lock :: "unit kop" where
  "take_kernel_lock =
     bindS (gets (\<lambda>k. big_kernel_lock (hw k))) (\<lambda>l.
     bindS (liftR (lock_kernel l)) (\<lambda>l. upd_hw (\<lambda>h. h\<lparr>big_kernel_lock := l\<rparr>)))"

definition release_kernel_lock :: "unit kop" where
  "release_kernel_lock =
     bindS (gets (\<lambda>k. big_kernel_lock (hw k))) (\<lambda>l.
     bindS (liftR (unlock_kernel l)) (\<lambda>l. upd_hw (\<lambda>h. h\<lparr>big_kernel_lock := l\<rparr>)))"

text \<open>\<^verbatim>\<open>handle_entry_c\<close>: every class that the switch does not return from ends in
  \<^verbatim>\<open>BUG_ON(1)\<close>. \<^verbatim>\<open>do_page_fault\<close> reads the fault address register itself.\<close>

definition handle_entry_c :: "int \<Rightarrow> u64 \<Rightarrow> unit kop" where
  "handle_entry_c type esr =
     thenS (if type \<ge> SYNC_EL0_64 then take_kernel_lock else ret ())
     (let ec = GET_ESR_EL1_EC esr in
      thenS (bug_on (type < SYNC_EL0_64 \<and> ec \<noteq> ESR_EL1_EC_DABT_CEL))
      (if ec = ESR_EL1_EC_WFI_WFE then ret ()
       else if ec = ESR_EL1_EC_IABT_LEL \<or> ec = ESR_EL1_EC_DABT_LEL \<or> ec = ESR_EL1_EC_DABT_CEL then
         bindS (gets (\<lambda>k. far_el1 (hw k))) (\<lambda>far. do_page_fault esr far)
       else fault Bug))"

definition handle_irq :: "int \<Rightarrow> unit ctl kop" where
  "handle_irq type =
     bindS current_thread (\<lambda>cur.
     thenS (if type \<ge> SYNC_EL0_64 then take_kernel_lock
            else bindS (ctx_of cur) (\<lambda>c. if ctx_type c = TYPE_IDLE then take_kernel_lock else ret ()))
     (thenS plat_handle_irq (thenS sched eret_switch)))"

section \<open>System calls\<close>

definition sys_putc :: "u64 \<Rightarrow> unit kop" where
  "sys_putc ch = uart_send (ucast (ucast ch :: 8 word))"

definition sys_getc :: "u32 kop" where
  "sys_getc = uart_recv"

definition sys_get_cpu_id :: "u64 kop" where
  "sys_get_cpu_id = gets (\<lambda>k. of_nat (cpu k))"

definition sys_get_current_tick :: "u64 kop" where
  "sys_get_current_tick = plat_get_current_tick"

definition sys_perf_start :: "unit kop" where
  "sys_perf_start = plat_disable_timer"

definition sys_perf_end :: "unit kop" where
  "sys_perf_end = plat_enable_timer"

text \<open>The value a handler leaves in \<^verbatim>\<open>x0\<close>: an \<^verbatim>\<open>int\<close> in the low half of the register, a handler
  without result 0. Cache maintenance does not change this state.\<close>

definition ret_int :: "int kop \<Rightarrow> u64 ctl kop" where
  "ret_int m = bindS m (\<lambda>r. ret (Ret (ucast (word_of_int r :: u32))))"

definition ret_word :: "u64 kop \<Rightarrow> u64 ctl kop" where
  "ret_word m = bindS m (\<lambda>r. ret (Ret r))"

definition ret_unit :: "'a kop \<Rightarrow> u64 ctl kop" where
  "ret_unit m = thenS m (ret (Ret 0))"

definition ret_ctl :: "('a \<Rightarrow> u64) \<Rightarrow> 'a ctl kop \<Rightarrow> u64 ctl kop" where
  "ret_ctl f m = bindS m (\<lambda>r. case r of Ret x \<Rightarrow> ret (Ret (f x)) | Eret c \<Rightarrow> ret (Eret c))"

definition arg_int :: "u64 \<Rightarrow> int" where "arg_int a = sint (ucast a :: u32)"
definition arg_bool :: "u64 \<Rightarrow> bool" where "arg_bool a = (take_bit 8 a \<noteq> 0)"

definition NR_SYSCALL :: nat where "NR_SYSCALL = 256"

definition syscall_table :: "nat \<Rightarrow> (nat \<Rightarrow> u64) \<Rightarrow> u64 ctl kop" where
  "syscall_table nr a =
     (if nr = 0 then ret_unit (sys_putc (a 0))
      else if nr = 1 then ret_word (bindS sys_getc (\<lambda>c. ret (ucast c)))
      else if nr = 10 then ret_int (sys_create_pmo (a 0) (a 1))
      else if nr = 11 then ret_int (sys_create_device_pmo (a 0) (a 1))
      else if nr = 12 then ret_int (sys_map_pmo (a 0) (a 1) (a 2) (a 3) (a 4))
      else if nr = 13 then ret_int (sys_unmap_pmo (a 0) (a 1) (a 2))
      else if nr = 14 then ret_int (sys_write_pmo (a 0) (a 1) (a 2) (a 3))
      else if nr = 15 then ret_int (sys_read_pmo (a 0) (a 1) (a 2) (a 3))
      else if nr = 20 then ret_int (sys_create_pmos (a 0) (a 1))
      else if nr = 21 then ret_int (sys_map_pmos (a 0) (a 1) (a 2))
      else if nr = 30 then ret_int (sys_get_pmo_paddr (a 0) (a 1))
      else if nr = 31 then ret_int (sys_get_phys_addr (a 0) (a 1))
      else if nr = 60 then ret_int (sys_cap_copy_to (a 0) (a 1))
      else if nr = 61 then ret_int (sys_cap_copy_from (a 0) (a 1))
      else if nr = 62 then ret_int (sys_transfer_caps (a 0) (a 1) (arg_int (a 2)) (a 3))
      else if nr = 80 then ret_int (sys_create_cap_group (a 0) (a 1) (a 2) (a 3))
      else if nr = 82 then ret_int (sys_create_thread (a 0))
      else if nr = 83 then ret_ctl (\<lambda>_. 0) sys_thread_exit
      else if nr = 100 then ret_ctl (\<lambda>_. 0) sys_yield
      else if nr = 101 then ret_int (sys_set_affinity (a 0) (arg_int (a 1)))
      else if nr = 102 then ret_int (sys_get_affinity (a 0))
      else if nr = 103 then ret_word sys_get_cpu_id
      else if nr = 120 then ret_word (bindS (sys_register_server (a 0) (a 1) (a 2)) (\<lambda>r. ret (word_of_int r)))
      else if nr = 121 then ret_int (sys_register_client (ucast (a 0)) (a 1))
      else if nr = 122 then ret_ctl word_of_int (sys_ipc_call (ucast (a 0)) (a 1) (a 2))
      else if nr = 123 then ret_ctl (\<lambda>_. 0) (sys_ipc_return (a 0) (a 1))
      else if nr = 180 then ret_int (ret 0)
      else if nr = 185 then ret_word sys_get_current_tick
      else if nr = 200 then ret_int (sys_clock_gettime (a 1))
      else if nr = 210 then ret_word (sys_handle_brk (a 0))
      else if nr = 211 then
        ret_word (sys_handle_mmap (a 0) (a 1) (ucast (a 2)) (ucast (a 3)) (arg_int (a 4)) (a 5))
      else if nr = 212 then ret_int (sys_handle_munmap (a 0) (a 1))
      else if nr = 221 then ret_unit sys_top
      else if nr = 222 then ret_word sys_get_free_mem_size
      else if nr = 230 then ret_unit sys_perf_start
      else if nr = 231 then ret_unit sys_perf_end
      else if nr = 250 then ret_int sys_create_sem
      else if nr = 251 then ret_ctl (\<lambda>r. ucast (word_of_int r :: u32)) (sys_wait_sem (ucast (a 0)) (arg_bool (a 1)))
      else if nr = 252 then ret_int (sys_signal_sem (ucast (a 0)))
      else fault Bug)"

text \<open>\<^verbatim>\<open>el0_syscall\<close>: the saved registers of the calling thread hold the arguments and, in
  \<^verbatim>\<open>x8\<close>, the number, which is not compared with the size of the table. A call that returns stores
  its result in the saved \<^verbatim>\<open>x0\<close>; both ways out release the lock.\<close>

definition el0_syscall :: "u64 ctl kop" where
  "el0_syscall =
     thenS take_kernel_lock
     (bindS current_thread (\<lambda>cur.
      bindS (ctx_of cur) (\<lambda>c.
        let nr = unat (ucast (ec_reg c 8) :: u32) in
        if nr \<ge> NR_SYSCALL then fault OutOfRange
        else
          bindS (syscall_table nr (ec_reg c)) (\<lambda>r.
          thenS (case r of Ret x \<Rightarrow> set_reg cur X0 x | Eret _ \<Rightarrow> ret ())
          (thenS release_kernel_lock (ret r))))))"

definition sync_el0_64 :: "u64 \<Rightarrow> u64 ctl kop" where
  "sync_el0_64 esr =
     (if drop_bit 26 esr = ESR_EL1_EC_SVC_64 then el0_syscall
      else thenS (handle_entry_c SYNC_EL0_64 esr) (thenS release_kernel_lock (ret (Ret 0))))"

section \<open>Start\<close>

text \<open>\<^verbatim>\<open>uart_init\<close> ends with the escape sequence that clears the screen.\<close>

definition uart_init :: "unit kop" where
  "uart_init = each [12, 27, 91, 50, 74] uart_send"

text \<open>The wait for a core ends when that core has set its status.\<close>

definition enable_smp_cores :: "paddr \<Rightarrow> unit kop" where
  "enable_smp_cores boot_flag =
     bindS (gets cpu) (\<lambda>me.
     thenS (upd_hw (\<lambda>h. h\<lparr>cpu_running := (cpu_running h)(me := True)\<rparr>))
     (thenS (each [0..<PLAT_CPU_NUM] (\<lambda>i.
        thenS (modify (write_word (phys_to_virt boot_flag + 8 * of_nat i) 1))
          (upd_hw (\<lambda>h. h\<lparr>cpu_running := (cpu_running h)(i := True)\<rparr>))))
        init_ipi_data))"

definition boot_mm :: "paddr \<Rightarrow> u64 \<Rightarrow> unit kop" where
  "boot_mm img_end past =
     bindS (gets (\<lambda>k. mem (mm k))) (\<lambda>contents.
     bindS (liftR (mm_init img_end past contents)) (\<lambda>m. modify (\<lambda>k. k\<lparr>mm := m\<rparr>)))"

definition main :: "paddr \<Rightarrow> u64 \<Rightarrow> u64 \<Rightarrow> 8 word list \<Rightarrow> 8 word list \<Rightarrow> paddr \<Rightarrow> unit ctl kop" where
  "main img_end past idle_routine root_name bin boot_flag =
     thenS (upd_hw (\<lambda>h. h\<lparr>big_kernel_lock := kernel_lock_init (big_kernel_lock h)\<rparr>))
     (thenS uart_init
     (thenS (boot_mm img_end past)
     (thenS timer_init
     (thenS (sched_init idle_routine)
     (thenS (enable_smp_cores boot_flag)
     (thenS take_kernel_lock
     (thenS (create_root_thread root_name bin)
     (thenS sched eret_switch))))))))"

definition secondary_start :: "unit ctl kop" where
  "secondary_start =
     bindS (gets cpu) (\<lambda>me.
     thenS (upd_hw (\<lambda>h. h\<lparr>cpu_running := (cpu_running h)(me := True)\<rparr>))
     (thenS timer_init (thenS take_kernel_lock (thenS sched eret_switch))))"

end
