(* ===== verification/Libc_String.thy ===== *)
theory Libc_String
  imports Op_Monad "HOL-Library.List_Lexorder"
begin

text \<open>The string functions of \<^verbatim>\<open>libchcore/src/libc/string.c\<close>. A pointer to characters is the list
  of the bytes from there to the end of the object it points into, so that an access past the end of
  the object is \<open>OutOfRange\<close>; a destination is returned updated. Source and destination are different
  objects. \<^verbatim>\<open>char\<close> is unsigned on AArch64. The lemmas relate each loop to the list operation
  it computes.\<close>

type_synonym u8 = "8 word"

section \<open>Bytes of an object\<close>

definition get_byte :: "u8 list \<Rightarrow> nat \<Rightarrow> u8 res" where
  "get_byte s i = (if i < length s then Inr (s ! i) else Inl OutOfRange)"

definition put_byte :: "nat \<Rightarrow> u8 \<Rightarrow> u8 list \<Rightarrow> u8 list res" where
  "put_byte i c d = (if i < length d then Inr (d[i := c]) else Inl OutOfRange)"

text \<open>Running an operation on the destination \<open>p + i\<close>.\<close>

definition into :: "nat \<Rightarrow> (u8 list \<Rightarrow> u8 list res) \<Rightarrow> u8 list \<Rightarrow> u8 list res" where
  "into i f d = (if i \<le> length d then bindR (f (drop i d)) (\<lambda>t. Inr (take i d @ t)) else Inl OutOfRange)"

text \<open>A string literal: its characters and the terminating NUL.\<close>

definition lit :: "string \<Rightarrow> u8 list" where
  "lit s = map of_char s @ [0]"

section \<open>The functions\<close>

definition memset :: "u8 list \<Rightarrow> u8 \<Rightarrow> nat \<Rightarrow> u8 list res" where
  "memset dest c n = for_upto n (\<lambda>i d. put_byte i c d) dest"

definition memcpy :: "u8 list \<Rightarrow> u8 list \<Rightarrow> nat \<Rightarrow> u8 list res" where
  "memcpy dest src n = for_upto n (\<lambda>i d. bindR (get_byte src i) (\<lambda>c. put_byte i c d)) dest"

fun memcmp :: "u8 list \<Rightarrow> u8 list \<Rightarrow> nat \<Rightarrow> int res" where
  "memcmp s1 s2 0 = Inr 0"
| "memcmp (a # s1) (b # s2) (Suc n) = (if a \<noteq> b then Inr (uint a - uint b) else memcmp s1 s2 n)"
| "memcmp s1 s2 (Suc n) = Inl OutOfRange"

fun strcpy :: "u8 list \<Rightarrow> u8 list \<Rightarrow> u8 list res" where
  "strcpy (d # dest) (c # src) =
     (if c = 0 then Inr (0 # dest) else bindR (strcpy dest src) (\<lambda>r. Inr (c # r)))"
| "strcpy dest src = Inl OutOfRange"

fun strncpy :: "u8 list \<Rightarrow> u8 list \<Rightarrow> nat \<Rightarrow> u8 list res" where
  "strncpy dest src 0 = Inr dest"
| "strncpy (d # dest) (c # src) (Suc n) =
     (if c = 0 then memset (d # dest) 0 (Suc n) else bindR (strncpy dest src n) (\<lambda>r. Inr (c # r)))"
| "strncpy dest src (Suc n) = Inl OutOfRange"

fun strcmp :: "u8 list \<Rightarrow> u8 list \<Rightarrow> int res" where
  "strcmp (a # s1) (b # s2) = (if a \<noteq> 0 \<and> a = b then strcmp s1 s2 else Inr (uint a - uint b))"
| "strcmp s1 s2 = Inl OutOfRange"

fun strncmp :: "u8 list \<Rightarrow> u8 list \<Rightarrow> nat \<Rightarrow> int res" where
  "strncmp s1 s2 0 = Inr 0"
| "strncmp (a # s1) (b # s2) (Suc n) =
     (if a \<noteq> 0 \<and> a = b then strncmp s1 s2 n else Inr (uint a - uint b))"
| "strncmp s1 s2 (Suc n) = Inl OutOfRange"

fun strlen :: "u8 list \<Rightarrow> nat res" where
  "strlen [] = Inl OutOfRange"
| "strlen (c # s) = (if c = 0 then Inr 0 else bindR (strlen s) (\<lambda>n. Inr (Suc n)))"

text \<open>The result of \<^verbatim>\<open>strstr\<close> is the offset of the match in the haystack.\<close>

fun strstr_from :: "nat \<Rightarrow> u8 list \<Rightarrow> u8 list \<Rightarrow> nat \<Rightarrow> nat option res" where
  "strstr_from i [] needle needle_len = Inl OutOfRange"
| "strstr_from i (c # s) needle needle_len =
     (if c = 0 then Inr None
      else bindR (strncmp (c # s) needle needle_len) (\<lambda>r.
        if r = 0 then Inr (Some i) else strstr_from (Suc i) s needle needle_len))"

definition strstr :: "u8 list \<Rightarrow> u8 list \<Rightarrow> nat option res" where
  "strstr haystack needle = bindR (strlen needle) (\<lambda>n. strstr_from 0 haystack needle n)"

definition strcat :: "u8 list \<Rightarrow> u8 list \<Rightarrow> u8 list res" where
  "strcat dest src = bindR (strlen dest) (\<lambda>dest_len. into dest_len (\<lambda>d. strcpy d src) dest)"

fun copy_upto :: "u8 list \<Rightarrow> u8 list \<Rightarrow> nat \<Rightarrow> u8 list res" where
  "copy_upto [] src n = Inl OutOfRange"
| "copy_upto (d # dest) src 0 = Inr (0 # dest)"
| "copy_upto (d # dest) [] (Suc n) = Inl OutOfRange"
| "copy_upto (d # dest) (c # src) (Suc n) =
     (if c = 0 then Inr (0 # dest) else bindR (copy_upto dest src n) (\<lambda>r. Inr (c # r)))"

definition strncat :: "u8 list \<Rightarrow> u8 list \<Rightarrow> nat \<Rightarrow> u8 list res" where
  "strncat dest src n = bindR (strlen dest) (\<lambda>dest_len. into dest_len (\<lambda>d. copy_upto d src n) dest)"

section \<open>What they compute\<close>

text \<open>The string at a pointer: the bytes before the first NUL.\<close>

definition cstr :: "u8 list \<Rightarrow> u8 list" where
  "cstr s = takeWhile (\<lambda>c. c \<noteq> 0) s"

lemma cstr_simps [simp]: "cstr [] = []" "cstr (0 # s) = []" "c \<noteq> 0 \<Longrightarrow> cstr (c # s) = c # cstr s"
  by (simp_all add: cstr_def)

lemma cstr_app [simp]: "0 \<notin> set s \<Longrightarrow> cstr (s @ 0 # t) = s"
  by (induction s) auto

lemma memset_fill:
  assumes "n \<le> length dest"
  shows "memset dest c n = Inr (replicate n c @ drop n dest)"
  using assms
proof (induction n)
  case (Suc n)
  moreover have "put_byte n c (replicate n c @ drop n dest) = Inr (replicate n c @ c # drop (Suc n) dest)"
    using Suc.prems by (simp add: put_byte_def list_update_append Cons_nth_drop_Suc [symmetric])
  ultimately show ?case by (simp add: memset_def replicate_append_same [symmetric])
qed (simp add: memset_def)

lemma memcpy_copy:
  assumes "n \<le> length dest" "n \<le> length src"
  shows "memcpy dest src n = Inr (take n src @ drop n dest)"
  using assms
proof (induction n)
  case (Suc n)
  have "put_byte n (src ! n) (take n src @ drop n dest) = Inr (take (Suc n) src @ drop (Suc n) dest)"
    using Suc.prems
    by (simp add: put_byte_def list_update_append Cons_nth_drop_Suc [symmetric] take_Suc_conv_app_nth)
  then show ?case using Suc by (simp add: memcpy_def get_byte_def)
qed (simp add: memcpy_def)

lemma strlen_cstr: "0 \<in> set s \<Longrightarrow> strlen s = Inr (length (cstr s))"
  by (induction s) auto

lemma strcpy_copy:
  "0 \<in> set src \<Longrightarrow> length (cstr src) < length dest \<Longrightarrow>
     strcpy dest src = Inr (cstr src @ 0 # drop (Suc (length (cstr src))) dest)"
  by (induction dest src rule: strcpy.induct) auto

lemma byte_order:
  "uint (a :: u8) = uint b \<longleftrightarrow> a = b" "uint (a :: u8) < uint b \<longleftrightarrow> a < b"
  "uint (a :: u8) = 0 \<longleftrightarrow> a = 0" "0 < uint (a :: u8) \<longleftrightarrow> a \<noteq> 0" "uint a - uint b < 0 \<longleftrightarrow> a < b"
  using uint_nonnegative [of a] by (simp_all add: word_less_def word_uint_eq_iff order.order_iff_strict) linarith?

lemma strncmp_zero_iff:
  "0 \<in> set s1 \<Longrightarrow> 0 \<in> set s2 \<Longrightarrow>
     \<exists>r. strncmp s1 s2 n = Inr r \<and> (r = 0 \<longleftrightarrow> take n (cstr s1) = take n (cstr s2))"
proof (induction s1 s2 n rule: strncmp.induct)
  case (2 a s1 b s2 n)
  show ?case
  proof (cases "a \<noteq> 0 \<and> a = b")
    case True
    then show ?thesis using 2 by auto
  next
    case False
    then show ?thesis by (cases "a = 0"; cases "b = 0") (auto simp: byte_order)
  qed
qed auto

text \<open>The sign of the result of \<^verbatim>\<open>strcmp\<close> is the lexicographic order of the two strings.\<close>

lemma strcmp_order:
  "0 \<in> set s1 \<Longrightarrow> 0 \<in> set s2 \<Longrightarrow>
     \<exists>r. strcmp s1 s2 = Inr r \<and> (r = 0 \<longleftrightarrow> cstr s1 = cstr s2) \<and> (r < 0 \<longleftrightarrow> cstr s1 < cstr s2)"
proof (induction s1 s2 rule: strcmp.induct)
  case (1 a s1 b s2)
  show ?case
  proof (cases "a \<noteq> 0 \<and> a = b")
    case True
    then show ?thesis using 1 by auto
  next
    case False
    have "0 < b" if "b \<noteq> 0" using that by (simp add: word_gt_0)
    then show ?thesis using False by (cases "a = 0"; cases "b = 0") (auto simp: byte_order)
  qed
qed auto

end
