(* ===== verification/User_Heap.thy ===== *)
theory User_Heap
  imports Libc_String
begin

text \<open>The allocator of \<^verbatim>\<open>libchcore/src/libc/malloc.c\<close>: an arena of 50 MB at a fixed address,
  handed out from its start and never reused. The state of a user process extends \<open>uheap\<close>; what the
  kernel answers when the arena is created and mapped is part of it. A structure that a server
  allocates lives in a heap of its type, keyed by the address \<^verbatim>\<open>malloc\<close> returned; the arena is
  a fresh anonymous object, so its bytes are zero until written.\<close>

record uheap =
  malloc_header :: u64
  pmo_create_ret :: int
  pmo_map_ret :: int

type_synonym ('x, 'a) uop = "('x uheap_scheme, 'a) sop"

definition MALLOC_SZ :: u64 where "MALLOC_SZ = 50 * 1024 * 1024"
definition MAP_VA :: u64 where "MAP_VA = 0x1000000"

definition malloc :: "u64 \<Rightarrow> ('x, u64) uop" where
  "malloc sz =
     bindS (gets malloc_header) (\<lambda>header.
     thenS (bug_on (header + sz > MALLOC_SZ))
     (thenS
       (if header = 0 then
          bindS (gets pmo_create_ret) (\<lambda>pmo_cap.
          thenS (bug_on (pmo_cap < 0))
          (bindS (gets pmo_map_ret) (\<lambda>r. bug_on (r < 0))))
        else ret ())
     (thenS (modify (\<lambda>s. s\<lparr>malloc_header := header + sz\<rparr>))
       (ret (MAP_VA + header)))))"

definition free :: "u64 \<Rightarrow> ('x, unit) uop" where
  "free ptr = ret ()"

text \<open>The bytes that \<^verbatim>\<open>calloc\<close> clears are those of the fresh block: its caller enters a
  cleared structure in the heap of its type.\<close>

definition calloc :: "u64 \<Rightarrow> u64 \<Rightarrow> ('x, u64) uop" where
  "calloc nmemb sz = malloc (nmemb * sz)"

section \<open>Fresh blocks\<close>

text \<open>The process can still allocate \<open>n\<close> bytes.\<close>

definition has_room :: "nat \<Rightarrow> 'x uheap_scheme \<Rightarrow> bool" where
  "has_room n s \<longleftrightarrow> unat (malloc_header s) + n \<le> 50 * 1024 * 1024 \<and> 0 \<le> pmo_create_ret s \<and> 0 \<le> pmo_map_ret s"

text \<open>The address below which every block lies.\<close>

definition brk :: "'x uheap_scheme \<Rightarrow> nat" where
  "brk s = unat MAP_VA + unat (malloc_header s)"

lemma malloc_fresh:
  assumes "has_room (unat sz) s"
  shows "malloc sz s = Inr (MAP_VA + malloc_header s, s\<lparr>malloc_header := malloc_header s + sz\<rparr>)"
    and "unat (MAP_VA + malloc_header s) = brk s" and "MAP_VA + malloc_header s \<noteq> 0"
    and "brk (s\<lparr>malloc_header := malloc_header s + sz\<rparr>) = brk s + unat sz"
proof -
  have le: "unat (malloc_header s) + unat sz \<le> 52428800" using assms by (simp add: has_room_def)
  then have sum: "unat (malloc_header s + sz) = unat (malloc_header s) + unat sz"
    by (subst unat_add_lem [THEN iffD1]) simp_all
  have "\<not> malloc_header s + sz > MALLOC_SZ" using le sum by (simp add: MALLOC_SZ_def word_less_nat_alt)
  then show "malloc sz s = Inr (MAP_VA + malloc_header s, s\<lparr>malloc_header := malloc_header s + sz\<rparr>)"
    using assms by (simp add: malloc_def has_room_def bindS_simp thenS_simp)
  show a: "unat (MAP_VA + malloc_header s) = brk s"
    using le by (subst unat_add_lem [THEN iffD1]) (simp_all add: brk_def MAP_VA_def)
  then show "MAP_VA + malloc_header s \<noteq> 0" by (auto simp: brk_def MAP_VA_def)
  show "brk (s\<lparr>malloc_header := malloc_header s + sz\<rparr>) = brk s + unat sz" using sum by (simp add: brk_def)
qed

lemma has_room_mono: "has_room n s \<Longrightarrow> m \<le> n \<Longrightarrow> has_room m s"
  by (simp add: has_room_def)

lemma has_room_after:
  assumes "has_room (n + m) s" "unat sz = n"
  shows "has_room m (s\<lparr>malloc_header := malloc_header s + sz\<rparr>)"
proof -
  have "unat (malloc_header s + sz) = unat (malloc_header s) + n"
    using assms by (subst unat_add_lem [THEN iffD1]) (simp_all add: has_room_def)
  then show ?thesis using assms by (simp add: has_room_def)
qed

end
