(* ===== verification/Idman.thy ===== *)
theory Idman
  imports User_Heap Bitops Alloc_Spec
begin

text \<open>The identifier manager of \<^verbatim>\<open>libchcore/include/chcore/internal/idman.h\<close>: a bit map of used
  identifiers in \<open>[min_id, max_id)\<close>, searched from the slot of the last release. The manager
  interprets the allocator contract: an identifier is handed out at most once until it is released,
  and one is handed out whenever one is left.\<close>

record id_manager =
  min_id :: int
  max_id :: int
  curr_slot :: nat
  bitmap_ptr :: u64
  bitmap :: "u64 list"
  nr_slots :: nat

definition find_first_zero :: "u64 \<Rightarrow> nat" where
  "find_first_zero slot = (case find (\<lambda>i. get_bit_in_slot slot i = 0) [0..<64] of Some i \<Rightarrow> i | None \<Rightarrow> 64)"

text \<open>The loop of \<^verbatim>\<open>alloc_id\<close> with \<open>n\<close> slots left to try.\<close>

primrec alloc_id_loop :: "nat \<Rightarrow> id_manager \<Rightarrow> (int \<times> id_manager) res" where
  "alloc_id_loop 0 m = Inr (- EINVAL, m)"
| "alloc_id_loop (Suc n) m =
     (let cur = (if curr_slot m \<ge> nr_slots m then 0 else curr_slot m) in
      if cur < length (bitmap m) then
        (let b = find_first_zero (bitmap m ! cur); i = int cur * 64 + int b in
         if b = 64 \<or> i \<ge> max_id m then alloc_id_loop n (m\<lparr>curr_slot := cur + 1\<rparr>)
         else Inr (i, m\<lparr>curr_slot := cur, bitmap := (bitmap m)[cur := bitmap m ! cur OR push_bit b 1]\<rparr>))
      else Inl OutOfRange)"

definition alloc_id :: "id_manager \<Rightarrow> (int \<times> id_manager) res" where
  "alloc_id m = alloc_id_loop (nr_slots m + 1) m"

definition id_manager_initialized :: "id_manager \<Rightarrow> bool" where
  "id_manager_initialized m \<longleftrightarrow> bitmap_ptr m \<noteq> 0"

text \<open>The maximum is not negative. \<^verbatim>\<open>malloc\<close> does not return NULL.\<close>

definition init_id_manager :: "id_manager \<Rightarrow> int \<Rightarrow> int \<Rightarrow> ('x, int \<times> id_manager) uop" where
  "init_id_manager m mx mn =
     (let sz = nat ((mx + 63) div 64) in
      if mn < 0 then ret (- EINVAL, m)
      else
        bindS (malloc (of_nat sz * 8)) (\<lambda>p.
          if p = 0 then ret (- EINVAL, m\<lparr>min_id := mn, max_id := mx, curr_slot := 0, bitmap_ptr := p\<rparr>)
          else
            bindS (liftR (for_upto (nat mn) (\<lambda>_ m. bindR (alloc_id m) (\<lambda>(_, m). Inr m))
              (m\<lparr>min_id := mn, max_id := mx, curr_slot := 0, bitmap_ptr := p,
                 bitmap := replicate sz 0, nr_slots := sz\<rparr>))) (\<lambda>m. ret (0, m))))"

definition free_id :: "int \<Rightarrow> id_manager \<Rightarrow> (int \<times> id_manager) res" where
  "free_id i m =
     BUG_ON (\<not> (i \<ge> min_id m \<and> i < max_id m))
       (let idx = nat i div 64; b = nat i mod 64 in
        if idx < length (bitmap m) then
          if get_bit_in_slot (bitmap m ! idx) b = 0 then Inr (- ENOENT, m)
          else Inr (0, m\<lparr>bitmap := (bitmap m)[idx := bitmap m ! idx AND NOT (push_bit b 1)], curr_slot := idx\<rparr>)
        else Inl OutOfRange)"

definition query_id :: "int \<Rightarrow> id_manager \<Rightarrow> int res" where
  "query_id i m =
     BUG_ON (\<not> (i \<ge> min_id m \<and> i < max_id m))
       (let idx = nat i div 64; b = nat i mod 64 in
        if idx < length (bitmap m) then
          Inr (if get_bit_in_slot (bitmap m ! idx) b = 0 then - ENOENT else 0)
        else Inl OutOfRange)"

section \<open>The manager as a set of identifiers\<close>

definition idman_ok :: "id_manager \<Rightarrow> bool" where
  "idman_ok m \<longleftrightarrow> 0 \<le> min_id m \<and> min_id m \<le> max_id m \<and> 0 < max_id m \<and>
     length (bitmap m) = nr_slots m \<and> nr_slots m = nat ((max_id m + 63) div 64) \<and>
     (\<forall>i. int i < min_id m \<longrightarrow> bmp_bit (bitmap m) i)"

definition used_ids :: "id_manager \<Rightarrow> int set" where
  "used_ids m = {i. min_id m \<le> i \<and> i < max_id m \<and> bmp_bit (bitmap m) (nat i)}"

lemma find_first_zero_spec:
  "find_first_zero w \<le> 64" "find_first_zero w < 64 \<longrightarrow> \<not> bit w (find_first_zero w)"
  "i < find_first_zero w \<Longrightarrow> bit w i"
proof -
  let ?P = "\<lambda>i. get_bit_in_slot w i = 0"
  have "find_first_zero w \<le> 64 \<and> (find_first_zero w < 64 \<longrightarrow> \<not> bit w (find_first_zero w)) \<and>
      (\<forall>i < find_first_zero w. bit w i)"
  proof (cases "find ?P [0..<64]")
    case None
    then have "\<forall>i < 64. bit w i" by (auto simp: find_None_iff)
    then show ?thesis using None by (simp add: find_first_zero_def)
  next
    case (Some b)
    then obtain k where k: "k < 64" "?P ([0..<64] ! k)" "b = [0..<64] ! k" "\<forall>j < k. \<not> ?P ([0..<64] ! j)"
      by (auto simp: find_Some_iff)
    then show ?thesis using Some by (auto simp: find_first_zero_def)
  qed
  then show "find_first_zero w \<le> 64" "find_first_zero w < 64 \<longrightarrow> \<not> bit w (find_first_zero w)"
    "i < find_first_zero w \<Longrightarrow> bit w i" by auto
qed

text \<open>A slot with no identifier left.\<close>

definition full_slot :: "id_manager \<Rightarrow> nat \<Rightarrow> bool" where
  "full_slot m c \<longleftrightarrow> (\<forall>b < 64. int (64 * c + b) < max_id m \<longrightarrow> bmp_bit (bitmap m) (64 * c + b))"

definition start_slot :: "id_manager \<Rightarrow> nat" where
  "start_slot m = (if curr_slot m \<ge> nr_slots m then 0 else curr_slot m)"

lemma start_slot_next:
  "c < nr_slots m \<Longrightarrow> start_slot (m\<lparr>curr_slot := c + 1\<rparr>) = (c + 1) mod nr_slots m"
  by (cases "Suc c = nr_slots m") (auto simp: start_slot_def)

lemma full_slot_curr [simp]: "full_slot (m\<lparr>curr_slot := c\<rparr>) = full_slot m"
  by (rule ext) (simp add: full_slot_def)

definition takes_id :: "id_manager \<Rightarrow> int \<Rightarrow> id_manager \<Rightarrow> bool" where
  "takes_id m i m' \<longleftrightarrow> 0 \<le> i \<and> i < max_id m \<and> \<not> bmp_bit (bitmap m) (nat i) \<and>
     (\<exists>c. m' = m\<lparr>curr_slot := c, bitmap := bitmap m'\<rparr>) \<and> length (bitmap m') = length (bitmap m) \<and>
     (\<forall>j < 64 * length (bitmap m). bmp_bit (bitmap m') j \<longleftrightarrow> j = nat i \<or> bmp_bit (bitmap m) j)"

lemma slot_choice:
  assumes "c < length (bitmap m)" "b = find_first_zero (bitmap m ! c)"
  shows "b = 64 \<or> int c * 64 + int b \<ge> max_id m \<Longrightarrow> full_slot m c"
    and "b \<noteq> 64 \<Longrightarrow> int c * 64 + int b < max_id m \<Longrightarrow>
      takes_id m (int c * 64 + int b)
        (m\<lparr>curr_slot := c, bitmap := (bitmap m)[c := bitmap m ! c OR push_bit b 1]\<rparr>)"
proof -
  note z = find_first_zero_spec [where w = "bitmap m ! c", folded assms(2)]
  have bits: "bmp_bit (bitmap m) (64 * c + i)" if "i < 64" "i < b" for i
    using z(3) that by (simp add: bmp_bit_split)
  show "full_slot m c" if "b = 64 \<or> int c * 64 + int b \<ge> max_id m"
    using that bits by (auto simp: full_slot_def)
  assume b: "b \<noteq> 64" "int c * 64 + int b < max_id m"
  then have lt: "b < 64" using z(1) by simp
  have n: "nat (int c * 64 + int b) = 64 * c + b" by simp
  have dm: "(64 * c + b) div 64 = c" "(64 * c + b) mod 64 = b" using lt by auto
  have "bmp_set_bit (64 * c + b) (bitmap m) = Inr ((bitmap m)[c := bitmap m ! c OR push_bit b 1])"
    using assms(1) lt by (simp add: bmp_set_bit_def BITS_PER_LONG_def dm)
  note set = bmp_set_bit_iff [OF this]
  have "\<not> bmp_bit (bitmap m) (64 * c + b)" using z(2) lt by (simp add: bmp_bit_split)
  then show "takes_id m (int c * 64 + int b)
      (m\<lparr>curr_slot := c, bitmap := (bitmap m)[c := bitmap m ! c OR push_bit b 1]\<rparr>)"
    using b set unfolding takes_id_def n by (auto simp: less_mult_imp_div_less mult.commute)
qed

lemma alloc_id_loop_spec:
  assumes "length (bitmap m) = nr_slots m" "0 < nr_slots m"
  shows "\<exists>i m'. alloc_id_loop n m = Inr (i, m') \<and>
    (takes_id m i m' \<or>
     i = - EINVAL \<and> (\<exists>c. m' = m\<lparr>curr_slot := c\<rparr>) \<and> (\<forall>k < n. full_slot m ((start_slot m + k) mod nr_slots m)))"
  using assms
proof (induction n arbitrary: m)
  case 0
  then show ?case by (auto intro: exI [of _ "curr_slot m"])
next
  case (Suc n)
  define c where "c = start_slot m"
  define b where "b = find_first_zero (bitmap m ! c)"
  have c: "c < nr_slots m" using Suc.prems by (auto simp: c_def start_slot_def)
  have c': "(if curr_slot m \<ge> nr_slots m then 0 else curr_slot m) = c" by (simp add: c_def start_slot_def)
  note sl = slot_choice [of c m b, OF _ b_def]
  show ?case
  proof (cases "b = 64 \<or> int c * 64 + int b \<ge> max_id m")
    case True
    let ?m = "m\<lparr>curr_slot := c + 1\<rparr>"
    have run: "alloc_id_loop (Suc n) m = alloc_id_loop n ?m"
      using True c Suc.prems by (simp add: c' b_def Let_def)
    obtain i m' where i: "alloc_id_loop n ?m = Inr (i, m')"
      "takes_id ?m i m' \<or> i = - EINVAL \<and> (\<exists>c. m' = ?m\<lparr>curr_slot := c\<rparr>) \<and>
         (\<forall>k < n. full_slot ?m ((start_slot ?m + k) mod nr_slots ?m))"
      using Suc.IH [of ?m] Suc.prems by auto
    have "full_slot m ((c + k) mod nr_slots m)"
      if "\<forall>k < n. full_slot ?m ((start_slot ?m + k) mod nr_slots ?m)" "k < Suc n" for k
    proof (cases k)
      case 0
      then show ?thesis using sl(1) True c Suc.prems by simp
    next
      case (Suc j)
      then show ?thesis using that c start_slot_next [OF c] by (auto simp: mod_simps)
    qed
    moreover have "takes_id m i m'" if "takes_id ?m i m'" using that by (auto simp: takes_id_def)
    ultimately show ?thesis using i run by (auto simp: c_def [symmetric])
  next
    case False
    then have "alloc_id_loop (Suc n) m = Inr (int c * 64 + int b,
        m\<lparr>curr_slot := c, bitmap := (bitmap m)[c := bitmap m ! c OR push_bit b 1]\<rparr>)"
      using c Suc.prems by (simp add: c' b_def Let_def)
    then show ?thesis using sl(2) False c Suc.prems by simp
  qed
qed

lemma idman_slots: "idman_ok m \<Longrightarrow> 0 < nr_slots m \<and> max_id m \<le> 64 * int (nr_slots m)"
  by (auto simp: idman_ok_def)

lemma alloc_id_spec:
  assumes "idman_ok m"
  shows "\<exists>i m'. alloc_id m = Inr (i, m') \<and>
    (takes_id m i m' \<and> i \<ge> min_id m \<or>
     i = - EINVAL \<and> (\<exists>c. m' = m\<lparr>curr_slot := c\<rparr>) \<and> used_ids m = {min_id m..<max_id m})"
proof -
  have l: "length (bitmap m) = nr_slots m" "0 < nr_slots m"
    using assms idman_slots [OF assms] by (simp_all add: idman_ok_def)
  have "used_ids m = {min_id m..<max_id m}"
    if full: "\<forall>k < nr_slots m + 1. full_slot m ((start_slot m + k) mod nr_slots m)"
  proof -
    have all: "full_slot m c" if c: "c < nr_slots m" for c
    proof -
      have "start_slot m < nr_slots m" using l by (simp add: start_slot_def)
      then have "(start_slot m + (c + nr_slots m - start_slot m) mod nr_slots m) mod nr_slots m = c"
        using c by (simp add: mod_add_right_eq)
      moreover have "(c + nr_slots m - start_slot m) mod nr_slots m < nr_slots m + 1"
        using l(2) mod_less_divisor [OF l(2)] by (meson less_SucI less_Suc_eq_le add.commute plus_1_eq_Suc trans_less_add1)
      ultimately show ?thesis using full by metis
    qed
    have "bmp_bit (bitmap m) (nat i)" if "0 \<le> i" "i < max_id m" for i
    proof -
      have "nat i div 64 < nr_slots m" using that idman_slots [OF assms] by (simp add: less_mult_imp_div_less nat_less_iff mult.commute)
      then have "\<forall>b < 64. int (64 * (nat i div 64) + b) < max_id m \<longrightarrow> bmp_bit (bitmap m) (64 * (nat i div 64) + b)"
        using all by (simp add: full_slot_def)
      then show ?thesis using that by (metis int_nat_eq mod_less_divisor mult_div_mod_eq zero_less_numeral)
    qed
    then show ?thesis using assms by (auto simp: used_ids_def idman_ok_def)
  qed
  moreover have "min_id m \<le> i" if "takes_id m i m'" for i m'
    using that assms by (force simp: takes_id_def idman_ok_def not_le [symmetric])
  ultimately show ?thesis using alloc_id_loop_spec [OF l, of "nr_slots m + 1"] unfolding alloc_id_def by metis
qed

section \<open>The allocator contract\<close>

definition get_id :: "unit \<Rightarrow> id_manager \<Rightarrow> (int option \<times> id_manager) res" where
  "get_id r m = bindR (alloc_id m) (\<lambda>(i, m). Inr (if i < 0 then None else Some i, m))"

definition put_id :: "int \<Rightarrow> id_manager \<Rightarrow> id_manager res" where
  "put_id i m = bindR (free_id i m) (\<lambda>(_, m). Inr m)"

text \<open>The range of identifiers, which never changes.\<close>

definition id_range :: "id_manager \<Rightarrow> int \<times> int" where
  "id_range m = (min_id m, max_id m)"

definition idman_for :: "int \<times> int \<Rightarrow> id_manager \<Rightarrow> bool" where
  "idman_for r m \<longleftrightarrow> idman_ok m \<and> id_range m = r"

lemma takes_id_ok:
  assumes "idman_ok m" "takes_id m i m'" "min_id m \<le> i"
  shows "idman_ok m'" "used_ids m' = insert i (used_ids m)" "i \<notin> used_ids m" "id_range m' = id_range m"
proof -
  obtain c where m': "m' = m\<lparr>curr_slot := c, bitmap := bitmap m'\<rparr>" using assms(2) by (auto simp: takes_id_def)
  have f: "min_id m' = min_id m" "max_id m' = max_id m" "nr_slots m' = nr_slots m"
    by (subst m', simp)+
  have i: "0 \<le> i" "i < max_id m" "length (bitmap m') = length (bitmap m)" using assms(2) by (simp_all add: takes_id_def)
  have bits: "bmp_bit (bitmap m') j \<longleftrightarrow> j = nat i \<or> bmp_bit (bitmap m) j" if "int j < max_id m" for j
    using assms(2) that idman_slots [OF assms(1)] assms(1) by (simp add: takes_id_def idman_ok_def)
  have "bmp_bit (bitmap m') j" if "int j < min_id m" for j
    using bits [of j] that assms(1) by (simp add: idman_ok_def)
  then show "idman_ok m'" using assms(1) i(3) unfolding idman_ok_def f by simp
  have "bmp_bit (bitmap m') (nat j) \<longleftrightarrow> j = i \<or> bmp_bit (bitmap m) (nat j)" if "min_id m \<le> j" "j < max_id m" for j
    using bits [of "nat j"] that i(1) assms(1) by (simp add: idman_ok_def eq_nat_nat_iff)
  then show "used_ids m' = insert i (used_ids m)" using i(2) assms(3) unfolding used_ids_def f by blast
  show "i \<notin> used_ids m" using assms(2) by (simp add: used_ids_def takes_id_def)
  show "id_range m' = id_range m" by (simp add: id_range_def f)
qed

lemma free_id_spec:
  assumes "idman_ok m" "i \<in> used_ids m"
  shows "\<exists>m'. free_id i m = Inr (0, m') \<and> idman_ok m' \<and> used_ids m' = used_ids m - {i} \<and> id_range m' = id_range m"
proof -
  have i: "min_id m \<le> i" "i < max_id m" "bmp_bit (bitmap m) (nat i)" "0 \<le> i"
    using assms by (auto simp: used_ids_def idman_ok_def)
  have l: "nat i div 64 < length (bitmap m)"
    using i idman_slots [OF assms(1)] assms(1)
    by (simp add: idman_ok_def less_mult_imp_div_less nat_less_iff mult.commute)
  let ?b = "(bitmap m)[nat i div 64 := bitmap m ! (nat i div 64) AND NOT (push_bit (nat i mod 64) 1)]"
  have c: "bmp_clear_bit (nat i) (bitmap m) = Inr ?b"
    using l by (simp add: bmp_clear_bit_def BITS_PER_LONG_def Let_def)
  have bits: "bmp_bit ?b j \<longleftrightarrow> j \<noteq> nat i \<and> bmp_bit (bitmap m) j" if "int j < max_id m" for j
    using bmp_clear_bit_iff [OF c, of j] that idman_slots [OF assms(1)] assms(1)
    by (simp add: idman_ok_def less_mult_imp_div_less mult.commute)
  let ?m = "m\<lparr>bitmap := ?b, curr_slot := nat i div 64\<rparr>"
  have "free_id i m = Inr (0, ?m)" using i l by (simp add: free_id_def bmp_bit_def Let_def)
  moreover have "bmp_bit ?b j" if "int j < min_id m" for j
    using bits [of j] that i assms(1) by (simp add: idman_ok_def nat_eq_iff2)
  then have "idman_ok ?m" using assms(1) by (simp add: idman_ok_def)
  moreover have "bmp_bit ?b (nat j) \<longleftrightarrow> j \<noteq> i \<and> bmp_bit (bitmap m) (nat j)" if "min_id m \<le> j" "j < max_id m" for j
    using bits [of "nat j"] that i assms(1) by (auto simp: idman_ok_def eq_nat_nat_iff)
  then have "used_ids ?m = used_ids m - {i}" by (auto simp: used_ids_def)
  ultimately show ?thesis by (auto simp: id_range_def)
qed

lemma get_id_spec:
  assumes "idman_ok m"
  shows "\<exists>x m'. get_id r m = Inr (x, m') \<and> idman_ok m' \<and> id_range m' = id_range m \<and>
    (case x of
       None \<Rightarrow> used_ids m' = used_ids m \<and> used_ids m = {min_id m..<max_id m}
     | Some i \<Rightarrow> i \<notin> used_ids m \<and> used_ids m' = insert i (used_ids m))"
proof -
  obtain i m' where i: "alloc_id m = Inr (i, m')"
    "takes_id m i m' \<and> i \<ge> min_id m \<or>
     i = - EINVAL \<and> (\<exists>c. m' = m\<lparr>curr_slot := c\<rparr>) \<and> used_ids m = {min_id m..<max_id m}"
    using alloc_id_spec [OF assms] by blast
  from i(2) show ?thesis
  proof
    assume t: "takes_id m i m' \<and> i \<ge> min_id m"
    then have "0 \<le> i" by (simp add: takes_id_def)
    then show ?thesis using i(1) takes_id_ok [OF assms, of i m'] t by (simp add: get_id_def)
  next
    assume t: "i = - EINVAL \<and> (\<exists>c. m' = m\<lparr>curr_slot := c\<rparr>) \<and> used_ids m = {min_id m..<max_id m}"
    then have "idman_ok m'" "used_ids m' = used_ids m" "id_range m' = id_range m"
      using assms by (auto simp: idman_ok_def used_ids_def id_range_def)
    then show ?thesis using i(1) t by (simp add: get_id_def EINVAL_def)
  qed
qed

interpretation im: total_allocator "idman_for rg" used_ids "\<lambda>i. {i}" get_id put_id for rg
proof (unfold_locales)
  fix s r c s' assume "idman_for rg s" and g: "get_id r s = Inr (Some c, s')"
  then show "idman_for rg s' \<and> c \<notin> used_ids s \<and> used_ids s' = insert c (used_ids s)"
    using get_id_spec [of s r] by (auto simp: idman_for_def)
next
  fix s r s' assume "idman_for rg s" and g: "get_id r s = Inr (None, s')"
  then show "idman_for rg s' \<and> used_ids s' = used_ids s"
    using get_id_spec [of s r] by (auto simp: idman_for_def)
next
  fix s c assume "idman_for rg s" "c \<in> used_ids s"
  then show "\<exists>s'. put_id c s = Inr s' \<and> idman_for rg s' \<and> used_ids s' = used_ids s - {c}"
    using free_id_spec by (fastforce simp: put_id_def idman_for_def)
next
  fix s r assume "idman_for rg s"
  then show "\<exists>x s'. get_id r s = Inr (x, s')" using get_id_spec [of s r] by (auto simp: idman_for_def)
qed auto

lemma init_id_manager_ok:
  assumes "0 < mx" "has_room (8 * nat ((mx + 63) div 64)) s"
  shows "\<exists>m' s'. init_id_manager m mx 0 s = Inr ((0, m'), s') \<and> idman_ok m' \<and> used_ids m' = {} \<and>
    min_id m' = 0 \<and> max_id m' = mx \<and>
    s' = s\<lparr>malloc_header := malloc_header s + of_nat (8 * nat ((mx + 63) div 64))\<rparr>"
proof -
  define n where "n = nat ((mx + 63) div 64)"
  have "8 * n < 2 ^ 64" using assms(2) unfolding n_def [symmetric] by (simp add: has_room_def)
  then have sz: "unat (of_nat n * 8 :: u64) = 8 * n"
    using unat_of_nat_small [of "8 * n"] by (simp add: mult.commute)
  have room: "has_room (unat (of_nat n * 8 :: u64)) s" unfolding sz by (rule assms(2) [folded n_def])
  note fresh = malloc_fresh [OF room]
  let ?m = "m\<lparr>min_id := 0, max_id := mx, curr_slot := 0, bitmap_ptr := MAP_VA + malloc_header s,
     bitmap := replicate n 0, nr_slots := n\<rparr>"
  have "init_id_manager m mx 0 s = Inr ((0, ?m), s\<lparr>malloc_header := malloc_header s + of_nat (8 * n)\<rparr>)"
    unfolding init_id_manager_def n_def [symmetric] Let_def using fresh(1,3) by (simp add: bindS_simp mult.commute)
  moreover have "\<not> bmp_bit (replicate n 0) (nat i)" if "0 \<le> i" "i < mx" for i
    using that by (simp add: bmp_bit_def n_def less_mult_imp_div_less nat_less_iff)
  then have "used_ids ?m = {}" by (auto simp: used_ids_def)
  moreover have "idman_ok ?m" using assms(1) by (simp add: idman_ok_def n_def)
  ultimately show ?thesis unfolding n_def by auto
qed


definition sample_heap :: uheap where
  "sample_heap = \<lparr>malloc_header = 0, pmo_create_ret = 1, pmo_map_ret = 0\<rparr>"

definition sample_idman :: id_manager where
  "sample_idman = \<lparr>min_id = 0, max_id = 0, curr_slot = 0, bitmap_ptr = 0, bitmap = [], nr_slots = 0\<rparr>"


end
