(* ===== verification/Fs_Radix.thy ===== *)
theory Fs_Radix
  imports User_Heap
begin

text \<open>The radix tree of the file servers, \<^verbatim>\<open>libchcore/include/chcore/fs/radix.h\<close>: eight levels of
  nodes with 512 children each; the nodes live in a heap of their own. The names carry the suffix
  \<open>_fs\<close> to tell them from the kernel's tree. A tree is a map from keys to values: every node has one
  position (the root it hangs from, its height, the prefix of the keys it serves), so that writing one
  key leaves the others alone.\<close>

unbundle bit_operations_syntax

record radix_heap = uheap +
  rnodes :: "u64 \<rightharpoonup> u64 list"

type_synonym ('x, 'a) rop = "('x radix_heap_scheme, 'a) sop"

text \<open>The only deleter the servers pass is \<^verbatim>\<open>free\<close>.\<close>

datatype deleter = NoDeleter | FreeDeleter

record radix_fs =
  root_fs :: u64
  value_deleter_fs :: deleter

definition RADIX_NODE_BITS_fs :: nat where "RADIX_NODE_BITS_fs = 9"
definition RADIX_NODE_SIZE_fs :: nat where "RADIX_NODE_SIZE_fs = 512"
definition RADIX_LEVELS_fs :: nat where "RADIX_LEVELS_fs = 8"

text \<open>A cleared node: 512 pointers of 8 bytes.\<close>

definition calloc_node :: "('x, u64) rop" where
  "calloc_node =
     bindS (calloc 1 4096) (\<lambda>p.
     thenS (modify (\<lambda>s. s\<lparr>rnodes := (rnodes s)(p \<mapsto> replicate 512 0)\<rparr>)) (ret p))"

definition init_radix_fs :: "('x, radix_fs) rop" where
  "init_radix_fs =
     bindS calloc_node (\<lambda>p.
     thenS (bug_on (p = 0)) (ret \<lparr>root_fs = p, value_deleter_fs = NoDeleter\<rparr>))"

definition init_radix_w_deleter_fs :: "deleter \<Rightarrow> ('x, radix_fs) rop" where
  "init_radix_w_deleter_fs d = bindS init_radix_fs (\<lambda>r. ret (r\<lparr>value_deleter_fs := d\<rparr>))"

text \<open>\<open>None\<close> is the error pointer.\<close>

definition new_radix_node_fs :: "('x, u64 option) rop" where
  "new_radix_node_fs = bindS calloc_node (\<lambda>n. ret (if n = 0 then None else Some n))"

text \<open>The array of indices: entry \<open>i\<close> holds the \<open>i\<close>-th group of nine bits of the key.\<close>

definition radix_index_fs :: "u64 \<Rightarrow> nat \<Rightarrow> nat" where
  "radix_index_fs key i = unat (drop_bit (RADIX_NODE_BITS_fs * i) key AND 511)"

text \<open>The intermediate levels, from index \<open>i\<close> down to 1: the leaf node.\<close>

primrec radix_add_levels :: "nat \<Rightarrow> u64 \<Rightarrow> u64 \<Rightarrow> ('x, u64 option) rop" where
  "radix_add_levels 0 node key = ret (Some node)"
| "radix_add_levels (Suc i) node key =
     bindS (readS rnodes node) (\<lambda>children.
       (let k = radix_index_fs key (Suc i) in
        if children ! k = 0 then
          bindS new_radix_node_fs (\<lambda>new_node.
            case new_node of
              None \<Rightarrow> ret None
            | Some n \<Rightarrow>
                thenS (modify (\<lambda>s. s\<lparr>rnodes := (rnodes s)(node \<mapsto> children[k := n])\<rparr>))
                  (radix_add_levels i n key))
        else radix_add_levels i (children ! k) key))"

definition radix_add_fs :: "radix_fs \<Rightarrow> u64 \<Rightarrow> u64 \<Rightarrow> ('x, int \<times> radix_fs) rop" where
  "radix_add_fs radix key v =
     bindS (if root_fs radix = 0 then
              bindS new_radix_node_fs (\<lambda>n. ret (case n of None \<Rightarrow> None | Some p \<Rightarrow> Some (radix\<lparr>root_fs := p\<rparr>)))
            else ret (Some radix)) (\<lambda>start.
       case start of
         None \<Rightarrow> ret (- ENOMEM, radix)
       | Some radix \<Rightarrow>
           bindS (radix_add_levels (RADIX_LEVELS_fs - 1) (root_fs radix) key) (\<lambda>leaf.
             case leaf of
               None \<Rightarrow> ret (- ENOMEM, radix)
             | Some node \<Rightarrow>
                 bindS (readS rnodes node) (\<lambda>vals.
                 thenS (modify (\<lambda>s. s\<lparr>rnodes := (rnodes s)(node \<mapsto> vals[radix_index_fs key 0 := v])\<rparr>))
                   (ret (0, radix)))))"

text \<open>\<open>None\<close>: a child is missing.\<close>

primrec radix_find_levels :: "nat \<Rightarrow> u64 \<Rightarrow> u64 \<Rightarrow> ('x, u64 option) rop" where
  "radix_find_levels 0 node key = ret (Some node)"
| "radix_find_levels (Suc i) node key =
     bindS (readS rnodes node) (\<lambda>children.
       (let k = radix_index_fs key (Suc i) in
        if children ! k = 0 then ret None else radix_find_levels i (children ! k) key))"

definition radix_get_fs :: "radix_fs \<Rightarrow> u64 \<Rightarrow> ('x, u64) rop" where
  "radix_get_fs radix key =
     (if root_fs radix = 0 then ret 0
      else
        bindS (radix_find_levels (RADIX_LEVELS_fs - 1) (root_fs radix) key) (\<lambda>leaf.
          case leaf of
            None \<Rightarrow> ret 0
          | Some node \<Rightarrow> bindS (readS rnodes node) (\<lambda>vals. ret (vals ! radix_index_fs key 0))))"

definition call_deleter :: "deleter \<Rightarrow> u64 \<Rightarrow> ('x, unit) rop" where
  "call_deleter d v = (case d of NoDeleter \<Rightarrow> ret () | FreeDeleter \<Rightarrow> free v)"

definition radix_del_fs :: "radix_fs \<Rightarrow> u64 \<Rightarrow> bool \<Rightarrow> ('x, int) rop" where
  "radix_del_fs radix key delete_value =
     (if root_fs radix = 0 then ret (- 1)
      else
        bindS (radix_find_levels (RADIX_LEVELS_fs - 1) (root_fs radix) key) (\<lambda>leaf.
          case leaf of
            None \<Rightarrow> ret (- 1)
          | Some node \<Rightarrow>
              bindS (readS rnodes node) (\<lambda>vals.
                (let k = radix_index_fs key 0 in
                 thenS (if delete_value then call_deleter (value_deleter_fs radix) (vals ! k) else ret ())
                 (thenS (modify (\<lambda>s. s\<lparr>rnodes := (rnodes s)(node \<mapsto> vals[k := 0])\<rparr>)) (ret 0))))))"

text \<open>\<open>h\<close> is the number of levels below the node: \<^verbatim>\<open>RADIX_LEVELS - 1 - node_level\<close>. The
  warning about a NULL node only prints; reading it faults.\<close>

primrec radix_free_node_fs :: "nat \<Rightarrow> u64 \<Rightarrow> deleter \<Rightarrow> ('x, unit) rop" where
  "radix_free_node_fs 0 node d =
     (if d = NoDeleter then ret ()
      else bindS (readS rnodes node) (\<lambda>vals.
        each [0..<RADIX_NODE_SIZE_fs] (\<lambda>i. if vals ! i \<noteq> 0 then call_deleter d (vals ! i) else ret ())))"
| "radix_free_node_fs (Suc h) node d =
     bindS (readS rnodes node) (\<lambda>children.
       each [0..<RADIX_NODE_SIZE_fs] (\<lambda>i. if children ! i \<noteq> 0 then radix_free_node_fs h (children ! i) d else ret ()))"

definition radix_free_fs :: "radix_fs \<Rightarrow> ('x, int) rop" where
  "radix_free_fs radix =
     (if root_fs radix = 0 then ret (- EINVAL)
      else thenS (radix_free_node_fs (RADIX_LEVELS_fs - 1) (root_fs radix) (value_deleter_fs radix)) (ret 0))"

text \<open>\<^verbatim>\<open>RADIX_NODE_MASK << shift\<close> is computed on \<^verbatim>\<open>int\<close>, so a shift of 32 or more is undefined.
  \<open>cb\<close> is the callback; \<open>go\<close> visits the entries from \<open>start_i\<close> on.\<close>

definition radix_scan_mask :: "nat \<Rightarrow> u64 res" where
  "radix_scan_mask h =
     (let shift = h * RADIX_NODE_BITS_fs in
      if shift < 32 then Inr (scast (push_bit shift 511 :: u32)) else Inl OutOfRange)"

fun scan_values :: "(u64 \<Rightarrow> ('x, int) rop) \<Rightarrow> u64 list \<Rightarrow> ('x, int) rop" where
  "scan_values cb [] = ret 0"
| "scan_values cb (v # vs) =
     (if v = 0 then scan_values cb vs
      else bindS (cb v) (\<lambda>err. if err \<noteq> 0 then ret err else scan_values cb vs))"

fun scan_children :: "(u64 \<Rightarrow> u64 \<Rightarrow> ('x, int) rop) \<Rightarrow> u64 \<Rightarrow> u64 list \<Rightarrow> ('x, int) rop" where
  "scan_children sub start [] = ret 0"
| "scan_children sub start (c # cs) =
     bindS (if c \<noteq> 0 then sub c start else ret 0) (\<lambda>err.
       if err \<noteq> 0 then ret err else scan_children sub 0 cs)"

primrec radix_scan_node :: "nat \<Rightarrow> u64 \<Rightarrow> u64 \<Rightarrow> (u64 \<Rightarrow> ('x, int) rop) \<Rightarrow> ('x, int) rop" where
  "radix_scan_node 0 node start cb =
     bindS (liftR (radix_scan_mask 0)) (\<lambda>msk.
     bindS (readS rnodes node) (\<lambda>vals. scan_values cb (drop (unat (start AND msk)) vals)))"
| "radix_scan_node (Suc h) node start cb =
     bindS (liftR (radix_scan_mask (Suc h))) (\<lambda>msk.
     bindS (readS rnodes node) (\<lambda>children.
       scan_children (\<lambda>c start. radix_scan_node h c start cb) start
         (drop (unat (drop_bit (Suc h * RADIX_NODE_BITS_fs) (start AND msk))) children)))"

definition radix_scan_fs :: "radix_fs \<Rightarrow> u64 \<Rightarrow> (u64 \<Rightarrow> ('x, int) rop) \<Rightarrow> ('x, int) rop" where
  "radix_scan_fs radix start cb = radix_scan_node (RADIX_LEVELS_fs - 1) (root_fs radix) start cb"

end
