(* ===== verification/Fs_Radix_Correct.thy ===== *)
theory Fs_Radix_Correct
  imports Fs_Radix
begin

text \<open>The radix tree of the file servers is a map from keys to values: \<^verbatim>\<open>radix_get\<close> reads it, and
  \<^verbatim>\<open>radix_add\<close> updates it at one key of one tree, whatever other trees share the heap.\<close>

section \<open>Indices and prefixes\<close>

lemma radix_index_fs_eq: "radix_index_fs key i = unat key div 512 ^ i mod 512"
proof -
  have "drop_bit (9 * i) key AND 511 = take_bit 9 (drop_bit (9 * i) key)"
    by (simp add: take_bit_eq_mask mask_eq_exp_minus_1)
  then have "radix_index_fs key i = take_bit 9 (drop_bit (9 * i) (unat key))"
    by (simp only: radix_index_fs_def RADIX_NODE_BITS_fs_def unsigned_take_bit_eq unat_drop_bit_eq)
  then show ?thesis by (simp add: take_bit_eq_mod drop_bit_eq_div power_mult)
qed

lemma radix_index_fs_lt [simp]: "radix_index_fs key i < 512"
  by (simp add: radix_index_fs_eq)

text \<open>The prefix of the keys under a node with \<open>i\<close> levels below it.\<close>

definition prefix_fs :: "nat \<Rightarrow> u64 \<Rightarrow> nat" where
  "prefix_fs i key = unat key div 512 ^ Suc i"

lemma prefix_step: "prefix_fs (Suc i) key * 512 + radix_index_fs key (Suc i) = prefix_fs i key"
proof -
  have "prefix_fs (Suc i) key = prefix_fs i key div 512"
    unfolding prefix_fs_def by (simp only: power_Suc2 [of _ "Suc i"] div_mult2_eq)
  moreover have "radix_index_fs key (Suc i) = prefix_fs i key mod 512"
    by (simp only: radix_index_fs_eq prefix_fs_def)
  ultimately show ?thesis by (simp only: div_mult_mod_eq)
qed

lemma prefix_leaf: "prefix_fs 0 key * 512 + radix_index_fs key 0 = unat key"
  by (simp add: prefix_fs_def radix_index_fs_eq)

lemma prefix_root [simp]: "prefix_fs 7 key = 0"
proof -
  have "unat key < 2 ^ 64" by (rule order.strict_trans2 [OF unsigned_less]) simp
  then show ?thesis by (simp add: prefix_fs_def)
qed

section \<open>The tree as a map\<close>

primrec rwalk :: "(u64 \<rightharpoonup> u64 list) \<Rightarrow> nat \<Rightarrow> u64 \<Rightarrow> u64 \<Rightarrow> u64" where
  "rwalk h 0 node key = (case h node of None \<Rightarrow> 0 | Some c \<Rightarrow> c ! radix_index_fs key 0)"
| "rwalk h (Suc i) node key =
     (case h node of None \<Rightarrow> 0
      | Some c \<Rightarrow> if c ! radix_index_fs key (Suc i) = 0 then 0 else rwalk h i (c ! radix_index_fs key (Suc i)) key)"

definition rlookup :: "(u64 \<rightharpoonup> u64 list) \<Rightarrow> u64 \<Rightarrow> u64 \<Rightarrow> u64" where
  "rlookup h rt key = rwalk h 7 rt key"

text \<open>Every node has one position: the root of its tree, the levels below it and the prefix it serves.
  \<open>V\<close> is what holds of a value under a key of a tree.\<close>

definition node_ok ::
  "(u64 \<Rightarrow> u64 \<times> nat \<times> nat) \<Rightarrow> (u64 \<Rightarrow> nat \<Rightarrow> u64 \<Rightarrow> bool) \<Rightarrow> (u64 \<rightharpoonup> u64 list) \<Rightarrow> u64 \<Rightarrow> u64 list \<Rightarrow> bool" where
  "node_ok pos V h a c \<longleftrightarrow> length c = 512 \<and>
     (case pos a of (r, l, p) \<Rightarrow>
        \<forall>k < 512. c ! k \<noteq> 0 \<longrightarrow>
          (case l of 0 \<Rightarrow> V r (p * 512 + k) (c ! k)
           | Suc j \<Rightarrow> c ! k \<in> dom h \<and> pos (c ! k) = (r, j, p * 512 + k)))"

definition rad_ok ::
  "(u64 \<Rightarrow> u64 \<times> nat \<times> nat) \<Rightarrow> (u64 \<Rightarrow> nat \<Rightarrow> u64 \<Rightarrow> bool) \<Rightarrow> (u64 \<rightharpoonup> u64 list) \<Rightarrow> bool" where
  "rad_ok pos V h \<longleftrightarrow> (\<forall>a c. h a = Some c \<longrightarrow> node_ok pos V h a c)"

text \<open>A node on the way to a key.\<close>

definition on_path :: "(u64 \<Rightarrow> u64 \<times> nat \<times> nat) \<Rightarrow> (u64 \<rightharpoonup> u64 list) \<Rightarrow> u64 \<Rightarrow> nat \<Rightarrow> u64 \<Rightarrow> u64 \<Rightarrow> bool" where
  "on_path pos h r i node key \<longleftrightarrow> node \<in> dom h \<and> pos node = (r, i, prefix_fs i key)"

lemma child_on_path:
  assumes "rad_ok pos V h" "on_path pos h r (Suc i) node key" "h node = Some c"
    and "c ! radix_index_fs key (Suc i) \<noteq> 0"
  shows "on_path pos h r i (c ! radix_index_fs key (Suc i)) key"
proof -
  have "node_ok pos V h node c" using assms(1,3) by (simp add: rad_ok_def)
  then show ?thesis using assms(2,4) by (auto simp: node_ok_def on_path_def prefix_step dest: spec [of _ "radix_index_fs key (Suc i)"])
qed

lemma find_levels_spec:
  assumes "rad_ok pos V (rnodes s)" "on_path pos (rnodes s) r i node key"
  shows "\<exists>leaf. radix_find_levels i node key s = Inr (leaf, s) \<and>
    (case leaf of None \<Rightarrow> rwalk (rnodes s) i node key = 0
     | Some n \<Rightarrow> on_path pos (rnodes s) r 0 n key \<and> rwalk (rnodes s) 0 n key = rwalk (rnodes s) i node key)"
  using assms(2)
proof (induction i arbitrary: node)
  case 0
  then show ?case by simp
next
  case (Suc i)
  then obtain c where c: "rnodes s node = Some c" by (auto simp: on_path_def)
  show ?case
  proof (cases "c ! radix_index_fs key (Suc i) = 0")
    case True
    then show ?thesis using c by (simp add: bindS_simp)
  next
    case False
    have eqs: "rwalk (rnodes s) (Suc i) node key = rwalk (rnodes s) i (c ! radix_index_fs key (Suc i)) key"
      "radix_find_levels (Suc i) node key s = radix_find_levels i (c ! radix_index_fs key (Suc i)) key s"
      using c False by (simp_all add: bindS_simp)
    show ?thesis unfolding eqs by (rule Suc.IH [OF child_on_path [OF assms(1) Suc.prems c False]])
  qed
qed

definition is_root :: "(u64 \<Rightarrow> u64 \<times> nat \<times> nat) \<Rightarrow> (u64 \<rightharpoonup> u64 list) \<Rightarrow> u64 \<Rightarrow> bool" where
  "is_root pos h r \<longleftrightarrow> r \<noteq> 0 \<and> r \<in> dom h \<and> pos r = (r, 7, 0)"

lemma root_on_path: "is_root pos h r \<Longrightarrow> on_path pos h r 7 r key"
  by (simp add: is_root_def on_path_def)

lemma radix_get_fs_spec:
  assumes "rad_ok pos V (rnodes s)" "is_root pos (rnodes s) (root_fs t)"
  shows "radix_get_fs t key s = Inr (rlookup (rnodes s) (root_fs t) key, s)"
proof -
  obtain leaf where l: "radix_find_levels 7 (root_fs t) key s = Inr (leaf, s)"
    "case leaf of None \<Rightarrow> rwalk (rnodes s) 7 (root_fs t) key = 0
     | Some n \<Rightarrow> on_path pos (rnodes s) (root_fs t) 0 n key \<and>
         rwalk (rnodes s) 0 n key = rwalk (rnodes s) 7 (root_fs t) key"
    using find_levels_spec [OF assms(1) root_on_path [OF assms(2)]] by blast
  have "root_fs t \<noteq> 0" using assms(2) by (simp add: is_root_def)
  then show ?thesis using l
    by (cases leaf) (auto simp: radix_get_fs_def RADIX_LEVELS_fs_def rlookup_def bindS_simp on_path_def)
qed

section \<open>Writing a key\<close>

text \<open>Linking an empty node changes no lookup.\<close>

lemma rwalk_empty: "rwalk h i n key = 0" if "h n = Some (replicate 512 0)"
  using that by (cases i) simp_all

lemma rwalk_link:
  assumes "rad_ok pos V h" "h a = Some c" "c ! k = 0" "k < 512" "n \<notin> dom h" "n \<noteq> 0"
    and "pos a = (r, Suc l, p)" and "on_path pos h r' i node key"
  shows "rwalk (h(n \<mapsto> replicate 512 0, a \<mapsto> c[k := n])) i node key = rwalk h i node key"
proof -
  define h' where "h' = h(n \<mapsto> replicate 512 0, a \<mapsto> c[k := n])"
  have na: "n \<noteq> a" using assms(2,5) by auto
  have h': "h' n = Some (replicate 512 0)" "h' a = Some (c[k := n])" "\<And>b. b \<noteq> n \<Longrightarrow> b \<noteq> a \<Longrightarrow> h' b = h b"
    using na by (simp_all add: h'_def)
  have len: "length c = 512" using assms(1,2) by (auto simp: rad_ok_def node_ok_def)
  have "rwalk h' i node key = rwalk h i node key"
    using assms(8)
  proof (induction i arbitrary: node)
    case 0
    then have "node \<noteq> a" "node \<noteq> n" using assms(5,7) by (auto simp: on_path_def)
    then show ?case by (simp add: h')
  next
    case (Suc i)
    let ?x = "radix_index_fs key (Suc i)"
    obtain d where d: "h node = Some d" using Suc.prems by (auto simp: on_path_def)
    then have nn: "node \<noteq> n" using assms(5) by auto
    have down: "rwalk h' i (d ! ?x) key = rwalk h i (d ! ?x) key" if "d ! ?x \<noteq> 0"
      by (rule Suc.IH [OF child_on_path [OF assms(1) Suc.prems d that]])
    show ?case
    proof (cases "node = a")
      case True
      then have "d = c" using d assms(2) by simp
      then show ?thesis using True h' down assms(2,3,4,6) len rwalk_empty [of h' n i key]
        by (cases "?x = k") simp_all
    next
      case False
      then show ?thesis using d nn h' down by simp
    qed
  qed
  then show ?thesis by (simp only: h'_def)
qed

lemma node_ok_mono:
  assumes "node_ok pos V h b d" "pos' b = pos b" "\<forall>v \<in> dom h. v \<in> dom h' \<and> pos' v = pos v"
  shows "node_ok pos' V h' b d"
proof -
  obtain r l p where b: "pos b = (r, l, p)" by (cases "pos b")
  show ?thesis using assms unfolding node_ok_def by (cases l) (simp_all add: b)
qed

lemma rad_ok_link:
  assumes "rad_ok pos V h" "h a = Some c" "c ! k = 0" "k < 512" "n \<notin> dom h" "n \<noteq> 0"
    and "pos a = (r, Suc l, p)"
  shows "rad_ok (pos(n := (r, l, p * 512 + k))) V (h(n \<mapsto> replicate 512 0, a \<mapsto> c[k := n]))"
proof -
  define pos' where "pos' = pos(n := (r, l, p * 512 + k))"
  define h' where "h' = h(n \<mapsto> replicate 512 0, a \<mapsto> c[k := n])"
  have na: "n \<noteq> a" using assms(2,5) by auto
  have h': "h' n = Some (replicate 512 0)" "h' a = Some (c[k := n])" "\<And>b. b \<noteq> n \<Longrightarrow> b \<noteq> a \<Longrightarrow> h' b = h b"
    and pos': "pos' n = (r, l, p * 512 + k)" "\<And>b. b \<noteq> n \<Longrightarrow> pos' b = pos b"
    using na by (simp_all add: h'_def pos'_def)
  have keep: "\<forall>v \<in> dom h. v \<in> dom h' \<and> pos' v = pos v"
    using assms(5) pos'(2) unfolding h'_def by fastforce
  have old: "node_ok pos' V h' b d" if b: "h b = Some d" for b d
    using node_ok_mono [OF _ _ keep] keep assms(1) b unfolding rad_ok_def by blast
  have ok: "node_ok pos V h a c" using assms(1,2) by (simp add: rad_ok_def)
  have cj: "c ! j \<in> dom h' \<and> pos' (c ! j) = (r, l, p * 512 + j)" if "j < 512" "c ! j \<noteq> 0" for j
    using ok that keep assms(7) by (auto simp: node_ok_def)
  have "node_ok pos' V h' a (c[k := n])"
    using ok na assms(4,7) cj h'(1) pos' unfolding node_ok_def by (auto simp: nth_list_update)
  moreover have "node_ok pos' V h' n (replicate 512 0)" by (auto simp: node_ok_def split: prod.splits)
  ultimately have "node_ok pos' V h' b d" if "h' b = Some d" for b d
    using that old [of b d] h' by (cases "b = a"; cases "b = n") simp_all
  then show ?thesis by (simp add: rad_ok_def h'_def pos'_def)
qed

lemma rwalk_leaf:
  assumes "rad_ok pos V h" "h a = Some c" "pos a = (r, 0, p)" "on_path pos h r' i node key"
    and "k < 512" "r' \<noteq> r \<or> unat key \<noteq> p * 512 + k"
  shows "rwalk (h(a \<mapsto> c[k := v])) i node key = rwalk h i node key"
  using assms(4)
proof (induction i arbitrary: node)
  case 0
  show ?case
  proof (cases "node = a")
    case True
    then have "r' = r" "p = prefix_fs 0 key" using 0 assms(3) by (auto simp: on_path_def)
    then have "k \<noteq> radix_index_fs key 0" using assms(6) prefix_leaf [of key] by auto
    then show ?thesis using True assms(2) by simp
  qed simp
next
  case (Suc i)
  obtain d where d: "h node = Some d" using Suc.prems by (auto simp: on_path_def)
  have "node \<noteq> a" using Suc.prems assms(3) by (auto simp: on_path_def)
  then show ?case using d Suc.IH [OF child_on_path [OF assms(1) Suc.prems d]] by simp
qed

lemma rad_ok_leaf:
  assumes "rad_ok pos V h" "h a = Some c" "pos a = (r, 0, p)" "V r (p * 512 + k) v" "k < 512"
  shows "rad_ok pos V (h(a \<mapsto> c[k := v]))"
proof -
  define h' where "h' = h(a \<mapsto> c[k := v])"
  have h': "h' a = Some (c[k := v])" "\<And>b. b \<noteq> a \<Longrightarrow> h' b = h b" by (simp_all add: h'_def)
  have "dom h' = dom h" using assms(2) by (auto simp: h'_def)
  then have old: "node_ok pos V h' b d" if "h b = Some d" for b d
    using node_ok_mono [of pos V h b d pos h'] assms(1) that by (simp add: rad_ok_def)
  have "node_ok pos V h' a (c[k := v])"
    using old [OF assms(2)] assms(3-5) unfolding node_ok_def by (simp add: nth_list_update)
  then have "node_ok pos V h' b d" if "h' b = Some d" for b d
    using that old [of b d] h' by (cases "b = a") simp_all
  then show ?thesis by (simp add: rad_ok_def h'_def)
qed

section \<open>Adding a key\<close>

definition fresh_nodes :: "'x radix_heap_scheme \<Rightarrow> bool" where
  "fresh_nodes s \<longleftrightarrow> (\<forall>a \<in> dom (rnodes s). unat a < brk s)"

text \<open>The entries in use stay.\<close>

definition keeps_links :: "(u64 \<rightharpoonup> u64 list) \<Rightarrow> (u64 \<rightharpoonup> u64 list) \<Rightarrow> bool" where
  "keeps_links h h' \<longleftrightarrow>
     (\<forall>a c k. h a = Some c \<and> k < 512 \<and> c ! k \<noteq> 0 \<longrightarrow> (\<exists>c'. h' a = Some c' \<and> c' ! k = c ! k))"

lemma keeps_links_trans: "keeps_links h h' \<Longrightarrow> keeps_links h' h'' \<Longrightarrow> keeps_links h h''"
  unfolding keeps_links_def by metis

text \<open>The heap of nodes has grown by at most \<open>n\<close> nodes, and every lookup gives what it gave.\<close>

definition tree_ext where
  "tree_ext V n pos s pos' (s' :: 'x radix_heap_scheme) \<longleftrightarrow>
     rad_ok pos' V (rnodes s') \<and> fresh_nodes s' \<and>
     (\<exists>m h. s' = s\<lparr>malloc_header := m, rnodes := h\<rparr>) \<and> brk s \<le> brk s' \<and> brk s' \<le> brk s + 4096 * n \<and>
     dom (rnodes s) \<subseteq> dom (rnodes s') \<and> keeps_links (rnodes s) (rnodes s') \<and> (\<forall>a. unat a < brk s \<longrightarrow> pos' a = pos a) \<and>
     (\<forall>r i node key. on_path pos (rnodes s) r i node key \<longrightarrow>
        rwalk (rnodes s') i node key = rwalk (rnodes s) i node key)"

lemma on_path_ext:
  assumes "tree_ext V n pos s pos' s'" "fresh_nodes s" "on_path pos (rnodes s) r i node key"
  shows "on_path pos' (rnodes s') r i node key"
  using assms by (auto simp: tree_ext_def on_path_def fresh_nodes_def)

lemma tree_ext_refl: "rad_ok pos V (rnodes s) \<Longrightarrow> fresh_nodes s \<Longrightarrow> tree_ext V n pos s pos s"
  by (auto simp: tree_ext_def keeps_links_def intro!: exI [of _ "malloc_header s"] exI [of _ "rnodes s"])

lemma tree_ext_trans:
  assumes "tree_ext V n pos s pos' s'" "tree_ext V m pos' s' pos'' s''" "fresh_nodes s"
  shows "tree_ext V (n + m) pos s pos'' s''"
proof -
  obtain x h y g where e: "s' = s\<lparr>malloc_header := x, rnodes := h\<rparr>" "s'' = s'\<lparr>malloc_header := y, rnodes := g\<rparr>"
    using assms(1,2) unfolding tree_ext_def by blast
  then have "s'' = s\<lparr>malloc_header := y, rnodes := g\<rparr>" by simp
  then have ex: "\<exists>m h. s'' = s\<lparr>malloc_header := m, rnodes := h\<rparr>" by blast
  have "rwalk (rnodes s'') i node key = rwalk (rnodes s) i node key" if p: "on_path pos (rnodes s) r i node key" for r i node key
    using assms(1,2) p on_path_ext [OF assms(1,3) p] unfolding tree_ext_def by metis
  moreover have "pos'' a = pos a" if "unat a < brk s" for a
    using that assms(1,2) unfolding tree_ext_def by (metis order.strict_trans2)
  moreover have "brk s'' \<le> brk s + 4096 * (n + m)" "brk s \<le> brk s''"
    using assms(1,2) unfolding tree_ext_def by auto
  moreover have "rad_ok pos'' V (rnodes s'')" "fresh_nodes s''" "dom (rnodes s) \<subseteq> dom (rnodes s'')"
    using assms(1,2) unfolding tree_ext_def by auto
  moreover have "keeps_links (rnodes s) (rnodes s'')"
    using assms(1,2) unfolding tree_ext_def by (blast intro: keeps_links_trans)
  ultimately show ?thesis using ex unfolding tree_ext_def by (intro conjI) blast+
qed

lemma has_room_brk:
  "has_room n s \<longleftrightarrow> brk s + n \<le> unat MAP_VA + 50 * 1024 * 1024 \<and> 0 \<le> pmo_create_ret s \<and> 0 \<le> pmo_map_ret s"
  by (auto simp: has_room_def brk_def)

lemma has_room_ext:
  assumes "tree_ext V n pos s pos' s'" "has_room (4096 * n + m) s"
  shows "has_room m s'"
proof -
  have "brk s' \<le> brk s + 4096 * n" "pmo_create_ret s' = pmo_create_ret s" "pmo_map_ret s' = pmo_map_ret s"
    using assms(1) by (auto simp: tree_ext_def)
  then show ?thesis using assms(2) unfolding has_room_brk by linarith
qed

text \<open>The state after a cleared node was allocated.\<close>

definition with_node :: "'x radix_heap_scheme \<Rightarrow> 'x radix_heap_scheme" where
  "with_node s = s\<lparr>malloc_header := malloc_header s + 4096,
     rnodes := (rnodes s)(MAP_VA + malloc_header s \<mapsto> replicate 512 0)\<rparr>"

lemma calloc_node_spec:
  assumes "has_room 4096 s"
  shows "calloc_node s = Inr (MAP_VA + malloc_header s, with_node s)"
    and "brk (with_node s) = brk s + 4096" and "unat (MAP_VA + malloc_header s) = brk s" and "MAP_VA + malloc_header s \<noteq> 0"
proof -
  have r: "has_room (unat (4096::u64)) s" using assms by simp
  note f = malloc_fresh [OF r]
  show "calloc_node s = Inr (MAP_VA + malloc_header s, with_node s)"
    using f(1) by (simp add: calloc_node_def calloc_def bindS_simp thenS_simp with_node_def)
  show "brk (with_node s) = brk s + 4096" using f(4) by (simp add: with_node_def brk_def)
  show "unat (MAP_VA + malloc_header s) = brk s" "MAP_VA + malloc_header s \<noteq> 0" using f(2,3) by simp_all
qed

lemma link_ext:
  assumes "rad_ok pos V (rnodes s)" "fresh_nodes s" "has_room 4096 s"
    and "on_path pos (rnodes s) r (Suc i) node key" "rnodes s node = Some c" "c ! radix_index_fs key (Suc i) = 0"
  defines "n \<equiv> MAP_VA + malloc_header s"
  defines "s' \<equiv> (with_node s)\<lparr>rnodes := (rnodes (with_node s))(node \<mapsto> c[radix_index_fs key (Suc i) := n])\<rparr>"
  defines "pos' \<equiv> pos(n := (r, i, prefix_fs i key))"
  shows "tree_ext V 1 pos s pos' s'" and "on_path pos' (rnodes s') r i n key"
    and "rnodes s' node = Some (c[radix_index_fs key (Suc i) := n])" and "n \<noteq> 0"
proof -
  note f = calloc_node_spec [OF assms(3)]
  have u: "unat n = brk s" "n \<noteq> 0" using f(3,4) by (simp_all add: n_def)
  then have n: "n \<notin> dom (rnodes s)" "n \<noteq> 0" "unat n = brk s" using assms(2) unfolding fresh_nodes_def by force+
  have p: "pos node = (r, Suc i, prefix_fs (Suc i) key)" using assms(4) by (simp add: on_path_def)
  have h: "rnodes s' = (rnodes s)(n \<mapsto> replicate 512 0, node \<mapsto> c[radix_index_fs key (Suc i) := n])"
    by (simp add: s'_def with_node_def n_def)
  have b: "brk s' = brk s + 4096" using f(2) by (simp add: s'_def brk_def)
  have nn: "node \<noteq> n" using n(1) assms(5) by auto
  note l = assms(1,5,6) radix_index_fs_lt n(1,2) p
  have "rad_ok pos' V (rnodes s')" using rad_ok_link [OF l] by (simp add: h pos'_def prefix_step)
  moreover have "unat a < brk s + 4096" if "a \<in> dom (rnodes s')" for a
    using that assms(2,5) n(3) by (auto simp: fresh_nodes_def h split: if_splits intro: trans_less_add1)
  then have "fresh_nodes s'" by (simp add: fresh_nodes_def b)
  moreover have "s' = s\<lparr>malloc_header := malloc_header s + 4096, rnodes := rnodes s'\<rparr>"
    by (simp add: s'_def with_node_def)
  then have "\<exists>m h. s' = s\<lparr>malloc_header := m, rnodes := h\<rparr>" by blast
  moreover have "pos' a = pos a" if "unat a < brk s" for a using that n(3) by (auto simp: pos'_def)
  moreover have "rwalk (rnodes s') j nd k = rwalk (rnodes s) j nd k" if "on_path pos (rnodes s) r' j nd k" for r' j nd k
    unfolding h by (rule rwalk_link [OF l that])
  moreover have "dom (rnodes s) \<subseteq> dom (rnodes s')" by (auto simp: h)
  moreover have "keeps_links (rnodes s) (rnodes s')"
    using assms(5,6) n(1) by (auto simp: keeps_links_def h intro!: nth_list_update_neq)
  ultimately show "tree_ext V 1 pos s pos' s'" unfolding tree_ext_def b by simp
  show "on_path pos' (rnodes s') r i n key" using nn by (simp add: on_path_def h pos'_def)
  show "rnodes s' node = Some (c[radix_index_fs key (Suc i) := n])" by (simp add: h)
  show "n \<noteq> 0" by (rule n(2))
qed

primrec reaches :: "(u64 \<rightharpoonup> u64 list) \<Rightarrow> nat \<Rightarrow> u64 \<Rightarrow> u64 \<Rightarrow> u64 \<Rightarrow> bool" where
  "reaches h 0 node key leaf \<longleftrightarrow> node = leaf"
| "reaches h (Suc i) node key leaf \<longleftrightarrow>
     (\<exists>c. h node = Some c \<and> c ! radix_index_fs key (Suc i) \<noteq> 0 \<and> reaches h i (c ! radix_index_fs key (Suc i)) key leaf)"

lemma add_levels_fs_spec:
  assumes "rad_ok pos V (rnodes s)" "fresh_nodes s" "has_room (4096 * i) s" "on_path pos (rnodes s) r i node key"
  shows "\<exists>leaf s' pos'. radix_add_levels i node key s = Inr (Some leaf, s') \<and> tree_ext V i pos s pos' s' \<and>
    on_path pos' (rnodes s') r 0 leaf key \<and> reaches (rnodes s') i node key leaf"
  using assms
proof (induction i arbitrary: node s pos)
  case 0
  then have "tree_ext V 0 pos s pos s" by (intro tree_ext_refl)
  with 0 show ?case by auto
next
  case (Suc i)
  let ?k = "radix_index_fs key (Suc i)"
  obtain c where c: "rnodes s node = Some c" using Suc.prems(4) by (auto simp: on_path_def)
  have room: "has_room 4096 s" using Suc.prems(3) by (rule has_room_mono) simp
  show ?case
  proof (cases "c ! ?k = 0")
    case True
    define n where "n = MAP_VA + malloc_header s"
    define s1 where "s1 = (with_node s)\<lparr>rnodes := (rnodes (with_node s))(node \<mapsto> c[?k := n])\<rparr>"
    define pos1 where "pos1 = pos(n := (r, i, prefix_fs i key))"
    note l = link_ext [OF Suc.prems(1,2) room Suc.prems(4) c True, folded n_def, folded s1_def pos1_def]
    have r1: "has_room (4096 * i) s1" by (rule has_room_ext [OF l(1)]) (use Suc.prems(3) in simp)
    have t: "rad_ok pos1 V (rnodes s1)" "fresh_nodes s1" using l(1) by (simp_all add: tree_ext_def)
    obtain leaf s' pos' where r: "radix_add_levels i n key s1 = Inr (Some leaf, s')" "tree_ext V i pos1 s1 pos' s'"
      "on_path pos' (rnodes s') r 0 leaf key" "reaches (rnodes s') i n key leaf"
      using Suc.IH [OF t r1 l(2)] by blast
    have "radix_add_levels (Suc i) node key s = radix_add_levels i n key s1"
      using c True calloc_node_spec [OF room]
      by (simp add: bindS_simp thenS_simp new_radix_node_fs_def Let_def n_def s1_def with_node_def)
    moreover have "tree_ext V (Suc i) pos s pos' s'" using tree_ext_trans [OF l(1) r(2) Suc.prems(2)] by simp
    moreover have "\<exists>c'. rnodes s' node = Some c' \<and> c' ! ?k = n"
    proof -
      have "length c = 512" using Suc.prems(1) c by (auto simp: rad_ok_def node_ok_def)
      then have "rnodes s1 node = Some (c[?k := n]) \<and> ?k < 512 \<and> c[?k := n] ! ?k \<noteq> 0" "c[?k := n] ! ?k = n"
        using l(3,4) by simp_all
      then show ?thesis using r(2) unfolding tree_ext_def keeps_links_def by metis
    qed
    then have "reaches (rnodes s') (Suc i) node key leaf" using r(4) l(4) by auto
    ultimately show ?thesis using r(1,3) by metis
  next
    case False
    have p: "on_path pos (rnodes s) r i (c ! ?k) key" by (rule child_on_path [OF Suc.prems(1,4) c False])
    have "has_room (4096 * i) s" using Suc.prems(3) by (rule has_room_mono) simp
    then obtain leaf s' pos' where r: "radix_add_levels i (c ! ?k) key s = Inr (Some leaf, s')" "tree_ext V i pos s pos' s'"
      "on_path pos' (rnodes s') r 0 leaf key" "reaches (rnodes s') i (c ! ?k) key leaf"
      using Suc.IH [OF Suc.prems(1,2) _ p] by blast
    have "radix_add_levels (Suc i) node key s = radix_add_levels i (c ! ?k) key s"
      using c False by (simp add: bindS_simp Let_def)
    moreover have "tree_ext V (Suc i) pos s pos' s'" using r(2) by (simp add: tree_ext_def)
    moreover have "\<exists>c'. rnodes s' node = Some c' \<and> c' ! ?k = c ! ?k"
      using r(2) c False radix_index_fs_lt [of key "Suc i"] unfolding tree_ext_def keeps_links_def by blast
    then have "reaches (rnodes s') (Suc i) node key leaf" using r(4) False by auto
    ultimately show ?thesis using r(1,3) by metis
  qed
qed

lemma reaches_write:
  assumes "rad_ok pos V h" "reaches h i node key leaf" "on_path pos h r i node key" "h leaf = Some c"
  shows "rwalk (h(leaf \<mapsto> c[radix_index_fs key 0 := v])) i node key = v"
  using assms(2,3)
proof (induction i arbitrary: node)
  case 0
  have "length c = 512" using assms(1,4) by (auto simp: rad_ok_def node_ok_def)
  then show ?case using 0 by simp
next
  case (Suc i)
  then obtain d where d: "h node = Some d" "d ! radix_index_fs key (Suc i) \<noteq> 0"
    "reaches h i (d ! radix_index_fs key (Suc i)) key leaf" by auto
  note p = child_on_path [OF assms(1) Suc.prems(2) d(1,2)]
  have "on_path pos h r 0 leaf key" if "reaches h j nd key leaf" "on_path pos h r j nd key" for j nd
    using that by (induction j arbitrary: nd) (auto dest: child_on_path [OF assms(1)])
  then have "pos leaf = (r, 0, prefix_fs 0 key)" using d(3) p by (auto simp: on_path_def)
  then have "node \<noteq> leaf" using Suc.prems(2) by (auto simp: on_path_def)
  then show ?case using d Suc.IH [OF d(3) p] by simp
qed

text \<open>A new value under one key of one tree: seven nodes at most are allocated.\<close>

lemma radix_add_fs_spec:
  assumes "rad_ok pos V (rnodes s)" "fresh_nodes s" "has_room (7 * 4096) s" "is_root pos (rnodes s) (root_fs t)"
    and "V (root_fs t) (unat key) v"
  shows "\<exists>s' pos'. radix_add_fs t key v s = Inr ((0, t), s') \<and> rad_ok pos' V (rnodes s') \<and> fresh_nodes s' \<and>
    (\<exists>m h. s' = s\<lparr>malloc_header := m, rnodes := h\<rparr>) \<and> brk s \<le> brk s' \<and> brk s' \<le> brk s + 7 * 4096 \<and>
    dom (rnodes s) \<subseteq> dom (rnodes s') \<and> (\<forall>a. unat a < brk s \<longrightarrow> pos' a = pos a) \<and>
    rlookup (rnodes s') (root_fs t) key = v \<and>
    (\<forall>r k. is_root pos (rnodes s) r \<and> (r, k) \<noteq> (root_fs t, key) \<longrightarrow> rlookup (rnodes s') r k = rlookup (rnodes s) r k)"
proof -
  define r where "r = root_fs t"
  have path: "on_path pos (rnodes s) r 7 r key" and r0: "r \<noteq> 0"
    using root_on_path assms(4) by (simp_all add: r_def is_root_def)
  obtain leaf s1 pos' where a: "radix_add_levels 7 r key s = Inr (Some leaf, s1)" "tree_ext V 7 pos s pos' s1"
    "on_path pos' (rnodes s1) r 0 leaf key" "reaches (rnodes s1) 7 r key leaf"
    using add_levels_fs_spec [OF assms(1,2) _ path] assms(3) by auto
  obtain c where c: "rnodes s1 leaf = Some c" using a(3) by (auto simp: on_path_def)
  have pl: "pos' leaf = (r, 0, prefix_fs 0 key)" using a(3) by (simp add: on_path_def)
  have ok1: "rad_ok pos' V (rnodes s1)" "fresh_nodes s1" "brk s \<le> brk s1" "brk s1 \<le> brk s + 7 * 4096"
    "dom (rnodes s) \<subseteq> dom (rnodes s1)" "\<forall>a. unat a < brk s \<longrightarrow> pos' a = pos a"
    "\<exists>m h. s1 = s\<lparr>malloc_header := m, rnodes := h\<rparr>" using a(2) by (simp_all add: tree_ext_def)
  let ?h = "(rnodes s1)(leaf \<mapsto> c[radix_index_fs key 0 := v])"
  let ?s = "s1\<lparr>rnodes := ?h\<rparr>"
  have "radix_add_fs t key v s = Inr ((0, t), ?s)"
    using a(1) c r0 by (simp add: radix_add_fs_def RADIX_LEVELS_fs_def bindS_simp thenS_simp r_def)
  moreover have "rad_ok pos' V ?h"
    by (rule rad_ok_leaf [OF ok1(1) c pl]) (use assms(5) in \<open>simp_all add: prefix_leaf r_def\<close>)
  moreover have "fresh_nodes ?s" using ok1(2) c by (auto simp: fresh_nodes_def brk_def)
  moreover obtain m h where "s1 = s\<lparr>malloc_header := m, rnodes := h\<rparr>" using ok1(7) by blast
  then have "?s = s\<lparr>malloc_header := m, rnodes := ?h\<rparr>" by simp
  then have "\<exists>m h. ?s = s\<lparr>malloc_header := m, rnodes := h\<rparr>" by blast
  moreover have "brk ?s = brk s1" by (simp add: brk_def)
  moreover have "rlookup ?h r key = v"
    unfolding rlookup_def
    by (rule reaches_write [OF ok1(1) a(4) on_path_ext [OF a(2) assms(2) path] c])
  moreover have "rlookup ?h r' k = rlookup (rnodes s) r' k" if q: "is_root pos (rnodes s) r'" "(r', k) \<noteq> (r, key)" for r' k
  proof -
    have p: "on_path pos (rnodes s) r' 7 r' k" by (rule root_on_path [OF q(1)])
    have "r' \<noteq> r \<or> unat k \<noteq> prefix_fs 0 key * 512 + radix_index_fs key 0"
      using q(2) by (auto simp: prefix_leaf word_unat_eq_iff)
    then have "rwalk ?h 7 r' k = rwalk (rnodes s1) 7 r' k"
      by (intro rwalk_leaf [OF ok1(1) c pl on_path_ext [OF a(2) assms(2) p]]) simp_all
    also have "\<dots> = rwalk (rnodes s) 7 r' k" using a(2) p unfolding tree_ext_def by blast
    finally show ?thesis by (simp add: rlookup_def)
  qed
  moreover have "dom (rnodes s) \<subseteq> dom ?h" using ok1(5) by auto
  ultimately show ?thesis using ok1(3,4,6) unfolding r_def
    by (intro exI [of _ ?s] exI [of _ pos']) (auto simp del: fun_upd_apply)
qed

end
