(* ===== verification/Fs_Hlist.thy ===== *)
theory Fs_Hlist
  imports User_Heap
begin

text \<open>The hash-chain lists of \<^verbatim>\<open>libchcore/include/chcore/fs/list.h\<close> on a heap of links. A list head and
  a node both start with their \<^verbatim>\<open>next\<close> field, so the address \<^verbatim>\<open>&head->next\<close> is the address of
  the head; \<^verbatim>\<open>pprev\<close> is the address of the field that points to a node. NULL is 0. The chain at a
  head represents a sequence of nodes: insertion is at its front, removal anywhere. The tables of
  \<^verbatim>\<open>hashtable.h\<close> hold these sequences.\<close>

record hlinks =
  hnext :: "u64 \<Rightarrow> u64"
  pprev :: "u64 \<Rightarrow> u64"

section \<open>Operations\<close>

definition init_hlist_head :: "u64 \<Rightarrow> hlinks \<Rightarrow> hlinks" where
  "init_hlist_head h s = s\<lparr>hnext := (hnext s)(h := 0)\<rparr>"

definition init_hlist_node :: "u64 \<Rightarrow> hlinks \<Rightarrow> hlinks" where
  "init_hlist_node n s = s\<lparr>hnext := (hnext s)(n := 0), pprev := (pprev s)(n := 0)\<rparr>"

definition hlist_add :: "u64 \<Rightarrow> u64 \<Rightarrow> hlinks \<Rightarrow> hlinks" where
  "hlist_add new_node head s =
     (let s = s\<lparr>hnext := (hnext s)(new_node := hnext s head)\<rparr>;
          s = s\<lparr>pprev := (pprev s)(new_node := head)\<rparr>;
          s = (if hnext s head \<noteq> 0 then s\<lparr>pprev := (pprev s)(hnext s head := new_node)\<rparr> else s) in
      s\<lparr>hnext := (hnext s)(head := new_node)\<rparr>)"

definition hlist_del :: "u64 \<Rightarrow> hlinks \<Rightarrow> hlinks" where
  "hlist_del node s =
     (let s = (if hnext s node \<noteq> 0 then s\<lparr>pprev := (pprev s)(hnext s node := pprev s node)\<rparr> else s) in
      s\<lparr>hnext := (hnext s)(pprev s node := hnext s node)\<rparr>)"

definition hlist_empty :: "u64 \<Rightarrow> hlinks \<Rightarrow> bool" where
  "hlist_empty head s \<longleftrightarrow> hnext s head = 0"

section \<open>Chains\<close>

fun hchain :: "hlinks \<Rightarrow> u64 \<Rightarrow> u64 list \<Rightarrow> bool" where
  "hchain s p [] \<longleftrightarrow> hnext s p = 0"
| "hchain s p (x # xs) \<longleftrightarrow> hnext s p = x \<and> x \<noteq> 0 \<and> pprev s x = p \<and> hchain s x xs"

definition is_hlist :: "hlinks \<Rightarrow> u64 \<Rightarrow> u64 list \<Rightarrow> bool" where
  "is_hlist s head xs \<longleftrightarrow> hchain s head xs \<and> distinct (head # xs)"

lemma hchain_cong:
  "(\<And>y. y \<in> insert p (set xs) \<Longrightarrow> hnext s y = hnext s' y) \<Longrightarrow> (\<And>y. y \<in> set xs \<Longrightarrow> pprev s y = pprev s' y) \<Longrightarrow>
     hchain s p xs = hchain s' p xs"
  by (induction xs arbitrary: p) auto

lemma hchain_nonzero: "hchain s p xs \<Longrightarrow> 0 \<notin> set xs"
  by (induction xs arbitrary: p) auto

lemma hchain_next: "hchain s p xs \<Longrightarrow> y \<in> insert p (set xs) \<Longrightarrow> hnext s y \<in> insert 0 (set xs)"
  by (induction xs arbitrary: p) auto

lemma hlist_add_spec:
  assumes "is_hlist s head xs" "n \<notin> set xs" "n \<noteq> head" "n \<noteq> 0"
  shows "is_hlist (hlist_add n head s) head (n # xs)"
proof -
  let ?s = "hlist_add n head s"
  have c: "hchain s head xs" "distinct (head # xs)" using assms(1) by (simp_all add: is_hlist_def)
  have "hchain ?s n xs"
  proof (cases xs)
    case Nil
    then show ?thesis using c(1) assms(3) by (simp add: hlist_add_def Let_def)
  next
    case (Cons x ys)
    then have "hchain ?s x ys = hchain s x ys"
      using c assms(2) by (intro hchain_cong) (auto simp: hlist_add_def Let_def)
    then show ?thesis using Cons c assms(2,3) by (auto simp: hlist_add_def Let_def)
  qed
  moreover have "hnext s head \<noteq> n" using hchain_next [OF c(1), of head] assms(2,4) by auto
  ultimately show ?thesis using c(2) assms(2-4) by (simp add: is_hlist_def hlist_add_def Let_def)
qed

lemma hchain_del:
  assumes "hchain s p xs" "distinct (p # xs)" "n \<in> set xs"
  shows "hchain (hlist_del n s) p (remove1 n xs)"
  using assms
proof (induction xs arbitrary: p)
  case (Cons x ys)
  show ?case
  proof (cases "x = n")
    case True
    then have p: "pprev s n = p" "hchain s n ys" "n \<notin> set ys" "p \<notin> set ys" "p \<noteq> n" using Cons.prems by auto
    show ?thesis
    proof (cases ys)
      case Nil
      then show ?thesis using True p by (simp add: hlist_del_def Let_def)
    next
      case (Cons z zs)
      have "hchain (hlist_del n s) z zs = hchain s z zs"
        using p Cons \<open>distinct (p # x # ys)\<close> by (intro hchain_cong) (auto simp: hlist_del_def Let_def)
      then show ?thesis using True p Cons by (auto simp: hlist_del_def Let_def)
    qed
  next
    case False
    then have n: "n \<in> set ys" using Cons.prems(3) by simp
    then obtain q where q: "pprev s n = q" "q \<in> insert x (set ys)"
    proof -
      have "\<exists>q \<in> insert x (set ys). pprev s n = q" using \<open>hchain s p (x # ys)\<close> n
        by (induction ys arbitrary: x p) auto
      then show ?thesis using that by blast
    qed
    have "hchain (hlist_del n s) x (remove1 n ys)" using Cons.IH [of x] Cons.prems n by auto
    moreover have "hnext (hlist_del n s) p = x" using q Cons.prems by (auto simp: hlist_del_def Let_def)
    moreover have "pprev (hlist_del n s) x = p"
    proof -
      have "hnext s n \<in> insert 0 (set ys)" using Cons.prems n by (intro hchain_next [of s x]) auto
      then have "hnext s n \<noteq> x" using Cons.prems by auto
      then show ?thesis using Cons.prems by (simp add: hlist_del_def Let_def)
    qed
    ultimately show ?thesis using False Cons.prems by simp
  qed
qed simp

lemma hlist_del_spec:
  assumes "is_hlist s head xs" "n \<in> set xs"
  shows "is_hlist (hlist_del n s) head (remove1 n xs)"
  using assms hchain_del [of s head xs n] by (auto simp: is_hlist_def dest: notin_set_remove1)

text \<open>A list that shares no node with the one an operation works on.\<close>

lemma hlist_add_other:
  assumes "is_hlist s head xs" "is_hlist s head' ys" "({head, n} \<union> set xs) \<inter> ({head'} \<union> set ys) = {}"
  shows "is_hlist (hlist_add n head s) head' ys"
proof -
  have "hnext s head \<in> insert 0 (set xs)" using assms(1) by (intro hchain_next) (auto simp: is_hlist_def)
  then have "hchain (hlist_add n head s) head' ys = hchain s head' ys"
    using assms(3) by (intro hchain_cong) (auto simp: hlist_add_def Let_def)
  then show ?thesis using assms(2) by (simp add: is_hlist_def)
qed

end
