(* ===== verification/Fs_Base.thy ===== *)
theory Fs_Base
  imports Fs_Radix
begin

text \<open>The part that every file server links in, \<^verbatim>\<open>userland/servers/fs_base\<close>: the table of open files
  (\<^verbatim>\<open>fs_vnode.c\<close>), the translation of a client's descriptor to an entry of the table
  (\<^verbatim>\<open>fs_wrapper.c\<close>), and the handler of each request (\<^verbatim>\<open>fs_wrapper_ops.c\<close>), which calls the
  file system through \<^verbatim>\<open>server_ops\<close>, an argument here. A request is the value of the union that its
  tag selects; the message area of the call is a list of bytes, which a read overwrites from its start.
  Lists of nodes are sequences.\<close>

section \<open>State\<close>

datatype fs_vnode_type = FS_NODE_RESERVED | FS_NODE_REG | FS_NODE_DIR

record fs_vnode =
  vnode_id :: u64
  vnode_type :: fs_vnode_type
  vnode_refcnt :: int
  vnode_size :: u64
  pmo_cap :: int
  vnode_private :: u64

record server_entry =
  entry_flags :: u64
  entry_offset :: u64
  entry_path :: u64
  entry_vnode :: u64

record server_entry_node =
  client_badge :: u64
  fd_to_fid :: "int list"

record fs_base = radix_heap +
  server_entrys :: "u64 list"
  entries :: "u64 \<rightharpoonup> server_entry"
  vnodes :: "u64 \<rightharpoonup> fs_vnode"
  strings :: "u64 \<rightharpoonup> u8 list"
  fs_vnode_list :: "u64 list"
  server_entry_mapping :: "server_entry_node list"
  fs_wrapper_meta_lock :: bool
  mounted :: bool

type_synonym ('x, 'a) fop = "('x fs_base_scheme, 'a) sop"

definition MAX_SERVER_ENTRY_NUM :: nat where "MAX_SERVER_ENTRY_NUM = 1024"
definition MAX_SERVER_ENTRY_PER_CLIENT :: nat where "MAX_SERVER_ENTRY_PER_CLIENT = 1024"
definition AT_FDROOT :: int where "AT_FDROOT = -101"
definition SIZEOF_fs_request :: nat where "SIZEOF_fs_request = 536"

text \<open>\<^verbatim>\<open>struct fs_server_ops\<close>. \<open>open\<close> returns its result and the identifier, size, type and private
  pointer of the file; \<open>read\<close> and \<open>getdents64\<close> return the message area they filled.\<close>

record 's fs_server_ops =
  ops_open :: "u8 list \<Rightarrow> int \<Rightarrow> int \<Rightarrow> ('s, int \<times> u64 \<times> u64 \<times> fs_vnode_type \<times> u64) sop"
  ops_read :: "u64 \<Rightarrow> u64 \<Rightarrow> u64 \<Rightarrow> u8 list \<Rightarrow> ('s, int \<times> u8 list) sop"
  ops_write :: "u64 \<Rightarrow> u64 \<Rightarrow> u64 \<Rightarrow> u8 list \<Rightarrow> ('s, int) sop"
  ops_close :: "u64 \<Rightarrow> bool \<Rightarrow> ('s, int) sop"
  ops_creat :: "u8 list \<Rightarrow> ('s, int) sop"
  ops_unlink :: "u8 list \<Rightarrow> int \<Rightarrow> ('s, int) sop"
  ops_mkdir :: "u8 list \<Rightarrow> int \<Rightarrow> ('s, int) sop"
  ops_rmdir :: "u8 list \<Rightarrow> int \<Rightarrow> ('s, int) sop"
  ops_getdents64 :: "int \<Rightarrow> u64 \<Rightarrow> u8 list \<Rightarrow> ('s, int \<times> u8 list) sop"
  ops_getsize :: "u8 list \<Rightarrow> ('s, int) sop"

datatype fs_request =
    FS_REQ_UNDEFINED
  | FS_REQ_OPEN int "u8 list" int int
  | FS_REQ_CLOSE int
  | FS_REQ_CREAT "u8 list" int
  | FS_REQ_MKDIR "u8 list" int
  | FS_REQ_RMDIR "u8 list" int
  | FS_REQ_UNLINK "u8 list" int
  | FS_REQ_READ int u64
  | FS_REQ_WRITE int u64
  | FS_REQ_GET_SIZE "u8 list"
  | FS_REQ_LSEEK int u64 int
  | FS_REQ_GETDENTS64 int u64
  | FS_REQ_MOUNT
  | FS_REQ_UMOUNT
  | FS_REQ_GET_FS_CAP "u8 list"

section \<open>Locks\<close>

text \<open>\<^verbatim>\<open>libchcore/src/sync/spin.c\<close>. The handler is the only one to take the lock: waiting for it
  while it is held does not end.\<close>

definition spinlock_init :: "('x, unit) fop" where
  "spinlock_init = modify (\<lambda>s. s\<lparr>fs_wrapper_meta_lock := False\<rparr>)"

definition spinlock_lock :: "('x, unit) fop" where
  "spinlock_lock =
     bindS (gets fs_wrapper_meta_lock) (\<lambda>held.
       if held then fault Diverge else modify (\<lambda>s. s\<lparr>fs_wrapper_meta_lock := True\<rparr>))"

definition spinlock_unlock :: "('x, unit) fop" where
  "spinlock_unlock = modify (\<lambda>s. s\<lparr>fs_wrapper_meta_lock := False\<rparr>)"

section \<open>The table of open files\<close>

definition server_entry_at :: "int \<Rightarrow> ('x, u64) fop" where
  "server_entry_at fd =
     bindS (gets server_entrys) (\<lambda>es.
       if 0 \<le> fd \<and> nat fd < length es then ret (es ! nat fd) else fault OutOfRange)"

definition upd_entry :: "u64 \<Rightarrow> (server_entry \<Rightarrow> server_entry) \<Rightarrow> ('x, unit) fop" where
  "upd_entry e f = bindS (readS entries e) (\<lambda>x. modify (\<lambda>s. s\<lparr>entries := (entries s)(e \<mapsto> f x)\<rparr>))"

definition upd_vnode :: "u64 \<Rightarrow> (fs_vnode \<Rightarrow> fs_vnode) \<Rightarrow> ('x, unit) fop" where
  "upd_vnode v f = bindS (readS vnodes v) (\<lambda>x. modify (\<lambda>s. s\<lparr>vnodes := (vnodes s)(v \<mapsto> f x)\<rparr>))"

definition free_entry :: "int \<Rightarrow> ('x, unit) fop" where
  "free_entry entry_idx =
     bindS (server_entry_at entry_idx) (\<lambda>e.
     bindS (readS entries e) (\<lambda>x.
     thenS (free (entry_path x))
     (thenS (free e)
       (modify (\<lambda>s. s\<lparr>server_entrys := (server_entrys s)[nat entry_idx := 0]\<rparr>)))))"

text \<open>The first free index from \<open>i\<close> on.\<close>

fun first_free :: "nat \<Rightarrow> u64 list \<Rightarrow> nat option" where
  "first_free i [] = None"
| "first_free i (e # es) = (if e = 0 then Some i else first_free (Suc i) es)"

definition alloc_entry :: "('x, int) fop" where
  "alloc_entry =
     bindS (gets server_entrys) (\<lambda>es.
       case first_free 0 es of
         None \<Rightarrow> ret (- 1)
       | Some i \<Rightarrow>
           bindS (malloc 32) (\<lambda>p.
           thenS (modify (\<lambda>s. s\<lparr>server_entrys := (server_entrys s)[i := p]\<rparr>))
             (if p = 0 then ret (- 1)
              else
                thenS (modify (\<lambda>s. s\<lparr>entries := (entries s)(p \<mapsto>
                         \<lparr>entry_flags = 0, entry_offset = 0, entry_path = 0, entry_vnode = 0\<rparr>)\<rparr>))
                  (ret (int i)))))"

definition assign_entry :: "u64 \<Rightarrow> u64 \<Rightarrow> u64 \<Rightarrow> u64 \<Rightarrow> u64 \<Rightarrow> ('x, unit) fop" where
  "assign_entry e f off p n =
     upd_entry e (\<lambda>x. x\<lparr>entry_flags := f, entry_offset := off, entry_path := p, entry_vnode := n\<rparr>)"

definition fs_vnode_init :: "('x, unit) fop" where
  "fs_vnode_init = modify (\<lambda>s. s\<lparr>fs_vnode_list := []\<rparr>)"

definition alloc_fs_vnode :: "u64 \<Rightarrow> fs_vnode_type \<Rightarrow> u64 \<Rightarrow> u64 \<Rightarrow> ('x, u64) fop" where
  "alloc_fs_vnode vid vtype vsize priv =
     bindS (malloc 64) (\<lambda>p.
     thenS (modify (\<lambda>s. s\<lparr>vnodes := (vnodes s)(p \<mapsto>
              \<lparr>vnode_id = vid, vnode_type = vtype, vnode_refcnt = 1, vnode_size = vsize, pmo_cap = - 1,
                vnode_private = priv\<rparr>)\<rparr>))
       (ret p))"

definition push_fs_vnode :: "u64 \<Rightarrow> ('x, unit) fop" where
  "push_fs_vnode n = modify (\<lambda>s. s\<lparr>fs_vnode_list := fs_vnode_list s @ [n]\<rparr>)"

definition pop_free_fs_vnode :: "u64 \<Rightarrow> ('x, unit) fop" where
  "pop_free_fs_vnode n =
     thenS (modify (\<lambda>s. s\<lparr>fs_vnode_list := remove1 n (fs_vnode_list s)\<rparr>)) (free n)"

fun find_vnode :: "u64 list \<Rightarrow> u64 \<Rightarrow> ('x, u64) fop" where
  "find_vnode [] vid = ret 0"
| "find_vnode (n # ns) vid =
     bindS (readS vnodes n) (\<lambda>v. if vnode_id v = vid then ret n else find_vnode ns vid)"

definition get_fs_vnode_by_id :: "u64 \<Rightarrow> ('x, u64) fop" where
  "get_fs_vnode_by_id vid = bindS (gets fs_vnode_list) (\<lambda>ns. find_vnode ns vid)"

definition inc_ref_fs_vnode :: "u64 \<Rightarrow> ('x, unit) fop" where
  "inc_ref_fs_vnode n = upd_vnode n (\<lambda>v. v\<lparr>vnode_refcnt := vnode_refcnt v + 1\<rparr>)"

definition dec_ref_fs_vnode :: "u64 \<Rightarrow> ('x, unit) fop" where
  "dec_ref_fs_vnode n =
     thenS (upd_vnode n (\<lambda>v. v\<lparr>vnode_refcnt := vnode_refcnt v - 1\<rparr>))
       (bindS (readS vnodes n) (\<lambda>v. bug_on (\<not> vnode_refcnt v \<ge> 0)))"

section \<open>Descriptors of a client\<close>

definition init_fs_wrapper :: "('x, unit) fop" where
  "init_fs_wrapper =
     thenS (modify (\<lambda>s. s\<lparr>server_entry_mapping := []\<rparr>))
     (thenS fs_vnode_init spinlock_init)"

fun find_client :: "u64 \<Rightarrow> server_entry_node list \<Rightarrow> nat option" where
  "find_client badge [] = None"
| "find_client badge (n # ns) =
     (if client_badge n = badge then Some 0 else map_option Suc (find_client badge ns))"

definition fs_wrapper_get_server_entry :: "u64 \<Rightarrow> int \<Rightarrow> ('x, int) fop" where
  "fs_wrapper_get_server_entry badge fd =
     (if fd = AT_FDROOT then ret AT_FDROOT
      else
        thenS (bug_on (fd < 0 \<or> fd > int MAX_SERVER_ENTRY_PER_CLIENT))
        (bindS (gets server_entry_mapping) (\<lambda>ns.
          case find_client badge ns of
            None \<Rightarrow> ret (- 1)
          | Some i \<Rightarrow>
              if nat fd < length (fd_to_fid (ns ! i)) then ret (fd_to_fid (ns ! i) ! nat fd)
              else fault OutOfRange)))"

definition set_fid :: "int \<Rightarrow> int \<Rightarrow> server_entry_node \<Rightarrow> server_entry_node res" where
  "set_fid fd fid n =
     (if nat fd < length (fd_to_fid n) then Inr (n\<lparr>fd_to_fid := (fd_to_fid n)[nat fd := fid]\<rparr>)
      else Inl OutOfRange)"

definition fs_wrapper_set_server_entry :: "u64 \<Rightarrow> int \<Rightarrow> int \<Rightarrow> ('x, unit) fop" where
  "fs_wrapper_set_server_entry badge fd fid =
     thenS (bug_on (fd < 0 \<or> fd > int MAX_SERVER_ENTRY_PER_CLIENT))
     (bindS (gets server_entry_mapping) (\<lambda>ns.
       case find_client badge ns of
         Some i \<Rightarrow>
           bindS (liftR (set_fid fd fid (ns ! i))) (\<lambda>n.
             modify (\<lambda>s. s\<lparr>server_entry_mapping := ns[i := n]\<rparr>))
       | None \<Rightarrow>
           thenS (malloc 4120)
           (bindS (liftR (set_fid fd fid
                \<lparr>client_badge = badge, fd_to_fid = replicate MAX_SERVER_ENTRY_PER_CLIENT (- 1)\<rparr>)) (\<lambda>n.
             modify (\<lambda>s. s\<lparr>server_entry_mapping := ns @ [n]\<rparr>)))))"

definition translate_fd_to_fid :: "u64 \<Rightarrow> fs_request \<Rightarrow> ('x, fs_request) fop" where
  "translate_fd_to_fid badge fr =
     (case fr of
        FS_REQ_READ fd cnt \<Rightarrow>
          bindS (fs_wrapper_get_server_entry badge fd) (\<lambda>fid. ret (FS_REQ_READ fid cnt))
      | FS_REQ_WRITE fd cnt \<Rightarrow>
          bindS (fs_wrapper_get_server_entry badge fd) (\<lambda>fid. ret (FS_REQ_WRITE fid cnt))
      | FS_REQ_LSEEK fd off whence \<Rightarrow>
          bindS (fs_wrapper_get_server_entry badge fd) (\<lambda>fid. ret (FS_REQ_LSEEK fid off whence))
      | FS_REQ_CLOSE fd \<Rightarrow>
          bindS (fs_wrapper_get_server_entry badge fd) (\<lambda>fid. ret (FS_REQ_CLOSE fid))
      | FS_REQ_GETDENTS64 fd cnt \<Rightarrow>
          bindS (fs_wrapper_get_server_entry badge fd) (\<lambda>fid. ret (FS_REQ_GETDENTS64 fid cnt))
      | _ \<Rightarrow> ret fr)"

section \<open>Pages of a file\<close>

definition CACHED_PAGE_SIZE :: u64 where "CACHED_PAGE_SIZE = 4096"
definition CACHED_BLOCK_SIZE :: u64 where "CACHED_BLOCK_SIZE = 512"

definition real_file_reader ::
  "'x fs_base_scheme fs_server_ops \<Rightarrow> u8 list \<Rightarrow> u64 \<Rightarrow> u64 \<Rightarrow> ('x, int \<times> u8 list) fop" where
  "real_file_reader server_ops buffer file_page_idx vn =
     bindS (readS vnodes vn) (\<lambda>v.
       (let sz = CACHED_PAGE_SIZE; offset = file_page_idx * CACHED_PAGE_SIZE in
        bindS (liftR (memset buffer 0 (unat sz))) (\<lambda>buffer.
          (let sz = (if offset + sz > vnode_size v then vnode_size v - offset else sz) in
           ops_read server_ops (vnode_private v) offset sz buffer))))"

definition real_file_writer ::
  "'x fs_base_scheme fs_server_ops \<Rightarrow> u8 list \<Rightarrow> u64 \<Rightarrow> int \<Rightarrow> u64 \<Rightarrow> ('x, int) fop" where
  "real_file_writer server_ops buffer file_page_idx page_block_idx vn =
     bindS (readS vnodes vn) (\<lambda>v.
       (let offset = file_page_idx * CACHED_PAGE_SIZE;
            (offset, sz) =
              (if page_block_idx = - 1 then (offset, CACHED_PAGE_SIZE)
               else (offset + word_of_int (page_block_idx * 512), CACHED_BLOCK_SIZE));
            sz = (if offset + sz > vnode_size v then vnode_size v - offset else sz) in
        ops_write server_ops (vnode_private v) offset sz buffer))"

section \<open>Requests\<close>

definition strdup :: "u8 list \<Rightarrow> ('x, u64) fop" where
  "strdup str =
     bindS (liftR (strlen str)) (\<lambda>l.
     bindS (malloc (of_nat (l + 1))) (\<lambda>d.
       if d = 0 then ret 0
       else thenS (modify (\<lambda>s. s\<lparr>strings := (strings s)(d \<mapsto> take (l + 1) str)\<rparr>)) (ret d)))"

definition fd_type_invalid :: "int \<Rightarrow> bool \<Rightarrow> ('x, bool) fop" where
  "fd_type_invalid fd isfile =
     (if fd < 0 \<or> fd \<ge> int MAX_SERVER_ENTRY_NUM then ret True
      else
        bindS (server_entry_at fd) (\<lambda>e.
          if e = 0 then ret True
          else
            bindS (readS entries e) (\<lambda>x.
            bindS (readS vnodes (entry_vnode x)) (\<lambda>v.
              ret (isfile \<and> vnode_type v \<noteq> FS_NODE_REG \<or> \<not> isfile \<and> vnode_type v \<noteq> FS_NODE_DIR)))))"

definition default_server_operation :: "int" where
  "default_server_operation = - 1"

text \<open>\<^verbatim>\<open>entry_off\<close> is a local variable that is never assigned: its value is an argument.\<close>

definition fs_wrapper_open ::
  "'x fs_base_scheme fs_server_ops \<Rightarrow> u64 \<Rightarrow> u64 \<Rightarrow> int \<Rightarrow> u8 list \<Rightarrow> int \<Rightarrow> int \<Rightarrow> ('x, int) fop" where
  "fs_wrapper_open server_ops badge entry_off new_fd path flags mode =
     bindS (ops_open server_ops path flags mode) (\<lambda>(r, vid, vsize, vtype, priv).
       if r \<noteq> 0 then ret r
       else
         bindS alloc_entry (\<lambda>entry_id.
           if entry_id < 0 then
             thenS (ops_close server_ops priv (vtype = FS_NODE_DIR)) (ret (- EMFILE))
           else
             bindS (get_fs_vnode_by_id vid) (\<lambda>vn.
             bindS (if vn \<noteq> 0 then thenS (inc_ref_fs_vnode vn) (ret vn)
                    else bindS (alloc_fs_vnode vid vtype vsize priv) (\<lambda>n. thenS (push_fs_vnode n) (ret n))) (\<lambda>vn.
             bindS (strdup path) (\<lambda>p.
             bindS (server_entry_at entry_id) (\<lambda>e.
             thenS (assign_entry e (word_of_int flags) entry_off p vn)
             (thenS (fs_wrapper_set_server_entry badge new_fd entry_id)
               (ret new_fd))))))))"

definition fs_wrapper_close :: "'x fs_base_scheme fs_server_ops \<Rightarrow> int \<Rightarrow> ('x, int) fop" where
  "fs_wrapper_close server_ops fd =
     bindS (fd_type_invalid fd True) (\<lambda>inv1.
     bindS (if inv1 then fd_type_invalid fd False else ret False) (\<lambda>inv.
       if inv then ret (- ENOENT)
       else
         bindS (server_entry_at fd) (\<lambda>e.
         bindS (readS entries e) (\<lambda>x.
         bindS (readS vnodes (entry_vnode x)) (\<lambda>v.
         bindS (ops_close server_ops (vnode_private v) (vnode_type v = FS_NODE_DIR)) (\<lambda>r.
           if r \<noteq> 0 then ret r
           else
             thenS (free_entry fd)
             (thenS (dec_ref_fs_vnode (entry_vnode x))
             (bindS (readS vnodes (entry_vnode x)) (\<lambda>v.
               thenS (if vnode_refcnt v = 0 then pop_free_fs_vnode (entry_vnode x) else ret ())
                 (ret 0))))))))))"

definition fs_wrapper_read ::
  "'x fs_base_scheme fs_server_ops \<Rightarrow> int \<Rightarrow> u64 \<Rightarrow> u8 list \<Rightarrow> ('x, int \<times> u8 list) fop" where
  "fs_wrapper_read server_ops fd cnt msg =
     bindS (server_entry_at fd) (\<lambda>e.
     bindS (readS entries e) (\<lambda>x.
     bindS (readS vnodes (entry_vnode x)) (\<lambda>v.
       (let offset = entry_offset x in
        if offset \<ge> vnode_size v then ret (0, msg)
        else
          (let sz = (if offset + cnt > vnode_size v then vnode_size v - offset else cnt) in
           bindS (ops_read server_ops (vnode_private v) offset sz msg) (\<lambda>(r, buf).
           thenS (upd_entry e (\<lambda>x. x\<lparr>entry_offset := entry_offset x + word_of_int r\<rparr>))
             (ret (r, buf))))))))"

definition fs_wrapper_write ::
  "'x fs_base_scheme fs_server_ops \<Rightarrow> int \<Rightarrow> u64 \<Rightarrow> u8 list \<Rightarrow> ('x, int) fop" where
  "fs_wrapper_write server_ops fd cnt msg =
     bindS (server_entry_at fd) (\<lambda>e.
     bindS (readS entries e) (\<lambda>x.
     bindS (readS vnodes (entry_vnode x)) (\<lambda>v.
       if cnt = 0 then ret 0
       else
         bindS (ops_write server_ops (vnode_private v) (entry_offset x) cnt (drop SIZEOF_fs_request msg)) (\<lambda>r.
         thenS (upd_entry e (\<lambda>x. x\<lparr>entry_offset := entry_offset x + word_of_int r\<rparr>))
         (bindS (readS entries e) (\<lambda>x.
         bindS (readS vnodes (entry_vnode x)) (\<lambda>v.
         thenS (if entry_offset x > vnode_size v
                then upd_vnode (entry_vnode x) (\<lambda>v. v\<lparr>vnode_size := entry_offset x\<rparr>) else ret ())
           (ret r))))))))"

text \<open>The target is unsigned, so the test for a negative one never holds; an unknown origin gives the
  largest offset.\<close>

definition fs_wrapper_lseek :: "int \<Rightarrow> u64 \<Rightarrow> int \<Rightarrow> ('x, int) fop" where
  "fs_wrapper_lseek fd offset whence =
     bindS (server_entry_at fd) (\<lambda>e.
     bindS (readS entries e) (\<lambda>x.
     bindS (if whence = 0 then ret offset
            else if whence = 1 then ret (entry_offset x + offset)
            else if whence = 2 then
              bindS (readS vnodes (entry_vnode x)) (\<lambda>v. ret (vnode_size v + offset))
            else ret (- 1)) (\<lambda>target_off.
     thenS (upd_entry e (\<lambda>x. x\<lparr>entry_offset := target_off\<rparr>))
       (ret (to_int target_off)))))"

text \<open>The remaining handlers pass the request on. The result is what \<^verbatim>\<open>ipc_return\<close> hands to the
  client, with the message area.\<close>

definition fs_server_dispatch ::
  "'x fs_base_scheme fs_server_ops \<Rightarrow> u64 \<Rightarrow> u64 \<Rightarrow> fs_request \<Rightarrow> u8 list \<Rightarrow> ('x, int \<times> u8 list) fop" where
  "fs_server_dispatch server_ops entry_off badge fr msg =
     thenS spinlock_lock
     (bindS (gets mounted) (\<lambda>m.
     bindS
       (if \<not> m \<and> fr \<noteq> FS_REQ_MOUNT then ret (- EINVAL, msg)
        else
          bindS (translate_fd_to_fid badge fr) (\<lambda>fr.
            case fr of
              FS_REQ_OPEN new_fd path flags mode \<Rightarrow>
                bindS (fs_wrapper_open server_ops badge entry_off new_fd path flags mode) (\<lambda>r. ret (r, msg))
            | FS_REQ_READ fd cnt \<Rightarrow> fs_wrapper_read server_ops fd cnt msg
            | FS_REQ_WRITE fd cnt \<Rightarrow> bindS (fs_wrapper_write server_ops fd cnt msg) (\<lambda>r. ret (r, msg))
            | FS_REQ_UNLINK path flags \<Rightarrow> bindS (ops_unlink server_ops path flags) (\<lambda>r. ret (r, msg))
            | FS_REQ_RMDIR path flags \<Rightarrow> bindS (ops_rmdir server_ops path flags) (\<lambda>r. ret (r, msg))
            | FS_REQ_MKDIR path mode \<Rightarrow> bindS (ops_mkdir server_ops path mode) (\<lambda>r. ret (r, msg))
            | FS_REQ_CLOSE fd \<Rightarrow> bindS (fs_wrapper_close server_ops fd) (\<lambda>r. ret (r, msg))
            | FS_REQ_CREAT path mode \<Rightarrow> bindS (ops_creat server_ops path) (\<lambda>r. ret (r, msg))
            | FS_REQ_GET_SIZE path \<Rightarrow> bindS (ops_getsize server_ops path) (\<lambda>r. ret (r, msg))
            | FS_REQ_GETDENTS64 fd cnt \<Rightarrow> ops_getdents64 server_ops fd cnt msg
            | FS_REQ_LSEEK fd offset whence \<Rightarrow> bindS (fs_wrapper_lseek fd offset whence) (\<lambda>r. ret (r, msg))
            | _ \<Rightarrow> ret (- EINVAL, msg))) (\<lambda>reply.
     thenS spinlock_unlock (ret reply))))"

end
