(* ===== verification/Cpio.thy ===== *)
theory Cpio
  imports User_Heap
begin

text \<open>The reader of the archive that holds the initial files, \<^verbatim>\<open>userland/servers/tmpfs/cpio.c\<close>. The
  archive is the list of its bytes, at an address that is a multiple of four; a pointer into it is its
  offset. The list \<^verbatim>\<open>g_files\<close> is the sequence of its files.\<close>

unbundle bit_operations_syntax

record cpio_header =
  c_ino :: u64
  c_mode :: u64
  c_uid :: u64
  c_gid :: u64
  c_nlink :: u64
  c_mtime :: u64
  c_filesize :: u64
  c_devmajor :: u64
  c_devminor :: u64
  c_rdevmajor :: u64
  c_rdevminor :: u64
  c_namesize :: u64
  c_check :: u64

record cpio_file =
  cpio_hdr :: cpio_header
  cpio_name :: nat
  cpio_data :: nat

definition SIZEOF_cpio_newc_header :: nat where "SIZEOF_cpio_newc_header = 110"

text \<open>Characters are unsigned; a subtraction of two of them may be negative and is added to a 64-bit
  word.\<close>

definition hex_digit :: "u8 \<Rightarrow> u64" where
  "hex_digit c =
     (if of_char CHR ''A'' \<le> c \<and> c \<le> of_char CHR ''F'' then ucast c - of_char CHR ''A'' + 10
      else ucast c - of_char CHR ''0'')"

definition hex8_u64 :: "u8 list \<Rightarrow> u64 res" where
  "hex8_u64 s = for_upto 8 (\<lambda>i u. bindR (get_byte s i) (\<lambda>c. Inr (push_bit 4 u + hex_digit c))) 0"

definition cpio_parse_header :: "u8 list \<Rightarrow> cpio_header res" where
  "cpio_parse_header addr =
     bindR (strncmp addr (lit ''070701'') 6) (\<lambda>r.
     BUG_ON (r \<noteq> 0)
     (bindR (hex8_u64 (drop 6 addr)) (\<lambda>ino.
      bindR (hex8_u64 (drop 14 addr)) (\<lambda>mode.
      bindR (hex8_u64 (drop 22 addr)) (\<lambda>uid.
      bindR (hex8_u64 (drop 30 addr)) (\<lambda>gid.
      bindR (hex8_u64 (drop 38 addr)) (\<lambda>nlink.
      bindR (hex8_u64 (drop 46 addr)) (\<lambda>mtime.
      bindR (hex8_u64 (drop 54 addr)) (\<lambda>filesize.
      bindR (hex8_u64 (drop 62 addr)) (\<lambda>devmajor.
      bindR (hex8_u64 (drop 70 addr)) (\<lambda>devminor.
      bindR (hex8_u64 (drop 78 addr)) (\<lambda>rdevmajor.
      bindR (hex8_u64 (drop 86 addr)) (\<lambda>rdevminor.
      bindR (hex8_u64 (drop 94 addr)) (\<lambda>namesize.
      bindR (hex8_u64 (drop 102 addr)) (\<lambda>check.
        Inr \<lparr>c_ino = ino, c_mode = mode, c_uid = uid, c_gid = gid, c_nlink = nlink, c_mtime = mtime,
             c_filesize = filesize, c_devmajor = devmajor, c_devminor = devminor,
             c_rdevmajor = rdevmajor, c_rdevminor = rdevminor, c_namesize = namesize,
             c_check = check\<rparr>)))))))))))))))"

definition ALIGN4_UP :: "nat \<Rightarrow> nat" where
  "ALIGN4_UP x = (x div 4) * 4 + (if x mod 4 \<noteq> 0 then 4 else 0)"

definition cpio_extract_file :: int where
  "cpio_extract_file = 0"

text \<open>The loop of \<^verbatim>\<open>cpio_extract\<close>: every turn moves on by a header, so an archive of \<open>n\<close> bytes takes
  fewer than \<open>n\<close> turns before it ends or the reader runs past it. \<open>None\<close> is the trailer.\<close>

definition cpio_next :: "u8 list \<Rightarrow> nat \<Rightarrow> (cpio_file \<times> nat) option res" where
  "cpio_next addr p =
     bindR (cpio_parse_header (drop p addr)) (\<lambda>header.
       (let p = p + SIZEOF_cpio_newc_header in
        bindR (strcmp (drop p addr) (lit ''TRAILER!!!'')) (\<lambda>r.
          if r = 0 then Inr None
          else
            (let name = p; p = ALIGN4_UP (p + unat (c_namesize header));
                 data = p; p = ALIGN4_UP (p + unat (c_filesize header)) in
             Inr (Some (\<lparr>cpio_hdr = header, cpio_name = name, cpio_data = data\<rparr>, p))))))"

primrec cpio_extract_loop :: "nat \<Rightarrow> u8 list \<Rightarrow> nat \<Rightarrow> cpio_file list \<Rightarrow> cpio_file list res" where
  "cpio_extract_loop 0 addr p fs = Inl Diverge"
| "cpio_extract_loop (Suc n) addr p fs =
     bindR (cpio_next addr p) (\<lambda>x.
       case x of None \<Rightarrow> Inr fs | Some (f, p') \<Rightarrow> cpio_extract_loop n addr p' (fs @ [f]))"

definition cpio_extract :: "u8 list \<Rightarrow> cpio_file list res" where
  "cpio_extract addr = cpio_extract_loop (length addr + 1) addr 0 []"

text \<open>\<open>filler\<close> is the callback that receives the file.\<close>

primrec cpio_single_loop :: "nat \<Rightarrow> u8 list \<Rightarrow> nat \<Rightarrow> u8 list \<Rightarrow> (u8 list \<Rightarrow> u64 \<Rightarrow> int res) \<Rightarrow> int res" where
  "cpio_single_loop 0 addr p target filler = Inl Diverge"
| "cpio_single_loop (Suc n) addr p target filler =
     bindR (cpio_next addr p) (\<lambda>x.
       case x of
         None \<Rightarrow> Inr (- ENOENT)
       | Some (f, p') \<Rightarrow>
           bindR (strcmp (drop (cpio_name f) addr) target) (\<lambda>r.
             if r = 0 then filler (drop (cpio_data f) addr) (c_filesize (cpio_hdr f))
             else cpio_single_loop n addr p' target filler))"

definition cpio_extract_single :: "u8 list \<Rightarrow> u8 list \<Rightarrow> (u8 list \<Rightarrow> u64 \<Rightarrow> int res) \<Rightarrow> int res" where
  "cpio_extract_single addr target filler = cpio_single_loop (length addr + 1) addr 0 (drop 1 target) filler"

end
