(* ===== verification/Tmpfs.thy ===== *)
theory Tmpfs
  imports Fs_Base Idman Cpio
begin

text \<open>The in-memory file system, \<^verbatim>\<open>userland/servers/tmpfs/tmpfs.c\<close> with the hash table of
  \<^verbatim>\<open>libchcore/include/chcore/fs/hashtable.h\<close>. Inodes, directory entries and data pages live in heaps
  keyed by address. An inode is its type tag, its size and the member of its union that was
  initialised: using the other member is a \<open>BadPtr\<close> fault. A chain of a hash table is the sequence of
  its entries. \<^verbatim>\<open>free\<close> does nothing, so a freed structure stays readable, as in the code.\<close>

unbundle bit_operations_syntax

section \<open>State\<close>

record htable =
  buckets_ptr :: u64
  buckets :: "u64 list list"
  ht_size :: nat

datatype inode_data = NoData | Dentries htable | Data radix_fs

record inode =
  itype :: u64
  isize :: u64
  idata :: inode_data

record fs_string =
  str :: "u8 list"
  len :: u64
  hash :: u64

record dentry =
  dname :: fs_string
  dinode :: u64

record tmpfs = fs_base +
  inodes :: "u64 \<rightharpoonup> inode"
  dentrys :: "u64 \<rightharpoonup> dentry"
  pages :: "u64 \<rightharpoonup> u8 list"
  tmpfs_root :: u64
  tmpfs_root_dent :: u64
  fidman :: id_manager

type_synonym 'a top = "(tmpfs, 'a) sop"

definition FS_REG :: u64 where "FS_REG = 1"
definition FS_DIR :: u64 where "FS_DIR = 2"
definition MAX_FILENAME_LEN :: nat where "MAX_FILENAME_LEN = 255"
definition FS_PAGE_SIZE :: u64 where "FS_PAGE_SIZE = 4096"
definition MAX_NR_FID_RECORDS :: int where "MAX_NR_FID_RECORDS = 1024"

abbreviation slash :: u8 where "slash \<equiv> of_char CHR ''/''"

definition upd_inode :: "u64 \<Rightarrow> (inode \<Rightarrow> inode) \<Rightarrow> unit top" where
  "upd_inode i f = bindS (readS inodes i) (\<lambda>x. modify (\<lambda>s. s\<lparr>inodes := (inodes s)(i \<mapsto> f x)\<rparr>))"

text \<open>The members of the union.\<close>

definition dentries_of :: "u64 \<Rightarrow> htable top" where
  "dentries_of i =
     bindS (readS inodes i) (\<lambda>x. case idata x of Dentries ht \<Rightarrow> ret ht | _ \<Rightarrow> fault BadPtr)"

definition data_of :: "u64 \<Rightarrow> radix_fs top" where
  "data_of i = bindS (readS inodes i) (\<lambda>x. case idata x of Data r \<Rightarrow> ret r | _ \<Rightarrow> fault BadPtr)"

section \<open>Hash tables\<close>

definition init_htable :: "nat \<Rightarrow> htable top" where
  "init_htable n =
     bindS (calloc 1 (8 * of_nat n)) (\<lambda>p. ret \<lparr>buckets_ptr = p, buckets = replicate n [], ht_size = n\<rparr>)"

definition htable_add :: "htable \<Rightarrow> u32 \<Rightarrow> u64 \<Rightarrow> htable" where
  "htable_add ht key node =
     (let b = unat key mod ht_size ht in ht\<lparr>buckets := (buckets ht)[b := node # buckets ht ! b]\<rparr>)"

definition htable_del :: "htable \<Rightarrow> u64 \<Rightarrow> htable" where
  "htable_del ht node = ht\<lparr>buckets := map (remove1 node) (buckets ht)\<rparr>"

definition htable_get_bucket :: "htable \<Rightarrow> u32 \<Rightarrow> u64 list" where
  "htable_get_bucket ht key = buckets ht ! (unat key mod ht_size ht)"

definition htable_empty :: "htable \<Rightarrow> bool" where
  "htable_empty ht \<longleftrightarrow> (\<forall>b \<in> set (buckets ht). b = [])"

definition htable_free :: "htable \<Rightarrow> int top" where
  "htable_free ht =
     (if buckets_ptr ht = 0 then ret (- EINVAL) else thenS (free (buckets_ptr ht)) (ret 0))"

section \<open>Names\<close>

fun hash_nul :: "u64 \<Rightarrow> u8 list \<Rightarrow> u64 res" where
  "hash_nul h [] = Inl OutOfRange"
| "hash_nul h (c # cs) = (if c = 0 then Inr h else hash_nul (h * 131 + ucast c) cs)"

definition hash_chars :: "u8 list \<Rightarrow> int \<Rightarrow> u64 res" where
  "hash_chars cs n =
     (if n < 0 then hash_nul 0 cs
      else for_upto (nat n) (\<lambda>i h. bindR (get_byte cs i) (\<lambda>c. Inr (h * 131 + ucast c))) 0)"

definition hash_string :: "fs_string \<Rightarrow> fs_string res" where
  "hash_string s = bindR (hash_chars (str s) (sint (len s))) (\<lambda>h. Inr (s\<lparr>hash := h\<rparr>))"

text \<open>The copy is \<open>n + 1\<close> bytes long.\<close>

definition init_string :: "u8 list \<Rightarrow> u64 \<Rightarrow> fs_string option top" where
  "init_string name n =
     bindS (malloc (n + 1)) (\<lambda>p.
       if p = 0 then ret None
       else
         bindS (liftR (memcpy (replicate (unat n + 1) 0) name (unat n))) (\<lambda>d.
         bindS (liftR (put_byte (unat n) 0 d)) (\<lambda>d.
         bindS (liftR (hash_string \<lparr>str = d, len = n, hash = 0\<rparr>)) (\<lambda>s. ret (Some s)))))"

section \<open>Creating files\<close>

text \<open>An error pointer is \<open>None\<close>.\<close>

definition new_inode :: "u64 option top" where
  "new_inode =
     bindS (malloc 88) (\<lambda>p.
       if p = 0 then ret None
       else
         thenS (modify (\<lambda>s. s\<lparr>inodes := (inodes s)(p \<mapsto> \<lparr>itype = 0, isize = 0, idata = NoData\<rparr>)\<rparr>))
           (ret (Some p)))"

definition new_dir :: "u64 option top" where
  "new_dir =
     bindS new_inode (\<lambda>i.
       case i of None \<Rightarrow> ret None
       | Some p \<Rightarrow>
           thenS (upd_inode p (\<lambda>x. x\<lparr>itype := FS_DIR\<rparr>))
           (bindS (init_htable 1024) (\<lambda>ht.
           thenS (upd_inode p (\<lambda>x. x\<lparr>idata := Dentries ht\<rparr>)) (ret (Some p)))))"

definition new_reg :: "u64 option top" where
  "new_reg =
     bindS new_inode (\<lambda>i.
       case i of None \<Rightarrow> ret None
       | Some p \<Rightarrow>
           thenS (upd_inode p (\<lambda>x. x\<lparr>itype := FS_REG\<rparr>))
           (bindS (init_radix_w_deleter_fs FreeDeleter) (\<lambda>r.
           thenS (upd_inode p (\<lambda>x. x\<lparr>idata := Data r\<rparr>)) (ret (Some p)))))"

definition new_dent :: "u64 \<Rightarrow> u8 list \<Rightarrow> u64 \<Rightarrow> u64 option top" where
  "new_dent i name n =
     bindS (malloc 56) (\<lambda>p.
       if p = 0 then ret None
       else
         bindS (init_string name n) (\<lambda>r.
           case r of
             None \<Rightarrow> thenS (free p) (ret None)
           | Some s \<Rightarrow>
               thenS (modify (\<lambda>t. t\<lparr>dentrys := (dentrys t)(p \<mapsto> \<lparr>dname = s, dinode = i\<rparr>)\<rparr>)) (ret (Some p))))"

text \<open>A dereferenced error pointer is a fault. The name is not NULL.\<close>

definition tfs_mknod :: "u64 \<Rightarrow> u8 list \<Rightarrow> u64 \<Rightarrow> bool \<Rightarrow> int top" where
  "tfs_mknod dir name n mkdir =
     (if n = 0 then ret (- ENOENT)
      else
        bindS (if mkdir then new_dir else new_reg) (\<lambda>i.
        bindS (liftR (deref i)) (\<lambda>i.
        bindS (readS inodes i) (\<lambda>x.
        thenS (bug_on (itype x = 0))
        (thenS (upd_inode i (\<lambda>x. x\<lparr>isize := n\<rparr>))
        (bindS (liftR (strlen name)) (\<lambda>l.
        bindS (new_dent i name (of_nat l)) (\<lambda>d.
        bindS (liftR (deref d)) (\<lambda>d.
        bindS (readS dentrys d) (\<lambda>dent.
        bindS (dentries_of dir) (\<lambda>ht.
        thenS (upd_inode dir (\<lambda>x. x\<lparr>idata := Dentries (htable_add ht (ucast (hash (dname dent))) d)\<rparr>))
          (ret 0))))))))))))"

definition tfs_mkdir :: "u64 \<Rightarrow> u8 list \<Rightarrow> u64 \<Rightarrow> int top" where
  "tfs_mkdir dir name n = tfs_mknod dir name n True"

definition tfs_creat :: "u64 \<Rightarrow> u8 list \<Rightarrow> u64 \<Rightarrow> int top" where
  "tfs_creat dir name n = tfs_mknod dir name n False"

section \<open>Finding and removing files\<close>

fun find_dentry :: "u64 list \<Rightarrow> u8 list \<Rightarrow> u64 \<Rightarrow> u64 top" where
  "find_dentry [] name n = ret 0"
| "find_dentry (d # ds) name n =
     bindS (readS dentrys d) (\<lambda>dent.
       if len (dname dent) = n then
         bindS (liftR (strcmp (str (dname dent)) name)) (\<lambda>r. if r = 0 then ret d else find_dentry ds name n)
       else find_dentry ds name n)"

definition tfs_lookup :: "u64 \<Rightarrow> u8 list \<Rightarrow> u64 \<Rightarrow> u64 top" where
  "tfs_lookup dir name n =
     bindS (liftR (hash_chars name (sint n))) (\<lambda>h.
     bindS (dentries_of dir) (\<lambda>ht. find_dentry (htable_get_bucket ht (ucast h)) name n))"

fun skip_slashes :: "u8 list \<Rightarrow> u8 list res" where
  "skip_slashes [] = Inl OutOfRange"
| "skip_slashes (c # cs) = (if c \<noteq> 0 \<and> c = slash then skip_slashes cs else Inr (c # cs))"

text \<open>The length of the first component of a path.\<close>

fun component_len :: "u8 list \<Rightarrow> nat res" where
  "component_len [] = Inl OutOfRange"
| "component_len (c # cs) =
     (if c \<noteq> slash \<and> c \<noteq> 0 then bindR (component_len cs) (\<lambda>n. Inr (Suc n)) else Inr 0)"

text \<open>The loop of \<^verbatim>\<open>tfs_namex\<close>: the result, the directory and the rest of the path. A turn either moves
  on by a component or creates one, so two turns for every character are enough for a path that the loop
  handles; a path for which it does not end is \<open>Diverge\<close>.\<close>

primrec namex_loop :: "nat \<Rightarrow> u64 \<Rightarrow> u8 list \<Rightarrow> bool \<Rightarrow> (int \<times> u64 \<times> u8 list) top" where
  "namex_loop 0 dirat name mkdir_p = fault Diverge"
| "namex_loop (Suc fuel) dirat name mkdir_p =
     bindS (liftR (component_len name)) (\<lambda>i.
       if name ! i = 0 then ret (0, dirat, name)
       else
         bindS (liftR (memcpy (replicate (MAX_FILENAME_LEN + 1) 0) name i)) (\<lambda>buff.
         bindS (liftR (put_byte i 0 buff)) (\<lambda>buff.
         bindS (tfs_lookup dirat buff (of_nat i)) (\<lambda>dent.
           if dent = 0 then
             if \<not> mkdir_p then ret (- ENOENT, dirat, name)
             else thenS (tfs_mkdir dirat buff (of_nat i)) (namex_loop fuel dirat name mkdir_p)
           else
             bindS (readS dentrys dent) (\<lambda>d.
               namex_loop fuel (dinode d) (drop (i + 1) name) mkdir_p)))))"

definition tfs_namex :: "u64 \<Rightarrow> u8 list \<Rightarrow> bool \<Rightarrow> (int \<times> u64 \<times> u8 list) top" where
  "tfs_namex dirat name mkdir_p =
     bindS (liftR (get_byte name 0)) (\<lambda>c.
     bindS (if c = slash then
              bindS (gets tmpfs_root) (\<lambda>root.
              bindS (liftR (skip_slashes name)) (\<lambda>name. ret (root, name)))
            else
              thenS (bug_on (dirat = 0))
              (bindS (readS inodes dirat) (\<lambda>x.
              thenS (bug_on (itype x \<noteq> FS_DIR)) (ret (dirat, name))))) (\<lambda>(dirat, name).
     bindS (liftR (get_byte name 0)) (\<lambda>c.
       if c = 0 then ret (- EINVAL, dirat, name)
       else namex_loop (2 * length name + 2) dirat name mkdir_p)))"

definition tfs_remove :: "u64 \<Rightarrow> u8 list \<Rightarrow> u64 \<Rightarrow> int top" where
  "tfs_remove dir name n =
     bindS (liftR (hash_chars name (sint n))) (\<lambda>h.
       if n = 0 then ret (- ENOENT)
       else
         bindS (dentries_of dir) (\<lambda>ht.
         bindS (find_dentry (htable_get_bucket ht (ucast h)) name n) (\<lambda>target.
           if target = 0 then ret (- ENOENT)
           else
             bindS (readS dentrys target) (\<lambda>dent.
             thenS (bug_on (dinode dent = 0))
             (bindS (readS inodes (dinode dent)) (\<lambda>x.
               (let unlink =
                  thenS (free (dinode dent))
                  (thenS (upd_inode dir (\<lambda>y. y\<lparr>idata := Dentries (htable_del ht target)\<rparr>))
                  (thenS (free target) (ret 0))) in
                if itype x = FS_REG then
                  bindS (data_of (dinode dent)) (\<lambda>r. thenS (radix_free_fs r) unlink)
                else if itype x = FS_DIR then
                  bindS (dentries_of (dinode dent)) (\<lambda>ht'.
                    if \<not> htable_empty ht' then ret (- ENOTEMPTY)
                    else thenS (htable_free ht') unlink)
                else fault Bug)))))))"

section \<open>Reading and writing\<close>

text \<open>The page of an inode that holds a page number, allocated when it is missing.\<close>

definition page_for_write :: "u64 \<Rightarrow> u64 \<Rightarrow> u64 top" where
  "page_for_write i page_no =
     bindS (data_of i) (\<lambda>r.
     bindS (radix_get_fs r page_no) (\<lambda>page.
       if page = 0 then
         bindS (calloc 1 FS_PAGE_SIZE) (\<lambda>p.
         thenS (modify (\<lambda>s. s\<lparr>pages := (pages s)(p \<mapsto> replicate 4096 0)\<rparr>))
         (bindS (radix_add_fs r page_no p) (\<lambda>(_, r').
         thenS (upd_inode i (\<lambda>x. x\<lparr>idata := Data r'\<rparr>)) (ret p))))
       else ret page))"

text \<open>Every turn of the loops moves on by at least one byte, so the size is enough fuel.\<close>

primrec file_write_loop :: "nat \<Rightarrow> u64 \<Rightarrow> u64 \<Rightarrow> u64 \<Rightarrow> u8 list \<Rightarrow> u64 \<Rightarrow> u64 top" where
  "file_write_loop 0 i offset cur_off data sz = (if sz > 0 then fault Diverge else ret cur_off)"
| "file_write_loop (Suc fuel) i offset cur_off data sz =
     (if sz > 0 then
        (let page_no = cur_off div FS_PAGE_SIZE; page_off = cur_off mod FS_PAGE_SIZE;
             to_write = (if page_off + sz > FS_PAGE_SIZE then FS_PAGE_SIZE - page_off else sz) in
         bindS (page_for_write i page_no) (\<lambda>page.
         bindS (readS pages page) (\<lambda>d.
         bindS (liftR (into (unat page_off) (\<lambda>p. memcpy p (drop (unat (cur_off - offset)) data) (unat to_write)) d)) (\<lambda>d.
         thenS (modify (\<lambda>s. s\<lparr>pages := (pages s)(page \<mapsto> d)\<rparr>))
           (file_write_loop fuel i offset (cur_off + to_write) data (sz - to_write))))))
      else ret cur_off)"

definition tfs_file_write :: "u64 \<Rightarrow> u64 \<Rightarrow> u8 list \<Rightarrow> u64 \<Rightarrow> u64 top" where
  "tfs_file_write i offset data sz =
     bindS (readS inodes i) (\<lambda>x.
     thenS (bug_on (itype x \<noteq> FS_REG))
     (thenS (bug_on (offset > isize x))
     (bindS (file_write_loop (unat sz) i offset offset data sz) (\<lambda>cur_off.
     bindS (readS inodes i) (\<lambda>x.
     thenS (if cur_off - offset > isize x then upd_inode i (\<lambda>x. x\<lparr>isize := cur_off - offset\<rparr>) else ret ())
       (ret (cur_off - offset)))))))"

primrec file_read_loop :: "nat \<Rightarrow> u64 \<Rightarrow> u64 \<Rightarrow> u64 \<Rightarrow> u8 list \<Rightarrow> u64 \<Rightarrow> (u64 \<times> u8 list) top" where
  "file_read_loop 0 i offset cur_off buff sz = (if sz > 0 then fault Diverge else ret (cur_off, buff))"
| "file_read_loop (Suc fuel) i offset cur_off buff sz =
     (if sz > 0 then
        (let page_no = cur_off div FS_PAGE_SIZE; page_off = cur_off mod FS_PAGE_SIZE;
             to_read = (if page_off + sz > FS_PAGE_SIZE then FS_PAGE_SIZE - page_off else sz) in
         bindS (data_of i) (\<lambda>r.
         bindS (radix_get_fs r page_no) (\<lambda>page.
         bindS (readS pages page) (\<lambda>d.
         bindS (liftR (into (unat (cur_off - offset)) (\<lambda>b. memcpy b (drop (unat page_off) d) (unat to_read)) buff)) (\<lambda>buff.
           file_read_loop fuel i offset (cur_off + to_read) buff (sz - to_read))))))
      else ret (cur_off, buff))"

definition tfs_file_read :: "u64 \<Rightarrow> u64 \<Rightarrow> u8 list \<Rightarrow> u64 \<Rightarrow> (u64 \<times> u8 list) top" where
  "tfs_file_read i offset buff sz =
     bindS (readS inodes i) (\<lambda>x.
     thenS (bug_on (itype x \<noteq> FS_REG))
     (thenS (bug_on (offset > isize x))
       (let sz = (if offset + sz > isize x then isize x - offset else sz) in
        bindS (file_read_loop (unat sz) i offset offset buff sz) (\<lambda>(cur_off, buff).
          ret (cur_off - offset, buff)))))"

section \<open>The initial files\<close>

definition load_file :: "u8 list \<Rightarrow> cpio_file \<Rightarrow> unit top" where
  "load_file start f =
     (let leaf = drop (cpio_name f) start in
      bindS (liftR (strcmp leaf (lit ''.''))) (\<lambda>r.
        if r = 0 then ret ()
        else
          bindS (gets tmpfs_root) (\<lambda>root.
          bindS (tfs_namex root leaf True) (\<lambda>(err, dirat, leaf).
          thenS (bug_on (err \<noteq> 0))
          (bindS (liftR (strlen leaf)) (\<lambda>l.
          bindS (tfs_lookup dirat leaf (of_nat l)) (\<lambda>dent.
          bindS (if dent = 0 then
                   thenS (tfs_creat dirat leaf (of_nat l))
                   (bindS (tfs_lookup dirat leaf (of_nat l)) (\<lambda>dent.
                   thenS (bug_on (dent = 0)) (ret dent)))
                 else ret dent) (\<lambda>dent.
          bindS (readS dentrys dent) (\<lambda>d.
          thenS (tfs_file_write (dinode d) 0 (drop (cpio_data f) start) (c_filesize (cpio_hdr f)))
            (ret ()))))))))))"

definition tfs_load_image :: "u8 list \<Rightarrow> int top" where
  "tfs_load_image start =
     bindS (liftR (cpio_extract start)) (\<lambda>fs. thenS (each fs (load_file start)) (ret 0))"

text \<open>The path starts with a slash.\<close>

definition tfs_open_path :: "u8 list \<Rightarrow> u64 top" where
  "tfs_open_path path =
     bindS (liftR (get_byte path 0)) (\<lambda>c.
     bindS (if c = slash then liftR (get_byte path 1) else ret 1) (\<lambda>c'.
       if c = slash \<and> c' = 0 then gets tmpfs_root
       else
         bindS (tfs_namex 0 path False) (\<lambda>(err, dirat, leaf).
           if err \<noteq> 0 then ret 0
           else
             bindS (liftR (strlen leaf)) (\<lambda>l.
             bindS (tfs_lookup dirat leaf (of_nat l)) (\<lambda>dent.
               if dent = 0 then ret 0 else bindS (readS dentrys dent) (\<lambda>d. ret (dinode d)))))))"

definition del_inode :: "u64 \<Rightarrow> int top" where
  "del_inode i =
     bindS (readS inodes i) (\<lambda>x.
       if itype x = FS_REG then bindS (data_of i) (\<lambda>r. thenS (radix_free_fs r) (thenS (free i) (ret 0)))
       else if itype x = FS_DIR then
         bindS (dentries_of i) (\<lambda>ht.
           if \<not> htable_empty ht then ret (- ENOTEMPTY)
           else thenS (htable_free ht) (thenS (free i) (ret 0)))
       else fault Bug)"

definition init_tmpfs :: "int top" where
  "init_tmpfs =
     bindS new_dir (\<lambda>root.
     bindS (liftR (deref root)) (\<lambda>root.
     thenS (modify (\<lambda>s. s\<lparr>tmpfs_root := root\<rparr>))
     (bindS (new_dent root (lit ''/'') 1) (\<lambda>d.
     thenS (modify (\<lambda>s. s\<lparr>tmpfs_root_dent := (case d of None \<Rightarrow> 0 | Some p \<Rightarrow> p)\<rparr>))
     (bindS (gets fidman) (\<lambda>m.
     bindS (init_id_manager m MAX_NR_FID_RECORDS 0) (\<lambda>(_, m).
     bindS (liftR (alloc_id m)) (\<lambda>(i, m).
     thenS (bug_on (i \<noteq> 0))
     (thenS (modify (\<lambda>s. s\<lparr>fidman := m\<rparr>))
     (thenS init_fs_wrapper
     (thenS (modify (\<lambda>s. s\<lparr>mounted := True\<rparr>))
       (ret 0))))))))))))"

end
