(* ===== verification/Tmpfs_Files.thy ===== *)
theory Tmpfs_Files
  imports Tmpfs Fs_Radix_Correct
begin

text \<open>The contents of files: a file is the function from byte numbers to bytes that its radix tree and
  its pages represent. The write loop updates it on an interval, the read loop reads it, and both leave
  every other file alone, because a page belongs to one page number of one tree.\<close>

section \<open>Files as functions\<close>

text \<open>\<open>own\<close> gives the tree and the page number of a page.\<close>

definition page_at :: "(u64 \<Rightarrow> u64 \<times> nat) \<Rightarrow> tmpfs \<Rightarrow> u64 \<Rightarrow> nat \<Rightarrow> u64 \<Rightarrow> bool" where
  "page_at own s r n v \<longleftrightarrow> own v = (r, n) \<and> v \<in> dom (pages s)"

definition file_ok :: "(u64 \<Rightarrow> u64 \<times> nat \<times> nat) \<Rightarrow> (u64 \<Rightarrow> u64 \<times> nat) \<Rightarrow> tmpfs \<Rightarrow> bool" where
  "file_ok pos own s \<longleftrightarrow> rad_ok pos (page_at own s) (rnodes s) \<and> fresh_nodes s \<and>
     (\<forall>v d. pages s v = Some d \<longrightarrow> unat v < brk s \<and> length d = 4096)"

definition page_of :: "tmpfs \<Rightarrow> u64 \<Rightarrow> u64 \<Rightarrow> u64" where
  "page_of s r n = rlookup (rnodes s) r n"

definition fbyte :: "tmpfs \<Rightarrow> u64 \<Rightarrow> nat \<Rightarrow> u8" where
  "fbyte s r n =
     (let p = page_of s r (of_nat (n div 4096)) in
      if p = 0 then 0 else case pages s p of None \<Rightarrow> 0 | Some d \<Rightarrow> d ! (n mod 4096))"

text \<open>A regular file with its tree.\<close>

definition reg_file :: "tmpfs \<Rightarrow> u64 \<Rightarrow> radix_fs \<Rightarrow> bool" where
  "reg_file s i t \<longleftrightarrow> (\<exists>x. inodes s i = Some x \<and> itype x = FS_REG \<and> idata x = Data t)"

lemma rad_ok_mono:
  assumes "rad_ok pos V h" "\<And>r n v. V r n v \<Longrightarrow> W r n v"
  shows "rad_ok pos W h"
  unfolding rad_ok_def
proof (intro allI impI)
  fix a c assume "h a = Some c"
  then have "node_ok pos V h a c" using assms(1) by (simp add: rad_ok_def)
  then show "node_ok pos W h a c" using assms(2) unfolding node_ok_def by (auto split: nat.splits prod.splits)
qed

text \<open>What a walk finds satisfies the predicate of the values.\<close>

lemma rwalk_value:
  assumes "rad_ok pos V h" "on_path pos h r i node key" "rwalk h i node key \<noteq> 0"
  shows "V r (unat key) (rwalk h i node key)"
  using assms(2,3)
proof (induction i arbitrary: node)
  case 0
  then obtain c where c: "h node = Some c" "pos node = (r, 0, prefix_fs 0 key)" by (auto simp: on_path_def)
  then have "node_ok pos V h node c" using assms(1) by (simp add: rad_ok_def)
  then have "\<forall>k < 512. c ! k \<noteq> 0 \<longrightarrow> V r (prefix_fs 0 key * 512 + k) (c ! k)" using c(2) by (simp add: node_ok_def)
  then show ?case using 0 c(1) prefix_leaf [of key] by (auto dest: spec [of _ "radix_index_fs key 0"])
next
  case (Suc i)
  then obtain c where c: "h node = Some c" by (auto simp: on_path_def)
  then have nz: "c ! radix_index_fs key (Suc i) \<noteq> 0" using Suc.prems(2) by auto
  show ?case using Suc.IH [OF child_on_path [OF assms(1) Suc.prems(1) c nz]] Suc.prems(2) c nz by simp
qed

lemma page_of_owner:
  assumes "file_ok pos own s" "is_root pos (rnodes s) r" "page_of s r n \<noteq> 0"
  shows "own (page_of s r n) = (r, unat n) \<and> page_of s r n \<in> dom (pages s)"
  using rwalk_value [of pos "page_at own s" "rnodes s" r 7 r n] root_on_path [OF assms(2)] assms
  by (simp add: page_of_def rlookup_def file_ok_def page_at_def)

section \<open>The page to write\<close>

text \<open>Only the heaps of pages and nodes differ.\<close>

definition same_rest :: "tmpfs \<Rightarrow> tmpfs \<Rightarrow> bool" where
  "same_rest s s' \<longleftrightarrow> s' = s\<lparr>malloc_header := malloc_header s', rnodes := rnodes s', pages := pages s'\<rparr>"

lemma same_rest_trans: "same_rest s t \<Longrightarrow> same_rest t u \<Longrightarrow> same_rest s u"
  unfolding same_rest_def by (cases s; cases t; cases u) simp

lemma same_rest_refl [simp]: "same_rest s s"
  by (simp add: same_rest_def)

lemma same_rest_upd [simp]: "same_rest s (s\<lparr>malloc_header := m, rnodes := h, pages := p\<rparr>)"
  "same_rest s (s\<lparr>malloc_header := m, rnodes := h\<rparr>)" "same_rest s (s\<lparr>malloc_header := m, pages := p\<rparr>)"
  "same_rest s (s\<lparr>pages := p\<rparr>)"
  by (simp_all add: same_rest_def)

lemma same_rest_fields:
  "same_rest s s' \<Longrightarrow> inodes s' = inodes s \<and> dentrys s' = dentrys s \<and> tmpfs_root s' = tmpfs_root s \<and>
     pmo_create_ret s' = pmo_create_ret s \<and> pmo_map_ret s' = pmo_map_ret s"
  unfolding same_rest_def by (cases s; cases s') simp

text \<open>The state has grown and every tree is still there.\<close>

definition grows where
  "grows n pos s pos' (s' :: tmpfs) \<longleftrightarrow> same_rest s s' \<and> brk s \<le> brk s' \<and> brk s' \<le> brk s + n \<and>
     dom (rnodes s) \<subseteq> dom (rnodes s') \<and> (\<forall>a. unat a < brk s \<longrightarrow> pos' a = pos a)"

lemma grows_trans:
  assumes "grows n pos s pos' s'" "grows m pos' s' pos'' s''"
  shows "grows (n + m) pos s pos'' s''"
proof -
  have "same_rest s s''" using assms unfolding grows_def by (blast intro: same_rest_trans)
  moreover have "brk s \<le> brk s''" "brk s'' \<le> brk s + (n + m)" using assms by (simp_all add: grows_def)
  moreover have "dom (rnodes s) \<subseteq> dom (rnodes s'')" using assms unfolding grows_def by blast
  moreover have "pos'' a = pos a" if "unat a < brk s" for a
    using assms that order.strict_trans2 [of "unat a" "brk s" "brk s'"] by (simp add: grows_def)
  ultimately show ?thesis unfolding grows_def by blast
qed

lemma grows_root:
  "grows n pos s pos' s' \<Longrightarrow> file_ok pos own s \<Longrightarrow> is_root pos (rnodes s) r \<Longrightarrow> is_root pos' (rnodes s') r"
  by (auto simp: grows_def file_ok_def fresh_nodes_def is_root_def)

lemma grows_room: "grows n pos s pos' s' \<Longrightarrow> has_room (n + m) s \<Longrightarrow> has_room m s'"
  using same_rest_fields [of s s'] by (auto simp: grows_def has_room_brk)

lemma data_of_spec: "reg_file s i t \<Longrightarrow> data_of i s = Inr (t, s)"
  by (auto simp: reg_file_def data_of_def bindS_simp)

lemma radix_get_page:
  assumes "file_ok pos own s" "is_root pos (rnodes s) (root_fs t)"
  shows "radix_get_fs t n s = Inr (page_of s (root_fs t) n, s)"
  using radix_get_fs_spec [OF _ assms(2)] assms(1) unfolding file_ok_def page_of_def by blast

lemma reg_file_rest: "same_rest s s' \<Longrightarrow> reg_file s' i t = reg_file s i t"
  using same_rest_fields [of s s'] by (simp add: reg_file_def)

text \<open>The state after a cleared page was allocated.\<close>

definition with_page :: "tmpfs \<Rightarrow> tmpfs" where
  "with_page s = s\<lparr>malloc_header := malloc_header s + 4096,
     pages := (pages s)(MAP_VA + malloc_header s \<mapsto> replicate 4096 0)\<rparr>"

lemma with_page_ok:
  assumes "file_ok pos own s" "has_room 4096 s"
  defines "p \<equiv> MAP_VA + malloc_header s"
  shows "file_ok pos (own(p := (r, n))) (with_page s)" and "p \<notin> dom (pages s)" and "p \<noteq> 0"
    and "brk (with_page s) = brk s + 4096" and "unat p = brk s"
proof -
  have room: "has_room (unat (4096::u64)) s" using assms(2) by simp
  note f = malloc_fresh [OF room, folded p_def]
  show b: "brk (with_page s) = brk s + 4096" using f(4) by (simp add: with_page_def brk_def)
  show u: "unat p = brk s" "p \<noteq> 0" using f(2,3) by simp_all
  have ok: "\<forall>v d. pages s v = Some d \<longrightarrow> unat v < brk s \<and> length d = 4096" using assms(1) by (simp add: file_ok_def)
  then show np: "p \<notin> dom (pages s)" using u(1) by fastforce
  have "rad_ok pos (page_at (own(p := (r, n))) (with_page s)) (rnodes s)"
    by (rule rad_ok_mono [of _ "page_at own s"])
       (use assms(1) np in \<open>auto simp: file_ok_def page_at_def with_page_def\<close>)
  moreover have "fresh_nodes (with_page s)"
    using assms(1) b by (auto simp: file_ok_def fresh_nodes_def with_page_def intro: trans_less_add1)
  moreover have "unat v < brk (with_page s) \<and> length d = 4096" if "pages (with_page s) v = Some d" for v d
    using that ok u(1) b by (auto simp: with_page_def p_def split: if_splits intro: trans_less_add1)
  ultimately show "file_ok pos (own(p := (r, n))) (with_page s)" by (simp add: file_ok_def with_page_def)
qed

lemma fbyte_cong:
  assumes "page_of s' r (of_nat (n div 4096)) = page_of s r (of_nat (n div 4096))"
    and "\<And>v. v \<in> dom (pages s) \<Longrightarrow> pages s' v = pages s v"
    and "page_of s r (of_nat (n div 4096)) \<noteq> 0 \<Longrightarrow> page_of s r (of_nat (n div 4096)) \<in> dom (pages s)"
  shows "fbyte s' r n = fbyte s r n"
  using assms by (auto simp: fbyte_def Let_def)

text \<open>The page exists afterwards, it belongs to the page number, and no byte of any file has changed.\<close>

lemma page_for_write_spec:
  assumes "file_ok pos own s" "reg_file s i t" "is_root pos (rnodes s) (root_fs t)" "has_room (8 * 4096) s"
  shows "\<exists>p s' pos' own'. page_for_write i n s = Inr (p, s') \<and> file_ok pos' own' s' \<and>
    grows (8 * 4096) pos s pos' s' \<and> p \<noteq> 0 \<and> page_of s' (root_fs t) n = p \<and>
    (\<forall>r k. is_root pos (rnodes s) r \<and> page_of s r k \<noteq> 0 \<longrightarrow> page_of s' r k = page_of s r k) \<and>
    (\<forall>r k. is_root pos (rnodes s) r \<longrightarrow> fbyte s' r k = fbyte s r k)"
proof (cases "page_of s (root_fs t) n = 0")
  case False
  have "page_for_write i n s = Inr (page_of s (root_fs t) n, s)"
    using data_of_spec [OF assms(2)] radix_get_page [OF assms(1,3)] False
    by (simp add: page_for_write_def bindS_simp)
  moreover have "grows (8 * 4096) pos s pos s" by (simp add: grows_def)
  ultimately show ?thesis using assms(1) False by blast
next
  case True
  define p where "p = MAP_VA + malloc_header s"
  define own1 where "own1 = own(p := (root_fs t, unat n))"
  define s1 where "s1 = with_page s"
  have room: "has_room 4096 s" using assms(4) by (rule has_room_mono) simp
  note w = with_page_ok(1) [OF assms(1) room, where r = "root_fs t" and n = "unat n", folded p_def, folded own1_def s1_def]
    with_page_ok(2-5) [OF assms(1) room, folded p_def s1_def]
  have s1: "rnodes s1 = rnodes s" "pages s1 = (pages s)(p \<mapsto> replicate 4096 0)" "inodes s1 = inodes s"
    "pmo_create_ret s1 = pmo_create_ret s" "pmo_map_ret s1 = pmo_map_ret s"
    by (simp_all add: s1_def with_page_def p_def)
  have room1: "has_room (7 * 4096) s1" using assms(4) w(4) s1(4,5) unfolding has_room_brk by linarith
  have root1: "is_root pos (rnodes s1) (root_fs t)" using assms(3) by (simp add: s1)
  have fr1: "rad_ok pos (page_at own1 s1) (rnodes s1)" "fresh_nodes s1" using w(1) by (simp_all add: file_ok_def)
  have V: "page_at own1 s1 (root_fs t) (unat n) p" by (simp add: page_at_def own1_def s1)
  obtain s2 pos' where a: "radix_add_fs t n p s1 = Inr ((0, t), s2)" "rad_ok pos' (page_at own1 s1) (rnodes s2)"
    "fresh_nodes s2" "\<exists>m h. s2 = s1\<lparr>malloc_header := m, rnodes := h\<rparr>" "brk s1 \<le> brk s2" "brk s2 \<le> brk s1 + 7 * 4096"
    "dom (rnodes s1) \<subseteq> dom (rnodes s2)" "\<forall>a. unat a < brk s1 \<longrightarrow> pos' a = pos a"
    "rlookup (rnodes s2) (root_fs t) n = p"
    "\<forall>r k. is_root pos (rnodes s1) r \<and> (r, k) \<noteq> (root_fs t, n) \<longrightarrow> rlookup (rnodes s2) r k = rlookup (rnodes s1) r k"
    using radix_add_fs_spec [OF fr1 room1 root1 V] by blast
  obtain m h where s2: "s2 = s1\<lparr>malloc_header := m, rnodes := h\<rparr>" using a(4) by blast
  then have f2: "pages s2 = pages s1" "inodes s2 = inodes s" by (simp_all add: s1)
  obtain x where x: "inodes s i = Some x" "itype x = FS_REG" "idata x = Data t" using assms(2) by (auto simp: reg_file_def)
  have same: "s2\<lparr>inodes := (inodes s2)(i \<mapsto> x\<lparr>idata := Data t\<rparr>)\<rparr> = s2"
  proof -
    have "x\<lparr>idata := Data t\<rparr> = x" using x(3) by simp
    then have "(inodes s2)(i \<mapsto> x\<lparr>idata := Data t\<rparr>) = inodes s2" using x(1) f2(2) by (simp add: fun_upd_idem)
    then show ?thesis by simp
  qed
  have room': "has_room (unat (4096::u64)) s" using room by simp
  have "page_for_write i n s = Inr (p, s2)"
    using data_of_spec [OF assms(2)] radix_get_page [OF assms(1,3)] True malloc_fresh(1) [OF room'] a(1) x(1) f2(2) same
    by (simp add: page_for_write_def bindS_simp thenS_simp calloc_def FS_PAGE_SIZE_def p_def s1_def with_page_def
        upd_inode_def)
  moreover have "file_ok pos' own1 s2"
  proof -
    have "page_at own1 s2 = page_at own1 s1" by (intro ext) (simp add: page_at_def f2)
    moreover have "unat v < brk s2 \<and> length d = 4096" if "pages s2 v = Some d" for v d
      using that w(1) a(5) unfolding f2 file_ok_def by (meson order.strict_trans2)
    ultimately show ?thesis using a(2,3) by (simp add: file_ok_def)
  qed
  moreover have "grows (8 * 4096) pos s pos' s2"
  proof -
    have "same_rest s s2" unfolding s2 s1_def with_page_def by (simp add: same_rest_def)
    then show ?thesis using a(5-8) w(4) s1(1) by (auto simp: grows_def)
  qed
  moreover have pk: "page_of s2 r k = page_of s r k" if "is_root pos (rnodes s) r" "page_of s r k \<noteq> 0" for r k
    using a(10) that True by (auto simp: page_of_def s1)
  moreover have "fbyte s2 r k = fbyte s r k" if q: "is_root pos (rnodes s) r" for r k
  proof (cases "r = root_fs t \<and> of_nat (k div 4096) = n")
    case True
    then show ?thesis using \<open>page_of s (root_fs t) n = 0\<close> a(9) f2(1) s1(2) w(3)
      by (simp add: fbyte_def page_of_def Let_def)
  next
    case False
    then have "page_of s2 r (of_nat (k div 4096)) = page_of s r (of_nat (k div 4096))"
      using a(10) q by (auto simp: page_of_def s1)
    then show ?thesis
      by (rule fbyte_cong) (use f2(1) s1(2) w(2) page_of_owner [OF assms(1) q] in auto)
  qed
  moreover have "page_of s2 (root_fs t) n = p" using a(9) by (simp add: page_of_def)
  ultimately show ?thesis using w(3) by blast
qed

section \<open>Writing\<close>

lemma put_page:
  assumes "file_ok pos own s" "is_root pos (rnodes s) r" "page_of s r n = p" "p \<noteq> 0" "length d = 4096"
  defines "s' \<equiv> s\<lparr>pages := (pages s)(p \<mapsto> d)\<rparr>"
  shows "file_ok pos own s'"
    and "\<lbrakk>is_root pos (rnodes s) r'; k < 2 ^ 64\<rbrakk> \<Longrightarrow>
      fbyte s' r' k = (if r' = r \<and> k div 4096 = unat n then d ! (k mod 4096) else fbyte s r' k)"
proof -
  have o: "own p = (r, unat n)" "p \<in> dom (pages s)" using page_of_owner [OF assms(1,2)] assms(3,4) by auto
  have pa: "page_at own s' = page_at own s" using o(2) by (intro ext) (auto simp: page_at_def s'_def)
  have "unat p < brk s" using o(2) assms(1) by (auto simp: file_ok_def)
  then show "file_ok pos own s'"
    using assms(1,5) pa by (auto simp: file_ok_def s'_def fresh_nodes_def brk_def split: if_splits)
  assume q: "is_root pos (rnodes s) r'" "k < 2 ^ 64"
  let ?w = "of_nat (k div 4096) :: u64"
  have u: "unat ?w = k div 4096" using q(2) by (intro unat_of_nat_small) simp
  have po: "page_of s' x y = page_of s x y" for x y by (simp add: page_of_def s'_def)
  show "fbyte s' r' k = (if r' = r \<and> k div 4096 = unat n then d ! (k mod 4096) else fbyte s r' k)"
  proof (cases "r' = r \<and> k div 4096 = unat n")
    case True
    then have "?w = n" using u by (simp add: word_unat_eq_iff)
    then show ?thesis using True assms(3,4) by (simp add: fbyte_def po) (simp add: s'_def)
  next
    case False
    have "page_of s r' ?w \<noteq> p"
    proof
      assume e: "page_of s r' ?w = p"
      then have "own p = (r', k div 4096)" using page_of_owner [OF assms(1) q(1), of ?w] assms(4) u by simp
      then show False using o(1) False by simp
    qed
    then have "fbyte s' r' k = fbyte s r' k" unfolding fbyte_def po Let_def by (simp add: s'_def)
    then show ?thesis using False by (simp only: if_False)
  qed
qed

text \<open>A function updated on an interval.\<close>

definition fwrite :: "(nat \<Rightarrow> u8) \<Rightarrow> nat \<Rightarrow> u8 list \<Rightarrow> nat \<Rightarrow> u8" where
  "fwrite f a xs k = (if a \<le> k \<and> k < a + length xs then xs ! (k - a) else f k)"

lemma fwrite_Nil [simp]: "fwrite f a [] = f"
  by (rule ext) (auto simp: fwrite_def)

lemma fwrite_append: "fwrite f a (xs @ ys) k = fwrite (fwrite f a xs) (a + length xs) ys k"
  by (auto simp: fwrite_def nth_append)

text \<open>The pages that an interval touches.\<close>

definition touched :: "nat \<Rightarrow> nat \<Rightarrow> nat" where
  "touched c z = (if z = 0 then 0 else (c mod 4096 + z + 4095) div 4096)"

text \<open>The bytes written in one turn, and what is left.\<close>

definition chunk :: "nat \<Rightarrow> nat \<Rightarrow> nat" where
  "chunk c z = min z (4096 - c mod 4096)"

lemma chunk_bounds: "chunk c z \<le> z" "c mod 4096 + chunk c z \<le> 4096" "0 < z \<Longrightarrow> 0 < chunk c z"
  by (auto simp: chunk_def min_def)

lemma touched_step: "0 < z \<Longrightarrow> touched (c + chunk c z) (z - chunk c z) + 1 = touched c z"
proof (cases "z \<le> 4096 - c mod 4096")
  case True
  assume "0 < z"
  moreover have "c mod 4096 < 4096" by simp
  ultimately have "4096 \<le> c mod 4096 + z + 4095" "c mod 4096 + z + 4095 < 2 * 4096" using True by linarith+
  then have "(c mod 4096 + z + 4095) div 4096 = 1" by (simp add: div_nat_eqI)
  then show ?thesis using True \<open>0 < z\<close> by (simp add: touched_def chunk_def)
next
  case False
  let ?m = "c mod 4096" and ?z = "z - (4096 - c mod 4096)"
  have lt: "?m < 4096" by simp
  have ch: "chunk c z = 4096 - ?m" using False by (simp add: chunk_def)
  have "c + (4096 - ?m) = (c div 4096 + 1) * 4096" using div_mult_mod_eq [of c 4096] lt
    by (simp only: distrib_right)
  then have m0: "(c + (4096 - ?m)) mod 4096 = 0" by (metis mod_mult_self2_is_0)
  have "?m + z + 4095 = (?z + 4095) + 4096" using False lt by linarith
  then have "(?m + z + 4095) div 4096 = (?z + 4095) div 4096 + 1" by simp
  then show ?thesis using False lt unfolding ch touched_def m0 by simp
qed

lemma chunk_words:
  assumes "c + z < 2 ^ 64"
  shows "(of_nat c :: u64) div 4096 = of_nat (c div 4096)" "unat ((of_nat c :: u64) mod 4096) = c mod 4096"
    "(if (of_nat c :: u64) mod 4096 + of_nat z > 4096 then 4096 - of_nat c mod 4096 else of_nat z) = (of_nat (chunk c z) :: u64)"
proof -
  have uc: "unat (of_nat c :: u64) = c" "unat (of_nat z :: u64) = z" using assms by (simp_all add: unat_of_nat_small)
  show "(of_nat c :: u64) div 4096 = of_nat (c div 4096)"
    using uc(1) assms by (simp add: word_unat_eq_iff unat_div unat_of_nat_small)
  show um: "unat ((of_nat c :: u64) mod 4096) = c mod 4096" using uc(1) by (simp add: unat_mod)
  have "c mod 4096 + z < 2 ^ 64" using assms by (meson add_le_mono1 le_less_trans mod_less_eq_dividend)
  then have us: "unat ((of_nat c :: u64) mod 4096 + of_nat z) = c mod 4096 + z"
    using um uc(2) by (subst unat_add_lem [THEN iffD1]) simp_all
  have le: "(of_nat c :: u64) mod 4096 \<le> 4096" using um by (simp add: word_le_nat_alt)
  have ud: "unat (4096 - (of_nat c :: u64) mod 4096) = 4096 - c mod 4096" using unat_sub [OF le] um by simp
  have ch: "unat (of_nat (chunk c z) :: u64) = chunk c z"
    using chunk_bounds(1) [of c z] assms by (intro unat_of_nat_small) simp
  show "(if (of_nat c :: u64) mod 4096 + of_nat z > 4096 then 4096 - of_nat c mod 4096 else of_nat z) = (of_nat (chunk c z) :: u64)"
  proof (cases "c mod 4096 + z > 4096")
    case True
    then have "chunk c z = 4096 - c mod 4096" by (simp add: chunk_def)
    then show ?thesis using True us ud ch by (simp add: word_less_nat_alt word_unat_eq_iff)
  next
    case False
    then have "chunk c z = z" by (simp add: chunk_def)
    then show ?thesis using False us by (simp add: word_less_nat_alt)
  qed
qed

end
