(* ===== verification/Tmpfs_Ops.thy ===== *)
theory Tmpfs_Ops
  imports Tmpfs
begin

text \<open>The operations that the file server offers, \<^verbatim>\<open>userland/servers/tmpfs/tmpfs_ops.c\<close>, and the server
  itself: the shared request handler of \<^verbatim>\<open>fs_base\<close> with these operations. A path argument is not
  NULL. A file offset is passed as an unsigned long; the results are truncated to \<^verbatim>\<open>int\<close> as the
  return types say.\<close>

unbundle bit_operations_syntax

definition check_path :: "u8 list \<Rightarrow> unit top" where
  "check_path path = bindS (liftR (get_byte path 0)) (\<lambda>c. bug_on (c \<noteq> slash))"

definition tmpfs_open :: "u8 list \<Rightarrow> int \<Rightarrow> int \<Rightarrow> (int \<times> u64 \<times> u64 \<times> fs_vnode_type \<times> u64) top" where
  "tmpfs_open path flags mode =
     thenS (check_path path)
     (bindS (tfs_open_path path) (\<lambda>i.
       if i \<noteq> 0 then
         bindS (readS inodes i) (\<lambda>x.
           ret (0, i, isize x, (if itype x = FS_REG then FS_NODE_REG else FS_NODE_DIR), i))
       else ret (- ENOENT, 0, 0, FS_NODE_RESERVED, 0)))"

definition tmpfs_read :: "u64 \<Rightarrow> u64 \<Rightarrow> u64 \<Rightarrow> u8 list \<Rightarrow> (int \<times> u8 list) top" where
  "tmpfs_read i offset sz buf =
     (if i \<noteq> 0 then bindS (tfs_file_read i offset buf sz) (\<lambda>(r, buf). ret (to_int r, buf))
      else ret (0, buf))"

definition tmpfs_write :: "u64 \<Rightarrow> u64 \<Rightarrow> u64 \<Rightarrow> u8 list \<Rightarrow> int top" where
  "tmpfs_write i offset sz buf =
     (if i \<noteq> 0 then bindS (tfs_file_write i offset buf sz) (\<lambda>r. ret (to_int r)) else ret 0)"

definition tmpfs_close :: "u64 \<Rightarrow> bool \<Rightarrow> int top" where
  "tmpfs_close i is_dir = ret 0"

definition fs_creat :: "u8 list \<Rightarrow> int top" where
  "fs_creat path =
     thenS (check_path path)
     (bindS (tfs_namex 0 path True) (\<lambda>(err, dirat, leaf).
       if err < 0 then ret err
       else
         bindS (liftR (strlen leaf)) (\<lambda>l.
         bindS (tfs_creat dirat leaf (of_nat l)) (\<lambda>err. ret (if err < 0 then err else 0)))))"

definition tmpfs_creat :: "u8 list \<Rightarrow> int top" where
  "tmpfs_creat pathname = fs_creat pathname"

definition tmpfs_unlink :: "u8 list \<Rightarrow> int \<Rightarrow> int top" where
  "tmpfs_unlink path flags =
     thenS (check_path path)
     (bindS (tfs_namex 0 path False) (\<lambda>(err, dirat, leaf).
       if err < 0 then ret err
       else bindS (liftR (strlen leaf)) (\<lambda>l. tfs_remove dirat leaf (of_nat l))))"

definition tmpfs_rmdir :: "u8 list \<Rightarrow> int \<Rightarrow> int top" where
  "tmpfs_rmdir path flags = tmpfs_unlink path flags"

definition tmpfs_mkdir :: "u8 list \<Rightarrow> int \<Rightarrow> int top" where
  "tmpfs_mkdir path mode =
     thenS (check_path path)
     (bindS (tfs_namex 0 path True) (\<lambda>(err, dirat, leaf).
       if err < 0 then ret err
       else bindS (liftR (strlen leaf)) (\<lambda>l. tfs_mkdir dirat leaf (of_nat l))))"

section \<open>Listing a directory\<close>

text \<open>The little-endian bytes of a word.\<close>

primrec le_bytes :: "nat \<Rightarrow> u64 \<Rightarrow> u8 list" where
  "le_bytes 0 w = []"
| "le_bytes (Suc n) w = ucast w # le_bytes n (drop_bit 8 w)"

text \<open>One entry at offset \<open>p\<close> of the buffer; \<open>fin\<close> is the offset of the end. The result is the length, or
  an error, with the new offset and buffer. \<^verbatim>\<open>dirent_filler\<close> of \<^verbatim>\<open>tmpfs.c\<close> is the same code.\<close>

definition dirent_filler ::
  "nat \<Rightarrow> nat \<Rightarrow> u8 list \<Rightarrow> u64 \<Rightarrow> u64 \<Rightarrow> u64 \<Rightarrow> u8 list \<Rightarrow> (int \<times> nat \<times> u8 list) res" where
  "dirent_filler p fin name off dtype ino buf =
     bindR (strlen name) (\<lambda>l.
       (let n = (l + 1 + 8 + 8 + 2 + 1) mod 2 ^ 16 in
        if p + n > fin then Inr (- EAGAIN, p, buf)
        else
          bindR (into p (\<lambda>d. memcpy d (le_bytes 8 ino @ le_bytes 8 off @ le_bytes 2 (of_nat n) @ le_bytes 1 dtype) 19) buf) (\<lambda>buf.
          bindR (into (p + 19) (\<lambda>d. strcpy d name) buf) (\<lambda>buf.
            Inr (int n, p + n, buf)))))"

text \<open>The entries of the table in the order of its buckets; \<open>cnt\<close> counts them.\<close>

fun scan_entries :: "u64 list \<Rightarrow> nat \<Rightarrow> u32 \<Rightarrow> nat \<Rightarrow> nat \<Rightarrow> u8 list \<Rightarrow> (nat \<times> nat \<times> u8 list) top" where
  "scan_entries [] cnt start p fin buf = ret (cnt, p, buf)"
| "scan_entries (d # ds) cnt start p fin buf =
     (if cnt \<ge> unat start then
        bindS (readS dentrys d) (\<lambda>dent.
        bindS (readS inodes (dinode dent)) (\<lambda>x.
        bindS (liftR (dirent_filler p fin (str (dname dent)) (of_nat cnt) (itype x) (isize x) buf)) (\<lambda>(r, p, buf).
          if r \<le> 0 then ret (cnt, p, buf) else scan_entries ds (cnt + 1) start p fin buf)))
      else scan_entries ds (cnt + 1) start p fin buf)"

definition tfs_scan :: "u64 \<Rightarrow> u32 \<Rightarrow> nat \<Rightarrow> u8 list \<Rightarrow> (int \<times> int \<times> u8 list) top" where
  "tfs_scan dir start fin buf =
     bindS (dentries_of dir) (\<lambda>ht.
     bindS (scan_entries (concat (buckets ht)) 0 start 0 fin buf) (\<lambda>(cnt, p, buf).
       ret (int cnt - int (unat start), int p, buf)))"

definition tmpfs_getdents :: "int \<Rightarrow> u64 \<Rightarrow> u8 list \<Rightarrow> (int \<times> u8 list) top" where
  "tmpfs_getdents fd cnt msg =
     bindS (server_entry_at fd) (\<lambda>e.
     bindS (readS entries e) (\<lambda>x.
     bindS (readS vnodes (entry_vnode x)) (\<lambda>v.
       (let i = vnode_private v in
        if i \<noteq> 0 then
          bindS (readS inodes i) (\<lambda>ino.
            if itype ino = FS_DIR then
              bindS (tfs_scan i (ucast (entry_offset x)) (unat (ucast cnt :: u32)) msg) (\<lambda>(r, read_bytes, msg).
              thenS (upd_entry e (\<lambda>x. x\<lparr>entry_offset := entry_offset x + word_of_int r\<rparr>))
                (ret (read_bytes, msg)))
            else ret (- ENOTDIR, msg))
        else ret (- ENOENT, msg)))))"

text \<open>The page number is an \<^verbatim>\<open>int\<close>, extended to the key of the tree.\<close>

definition tmpfs_get_page_addr :: "u64 \<Rightarrow> u64 \<Rightarrow> u64 top" where
  "tmpfs_get_page_addr i offset =
     bindS (data_of i) (\<lambda>r. radix_get_fs r (word_of_int (to_int (offset div FS_PAGE_SIZE))))"

definition tmpfs_get_size :: "u8 list \<Rightarrow> int top" where
  "tmpfs_get_size path =
     thenS (check_path path)
     (bindS (tfs_open_path path) (\<lambda>i.
       if i \<noteq> 0 then bindS (readS inodes i) (\<lambda>x. ret (to_int (isize x))) else ret (- 1)))"

section \<open>The server\<close>

definition tmpfs_server_ops :: "tmpfs fs_server_ops" where
  "tmpfs_server_ops =
     \<lparr>ops_open = tmpfs_open, ops_read = tmpfs_read, ops_write = tmpfs_write, ops_close = tmpfs_close,
      ops_creat = tmpfs_creat, ops_unlink = tmpfs_unlink, ops_mkdir = tmpfs_mkdir,
      ops_rmdir = tmpfs_rmdir, ops_getdents64 = tmpfs_getdents, ops_getsize = tmpfs_get_size\<rparr>"

text \<open>The start of the server up to its registration, with the archive linked into it; then one call of
  its handler.\<close>

definition tmpfs_main :: "u8 list \<Rightarrow> unit top" where
  "tmpfs_main ramdisk_cpio = thenS init_tmpfs (thenS (tfs_load_image ramdisk_cpio) (ret ()))"

definition tmpfs_dispatch :: "u64 \<Rightarrow> u64 \<Rightarrow> fs_request \<Rightarrow> u8 list \<Rightarrow> (int \<times> u8 list) top" where
  "tmpfs_dispatch entry_off badge fr msg = fs_server_dispatch tmpfs_server_ops entry_off badge fr msg"

end
