(* ===== verification/Tmpfs_Rw.thy ===== *)
theory Tmpfs_Rw
  imports Tmpfs_Files Tmpfs_Ops
begin

text \<open>Reading and writing files: \<^verbatim>\<open>tfs_file_write\<close> and \<^verbatim>\<open>tfs_file_read\<close> against the file as a function
  from byte numbers to bytes.\<close>

section \<open>One turn of the write loop\<close>

definition write_turn :: "u64 \<Rightarrow> nat \<Rightarrow> nat \<Rightarrow> u8 list \<Rightarrow> unit top" where
  "write_turn i c n src =
     bindS (page_for_write i (of_nat (c div 4096))) (\<lambda>page.
     bindS (readS pages page) (\<lambda>d.
     bindS (liftR (into (c mod 4096) (\<lambda>p. memcpy p src n) d)) (\<lambda>d.
       modify (\<lambda>s. s\<lparr>pages := (pages s)(page \<mapsto> d)\<rparr>))))"

lemma into_memcpy:
  assumes "a + n \<le> length d" "n \<le> length src"
  shows "into a (\<lambda>p. memcpy p src n) d = Inr (take a d @ take n src @ drop (a + n) d)"
  using assms by (simp add: into_def memcpy_copy add.commute)

lemma nth_patch:
  assumes "a + n \<le> length d" "n \<le> length src"
  shows "(take a d @ take n src @ drop (a + n) d) ! j = (if a \<le> j \<and> j < a + n then src ! (j - a) else d ! j)"
  using assms by (auto simp: nth_append)

lemma same_page:
  fixes c k n :: nat
  assumes "c mod 4096 + n \<le> 4096"
  shows "c \<le> k \<and> k < c + n \<longleftrightarrow> k div 4096 = c div 4096 \<and> c mod 4096 \<le> k mod 4096 \<and> k mod 4096 < c mod 4096 + n"
    and "k div 4096 = c div 4096 \<Longrightarrow> c mod 4096 \<le> k mod 4096 \<Longrightarrow> k mod 4096 - c mod 4096 = k - c"
proof -
  have c: "c = c div 4096 * 4096 + c mod 4096" and k: "k = k div 4096 * 4096 + k mod 4096" by simp_all
  have "k div 4096 = c div 4096" if "c \<le> k" "k < c + n"
    using that assms c by (intro div_nat_eqI; simp only: mult_Suc_right; linarith)
  then show "c \<le> k \<and> k < c + n \<longleftrightarrow> k div 4096 = c div 4096 \<and> c mod 4096 \<le> k mod 4096 \<and> k mod 4096 < c mod 4096 + n"
    using c k by (metis (no_types, lifting) add.assoc add_le_cancel_left add_less_cancel_left)
  show "k mod 4096 - c mod 4096 = k - c" if "k div 4096 = c div 4096" "c mod 4096 \<le> k mod 4096"
    using that c k by (metis diff_add_inverse add_diff_cancel_left)
qed

lemma write_turn_spec:
  assumes "file_ok pos own s" "reg_file s i t" "is_root pos (rnodes s) (root_fs t)" "has_room 32768 s"
    and "c mod 4096 + n \<le> 4096" "n \<le> length src" "c + n < 2 ^ 64"
  shows "\<exists>s' pos' own'. write_turn i c n src s = Inr ((), s') \<and> file_ok pos' own' s' \<and> grows 32768 pos s pos' s' \<and>
    (\<forall>r k. is_root pos (rnodes s) r \<and> k < 2 ^ 64 \<longrightarrow>
       fbyte s' r k = (if r = root_fs t then fwrite (fbyte s r) c (take n src) k else fbyte s r k)) \<and>
    page_of s' (root_fs t) (of_nat (c div 4096)) \<noteq> 0 \<and>
    (\<forall>r k. is_root pos (rnodes s) r \<and> page_of s r k \<noteq> 0 \<longrightarrow> page_of s' r k \<noteq> 0)"
proof -
  define w where "w = (of_nat (c div 4096) :: u64)"
  have room: "has_room (8 * 4096) s" using assms(4) by simp
  have uw: "unat w = c div 4096" using assms(7) by (simp add: w_def unat_of_nat_small)
  obtain p s1 pos1 own1 where a: "page_for_write i w s = Inr (p, s1)" "file_ok pos1 own1 s1"
    "grows (8 * 4096) pos s pos1 s1" "p \<noteq> 0" "page_of s1 (root_fs t) w = p"
    "\<forall>r k. is_root pos (rnodes s) r \<and> page_of s r k \<noteq> 0 \<longrightarrow> page_of s1 r k = page_of s r k"
    "\<forall>r k. is_root pos (rnodes s) r \<longrightarrow> fbyte s1 r k = fbyte s r k"
    using page_for_write_spec [OF assms(1-3) room] by blast
  have rt: "is_root pos1 (rnodes s1) r" if "is_root pos (rnodes s) r" for r
    by (rule grows_root [OF a(3) assms(1) that])
  obtain d where d: "pages s1 p = Some d" "length d = 4096"
    using page_of_owner [OF a(2) rt [OF assms(3)], of w] a(2,4,5) by (auto simp: file_ok_def)
  define d' where "d' = take (c mod 4096) d @ take n src @ drop (c mod 4096 + n) d"
  have l': "length d' = 4096" using d(2) assms(5,6) by (simp add: d'_def)
  define s2 where "s2 = s1\<lparr>pages := (pages s1)(p \<mapsto> d')\<rparr>"
  note pp = put_page [OF a(2) rt [OF assms(3)] a(5,4) l', folded s2_def]
  have "write_turn i c n src s = Inr ((), s2)"
    using a(1) d into_memcpy [of "c mod 4096" n d src] assms(5,6)
    by (simp add: write_turn_def bindS_simp w_def s2_def d'_def)
  moreover have "grows 32768 pos s pos1 s2"
    using a(3) same_rest_trans [of s s1 s2] by (simp add: grows_def s2_def brk_def)
  moreover have "fbyte s2 r k = (if r = root_fs t then fwrite (fbyte s r) c (take n src) k else fbyte s r k)"
    if q: "is_root pos (rnodes s) r" "k < 2 ^ 64" for r k
  proof -
    have e: "fbyte s2 r k = (if r = root_fs t \<and> k div 4096 = c div 4096 then d' ! (k mod 4096) else fbyte s r k)"
      using pp(2) [OF rt [OF q(1)] q(2)] a(7) q(1) uw by simp
    have d'k: "d' ! (k mod 4096) = (if c mod 4096 \<le> k mod 4096 \<and> k mod 4096 < c mod 4096 + n then src ! (k mod 4096 - c mod 4096) else d ! (k mod 4096))"
      unfolding d'_def by (rule nth_patch) (use assms(5,6) d(2) in simp_all)
    have old: "fbyte s r k = d ! (k mod 4096)" if "r = root_fs t" "k div 4096 = c div 4096"
    proof -
      have "fbyte s1 r k = d ! (k mod 4096)" using that a(4,5) d(1) by (simp add: fbyte_def w_def)
      then show ?thesis using a(7) q(1) by simp
    qed
    have tl: "length (take n src) = n" using assms(6) by simp
    have nt: "take n src ! (k - c) = src ! (k - c)" if "c \<le> k" "k < c + n" by (rule nth_take) (use that in linarith)
    show ?thesis
      unfolding e fwrite_def tl using same_page [OF assms(5), of k] d'k old by (auto simp: nt)
  qed
  moreover have "page_of s2 r k = page_of s1 r k" for r k by (simp add: page_of_def s2_def)
  ultimately show ?thesis using pp(1) a(4-6) unfolding w_def [symmetric] by metis
qed

section \<open>The write loop\<close>

lemma fwrite_at: "f k = g k \<Longrightarrow> fwrite f a xs k = fwrite g a xs k"
  by (simp add: fwrite_def)

lemma write_loop_turn:
  assumes "o' \<le> c" "c + z < 2 ^ 64" "0 < z"
  shows "file_write_loop (Suc fuel) i (of_nat o') (of_nat c) data (of_nat z) s =
    thenS (write_turn i c (chunk c z) (drop (c - o') data))
      (file_write_loop fuel i (of_nat o') (of_nat (c + chunk c z)) data (of_nat (z - chunk c z))) s"
proof -
  note w = chunk_words [OF assms(2)]
  have "unat (of_nat c - of_nat o' :: u64) = c - o'"
    using assms(1,2) unat_of_nat_small [of "c - o'"] by (simp add: of_nat_diff)
  moreover have "(0 :: u64) < of_nat z" using assms(2,3) by (simp add: word_less_nat_alt unat_of_nat_small)
  moreover have "unat (of_nat (chunk c z) :: u64) = chunk c z"
    using chunk_bounds(1) [of c z] assms(2) by (intro unat_of_nat_small) simp
  moreover have "of_nat z - of_nat (chunk c z) = (of_nat (z - chunk c z) :: u64)"
    using chunk_bounds(1) [of z c] by (simp add: chunk_bounds(1) of_nat_diff)
  ultimately show ?thesis
    by (simp only: file_write_loop.simps if_True Let_def FS_PAGE_SIZE_def w of_nat_add [symmetric])
      (simp add: write_turn_def bindS_simp thenS_simp bindR_assoc split_def)
qed

lemma write_loop_spec:
  assumes "file_ok pos own s" "reg_file s i t" "is_root pos (rnodes s) (root_fs t)"
    and "o' \<le> c" "c + z < 2 ^ 64" "z \<le> fuel" "c - o' + z \<le> length data" "has_room (32768 * touched c z) s"
  shows "\<exists>s' pos' own'. file_write_loop fuel i (of_nat o') (of_nat c) data (of_nat z) s = Inr (of_nat (c + z), s') \<and>
    file_ok pos' own' s' \<and> grows (32768 * touched c z) pos s pos' s' \<and>
    (\<forall>r k. is_root pos (rnodes s) r \<and> k < 2 ^ 64 \<longrightarrow>
       fbyte s' r k = (if r = root_fs t then fwrite (fbyte s r) c (take z (drop (c - o') data)) k else fbyte s r k)) \<and>
    (\<forall>k. c \<le> k \<and> k < c + z \<longrightarrow> page_of s' (root_fs t) (of_nat (k div 4096)) \<noteq> 0) \<and>
    (\<forall>r k. is_root pos (rnodes s) r \<and> page_of s r k \<noteq> 0 \<longrightarrow> page_of s' r k \<noteq> 0)"
  using assms
proof (induction fuel arbitrary: c z s pos own)
  case 0
  then have z: "z = 0" by simp
  have "grows 0 pos s pos s" by (simp add: grows_def)
  then show ?case using z 0 by (intro exI [of _ s] exI [of _ pos] exI [of _ own]) (auto simp: touched_def)
next
  case (Suc fuel)
  show ?case
  proof (cases "z = 0")
    case True
    have "grows 0 pos s pos s" by (simp add: grows_def)
    then show ?thesis using True Suc.prems(1)
      by (intro exI [of _ s] exI [of _ pos] exI [of _ own]) (auto simp: touched_def)
  next
    case False
    then have z: "0 < z" by simp
    define n where "n = chunk c z"
    note cb = chunk_bounds [where c = c and z = z, folded n_def]
    have ts: "touched (c + n) (z - n) + 1 = touched c z" using touched_step [OF z] by (simp add: n_def)
    have room: "has_room 32768 s" using Suc.prems(8) ts by (intro has_room_mono [OF Suc.prems(8)]) simp
    have len: "n \<le> length (drop (c - o') data)" using Suc.prems(7) cb(1) by simp
    have cn: "c + n < 2 ^ 64" using Suc.prems(5) cb(1) by linarith
    obtain s1 pos1 own1 where t: "write_turn i c n (drop (c - o') data) s = Inr ((), s1)" "file_ok pos1 own1 s1"
      "grows 32768 pos s pos1 s1"
      "\<forall>r k. is_root pos (rnodes s) r \<and> k < 2 ^ 64 \<longrightarrow>
         fbyte s1 r k = (if r = root_fs t then fwrite (fbyte s r) c (take n (drop (c - o') data)) k else fbyte s r k)"
      "page_of s1 (root_fs t) (of_nat (c div 4096)) \<noteq> 0"
      "\<forall>r k. is_root pos (rnodes s) r \<and> page_of s r k \<noteq> 0 \<longrightarrow> page_of s1 r k \<noteq> 0"
      using write_turn_spec [OF Suc.prems(1-3) room cb(2) len cn] by blast
    have rt: "is_root pos1 (rnodes s1) r" if "is_root pos (rnodes s) r" for r
      by (rule grows_root [OF t(3) Suc.prems(1) that])
    have rf: "reg_file s1 i t" using reg_file_rest [of s s1 i t] t(3) Suc.prems(2) by (simp add: grows_def)
    have room1: "has_room (32768 * touched (c + n) (z - n)) s1"
      by (rule grows_room [OF t(3)]) (use Suc.prems(8) ts in \<open>simp add: ts [symmetric]\<close>)
    have pre: "o' \<le> c + n" "c + n + (z - n) < 2 ^ 64" "z - n \<le> fuel" "c + n - o' + (z - n) \<le> length data"
      using Suc.prems(4-7) cb z by linarith+
    obtain s2 pos2 own2 where u: "file_write_loop fuel i (of_nat o') (of_nat (c + n)) data (of_nat (z - n)) s1 =
        Inr (of_nat (c + n + (z - n)), s2)" "file_ok pos2 own2 s2" "grows (32768 * touched (c + n) (z - n)) pos1 s1 pos2 s2"
      "\<forall>r k. is_root pos1 (rnodes s1) r \<and> k < 2 ^ 64 \<longrightarrow>
         fbyte s2 r k = (if r = root_fs t then fwrite (fbyte s1 r) (c + n) (take (z - n) (drop (c + n - o') data)) k else fbyte s1 r k)"
      "\<forall>k. c + n \<le> k \<and> k < c + n + (z - n) \<longrightarrow> page_of s2 (root_fs t) (of_nat (k div 4096)) \<noteq> 0"
      "\<forall>r k. is_root pos1 (rnodes s1) r \<and> page_of s1 r k \<noteq> 0 \<longrightarrow> page_of s2 r k \<noteq> 0"
      using Suc.IH [OF t(2) rf rt [OF Suc.prems(3)] pre room1] by blast
    have "file_write_loop (Suc fuel) i (of_nat o') (of_nat c) data (of_nat z) s = Inr (of_nat (c + z), s2)"
      using write_loop_turn [OF Suc.prems(4,5) z, folded n_def] t(1) u(1) cb(1) by (simp add: thenS_simp)
    moreover have "grows (32768 * touched c z) pos s pos2 s2"
      using grows_trans [OF t(3) u(3)] ts by (simp add: ts [symmetric])
    moreover have "fbyte s2 r k = (if r = root_fs t then fwrite (fbyte s r) c (take z (drop (c - o') data)) k else fbyte s r k)"
      if q: "is_root pos (rnodes s) r" "k < 2 ^ 64" for r k
    proof -
      have "take z (drop (c - o') data) = take n (drop (c - o') data) @ take (z - n) (drop (c + n - o') data)"
        using take_add [of n "z - n" "drop (c - o') data"] cb(1) Suc.prems(4) by (simp add: add.commute)
      moreover have "length (take n (drop (c - o') data)) = n" using len by simp
      ultimately show ?thesis using u(4) rt [OF q(1)] t(4) q
          fwrite_at [of "fbyte s1 r" k "fwrite (fbyte s r) c (take n (drop (c - o') data))"]
        by (cases "r = root_fs t") (simp_all add: fwrite_append)
    qed
    moreover have "page_of s2 (root_fs t) (of_nat (k div 4096)) \<noteq> 0" if k: "c \<le> k" "k < c + z" for k
    proof (cases "k < c + n")
      case True
      then have "k div 4096 = c div 4096" using same_page(1) [OF cb(2), of k] k(1) by blast
      then show ?thesis using u(6) rt [OF Suc.prems(3)] t(5) by simp
    next
      case False
      then show ?thesis using u(5) k(2) cb(1) by simp
    qed
    moreover have "page_of s2 r k \<noteq> 0" if "is_root pos (rnodes s) r" "page_of s r k \<noteq> 0" for r k
      using u(6) t(6) that rt by blast
    ultimately show ?thesis using u(2) by blast
  qed
qed

section \<open>The read loop\<close>

lemma page_bytes:
  assumes "file_ok pos own s" "is_root pos (rnodes s) r" "c mod 4096 + n \<le> 4096"
    and "page_of s r (of_nat (c div 4096)) = p" "p \<noteq> 0"
  shows "\<exists>d. pages s p = Some d \<and> length d = 4096 \<and> take n (drop (c mod 4096) d) = map (fbyte s r) [c..<c + n]"
proof -
  obtain d where d: "pages s p = Some d" "length d = 4096"
    using page_of_owner [OF assms(1,2), of "of_nat (c div 4096)"] assms(1,4,5) by (auto simp: file_ok_def)
  have "take n (drop (c mod 4096) d) = map (fbyte s r) [c..<c + n]"
  proof (rule nth_equalityI)
    show l: "length (take n (drop (c mod 4096) d)) = length (map (fbyte s r) [c..<c + n])" using d(2) assms(3) by simp
    fix j assume "j < length (take n (drop (c mod 4096) d))"
    then have j: "j < n" by simp
    have k: "(c + j) div 4096 = c div 4096" "c mod 4096 \<le> (c + j) mod 4096"
      using same_page(1) [OF assms(3), of "c + j"] j by simp_all
    then have "(c + j) mod 4096 = c mod 4096 + j" using same_page(2) [OF assms(3) k] by simp
    then show "take n (drop (c mod 4096) d) ! j = map (fbyte s r) [c..<c + n] ! j"
      using j k(1) assms(3,4,5) d by (simp add: fbyte_def)
  qed
  then show ?thesis using d by blast
qed

lemma read_loop_spec:
  assumes "file_ok pos own s" "reg_file s i t" "is_root pos (rnodes s) (root_fs t)"
    and "o' \<le> c" "c + z < 2 ^ 64" "z \<le> fuel" "c - o' + z \<le> length buff"
    and "\<forall>k. c \<le> k \<and> k < c + z \<longrightarrow> page_of s (root_fs t) (of_nat (k div 4096)) \<noteq> 0"
  shows "file_read_loop fuel i (of_nat o') (of_nat c) buff (of_nat z) s =
    Inr ((of_nat (c + z), take (c - o') buff @ map (fbyte s (root_fs t)) [c..<c + z] @ drop (c - o' + z) buff), s)"
  using assms(4-8)
proof (induction fuel arbitrary: c z buff)
  case (Suc fuel)
  show ?case
  proof (cases "z = 0")
    case False
    then have z: "0 < z" by simp
    define n where "n = chunk c z"
    define r where "r = root_fs t"
    note cb = chunk_bounds [where c = c and z = z, folded n_def]
    note w = chunk_words [OF Suc.prems(2), folded n_def]
    define p where "p = page_of s r (of_nat (c div 4096))"
    have p: "p \<noteq> 0" using Suc.prems(5) z by (simp add: p_def r_def)
    obtain d where d: "pages s p = Some d" "length d = 4096" "take n (drop (c mod 4096) d) = map (fbyte s r) [c..<c + n]"
      using page_bytes [OF assms(1,3) cb(2), folded r_def, of p] p by (auto simp: p_def)
    have co: "unat (of_nat c - of_nat o' :: u64) = c - o'"
      using Suc.prems(1,2) unat_of_nat_small [of "c - o'"] by (simp add: of_nat_diff)
    have pos: "(0 :: u64) < of_nat z" using Suc.prems(2) z by (simp add: word_less_nat_alt unat_of_nat_small)
    have un: "unat (of_nat n :: u64) = n" using cb(1) Suc.prems(2) by (intro unat_of_nat_small) simp
    have zn: "of_nat z - of_nat n = (of_nat (z - n) :: u64)" using cb(1) by (simp add: of_nat_diff)
    define b where "b = take (c - o') buff @ map (fbyte s r) [c..<c + n] @ drop (c - o' + n) buff"
    have "into (c - o') (\<lambda>b. memcpy b (drop (c mod 4096) d) n) buff = Inr b"
      using into_memcpy [of "c - o'" n buff "drop (c mod 4096) d"] Suc.prems(4) cb(1,2) d(2,3)
      by (simp add: b_def)
    then have "file_read_loop (Suc fuel) i (of_nat o') (of_nat c) buff (of_nat z) s =
        file_read_loop fuel i (of_nat o') (of_nat (c + n)) b (of_nat (z - n)) s"
      using data_of_spec [OF assms(2)] radix_get_page [OF assms(1,3)] pos
      by (simp only: file_read_loop.simps if_True Let_def FS_PAGE_SIZE_def w co un zn of_nat_add [symmetric])
         (simp add: bindS_simp d(1) p_def [symmetric] r_def [symmetric])
    also have "\<dots> = Inr ((of_nat (c + n + (z - n)),
        take (c + n - o') b @ map (fbyte s (root_fs t)) [c + n..<c + n + (z - n)] @ drop (c + n - o' + (z - n)) b), s)"
      using Suc.prems cb z by (intro Suc.IH) (auto simp: b_def)
    also have "take (c + n - o') b = take (c - o') buff @ map (fbyte s r) [c..<c + n]"
    proof -
      have "length (take (c - o') buff @ map (fbyte s r) [c..<c + n]) = c + n - o'" using Suc.prems(1,4) by simp
      moreover have "b = (take (c - o') buff @ map (fbyte s r) [c..<c + n]) @ drop (c - o' + n) buff" by (simp add: b_def)
      ultimately show ?thesis by (metis append_eq_conv_conj)
    qed
    also have "drop (c + n - o' + (z - n)) b = drop (c - o' + z) buff"
      using Suc.prems(1,4) cb(1) by (simp add: b_def add.commute)
    finally have run: "file_read_loop (Suc fuel) i (of_nat o') (of_nat c) buff (of_nat z) s = Inr ((of_nat (c + n + (z - n)),
        (take (c - o') buff @ map (fbyte s r) [c..<c + n]) @ map (fbyte s (root_fs t)) [c + n..<c + n + (z - n)] @
        drop (c - o' + z) buff), s)" .
    have "[c..<c + z] = [c..<c + n] @ [c + n..<c + z]"
      using upt_add_eq_append [of c "c + n" "z - n"] cb(1) by simp
    moreover have "c + n + (z - n) = c + z" using cb(1) by simp
    ultimately show ?thesis unfolding run r_def by (simp only: map_append append_assoc)
  qed simp
qed simp

section \<open>The two operations\<close>

text \<open>The state of the server with its files in order; \<open>roots\<close> of different inodes are different.\<close>

definition files_ok :: "tmpfs \<Rightarrow> bool" where
  "files_ok s \<longleftrightarrow> (\<exists>pos own. file_ok pos own s \<and> (\<forall>i t. reg_file s i t \<longrightarrow> is_root pos (rnodes s) (root_fs t))) \<and>
     (\<forall>i j t u. reg_file s i t \<and> reg_file s j u \<and> root_fs t = root_fs u \<longrightarrow> i = j)"

text \<open>The bytes of the file of an inode.\<close>

definition file_byte :: "tmpfs \<Rightarrow> u64 \<Rightarrow> nat \<Rightarrow> u8" where
  "file_byte s i k =
     (case inodes s i of Some x \<Rightarrow> (case idata x of Data t \<Rightarrow> fbyte s (root_fs t) k | _ \<Rightarrow> 0) | None \<Rightarrow> 0)"

lemma file_byte_reg: "reg_file s i t \<Longrightarrow> file_byte s i k = fbyte s (root_fs t) k"
  by (auto simp: reg_file_def file_byte_def)

lemma reg_file_unique: "reg_file s i t \<Longrightarrow> reg_file s i u \<Longrightarrow> t = u"
  by (auto simp: reg_file_def)

text \<open>The size after a write of \<open>n\<close> bytes, as the code computes it.\<close>

definition size_after :: "nat \<Rightarrow> u64 \<Rightarrow> u64" where
  "size_after n sz = (if n > unat sz then of_nat n else sz)"

lemma inodes_frame:
  "fbyte (s\<lparr>inodes := f\<rparr>) = fbyte s" "file_ok pos own (s\<lparr>inodes := f\<rparr>) = file_ok pos own s"
  "page_of (s\<lparr>inodes := f\<rparr>) = page_of s" "has_room m (s\<lparr>inodes := f\<rparr>) = has_room m s" "brk (s\<lparr>inodes := f\<rparr>) = brk s"
proof -
  show po: "page_of (s\<lparr>inodes := f\<rparr>) = page_of s" by (intro ext) (simp add: page_of_def)
  show "fbyte (s\<lparr>inodes := f\<rparr>) = fbyte s" by (intro ext) (simp add: fbyte_def po Let_def)
  have "page_at own (s\<lparr>inodes := f\<rparr>) = page_at own s" by (intro ext) (simp add: page_at_def)
  then show "file_ok pos own (s\<lparr>inodes := f\<rparr>) = file_ok pos own s" by (simp add: file_ok_def fresh_nodes_def brk_def)
  show "has_room m (s\<lparr>inodes := f\<rparr>) = has_room m s" "brk (s\<lparr>inodes := f\<rparr>) = brk s"
    by (simp_all add: has_room_def brk_def)
qed

lemma tfs_file_write_spec:
  assumes "files_ok s" "inodes s i = Some x" "itype x = FS_REG" "idata x = Data t" "offset \<le> isize x"
    and "unat offset + n < 2 ^ 64" "n \<le> length data" "has_room (32768 * touched (unat offset) n) s"
  shows "\<exists>s' pos' own'. tfs_file_write i offset data (of_nat n) s = Inr (of_nat n, s') \<and>
    files_ok s' \<and> file_ok pos' own' s' \<and> is_root pos' (rnodes s') (root_fs t) \<and>
    inodes s' = (inodes s)(i \<mapsto> x\<lparr>isize := size_after n (isize x)\<rparr>) \<and> dentrys s' = dentrys s \<and> tmpfs_root s' = tmpfs_root s \<and>
    (\<forall>j u k. reg_file s j u \<and> k < 2 ^ 64 \<longrightarrow> file_byte s' j k =
       (if j = i then fwrite (file_byte s i) (unat offset) (take n data) k else file_byte s j k)) \<and>
    (\<forall>k. unat offset \<le> k \<and> k < unat offset + n \<longrightarrow> page_of s' (root_fs t) (of_nat (k div 4096)) \<noteq> 0)"
proof -
  obtain pos own where f: "file_ok pos own s" "\<forall>i t. reg_file s i t \<longrightarrow> is_root pos (rnodes s) (root_fs t)"
    using assms(1) by (auto simp: files_ok_def)
  have inj: "\<forall>i j t u. reg_file s i t \<and> reg_file s j u \<and> root_fs t = root_fs u \<longrightarrow> i = j"
    using assms(1) by (simp add: files_ok_def)
  have rf: "reg_file s i t" using assms(2-4) by (simp add: reg_file_def)
  have un: "unat (of_nat n :: u64) = n" using assms(6) by (simp add: unat_of_nat_small)
  define c where "c = unat offset"
  have oc: "of_nat c = offset" by (simp add: c_def)
  obtain s1 pos1 own1 where w: "file_write_loop n i (of_nat c) (of_nat c) data (of_nat n) s = Inr (of_nat (c + n), s1)"
    "file_ok pos1 own1 s1" "grows (32768 * touched c n) pos s pos1 s1"
    "\<forall>r k. is_root pos (rnodes s) r \<and> k < 2 ^ 64 \<longrightarrow>
       fbyte s1 r k = (if r = root_fs t then fwrite (fbyte s r) c (take n (drop (c - c) data)) k else fbyte s r k)"
    "\<forall>k. c \<le> k \<and> k < c + n \<longrightarrow> page_of s1 (root_fs t) (of_nat (k div 4096)) \<noteq> 0"
    using write_loop_spec [OF f(1) rf, of c c n n data] f(2) rf assms(6-8) unfolding c_def [symmetric] by auto
  have s1: "inodes s1 = inodes s" "dentrys s1 = dentrys s" "tmpfs_root s1 = tmpfs_root s"
    using same_rest_fields [of s s1] w(3) by (simp_all add: grows_def)
  define s2 where "s2 = s1\<lparr>inodes := (inodes s)(i \<mapsto> x\<lparr>isize := size_after n (isize x)\<rparr>)\<rparr>"
  have idem: "s1\<lparr>inodes := (inodes s)(i \<mapsto> x)\<rparr> = s1" using s1(1) assms(2) by (simp add: fun_upd_idem)
  have cond: "(of_nat n :: u64) > isize x \<longleftrightarrow> n > unat (isize x)" by (simp add: word_less_nat_alt un)
  have "tfs_file_write i offset data (of_nat n) s = Inr (of_nat n, s2)"
    using w(1) assms(2,3,5) s1(1) cond idem
    by (simp add: tfs_file_write_def bindS_simp thenS_simp un oc upd_inode_def s2_def size_after_def not_less)
  moreover have rf2: "reg_file s2 j u \<longleftrightarrow> reg_file s j u" for j u
    using assms(2-4) by (auto simp: reg_file_def s2_def)
  have rn: "rnodes s2 = rnodes s1" by (simp add: s2_def)
  have rt: "is_root pos1 (rnodes s2) (root_fs u)" if "reg_file s j u" for j u
    using grows_root [OF w(3) f(1)] f(2) that rn by simp
  moreover have fo: "file_ok pos1 own1 s2" using w(2) by (simp add: s2_def inodes_frame)
  moreover have "files_ok s2" using fo rt inj unfolding files_ok_def rf2 by blast
  moreover have "file_byte s2 j k = (if j = i then fwrite (file_byte s i) c (take n data) k else file_byte s j k)"
    if q: "reg_file s j u" "k < 2 ^ 64" for j u k
  proof -
    have "file_byte s2 j k = fbyte s1 (root_fs u) k"
      using file_byte_reg [of s2 j u k] rf2 q(1) by (simp add: s2_def inodes_frame)
    also have "\<dots> = (if root_fs u = root_fs t then fwrite (fbyte s (root_fs u)) c (take n data) k else fbyte s (root_fs u) k)"
      using w(4) f(2) q by auto
    also have "root_fs u = root_fs t \<longleftrightarrow> j = i" using inj q(1) rf reg_file_unique by blast
    finally have e: "file_byte s2 j k = (if j = i then fwrite (fbyte s (root_fs u)) c (take n data) k else fbyte s (root_fs u) k)" .
    have "u = t" if "j = i" using that q(1) rf reg_file_unique by blast
    then show ?thesis unfolding e
      using file_byte_reg [OF q(1)] file_byte_reg [OF rf] fwrite_at [of "file_byte s i" k "fbyte s (root_fs t)"] by simp
  qed
  ultimately show ?thesis
    using rt [OF rf] s1 w(5) unfolding c_def by (intro exI [of _ s2] exI [of _ pos1] exI [of _ own1]) (auto simp: s2_def inodes_frame)
qed

lemma tfs_file_read_spec:
  assumes "file_ok pos own s" "inodes s i = Some x" "itype x = FS_REG" "idata x = Data t" "is_root pos (rnodes s) (root_fs t)"
    and "offset \<le> isize x" "unat offset + m < 2 ^ 64" "n = min m (unat (isize x) - unat offset)" "n \<le> length buff"
    and "\<forall>k. unat offset \<le> k \<and> k < unat offset + n \<longrightarrow> page_of s (root_fs t) (of_nat (k div 4096)) \<noteq> 0"
  shows "tfs_file_read i offset buff (of_nat m) s =
    Inr ((of_nat n, map (file_byte s i) [unat offset..<unat offset + n] @ drop n buff), s)"
proof -
  have rf: "reg_file s i t" using assms(2-4) by (simp add: reg_file_def)
  have um: "unat (of_nat m :: u64) = m" using assms(7) by (simp add: unat_of_nat_small)
  have sum: "unat (offset + of_nat m) = unat offset + m" using assms(7) um by (subst unat_add_lem [THEN iffD1]) simp_all
  have sub: "unat (isize x - offset) = unat (isize x) - unat offset" by (rule unat_sub [OF assms(6)])
  have le: "unat offset \<le> unat (isize x)" using assms(6) by (simp add: word_le_nat_alt)
  have sz: "(if offset + of_nat m > isize x then isize x - offset else of_nat m) = of_nat n"
    using sum sub le assms(8) um by (auto simp: word_less_nat_alt word_unat_eq_iff min_def unat_of_nat_small) 
  have un: "unat (of_nat n :: u64) = n" using assms(7,8) by (intro unat_of_nat_small) simp
  have off: "of_nat (unat offset) = offset" by simp
  have "unat offset + n < 2 ^ 64" using assms(7,8) by simp
  then have "file_read_loop n i offset offset buff (of_nat n) s =
      Inr ((of_nat (unat offset + n), map (fbyte s (root_fs t)) [unat offset..<unat offset + n] @ drop n buff), s)"
    using read_loop_spec [OF assms(1) rf assms(5), of "unat offset" "unat offset" n n buff] assms(9,10) by simp
  moreover have "map (fbyte s (root_fs t)) ks = map (file_byte s i) ks" for ks
    using file_byte_reg [OF rf] by simp
  ultimately show ?thesis using assms(2,3,6)
    by (simp add: tfs_file_read_def bindS_simp thenS_simp sz un not_less)
qed

lemma map_fwrite: "map (fwrite f a xs) [a..<a + length xs] = xs"
  by (rule nth_equalityI) (simp_all add: fwrite_def)

text \<open>C4: What is written to a file is what is read back: a write inside the file, or at its start, stores
  every byte and returns their number, a read of the same interval returns the bytes written, and every
  byte of every other file is unchanged.\<close>

theorem file_write_read_roundtrip:
  assumes "files_ok s" "inodes s i = Some x" "itype x = FS_REG" "idata x = Data t"
    and "offset \<le> isize x" "unat offset + length data < 2 ^ 64"
    and "offset = 0 \<or> unat offset + length data \<le> unat (isize x)"
    and "has_room (32768 * touched (unat offset) (length data)) s" "length buff = length data"
  shows "\<exists>s'. tfs_file_write i offset data (of_nat (length data)) s = Inr (of_nat (length data), s') \<and>
    tfs_file_read i offset buff (of_nat (length data)) s' = Inr ((of_nat (length data), data), s') \<and>
    files_ok s' \<and>
    (\<forall>j u k. reg_file s j u \<and> j \<noteq> i \<and> k < 2 ^ 64 \<longrightarrow> file_byte s' j k = file_byte s j k)"
proof -
  let ?n = "length data"
  obtain s' pos own where w: "tfs_file_write i offset data (of_nat ?n) s = Inr (of_nat ?n, s')" "files_ok s'"
    "file_ok pos own s'" "is_root pos (rnodes s') (root_fs t)"
    "inodes s' = (inodes s)(i \<mapsto> x\<lparr>isize := size_after ?n (isize x)\<rparr>)"
    "\<forall>j u k. reg_file s j u \<and> k < 2 ^ 64 \<longrightarrow> file_byte s' j k =
       (if j = i then fwrite (file_byte s i) (unat offset) (take ?n data) k else file_byte s j k)"
    "\<forall>k. unat offset \<le> k \<and> k < unat offset + ?n \<longrightarrow> page_of s' (root_fs t) (of_nat (k div 4096)) \<noteq> 0"
    using tfs_file_write_spec [OF assms(1-6) order_refl assms(8)] by blast
  let ?x = "x\<lparr>isize := size_after ?n (isize x)\<rparr>"
  have un: "unat (of_nat ?n :: u64) = ?n" using assms(6) by (simp add: unat_of_nat_small)
  have le: "offset \<le> isize ?x" "?n = min ?n (unat (isize ?x) - unat offset)"
    using assms(5,7) un by (auto simp: size_after_def word_le_nat_alt)
  have "tfs_file_read i offset buff (of_nat ?n) s' =
      Inr ((of_nat ?n, map (file_byte s' i) [unat offset..<unat offset + ?n] @ drop ?n buff), s')"
    by (rule tfs_file_read_spec [OF w(3) _ _ _ w(4) le(1) assms(6) le(2) _ w(7)]) (use assms(3,4,9) w(5) in simp_all)
  moreover have "map (file_byte s' i) [unat offset..<unat offset + ?n] = data"
  proof -
    have "reg_file s i t" using assms(2-4) by (simp add: reg_file_def)
    then have "map (file_byte s' i) [unat offset..<unat offset + ?n] =
        map (fwrite (file_byte s i) (unat offset) data) [unat offset..<unat offset + ?n]"
      using w(6) assms(6) by simp
    then show ?thesis by (simp add: map_fwrite)
  qed
  ultimately have "tfs_file_read i offset buff (of_nat ?n) s' = Inr ((of_nat ?n, data), s')" using assms(9) by simp
  then show ?thesis using w(1,2,6) by auto
qed

text \<open>A server with one regular file of eight bytes.\<close>

definition sample_file :: inode where
  "sample_file = \<lparr>itype = FS_REG, isize = 8, idata = Data \<lparr>root_fs = 0x1000000, value_deleter_fs = FreeDeleter\<rparr>\<rparr>"

definition sample_tmpfs :: tmpfs where
  "sample_tmpfs = \<lparr>malloc_header = 0x10000, pmo_create_ret = 1, pmo_map_ret = 0,
     rnodes = [0x1000000 \<mapsto> replicate 512 0],
     server_entrys = [], entries = Map.empty, vnodes = Map.empty, strings = Map.empty, fs_vnode_list = [],
     server_entry_mapping = [], fs_wrapper_meta_lock = False, mounted = True,
     inodes = [0x1002000 \<mapsto> sample_file], dentrys = Map.empty, pages = Map.empty,
     tmpfs_root = 0, tmpfs_root_dent = 0, fidman = sample_idman\<rparr>"

lemma sample_tmpfs_ok: "files_ok sample_tmpfs" "inodes sample_tmpfs 0x1002000 = Some sample_file" "has_room 32768 sample_tmpfs"
proof -
  let ?pos = "\<lambda>a::u64. (a, 7::nat, 0::nat)"
  have "file_ok ?pos (\<lambda>_. (0, 0)) sample_tmpfs"
    by (auto simp: file_ok_def rad_ok_def node_ok_def fresh_nodes_def sample_tmpfs_def brk_def MAP_VA_def split: if_splits)
  moreover have "is_root ?pos (rnodes sample_tmpfs) (root_fs t) \<and> i = 0x1002000" if "reg_file sample_tmpfs i t" for i t
    using that by (auto simp: reg_file_def sample_tmpfs_def sample_file_def is_root_def split: if_splits)
  ultimately show "files_ok sample_tmpfs" unfolding files_ok_def by blast
  show "inodes sample_tmpfs 0x1002000 = Some sample_file" by (simp add: sample_tmpfs_def)
  show "has_room 32768 sample_tmpfs" by (simp add: has_room_def sample_tmpfs_def)
qed

theorem file_write_read_roundtrip_witness:
  "\<exists>s'. tfs_file_write 0x1002000 2 [1, 2, 3, 4] 4 sample_tmpfs = Inr (4, s') \<and>
    tfs_file_read 0x1002000 2 [0, 0, 0, 0] 4 s' = Inr ((4, [1, 2, 3, 4]), s') \<and> files_ok s'"
  using file_write_read_roundtrip [OF sample_tmpfs_ok(1,2), of "\<lparr>root_fs = 0x1000000, value_deleter_fs = FreeDeleter\<rparr>" 2 "[1, 2, 3, 4]" "[0, 0, 0, 0]"]
    sample_tmpfs_ok(3)
  by (simp add: sample_file_def touched_def) blast

text \<open>C33: Appending loses the data. A write at the end of a non-empty file of at most as many bytes as the
  file has returns their number, but the size of the file is compared with the number of bytes written
  and not with the end of the write, so the size stays as it was, and a read at that offset returns
  nothing.\<close>

theorem append_not_readable:
  assumes "files_ok s" "inodes s i = Some x" "itype x = FS_REG" "idata x = Data t"
    and "unat (isize x) + length data < 2 ^ 64" "length data \<le> unat (isize x)"
    and "has_room (32768 * touched (unat (isize x)) (length data)) s"
  shows "\<exists>s'. tfs_file_write i (isize x) data (of_nat (length data)) s = Inr (of_nat (length data), s') \<and>
    inodes s' = inodes s \<and>
    tfs_file_read i (isize x) buff (of_nat (length data)) s' = Inr ((0, buff), s')"
proof -
  let ?n = "length data"
  obtain s' pos own where w: "tfs_file_write i (isize x) data (of_nat ?n) s = Inr (of_nat ?n, s')"
    "file_ok pos own s'" "is_root pos (rnodes s') (root_fs t)"
    "inodes s' = (inodes s)(i \<mapsto> x\<lparr>isize := size_after ?n (isize x)\<rparr>)"
    using tfs_file_write_spec [OF assms(1-4) order_refl assms(5) order_refl assms(7)] by blast
  have sz: "size_after ?n (isize x) = isize x" using assms(6) by (simp add: size_after_def)
  have same: "inodes s' = inodes s" using w(4) assms(2) unfolding sz by (simp add: fun_upd_idem)
  have "tfs_file_read i (isize x) buff (of_nat ?n) s' =
      Inr ((of_nat 0, map (file_byte s' i) [unat (isize x)..<unat (isize x) + 0] @ drop 0 buff), s')"
    by (rule tfs_file_read_spec [OF w(2) _ assms(3,4) w(3) order_refl assms(5)]) (use assms(2) same in auto)
  then show ?thesis using w(1) same by simp
qed

theorem append_not_readable_witness:
  "\<exists>s'. tfs_file_write 0x1002000 8 [1, 2, 3, 4] 4 sample_tmpfs = Inr (4, s') \<and> inodes s' = inodes sample_tmpfs \<and>
    tfs_file_read 0x1002000 8 [0, 0, 0, 0] 4 s' = Inr ((0, [0, 0, 0, 0]), s')"
  using append_not_readable [OF sample_tmpfs_ok(1,2), of "\<lparr>root_fs = 0x1000000, value_deleter_fs = FreeDeleter\<rparr>" "[1, 2, 3, 4]" "[0, 0, 0, 0]"]
    sample_tmpfs_ok(3)
  by (simp add: sample_file_def touched_def)

end
