(* ===== verification/Tmpfs_Dir.thy ===== *)
theory Tmpfs_Dir
  imports Tmpfs_Rw
begin

text \<open>Directories: a directory is a finite map from names to entries. \<^verbatim>\<open>tfs_lookup\<close> reads it,
  \<^verbatim>\<open>tfs_mknod\<close> updates it at one name, and the walk along a path follows it.\<close>

section \<open>Names\<close>

definition hashl :: "u8 list \<Rightarrow> u64" where
  "hashl nm = foldl (\<lambda>h c. h * 131 + ucast c) 0 nm"

lemma hash_chars_take:
  assumes "n \<le> length cs"
  shows "hash_chars cs (int n) = Inr (hashl (take n cs))"
proof -
  have "for_upto n (\<lambda>i h. bindR (get_byte cs i) (\<lambda>c. Inr (h * 131 + ucast c))) 0 = Inr (hashl (take n cs))"
    using assms by (induction n) (simp_all add: hashl_def get_byte_def take_Suc_conv_app_nth)
  then show ?thesis by (simp add: hash_chars_def)
qed

text \<open>A file name: not empty, no NUL, and shorter than the largest signed number.\<close>

definition good_name :: "u8 list \<Rightarrow> bool" where
  "good_name nm \<longleftrightarrow> nm \<noteq> [] \<and> 0 \<notin> set nm \<and> length nm < 2 ^ 31"

definition string_of :: "u8 list \<Rightarrow> fs_string" where
  "string_of nm = \<lparr>str = nm @ [0], len = of_nat (length nm), hash = hashl nm\<rparr>"

lemma name_len:
  assumes "good_name nm"
  shows "unat (of_nat (length nm) :: u64) = length nm" "sint (of_nat (length nm) :: u64) = int (length nm)"
    "(of_nat (length nm) :: u64) \<noteq> 0"
proof -
  have l: "length nm < 2 ^ 31" "length nm \<noteq> 0" using assms by (auto simp: good_name_def)
  show u: "unat (of_nat (length nm) :: u64) = length nm" using l(1) by (simp add: unat_of_nat_small)
  show "sint (of_nat (length nm) :: u64) = int (length nm)" 
    using l(1) by (simp add: signed_of_nat signed_take_bit_int_eq_self_iff)
  show "(of_nat (length nm) :: u64) \<noteq> 0" using u l(2) by (metis unat_0)
qed

lemma hash_name:
  assumes "good_name nm"
  shows "hash_chars (nm @ cs) (sint (of_nat (length nm) :: u64)) = Inr (hashl nm)"
  using hash_chars_take [of "length nm" "nm @ cs"] name_len(2) [OF assms] by simp

lemma cstr_name [simp]: "good_name nm \<Longrightarrow> cstr (nm @ 0 # cs) = nm"
  by (simp add: good_name_def)

lemma strcmp_name:
  assumes "good_name nm" "good_name nm'"
  shows "\<exists>r. strcmp (nm @ [0]) (nm' @ 0 # cs) = Inr r \<and> (r = 0 \<longleftrightarrow> nm = nm')"
  using strcmp_order [of "nm @ [0]" "nm' @ 0 # cs"] assms by auto

section \<open>Directories\<close>

definition dent_named :: "tmpfs \<Rightarrow> u64 \<Rightarrow> u8 list \<Rightarrow> bool" where
  "dent_named s d nm \<longleftrightarrow> d \<noteq> 0 \<and> good_name nm \<and> (\<exists>e. dentrys s d = Some e \<and> dname e = string_of nm)"

definition bucket_of :: "u8 list \<Rightarrow> nat" where
  "bucket_of nm = unat (ucast (hashl nm) :: u32) mod 1024"

lemma bucket_of_lt [simp]: "bucket_of nm < 1024"
  by (simp add: bucket_of_def)

definition dir_ok :: "tmpfs \<Rightarrow> htable \<Rightarrow> bool" where
  "dir_ok s ht \<longleftrightarrow> ht_size ht = 1024 \<and> length (buckets ht) = 1024 \<and>
     (\<forall>b < 1024. \<forall>d \<in> set (buckets ht ! b). \<exists>nm. dent_named s d nm \<and> bucket_of nm = b)"

definition is_dir :: "tmpfs \<Rightarrow> u64 \<Rightarrow> htable \<Rightarrow> bool" where
  "is_dir s i ht \<longleftrightarrow> (\<exists>x. inodes s i = Some x \<and> itype x = FS_DIR \<and> idata x = Dentries ht) \<and> dir_ok s ht"

definition dent_name :: "tmpfs \<Rightarrow> u64 \<Rightarrow> u8 list" where
  "dent_name s d = (case dentrys s d of None \<Rightarrow> [] | Some e \<Rightarrow> cstr (str (dname e)))"

lemma dent_named_name: "dent_named s d nm \<Longrightarrow> dent_name s d = nm"
  by (auto simp: dent_named_def dent_name_def string_of_def)

text \<open>The directory as a map; 0 is the missing entry.\<close>

definition dir_find :: "tmpfs \<Rightarrow> htable \<Rightarrow> u8 list \<Rightarrow> u64" where
  "dir_find s ht nm = (case find (\<lambda>d. dent_name s d = nm) (buckets ht ! bucket_of nm) of None \<Rightarrow> 0 | Some d \<Rightarrow> d)"

lemma dir_find_named:
  assumes "dir_ok s ht" "dir_find s ht nm \<noteq> 0"
  shows "dent_named s (dir_find s ht nm) nm"
proof -
  obtain d where d: "find (\<lambda>d. dent_name s d = nm) (buckets ht ! bucket_of nm) = Some d"
    using assms(2) by (auto simp: dir_find_def split: option.splits)
  then have "d \<in> set (buckets ht ! bucket_of nm)" "dent_name s d = nm" by (auto simp: find_Some_iff)
  moreover obtain nm' where "dent_named s d nm'"
    using calculation(1) assms(1) bucket_of_lt [of nm] unfolding dir_ok_def by blast
  ultimately show ?thesis using d dent_named_name by (simp add: dir_find_def)
qed

lemma find_dentry_spec:
  assumes "good_name nm" "\<forall>d \<in> set ds. \<exists>nm. dent_named s d nm"
  shows "find_dentry ds (nm @ 0 # cs) (of_nat (length nm)) s =
    Inr (case find (\<lambda>d. dent_name s d = nm) ds of None \<Rightarrow> 0 | Some d \<Rightarrow> d, s)"
  using assms(2)
proof (induction ds)
  case (Cons d ds)
  then obtain nm' e where d: "dent_named s d nm'" "good_name nm'" "dentrys s d = Some e" "dname e = string_of nm'"
    by (auto simp: dent_named_def)
  obtain r where r: "strcmp (nm' @ [0]) (nm @ 0 # cs) = Inr r" "r = 0 \<longleftrightarrow> nm' = nm"
    using strcmp_name [OF d(2) assms(1)] by blast
  have l: "(of_nat (length nm') :: u64) = of_nat (length nm) \<longleftrightarrow> length nm' = length nm"
    using name_len(1) [OF assms(1)] name_len(1) [OF d(2)] by (metis)
  show ?case using Cons d(3,4) dent_named_name [OF d(1)] r l
    by (auto simp: bindS_simp string_of_def)
qed simp

lemma dentries_of_dir: "is_dir s i ht \<Longrightarrow> dentries_of i s = Inr (ht, s)"
  by (auto simp: is_dir_def dentries_of_def bindS_simp)

lemma tfs_lookup_spec:
  assumes "is_dir s dir ht" "good_name nm"
  shows "tfs_lookup dir (nm @ 0 # cs) (of_nat (length nm)) s = Inr (dir_find s ht nm, s)"
proof -
  have d: "dir_ok s ht" using assms(1) by (simp add: is_dir_def)
  have b: "htable_get_bucket ht (ucast (hashl nm)) = buckets ht ! bucket_of nm"
    using d by (simp add: htable_get_bucket_def bucket_of_def dir_ok_def)
  have "\<forall>d \<in> set (buckets ht ! bucket_of nm). \<exists>nm. dent_named s d nm"
    using d bucket_of_lt [of nm] unfolding dir_ok_def by blast
  then show ?thesis
    using find_dentry_spec [OF assms(2)] hash_name [OF assms(2)] dentries_of_dir [OF assms(1)]
    by (simp add: tfs_lookup_def bindS_simp b dir_find_def)
qed

section \<open>Creating an entry\<close>

text \<open>Inodes, entries and trees lie below the break.\<close>

definition heap_fresh :: "tmpfs \<Rightarrow> bool" where
  "heap_fresh s \<longleftrightarrow> (\<forall>a \<in> dom (inodes s) \<union> dom (dentrys s). unat a < brk s)"

lemma heap_fresh_notin: "heap_fresh s \<Longrightarrow> brk s \<le> unat a \<Longrightarrow> a \<notin> dom (inodes s) \<and> a \<notin> dom (dentrys s)"
  unfolding heap_fresh_def by (meson Un_iff linorder_not_less)

lemma heap_fresh_grow:
  assumes "heap_fresh s" "inodes s' = (inodes s)(i \<mapsto> x)" "dentrys s' = (dentrys s)(d \<mapsto> e)"
    and "unat i < brk s'" "unat d < brk s'" "brk s \<le> brk s'"
  shows "heap_fresh s'"
proof -
  have "unat a < brk s'" if "a \<in> dom (inodes s) \<union> dom (dentrys s)" for a
    using assms(1,6) that order.strict_trans2 unfolding heap_fresh_def by blast
  then show ?thesis using assms(4,5) unfolding heap_fresh_def assms(2,3) by auto
qed

text \<open>What stays when a structure is allocated.\<close>

definition same_env :: "tmpfs \<Rightarrow> tmpfs \<Rightarrow> bool" where
  "same_env s s' \<longleftrightarrow> pages s' = pages s \<and> tmpfs_root s' = tmpfs_root s \<and>
     pmo_create_ret s' = pmo_create_ret s \<and> pmo_map_ret s' = pmo_map_ret s"

lemma same_env_room: "same_env s s' \<Longrightarrow> brk s' = brk s + n \<Longrightarrow> has_room (n + m) s \<Longrightarrow> has_room m s'"
  by (auto simp: same_env_def has_room_brk)

definition empty_htable :: "htable \<Rightarrow> bool" where
  "empty_htable ht \<longleftrightarrow> ht_size ht = 1024 \<and> buckets ht = replicate 1024 []"

lemma malloc_tmpfs:
  assumes "has_room n s" "unat sz = n"
  shows "\<exists>p. malloc sz s = Inr (p, s\<lparr>malloc_header := malloc_header s + sz\<rparr>) \<and> unat p = brk s \<and> p \<noteq> 0 \<and>
    brk (s\<lparr>malloc_header := malloc_header s + sz\<rparr>) = brk s + n"
  using malloc_fresh [of sz s] assms by simp

lemma new_dir_spec:
  assumes "has_room 8280 s"
  shows "\<exists>p s' ht. new_dir s = Inr (Some p, s') \<and> unat p = brk s \<and> p \<noteq> 0 \<and> brk s' = brk s + 8280 \<and>
    inodes s' = (inodes s)(p \<mapsto> \<lparr>itype = FS_DIR, isize = 0, idata = Dentries ht\<rparr>) \<and> empty_htable ht \<and>
    dentrys s' = dentrys s \<and> rnodes s' = rnodes s \<and> same_env s s'"
proof -
  have "has_room 88 s" using assms by (rule has_room_mono) simp
  then obtain p where p: "malloc 88 s = Inr (p, s\<lparr>malloc_header := malloc_header s + 88\<rparr>)" "unat p = brk s" "p \<noteq> 0"
    "brk (s\<lparr>malloc_header := malloc_header s + 88\<rparr>) = brk s + 88" using malloc_tmpfs [of 88 s 88] by auto
  define s1 where "s1 = s\<lparr>malloc_header := malloc_header s + 88,
    inodes := (inodes s)(p \<mapsto> \<lparr>itype = FS_DIR, isize = 0, idata = NoData\<rparr>)\<rparr>"
  have b1: "brk s1 = brk s + 88" using p(4) by (simp add: s1_def brk_def)
  have "has_room 8192 s1" using assms b1 by (simp add: has_room_brk s1_def)
  then obtain q where q: "malloc 8192 s1 = Inr (q, s1\<lparr>malloc_header := malloc_header s1 + 8192\<rparr>)"
    "brk (s1\<lparr>malloc_header := malloc_header s1 + 8192\<rparr>) = brk s1 + 8192" using malloc_tmpfs [of 8192 s1 8192] by auto
  define ht where "ht = \<lparr>buckets_ptr = q, buckets = replicate 1024 [], ht_size = 1024\<rparr>"
  define s2 where "s2 = s1\<lparr>malloc_header := malloc_header s1 + 8192,
    inodes := (inodes s)(p \<mapsto> \<lparr>itype = FS_DIR, isize = 0, idata = Dentries ht\<rparr>)\<rparr>"
  have "new_dir s = Inr (Some p, s2)"
    using p(1,3) q(1)
    by (simp add: new_dir_def new_inode_def init_htable_def calloc_def upd_inode_def bindS_simp thenS_simp s1_def s2_def ht_def)
  moreover have "brk s2 = brk s + 8280" using q(2) b1 by (simp add: s2_def brk_def)
  moreover have "empty_htable ht" by (simp add: empty_htable_def ht_def)
  moreover have "dentrys s2 = dentrys s" "rnodes s2 = rnodes s" "same_env s s2"
    "inodes s2 = (inodes s)(p \<mapsto> \<lparr>itype = FS_DIR, isize = 0, idata = Dentries ht\<rparr>)"
    by (simp_all add: s2_def s1_def same_env_def)
  ultimately show ?thesis using p(2,3) by blast
qed

lemma new_reg_spec:
  assumes "has_room 4184 s"
  shows "\<exists>p s' t. new_reg s = Inr (Some p, s') \<and> unat p = brk s \<and> p \<noteq> 0 \<and> brk s' = brk s + 4184 \<and>
    inodes s' = (inodes s)(p \<mapsto> \<lparr>itype = FS_REG, isize = 0, idata = Data t\<rparr>) \<and>
    unat (root_fs t) = brk s + 88 \<and> rnodes s' = (rnodes s)(root_fs t \<mapsto> replicate 512 0) \<and>
    dentrys s' = dentrys s \<and> same_env s s'"
proof -
  have "has_room 88 s" using assms by (rule has_room_mono) simp
  then obtain p where p: "malloc 88 s = Inr (p, s\<lparr>malloc_header := malloc_header s + 88\<rparr>)" "unat p = brk s" "p \<noteq> 0"
    "brk (s\<lparr>malloc_header := malloc_header s + 88\<rparr>) = brk s + 88" using malloc_tmpfs [of 88 s 88] by auto
  define s1 where "s1 = s\<lparr>malloc_header := malloc_header s + 88,
    inodes := (inodes s)(p \<mapsto> \<lparr>itype = FS_REG, isize = 0, idata = NoData\<rparr>)\<rparr>"
  have b1: "brk s1 = brk s + 88" using p(4) by (simp add: s1_def brk_def)
  have r1: "has_room 4096 s1" using assms b1 by (simp add: has_room_brk s1_def)
  define q where "q = MAP_VA + malloc_header s1"
  note c = calloc_node_spec [OF r1, folded q_def]
  define t where "t = \<lparr>root_fs = q, value_deleter_fs = FreeDeleter\<rparr>"
  define s2 where "s2 = (with_node s1)\<lparr>inodes := (inodes s)(p \<mapsto> \<lparr>itype = FS_REG, isize = 0, idata = Data t\<rparr>)\<rparr>"
  have "inodes (with_node s1) = inodes s1" by (simp add: with_node_def)
  then have "new_reg s = Inr (Some p, s2)"
    using p(1,3) c(1,4)
    by (simp add: new_reg_def new_inode_def init_radix_w_deleter_fs_def init_radix_fs_def upd_inode_def bindS_simp thenS_simp
        s1_def s2_def t_def)
  moreover have "brk s2 = brk s + 4184" using c(2) b1 by (simp add: s2_def brk_def)
  moreover have "unat (root_fs t) = brk s + 88" using c(3) b1 by (simp add: t_def)
  moreover have "rnodes s2 = (rnodes s)(root_fs t \<mapsto> replicate 512 0)" by (simp add: s2_def with_node_def s1_def t_def q_def)
  moreover have "dentrys s2 = dentrys s" "same_env s s2"
    "inodes s2 = (inodes s)(p \<mapsto> \<lparr>itype = FS_REG, isize = 0, idata = Data t\<rparr>)"
    by (simp_all add: s2_def s1_def same_env_def with_node_def)
  ultimately show ?thesis using p(2,3) by blast
qed

lemma new_dent_spec:
  assumes "good_name nm" "has_room (57 + length nm) s"
  shows "\<exists>d s'. new_dent i (nm @ 0 # cs) (of_nat (length nm)) s = Inr (Some d, s') \<and> unat d = brk s \<and> d \<noteq> 0 \<and>
    brk s' = brk s + (57 + length nm) \<and> dentrys s' = (dentrys s)(d \<mapsto> \<lparr>dname = string_of nm, dinode = i\<rparr>) \<and>
    inodes s' = inodes s \<and> rnodes s' = rnodes s \<and> same_env s s'"
proof -
  have "has_room 56 s" using assms(2) by (rule has_room_mono) simp
  then obtain d where d: "malloc 56 s = Inr (d, s\<lparr>malloc_header := malloc_header s + 56\<rparr>)" "unat d = brk s" "d \<noteq> 0"
    "brk (s\<lparr>malloc_header := malloc_header s + 56\<rparr>) = brk s + 56" using malloc_tmpfs [of 56 s 56] by auto
  define s1 where "s1 = s\<lparr>malloc_header := malloc_header s + 56\<rparr>"
  have r1: "has_room (length nm + 1) s1" using assms(2) d(4) by (simp add: has_room_brk s1_def)
  let ?n = "of_nat (length nm) + 1 :: u64"
  have un: "unat ?n = length nm + 1"
    using assms(1) unat_of_nat_small [of "length nm + 1"] by (simp add: good_name_def add.commute)
  obtain q where q: "malloc ?n s1 = Inr (q, s1\<lparr>malloc_header := malloc_header s1 + ?n\<rparr>)" "q \<noteq> 0"
    "brk (s1\<lparr>malloc_header := malloc_header s1 + ?n\<rparr>) = brk s1 + (length nm + 1)"
    using malloc_tmpfs [OF r1 un] by blast
  have cp: "memcpy (replicate (length nm + 1) 0) (nm @ 0 # cs) (length nm) = Inr (nm @ [0])"
    by (subst memcpy_copy) (simp_all del: replicate_Suc add: drop_replicate, simp)
  have pb: "put_byte (length nm) 0 (nm @ [0]) = Inr (nm @ [0])" by (simp add: put_byte_def)
  have hs: "hash_string \<lparr>str = nm @ [0], len = of_nat (length nm), hash = 0\<rparr> = Inr (string_of nm)"
    using hash_name [OF assms(1), of "[0]"] by (simp add: hash_string_def string_of_def)
  define s2 where "s2 = s1\<lparr>malloc_header := malloc_header s1 + ?n\<rparr>\<lparr>dentrys := (dentrys s)(d \<mapsto> \<lparr>dname = string_of nm, dinode = i\<rparr>)\<rparr>"
  have "new_dent i (nm @ 0 # cs) (of_nat (length nm)) s = Inr (Some d, s2)"
    using d(1,3) q(1,2) cp pb hs name_len(1) [OF assms(1)]
    by (simp add: new_dent_def init_string_def bindS_simp thenS_simp s1_def s2_def)
  moreover have "brk s2 = brk s + (57 + length nm)" using q(3) d(4) by (simp add: s2_def brk_def s1_def)
  ultimately show ?thesis using d(2,3) by (auto simp: s2_def s1_def same_env_def)
qed

text \<open>Every inode has the union member of its type, and the tables of directories are well formed.\<close>

definition typed :: "tmpfs \<Rightarrow> bool" where
  "typed s \<longleftrightarrow> (\<forall>i x. inodes s i = Some x \<longrightarrow>
     (itype x = FS_DIR \<and> (\<exists>ht. idata x = Dentries ht \<and> dir_ok s ht)) \<or>
     (itype x = FS_REG \<and> (\<exists>t. idata x = Data t)))"

text \<open>The allocations of \<^verbatim>\<open>tfs_mknod\<close>: an inode \<open>i\<close> and an entry \<open>d\<close> that names it.\<close>

definition mknod_allocs :: "bool \<Rightarrow> u8 list \<Rightarrow> tmpfs \<Rightarrow> u64 \<Rightarrow> inode \<Rightarrow> u64 \<Rightarrow> tmpfs \<Rightarrow> bool" where
  "mknod_allocs mkdir nm s i x d s' \<longleftrightarrow>
     i \<notin> dom (inodes s) \<and> d \<notin> dom (dentrys s) \<and> i \<noteq> 0 \<and> d \<noteq> 0 \<and> isize x = of_nat (length nm) \<and>
     (if mkdir then itype x = FS_DIR \<and> (\<exists>ht. idata x = Dentries ht \<and> empty_htable ht)
      else itype x = FS_REG \<and> (\<exists>t. idata x = Data t)) \<and>
     inodes s' = (inodes s)(i \<mapsto> x) \<and> dentrys s' = (dentrys s)(d \<mapsto> \<lparr>dname = string_of nm, dinode = i\<rparr>) \<and>
     heap_fresh s'"

lemma tfs_mknod_allocs:
  assumes "good_name nm" "heap_fresh s" "has_room (8337 + length nm) s"
  shows "\<exists>i x d s'. mknod_allocs mkdir nm s i x d s' \<and>
    tfs_mknod dir (nm @ 0 # cs) (of_nat (length nm)) mkdir s =
      bindS (dentries_of dir) (\<lambda>ht. thenS (upd_inode dir (\<lambda>x. x\<lparr>idata := Dentries (htable_add ht (ucast (hashl nm)) d)\<rparr>)) (ret 0)) s'"
proof -
  let ?new = "if mkdir then new_dir else new_reg"
  have r1: "has_room 8280 s" "has_room 4184 s" using assms(3) by (auto intro: has_room_mono)
  obtain i s1 x where i: "?new s = Inr (Some i, s1)" "unat i = brk s" "i \<noteq> 0" "brk s < brk s1" "brk s1 \<le> brk s + 8280"
      "inodes s1 = (inodes s)(i \<mapsto> x)" "dentrys s1 = dentrys s" "same_env s s1" "itype x \<noteq> 0"
      "if mkdir then itype x = FS_DIR \<and> (\<exists>ht. idata x = Dentries ht \<and> empty_htable ht)
       else itype x = FS_REG \<and> (\<exists>t. idata x = Data t)"
  proof (cases mkdir)
    case True
    then show thesis using new_dir_spec [OF r1(1)] that by (auto simp: FS_DIR_def)
  next
    case False
    then show thesis using new_reg_spec [OF r1(2)] that by (auto simp: FS_REG_def)
  qed
  define x' where "x' = x\<lparr>isize := of_nat (length nm)\<rparr>"
  define s2 where "s2 = s1\<lparr>inodes := (inodes s)(i \<mapsto> x')\<rparr>"
  have b2: "brk s2 = brk s1" by (simp add: s2_def brk_def)
  have r2: "has_room (57 + length nm) s2"
    using assms(3) i(5,8) b2 by (auto simp: has_room_brk same_env_def s2_def)
  obtain d s3 where d: "new_dent i (nm @ 0 # cs) (of_nat (length nm)) s2 = Inr (Some d, s3)" "unat d = brk s2" "d \<noteq> 0"
      "brk s3 = brk s2 + (57 + length nm)" "dentrys s3 = (dentrys s2)(d \<mapsto> \<lparr>dname = string_of nm, dinode = i\<rparr>)"
      "inodes s3 = inodes s2"
    using new_dent_spec [OF assms(1) r2, of i cs] by blast
  have sl: "strlen (nm @ 0 # cs) = Inr (length nm)"
    using strlen_cstr [of "nm @ 0 # cs"] assms(1) by simp
  have "i \<notin> dom (inodes s)" "d \<notin> dom (dentrys s)"
    using heap_fresh_notin [OF assms(2), of i] heap_fresh_notin [OF assms(2), of d] i(2,4) d(2) b2 by simp_all
  moreover have "unat i < brk s3" "unat d < brk s3" "brk s \<le> brk s3" using i(2,4) d(2,4) b2 by linarith+
  then have "heap_fresh s3"
    using heap_fresh_grow [OF assms(2), of s3 i x' d] i(7) d(5,6) by (simp add: s2_def)
  ultimately have "mknod_allocs mkdir nm s i x' d s3"
    using i(3,7,10) d(3,5,6) by (simp add: mknod_allocs_def x'_def s2_def)
  moreover have "tfs_mknod dir (nm @ 0 # cs) (of_nat (length nm)) mkdir s =
      bindS (dentries_of dir) (\<lambda>ht. thenS (upd_inode dir (\<lambda>x. x\<lparr>idata := Dentries (htable_add ht (ucast (hashl nm)) d)\<rparr>)) (ret 0)) s3"
    using i(1,6,9) sl d(1,5) name_len(3) [OF assms(1)]
    by (simp add: tfs_mknod_def bindS_simp thenS_simp upd_inode_def s2_def [symmetric] x'_def [symmetric] string_of_def)
  ultimately show ?thesis by blast
qed

text \<open>Putting the entry into the table.\<close>

lemma dent_named_upd:
  assumes "dent_named s d' nm'" "d \<notin> dom (dentrys s)" "dentrys s' = (dentrys s)(d \<mapsto> e)"
  shows "dent_named s' d' nm'" and "dent_name s' d' = dent_name s d'"
  using assms by (auto simp: dent_named_def dent_name_def)

lemma dir_ok_upd:
  assumes "dir_ok s ht" "d \<notin> dom (dentrys s)" "dentrys s' = (dentrys s)(d \<mapsto> e)"
  shows "dir_ok s' ht"
  using assms(1) dent_named_upd(1) [OF _ assms(2,3)] unfolding dir_ok_def by blast

lemma dir_ok_empty: "empty_htable ht \<Longrightarrow> dir_ok s ht"
  by (simp add: dir_ok_def empty_htable_def)

lemma dir_ok_add:
  assumes "dir_ok s ht" "dent_named s d nm"
  shows "dir_ok s (htable_add ht (ucast (hashl nm)) d)"
proof -
  have b: "unat (ucast (hashl nm) :: u32) mod ht_size ht = bucket_of nm" "length (buckets ht) = 1024"
    using assms(1) by (simp_all add: bucket_of_def dir_ok_def)
  have "\<exists>nm. dent_named s e nm \<and> bucket_of nm = k"
    if "k < 1024" "e \<in> set ((buckets ht)[bucket_of nm := d # buckets ht ! bucket_of nm] ! k)" for k e
    using that assms b(2) unfolding dir_ok_def by (cases "k = bucket_of nm") auto
  then show ?thesis using assms(1) b by (simp add: dir_ok_def htable_add_def Let_def)
qed

lemma dir_find_upd:
  assumes "dir_ok s ht" "d \<notin> dom (dentrys s)" "dentrys s' = (dentrys s)(d \<mapsto> e)"
  shows "dir_find s' ht nm = dir_find s ht nm"
proof -
  have "dent_name s' d' = dent_name s d'" if "d' \<in> set (buckets ht ! bucket_of nm)" for d'
    using assms(1) that bucket_of_lt [of nm] dent_named_upd(2) [OF _ assms(2,3)] unfolding dir_ok_def by blast
  then have "find (\<lambda>d. dent_name s' d = nm) (buckets ht ! bucket_of nm) = find (\<lambda>d. dent_name s d = nm) (buckets ht ! bucket_of nm)"
    by (intro find_cong) auto
  then show ?thesis by (simp add: dir_find_def)
qed

lemma dir_find_add:
  assumes "dir_ok s ht" "dent_named s d nm"
  shows "dir_find s (htable_add ht (ucast (hashl nm)) d) nm' = (if nm' = nm then d else dir_find s ht nm')"
proof -
  have b: "unat (ucast (hashl nm) :: u32) mod ht_size ht = bucket_of nm" "length (buckets ht) = 1024"
    using assms(1) by (simp_all add: bucket_of_def dir_ok_def)
  show ?thesis using b(2) dent_named_name [OF assms(2)]
    by (cases "bucket_of nm' = bucket_of nm") (auto simp: dir_find_def htable_add_def Let_def b(1))
qed

lemma tfs_mknod_spec:
  assumes "is_dir s dir ht" "good_name nm" "heap_fresh s" "has_room (8337 + length nm) s"
  shows "\<exists>i x d s' y s''. mknod_allocs mkdir nm s i x d s' \<and> inodes s dir = Some y \<and> dir \<noteq> i \<and>
    tfs_mknod dir (nm @ 0 # cs) (of_nat (length nm)) mkdir s = Inr (0, s'') \<and>
    inodes s'' = (inodes s')(dir \<mapsto> y\<lparr>idata := Dentries (htable_add ht (ucast (hashl nm)) d)\<rparr>) \<and>
    dentrys s'' = dentrys s' \<and> heap_fresh s''"
proof -
  obtain i x d s' where a: "mknod_allocs mkdir nm s i x d s'"
    and m: "tfs_mknod dir (nm @ 0 # cs) (of_nat (length nm)) mkdir s =
      bindS (dentries_of dir) (\<lambda>ht. thenS (upd_inode dir (\<lambda>x. x\<lparr>idata := Dentries (htable_add ht (ucast (hashl nm)) d)\<rparr>)) (ret 0)) s'"
    using tfs_mknod_allocs [OF assms(2-4)] by blast
  obtain y where y: "inodes s dir = Some y" "idata y = Dentries ht" using assms(1) by (auto simp: is_dir_def)
  have i: "dir \<noteq> i" using a y(1) by (auto simp: mknod_allocs_def)
  then have "inodes s' dir = Some y" using a y(1) by (simp add: mknod_allocs_def)
  moreover define s'' where "s'' = s'\<lparr>inodes := (inodes s')(dir \<mapsto> y\<lparr>idata := Dentries (htable_add ht (ucast (hashl nm)) d)\<rparr>)\<rparr>"
  ultimately have "tfs_mknod dir (nm @ 0 # cs) (of_nat (length nm)) mkdir s = Inr (0, s'')"
    using m y(2) by (simp add: dentries_of_def upd_inode_def bindS_simp thenS_simp)
  moreover have "heap_fresh s''"
    using a \<open>inodes s' dir = Some y\<close> by (auto simp: s''_def mknod_allocs_def heap_fresh_def brk_def)
  moreover have "inodes s'' = (inodes s')(dir \<mapsto> y\<lparr>idata := Dentries (htable_add ht (ucast (hashl nm)) d)\<rparr>)"
    "dentrys s'' = dentrys s'" by (simp_all add: s''_def)
  ultimately show ?thesis using a y(1) i by blast
qed

lemma mknod_dir:
  assumes "is_dir s dir ht" "mknod_allocs mkdir nm s i x d s'" "inodes s dir = Some y" "good_name nm"
    and "inodes s'' = (inodes s')(dir \<mapsto> y\<lparr>idata := Dentries (htable_add ht (ucast (hashl nm)) d)\<rparr>)" "dentrys s'' = dentrys s'"
  shows "is_dir s'' dir (htable_add ht (ucast (hashl nm)) d)"
    and "dir_find s'' (htable_add ht (ucast (hashl nm)) d) nm' = (if nm' = nm then d else dir_find s ht nm')"
proof -
  have d: "d \<notin> dom (dentrys s)" "dentrys s'' = (dentrys s)(d \<mapsto> \<lparr>dname = string_of nm, dinode = i\<rparr>)" "d \<noteq> 0"
    using assms(2,6) by (simp_all add: mknod_allocs_def)
  have n: "dent_named s'' d nm" using d assms(4) by (simp add: dent_named_def)
  have ok: "dir_ok s ht" "itype y = FS_DIR" using assms(1,3) by (auto simp: is_dir_def)
  note ok'' = dir_ok_upd [OF ok(1) d(1,2)]
  show "is_dir s'' dir (htable_add ht (ucast (hashl nm)) d)"
    using dir_ok_add [OF ok'' n] ok(2) assms(5) by (simp add: is_dir_def)
  show "dir_find s'' (htable_add ht (ucast (hashl nm)) d) nm' = (if nm' = nm then d else dir_find s ht nm')"
    using dir_find_add [OF ok'' n] dir_find_upd [OF ok(1) d(1,2)] by simp
qed

text \<open>C10: in a well-formed directory \<^verbatim>\<open>tfs_mknod\<close> with a non-empty name and enough heap
  returns 0; a lookup of the name then gives a new entry whose inode has the requested type, and the
  lookup of every other name gives what it gave before.\<close>

theorem tfs_mknod_lookup:
  assumes "is_dir s dir ht" "good_name nm" "heap_fresh s" "has_room (8337 + length nm) s"
  shows "\<exists>s' d e x. tfs_mknod dir (nm @ 0 # cs) (of_nat (length nm)) mkdir s = Inr (0, s') \<and>
    tfs_lookup dir (nm @ 0 # cs) (of_nat (length nm)) s' = Inr (d, s') \<and> d \<noteq> 0 \<and> d \<notin> dom (dentrys s) \<and>
    dentrys s' d = Some e \<and> inodes s' (dinode e) = Some x \<and> itype x = (if mkdir then FS_DIR else FS_REG) \<and>
    (\<forall>nm' cs'. good_name nm' \<and> nm' \<noteq> nm \<longrightarrow>
       (\<exists>d'. tfs_lookup dir (nm' @ 0 # cs') (of_nat (length nm')) s = Inr (d', s) \<and>
             tfs_lookup dir (nm' @ 0 # cs') (of_nat (length nm')) s' = Inr (d', s')))"
proof -
  obtain i x d s' y s'' where a: "mknod_allocs mkdir nm s i x d s'" and y: "inodes s dir = Some y" and i: "dir \<noteq> i"
    and m: "tfs_mknod dir (nm @ 0 # cs) (of_nat (length nm)) mkdir s = Inr (0, s'')"
    and n: "inodes s'' = (inodes s')(dir \<mapsto> y\<lparr>idata := Dentries (htable_add ht (ucast (hashl nm)) d)\<rparr>)" "dentrys s'' = dentrys s'"
    using tfs_mknod_spec [OF assms] by blast
  note D = mknod_dir [OF assms(1) a y assms(2) n]
  let ?e = "\<lparr>dname = string_of nm, dinode = i\<rparr>"
  have "dentrys s'' d = Some ?e" "inodes s'' (dinode ?e) = Some x" "itype x = (if mkdir then FS_DIR else FS_REG)"
    "d \<noteq> 0" "d \<notin> dom (dentrys s)"
    using a i n by (simp_all add: mknod_allocs_def split: if_splits)
  then show ?thesis
    using m tfs_lookup_spec [OF D(1)] tfs_lookup_spec [OF assms(1)] D(2) assms(2)
    by (intro exI [of _ s''] exI [of _ d] exI [of _ ?e] exI [of _ x]) simp
qed

text \<open>C19: \<^verbatim>\<open>tfs_mknod\<close> keeps the file system typed: every inode has the member of its union
  that its type says, the table of every directory holds named entries in the bucket of their hash, and
  no inode or entry lies above the break.\<close>

theorem tfs_mknod_typed:
  assumes "typed s" "is_dir s dir ht" "good_name nm" "heap_fresh s" "has_room (8337 + length nm) s"
  shows "\<exists>s'. tfs_mknod dir (nm @ 0 # cs) (of_nat (length nm)) mkdir s = Inr (0, s') \<and> typed s' \<and> heap_fresh s'"
proof -
  obtain i x d s' y s'' where a: "mknod_allocs mkdir nm s i x d s'" and y: "inodes s dir = Some y" and i: "dir \<noteq> i"
    and m: "tfs_mknod dir (nm @ 0 # cs) (of_nat (length nm)) mkdir s = Inr (0, s'')"
    and n: "inodes s'' = (inodes s')(dir \<mapsto> y\<lparr>idata := Dentries (htable_add ht (ucast (hashl nm)) d)\<rparr>)" "dentrys s'' = dentrys s'"
    and f: "heap_fresh s''"
    using tfs_mknod_spec [OF assms(2-5)] by blast
  have d: "d \<notin> dom (dentrys s)" "dentrys s'' = (dentrys s)(d \<mapsto> \<lparr>dname = string_of nm, dinode = i\<rparr>)"
    using a n(2) by (simp_all add: mknod_allocs_def)
  have "(itype z = FS_DIR \<and> (\<exists>ht. idata z = Dentries ht \<and> dir_ok s'' ht)) \<or> (itype z = FS_REG \<and> (\<exists>t. idata z = Data t))"
    if z: "inodes s'' k = Some z" for k z
  proof -
    consider "k = dir" | "k \<noteq> dir" "k = i" | "k \<noteq> dir" "k \<noteq> i" by blast
    then show ?thesis
    proof cases
      case 1
      then show ?thesis using mknod_dir(1) [OF assms(2) a y assms(3) n] z by (auto simp: is_dir_def)
    next
      case 2
      then show ?thesis using a z n(1) dir_ok_empty [of _ s''] by (auto simp: mknod_allocs_def split: if_splits)
    next
      case 3
      then have "inodes s k = Some z" using a z n(1) by (simp add: mknod_allocs_def)
      then show ?thesis using assms(1) dir_ok_upd [OF _ d] unfolding typed_def by blast
    qed
  qed
  then show ?thesis using m f unfolding typed_def by blast
qed

section \<open>A directory tree\<close>

text \<open>A root directory with the sub-directory \<^verbatim>\<open>a\<close> and a regular file of its own.\<close>

definition sample_root :: htable where
  "sample_root = \<lparr>buckets_ptr = 0x1005000, buckets = (replicate 1024 [])[97 := [0x1004000]], ht_size = 1024\<rparr>"

definition sample_sub :: htable where
  "sample_sub = \<lparr>buckets_ptr = 0x1007000, buckets = replicate 1024 [], ht_size = 1024\<rparr>"

definition sample_tree :: tmpfs where
  "sample_tree = sample_tmpfs\<lparr>
     inodes := [0x1002000 \<mapsto> sample_file, 0x1003000 \<mapsto> \<lparr>itype = FS_DIR, isize = 0, idata = Dentries sample_root\<rparr>,
       0x1006000 \<mapsto> \<lparr>itype = FS_DIR, isize = 1, idata = Dentries sample_sub\<rparr>],
     dentrys := [0x1004000 \<mapsto> \<lparr>dname = string_of [97], dinode = 0x1006000\<rparr>], tmpfs_root := 0x1003000\<rparr>"

lemma sample_names [simp]: "good_name [97]" "good_name [98]" "bucket_of [97] = 97" "bucket_of [98] = 98"
  by (simp_all add: good_name_def bucket_of_def hashl_def)

lemma sample_dent: "dent_named sample_tree 0x1004000 [97]"
  by (simp add: dent_named_def sample_tree_def)

lemma sample_tree_dirs: "is_dir sample_tree 0x1003000 sample_root" "is_dir sample_tree 0x1006000 sample_sub"
proof -
  have "dir_ok sample_tree sample_root"
    using sample_dent by (auto simp: dir_ok_def sample_root_def nth_list_update split: if_splits intro!: exI [of _ "[97]"])
  then show "is_dir sample_tree 0x1003000 sample_root" by (simp add: is_dir_def sample_tree_def)
  have "dir_ok sample_tree sample_sub" by (rule dir_ok_empty) (simp add: empty_htable_def sample_sub_def)
  then show "is_dir sample_tree 0x1006000 sample_sub" by (simp add: is_dir_def sample_tree_def)
qed

lemma sample_tree_find: "dir_find sample_tree sample_root [97] = 0x1004000" "dir_find sample_tree sample_sub nm = 0"
  using dent_named_name [OF sample_dent] by (simp_all add: dir_find_def sample_root_def sample_sub_def)

lemma sample_tree_ok: "heap_fresh sample_tree" "typed sample_tree" "has_room 9000 sample_tree"
proof -
  show "heap_fresh sample_tree"
    by (simp add: heap_fresh_def sample_tree_def sample_tmpfs_def brk_def MAP_VA_def)
  show "typed sample_tree"
    using sample_tree_dirs by (auto simp: typed_def is_dir_def sample_tree_def sample_file_def split: if_splits)
  show "has_room 9000 sample_tree" by (simp add: has_room_def sample_tree_def sample_tmpfs_def)
qed

theorem tfs_mknod_lookup_witness:
  "\<exists>s' d e x. tfs_mknod 0x1003000 [98, 0] 1 False sample_tree = Inr (0, s') \<and> tfs_lookup 0x1003000 [98, 0] 1 s' = Inr (d, s') \<and>
    d \<noteq> 0 \<and> dentrys s' d = Some e \<and> inodes s' (dinode e) = Some x \<and> itype x = FS_REG"
  using tfs_mknod_lookup [OF sample_tree_dirs(1) sample_names(2) sample_tree_ok(1), of "[]" False]
    has_room_mono [OF sample_tree_ok(3), of 8338] by (auto simp: dom_def)

theorem tfs_mknod_typed_witness:
  "\<exists>s'. tfs_mknod 0x1006000 [98, 0] 1 True sample_tree = Inr (0, s') \<and> typed s' \<and> heap_fresh s'"
  using tfs_mknod_typed [OF sample_tree_ok(2) sample_tree_dirs(2) sample_names(2) sample_tree_ok(1), of "[]" True]
    has_room_mono [OF sample_tree_ok(3), of 8338] by simp

end
