(* ===== verification/Tmpfs_Path.thy ===== *)
theory Tmpfs_Path
  imports Tmpfs_Dir
begin

text \<open>Paths: the loop of \<^verbatim>\<open>tfs_namex\<close> follows a chain of directories, and \<^verbatim>\<open>tfs_open_path\<close> ends at the
  inode that the chain names.\<close>

section \<open>Paths\<close>

text \<open>A path component: a name that fits the buffer of \<^verbatim>\<open>tfs_namex\<close>.\<close>

definition component :: "u8 list \<Rightarrow> bool" where
  "component nm \<longleftrightarrow> good_name nm \<and> slash \<notin> set nm \<and> length nm \<le> 255"

definition path_str :: "u8 list list \<Rightarrow> u8 list \<Rightarrow> u8 list" where
  "path_str nms leaf = concat (map (\<lambda>nm. nm @ [slash]) nms) @ leaf @ [0]"

text \<open>The directories along a list of names.\<close>

inductive is_path :: "tmpfs \<Rightarrow> u64 \<Rightarrow> u8 list list \<Rightarrow> u64 \<Rightarrow> bool" for s where
  path_here: "is_path s i [] i"
| path_step: "\<lbrakk>is_dir s i ht; component nm; dir_find s ht nm \<noteq> 0; dentrys s (dir_find s ht nm) = Some e;
    is_path s (dinode e) nms j\<rbrakk> \<Longrightarrow> is_path s i (nm # nms) j"

lemma component_len_spec:
  assumes "0 \<notin> set nm" "slash \<notin> set nm" "c = 0 \<or> c = slash"
  shows "component_len (nm @ c # cs) = Inr (length nm)"
  using assms by (induction nm) auto

lemma buff_spec:
  assumes "length nm \<le> 255"
  shows "\<exists>cs. bindR (memcpy (replicate 256 0) (nm @ xs) (length nm)) (put_byte (length nm) 0) = Inr (nm @ 0 # cs)"
proof -
  have "memcpy (replicate 256 0) (nm @ xs) (length nm) = Inr (nm @ replicate (256 - length nm) 0)"
    using assms by (subst memcpy_copy) (simp_all add: drop_replicate)
  moreover have "256 - length nm = Suc (255 - length nm)" using assms by simp
  ultimately show ?thesis by (simp add: put_byte_def)
qed

text \<open>One turn of the loop at a component that is followed by a slash.\<close>

lemma namex_turn:
  assumes "is_dir s i ht" "0 \<notin> set nm" "slash \<notin> set nm" "length nm \<le> 255"
  shows "\<exists>cs. namex_loop (Suc fuel) i (nm @ slash # rest) mkdir_p s =
    bindS (tfs_lookup i (nm @ 0 # cs) (of_nat (length nm))) (\<lambda>dent.
      if dent = 0 then
        if \<not> mkdir_p then ret (- ENOENT, i, nm @ slash # rest)
        else thenS (tfs_mkdir i (nm @ 0 # cs) (of_nat (length nm))) (namex_loop fuel i (nm @ slash # rest) mkdir_p)
      else bindS (readS dentrys dent) (\<lambda>d. namex_loop fuel (dinode d) rest mkdir_p)) s"
proof -
  obtain cs b where b: "memcpy (replicate 256 0) (nm @ slash # rest) (length nm) = Inr b" "put_byte (length nm) 0 b = Inr (nm @ 0 # cs)"
    using buff_spec [OF assms(4), of "slash # rest"] by (auto simp: bindR_def split: sum.splits)
  have c: "component_len (nm @ slash # rest) = Inr (length nm)"
    using component_len_spec [OF assms(2,3)] by blast
  have sl: "slash = 47" by simp
  show ?thesis using c b unfolding sl
    by (intro exI [of _ cs]) (simp add: bindS_simp MAX_FILENAME_LEN_def cong: if_cong)
qed

lemma namex_walk:
  assumes "is_path s i nms j" "component leaf" "length nms < fuel"
  shows "namex_loop fuel i (path_str nms leaf) mkdir_p s = Inr ((0, j, leaf @ [0]), s)"
  using assms
proof (induction arbitrary: fuel rule: is_path.induct)
  case (path_here i)
  then obtain f where f: "fuel = Suc f" by (cases fuel) auto
  have "component_len (leaf @ [0]) = Inr (length leaf)"
    using component_len_spec [of leaf 0 "[]"] path_here by (simp add: component_def good_name_def)
  then show ?case by (simp add: f path_str_def bindS_simp)
next
  case (path_step i ht nm e nms j)
  then obtain f where f: "fuel = Suc f" "length nms < f" by (cases fuel) auto
  have g: "good_name nm" "0 \<notin> set nm" "slash \<notin> set nm" "length nm \<le> 255"
    using path_step.hyps(2) by (simp_all add: component_def good_name_def)
  have p: "path_str (nm # nms) leaf = nm @ slash # path_str nms leaf" by (simp add: path_str_def)
  show ?case
    using namex_turn [OF path_step.hyps(1) g(2-4), of f "path_str nms leaf" mkdir_p]
      tfs_lookup_spec [OF path_step.hyps(1) g(1)] path_step.hyps(3,4) path_step.IH [OF path_step.prems(1) f(2)]
    by (auto simp: p f bindS_simp)
qed

lemma path_str_len: "length nms \<le> length (path_str nms leaf)"
  by (induction nms) (simp_all add: path_str_def)

lemma path_str_head:
  assumes "is_path s i nms j" "component leaf"
  shows "\<exists>c cs. path_str nms leaf = c # cs \<and> c \<noteq> 0 \<and> c \<noteq> slash"
  using assms
proof (cases rule: is_path.cases)
  case path_here
  then show ?thesis using assms(2) by (cases leaf) (auto simp: path_str_def component_def good_name_def)
next
  case (path_step ht nm e nms')
  then show ?thesis by (cases nm) (auto simp: path_str_def component_def good_name_def)
qed

lemma tfs_namex_spec:
  assumes "is_path s (tmpfs_root s) nms j" "component leaf"
  shows "tfs_namex dirat (slash # path_str nms leaf) mkdir_p s = Inr ((0, j, leaf @ [0]), s)"
proof -
  obtain c cs where c: "path_str nms leaf = c # cs" "c \<noteq> 0" "c \<noteq> slash" using path_str_head [OF assms] by blast
  have "length nms < 2 * length (path_str nms leaf) + 2" using path_str_len [of nms leaf] by linarith
  from namex_walk [OF assms this, of mkdir_p] show ?thesis
    using c(2,3) by (simp add: tfs_namex_def bindS_simp get_byte_def c(1))
qed

text \<open>C18: the lookup of an absolute path whose directories exist returns the inode of its last
  component, and 0 when the last directory has no such entry; the file system is unchanged.\<close>

theorem open_path_walk:
  assumes "is_path s (tmpfs_root s) nms dir" "is_dir s dir ht" "component leaf"
  shows "\<exists>i. tfs_open_path (slash # path_str nms leaf) s = Inr (i, s) \<and>
    (if dir_find s ht leaf = 0 then i = 0
     else \<exists>e. dentrys s (dir_find s ht leaf) = Some e \<and> dname e = string_of leaf \<and> i = dinode e)"
proof -
  obtain c cs where c: "path_str nms leaf = c # cs" "c \<noteq> 0" using path_str_head [OF assms(1,3)] by blast
  have g: "good_name leaf" using assms(3) by (simp add: component_def)
  have l: "strlen (leaf @ [0]) = Inr (length leaf)" using strlen_cstr [of "leaf @ [0]"] g by simp
  show ?thesis
    using c tfs_namex_spec [OF assms(1,3), of 0 False] l tfs_lookup_spec [OF assms(2) g, of "[]"]
      dir_find_named [of s ht leaf] assms(2)
    by (auto simp: tfs_open_path_def bindS_simp get_byte_def dent_named_def is_dir_def)
qed

text \<open>No entry has the empty name.\<close>

lemma find_dentry_empty: "\<forall>d \<in> set ds. \<exists>nm. dent_named s d nm \<Longrightarrow> find_dentry ds cs 0 s = Inr (0, s)"
  by (induction ds) (auto simp: bindS_simp dent_named_def string_of_def name_len(3))

lemma lookup_empty:
  assumes "is_dir s dir ht"
  shows "tfs_lookup dir cs 0 s = Inr (0, s)"
proof -
  have d: "dir_ok s ht" using assms by (simp add: is_dir_def)
  then have "\<forall>d \<in> set (htable_get_bucket ht h). \<exists>nm. dent_named s d nm" for h
    unfolding dir_ok_def htable_get_bucket_def by (metis mod_less_divisor zero_less_numeral)
  then show ?thesis
    using find_dentry_empty dentries_of_dir [OF assms] hash_chars_take [of 0 cs]
    by (simp add: tfs_lookup_def bindS_simp)
qed

text \<open>C38: with \<^verbatim>\<open>mkdir_p\<close> the walk does not end at an empty component, as in \<^verbatim>\<open>a//b\<close>: no
  entry has the empty name, and the attempt to create one fails without being noticed.\<close>

theorem namex_empty_component:
  assumes "is_path s i nms dir" "is_dir s dir ht"
  shows "namex_loop fuel i (concat (map (\<lambda>nm. nm @ [slash]) nms) @ slash # rest) True s = Inl Diverge"
  using assms
proof (induction arbitrary: fuel rule: is_path.induct)
  case (path_here i)
  have l: "tfs_lookup i (0 # cs) 0 s = Inr (0, s)" for cs by (rule lookup_empty [OF path_here])
  show ?case
  proof (induction fuel)
    case (Suc fuel)
    then show ?case using namex_turn [OF path_here, of "[]" fuel rest True] l
      by (auto simp: bindS_simp thenS_simp tfs_mkdir_def tfs_mknod_def)
  qed simp
next
  case (path_step i ht' nm e nms j)
  have g: "good_name nm" "0 \<notin> set nm" "slash \<notin> set nm" "length nm \<le> 255"
    using path_step.hyps(2) by (simp_all add: component_def good_name_def)
  show ?case
  proof (cases fuel)
    case (Suc f)
    then show ?thesis
      using namex_turn [OF path_step.hyps(1) g(2-4), of f "concat (map (\<lambda>nm. nm @ [slash]) nms) @ slash # rest" True]
        tfs_lookup_spec [OF path_step.hyps(1) g(1)] path_step.hyps(3,4) path_step.IH [OF path_step.prems]
      by (auto simp: bindS_simp)
  qed simp
qed

lemma sample_components [simp]: "component [97]" "component [98]"
  by (simp_all add: component_def)

lemma sample_path: "is_path sample_tree 0x1003000 [[97]] 0x1006000"
proof (rule path_step [OF sample_tree_dirs(1)])
  show "is_path sample_tree (dinode \<lparr>dname = string_of [97], dinode = 0x1006000\<rparr>) [] 0x1006000" by (simp add: path_here)
qed (simp_all add: sample_tree_find(1), simp add: sample_tree_def)

theorem open_path_walk_witness: "tfs_open_path [47, 97, 47, 98, 0] sample_tree = Inr (0, sample_tree)"
proof -
  have "tmpfs_root sample_tree = 0x1003000" by (simp add: sample_tree_def)
  then have "is_path sample_tree (tmpfs_root sample_tree) [[97]] 0x1006000" using sample_path by simp
  from open_path_walk [OF this sample_tree_dirs(2) sample_components(2)] show ?thesis
    by (simp add: path_str_def sample_tree_find(2))
qed

theorem namex_empty_component_witness: "namex_loop 1000 0x1003000 [97, 47, 47, 98, 0] True sample_tree = Inl Diverge"
  using namex_empty_component [OF sample_path sample_tree_dirs(2), of 1000 "[98, 0]"] by simp

end
