(* ===== verification/Spec2Isabelle.thy ===== *)
theory Spec2Isabelle
  imports Bitops Intrusive_List Page_Table_Free Radix_Correct Slot_Alloc Semaphore_Correct Irq Idman Fs_Radix_Correct Fs_Hlist Tmpfs_Path
begin

text \<open>ChCore: a verification development.\<close>

end
